(* ===== verification/Onc_Prelude.thy ===== *)
theory Onc_Prelude
  imports Main "HOL-Library.Word" "HOL-Library.Sublist"
begin

text \<open>
  Shared vocabulary of the development: machine words and their big-endian byte
  strings (\<^verbatim>\<open>to_be_bytes\<close>, \<^verbatim>\<open>from_be_bytes\<close>), fallible state-passing actions (the shape
  of every function that takes \<^verbatim>\<open>&mut &[u8]\<close> or \<^verbatim>\<open>&mut BytesMut\<close> and returns a
  \<^verbatim>\<open>Result\<close>), checked \<^verbatim>\<open>usize\<close> arithmetic, decimal printing and the standard
  library's UTF-8 validation.

  A byte slice, \<^verbatim>\<open>Bytes\<close> or \<^verbatim>\<open>BytesMut\<close> is represented by its contents, a list of
  bytes. A cursor \<^verbatim>\<open>&mut &[u8]\<close> is the list of the bytes not yet consumed, an output
  buffer the list of the bytes written so far; both keep what a failing call left behind.
\<close>

unbundle bit_operations_syntax

section \<open>Types\<close>

type_synonym byte = "8 word"
type_synonym bytes = "byte list"
type_synonym u16 = "16 word"
type_synonym u32 = "32 word"
type_synonym u64 = "64 word"
type_synonym ('s, 'e, 'a) action = "'s \<Rightarrow> ('e + 'a) \<times> 's"

named_theorems action_defs "definitions of the action combinators"

section \<open>Big-endian byte strings\<close>

fun be_bytes :: "nat \<Rightarrow> 'a::len word \<Rightarrow> bytes" where
  "be_bytes 0 w = []"
| "be_bytes (Suc n) w = ucast (drop_bit (8 * n) w) # be_bytes n w"

fun of_be :: "'a::len word \<Rightarrow> bytes \<Rightarrow> 'a word" where
  "of_be acc [] = acc"
| "of_be acc (b # bs) = of_be (push_bit 8 acc OR ucast b) bs"

definition u16_to_be :: "u16 \<Rightarrow> bytes" where
  "u16_to_be w = be_bytes 2 w"

definition u32_to_be :: "u32 \<Rightarrow> bytes" where
  "u32_to_be w = be_bytes 4 w"

definition u64_to_be :: "u64 \<Rightarrow> bytes" where
  "u64_to_be w = be_bytes 8 w"

definition be_to_u16 :: "bytes \<Rightarrow> u16" where
  "be_to_u16 bs = of_be 0 bs"

definition be_to_u32 :: "bytes \<Rightarrow> u32" where
  "be_to_u32 bs = of_be 0 bs"

definition be_to_u64 :: "bytes \<Rightarrow> u64" where
  "be_to_u64 bs = of_be 0 bs"

section \<open>Fallible actions over a state\<close>

definition ok :: "'a \<Rightarrow> ('s, 'e, 'a) action" where
  [action_defs]: "ok x s = (Inr x, s)"

definition err :: "'e \<Rightarrow> ('s, 'e, 'a) action" where
  [action_defs]: "err e s = (Inl e, s)"

definition and_then :: "('s, 'e, 'a) action \<Rightarrow> ('a \<Rightarrow> ('s, 'e, 'b) action) \<Rightarrow> ('s, 'e, 'b) action" where
  "and_then m f s = (case m s of (Inl e, s') \<Rightarrow> (Inl e, s') | (Inr x, s') \<Rightarrow> f x s')"

definition lift_result :: "'e + 'a \<Rightarrow> ('s, 'e, 'a) action" where
  [action_defs]: "lift_result r s = (r, s)"

definition map_err :: "('e \<Rightarrow> 'f) \<Rightarrow> 'e + 'a \<Rightarrow> 'f + 'a" where
  "map_err f r = map_sum f id r"

definition result_bind :: "'e + 'a \<Rightarrow> ('a \<Rightarrow> 'e + 'b) \<Rightarrow> 'e + 'b" where
  "result_bind r f = (case r of Inl e \<Rightarrow> Inl e | Inr x \<Rightarrow> f x)"

definition map_action_err :: "('e \<Rightarrow> 'f) \<Rightarrow> ('s, 'e, 'a) action \<Rightarrow> ('s, 'f, 'a) action" where
  "map_action_err f m s = (case m s of (r, s') \<Rightarrow> (map_err f r, s'))"

text \<open>\<^verbatim>\<open>for value in values { f(value)?; }\<close>\<close>

fun for_each :: "('a \<Rightarrow> ('s, 'e, unit) action) \<Rightarrow> 'a list \<Rightarrow> ('s, 'e, unit) action" where
  "for_each f [] = ok ()"
| "for_each f (x # xs) = and_then (f x) (\<lambda>_. for_each f xs)"

text \<open>\<^verbatim>\<open>for _ in 0..n { values.push(m()?); }\<close>\<close>

fun repeat_n :: "nat \<Rightarrow> ('s, 'e, 'a) action \<Rightarrow> ('s, 'e, 'a list) action" where
  "repeat_n 0 m = ok []"
| "repeat_n (Suc n) m = and_then m (\<lambda>x. and_then (repeat_n n m) (\<lambda>xs. ok (x # xs)))"

section \<open>usize\<close>

text \<open>A \<^verbatim>\<open>usize\<close> is a natural number below \<open>2 ^ 64\<close>; checked addition says when it would leave that range.\<close>

definition usize_max :: nat where
  "usize_max = 2 ^ 64 - 1"

definition u32_max :: nat where
  "u32_max = 2 ^ 32 - 1"

definition checked_add :: "nat \<Rightarrow> nat \<Rightarrow> nat option" where
  "checked_add a b = (if a + b \<le> usize_max then Some (a + b) else None)"

section \<open>Decimal numbers\<close>

definition digit_char :: "nat \<Rightarrow> char" where
  "digit_char d = char_of (48 + d)"

fun show_nat :: "nat \<Rightarrow> string" where
  "show_nat n = (if n < 10 then [digit_char n] else show_nat (n div 10) @ [digit_char (n mod 10)])"

declare show_nat.simps [simp del]

section \<open>UTF-8 validation\<close>

text \<open>
  \<^verbatim>\<open>core::str::from_utf8\<close>: the decision of the standard library byte by byte. The error
  records the offset of the first bad sequence and, unless the input merely stops inside a
  sequence, how many bytes of it are bad; its \<^verbatim>\<open>Display\<close> text is what
  \<^verbatim>\<open>error.to_string()\<close> gives.
\<close>

record utf8_error =
  valid_up_to :: nat
  error_len :: "nat option"

definition is_cont :: "byte \<Rightarrow> bool" where
  "is_cont b = (0x80 \<le> b \<and> b \<le> 0xBF)"

definition utf8_width :: "byte \<Rightarrow> nat" where
  "utf8_width b = (if b < 0x80 then 1 else if b < 0xC2 then 0 else if b < 0xE0 then 2
     else if b < 0xF0 then 3 else if b < 0xF5 then 4 else 0)"

definition second3 :: "byte \<Rightarrow> byte \<Rightarrow> bool" where
  "second3 a b = ((a = 0xE0 \<and> 0xA0 \<le> b \<and> b \<le> 0xBF) \<or>
                  (0xE1 \<le> a \<and> a \<le> 0xEC \<and> is_cont b) \<or>
                  (a = 0xED \<and> 0x80 \<le> b \<and> b \<le> 0x9F) \<or>
                  (0xEE \<le> a \<and> a \<le> 0xEF \<and> is_cont b))"

definition second4 :: "byte \<Rightarrow> byte \<Rightarrow> bool" where
  "second4 a b = ((a = 0xF0 \<and> 0x90 \<le> b \<and> b \<le> 0xBF) \<or>
                  (0xF1 \<le> a \<and> a \<le> 0xF3 \<and> is_cont b) \<or>
                  (a = 0xF4 \<and> 0x80 \<le> b \<and> b \<le> 0x8F))"

text \<open>How many bytes the sequence at the head of the input takes, or why it is malformed.\<close>

fun utf8_seq :: "bytes \<Rightarrow> nat option + nat" where
  "utf8_seq [] = Inr 0"
| "utf8_seq (a # bs) =
     (if utf8_width a = 1 then Inr 1
      else if utf8_width a = 2 then
        (case bs of [] \<Rightarrow> Inl None
         | b # _ \<Rightarrow> if is_cont b then Inr 2 else Inl (Some 1))
      else if utf8_width a = 3 then
        (case bs of [] \<Rightarrow> Inl None
         | b # cs \<Rightarrow> if \<not> second3 a b then Inl (Some 1) else
             (case cs of [] \<Rightarrow> Inl None
              | c # _ \<Rightarrow> if is_cont c then Inr 3 else Inl (Some 2)))
      else if utf8_width a = 4 then
        (case bs of [] \<Rightarrow> Inl None
         | b # cs \<Rightarrow> if \<not> second4 a b then Inl (Some 1) else
             (case cs of [] \<Rightarrow> Inl None
              | c # ds \<Rightarrow> if \<not> is_cont c then Inl (Some 2) else
                  (case ds of [] \<Rightarrow> Inl None
                   | d # _ \<Rightarrow> if is_cont d then Inr 4 else Inl (Some 3))))
      else Inl (Some 1))"

lemma utf8_seq_progress: "utf8_seq (a # bs) = Inr n \<Longrightarrow> 0 < n"
  by (auto split: if_splits list.splits)

function utf8_check :: "nat \<Rightarrow> bytes \<Rightarrow> utf8_error option" where
  "utf8_check i [] = None"
| "utf8_check i (a # bs) = (case utf8_seq (a # bs) of
       Inl l \<Rightarrow> Some \<lparr>valid_up_to = i, error_len = l\<rparr>
     | Inr n \<Rightarrow> utf8_check (i + n) (drop n (a # bs)))"
  by pat_completeness auto
termination
  by (relation "measure (\<lambda>(i, bs). length bs)") (auto dest: utf8_seq_progress simp del: utf8_seq.simps)

definition from_utf8 :: "bytes \<Rightarrow> utf8_error + bytes" where
  "from_utf8 bs = (case utf8_check 0 bs of Some e \<Rightarrow> Inl e | None \<Rightarrow> Inr bs)"

definition utf8_valid :: "bytes \<Rightarrow> bool" where
  "utf8_valid bs = (utf8_check 0 bs = None)"

definition utf8_error_to_string :: "utf8_error \<Rightarrow> string" where
  "utf8_error_to_string e = (case error_len e of
       Some n \<Rightarrow> ''invalid utf-8 sequence of '' @ show_nat n @ '' bytes from index '' @ show_nat (valid_up_to e)
     | None \<Rightarrow> ''incomplete utf-8 byte sequence from index '' @ show_nat (valid_up_to e))"

section \<open>Lemmas\<close>

subsection \<open>Big-endian byte strings\<close>

lemma length_be_bytes [simp]: "length (be_bytes n w) = n"
  by (induction n) auto

lemma of_be_acc:
  fixes acc :: "'a::len word"
  shows "of_be acc bs = push_bit (8 * length bs) acc OR of_be 0 bs"
proof (induction bs arbitrary: acc)
  case (Cons b bs)
  have "of_be acc (b # bs) = push_bit (8 * length bs) (push_bit 8 acc OR ucast b) OR of_be 0 bs"
    by (simp add: Cons.IH [of "push_bit 8 acc OR ucast b"])
  also have "\<dots> = push_bit (8 * length (b # bs)) acc OR (push_bit (8 * length bs) (ucast b) OR of_be 0 bs)"
    by (simp add: or.assoc algebra_simps)
  also have "push_bit (8 * length bs) (ucast b :: 'a word) OR of_be 0 bs = of_be 0 (b # bs)"
    using Cons.IH [of "ucast b"] by simp
  finally show ?case .
qed simp

lemma of_be_Cons: "of_be 0 (b # bs) = push_bit (8 * length bs) (ucast b) OR of_be 0 bs"
  using of_be_acc [of "ucast b" bs] by simp

lemma bit_of_be: "bit (of_be 0 bs) k \<Longrightarrow> k < 8 * length bs"
  by (induction bs) (auto simp: of_be_Cons bit_simps simp del: of_be.simps(2) dest: bit_imp_le_length)

lemma be_bytes_low: "be_bytes n (push_bit (8 * n) a OR w) = be_bytes n w"
proof -
  have "k \<le> n \<Longrightarrow> be_bytes k (push_bit (8 * n) a OR w) = be_bytes k w" for k
    by (induction k) (auto intro!: bit_word_eqI simp: bit_simps)
  then show ?thesis by simp
qed

lemma be_bytes_of_be:
  "8 * length bs \<le> LENGTH('a::len) \<Longrightarrow> be_bytes (length bs) (of_be 0 bs :: 'a word) = bs"
proof (induction bs)
  case (Cons b bs)
  have "ucast (drop_bit (8 * length bs) (of_be 0 (b # bs) :: 'a word)) = b"
    using Cons.prems
    by (intro bit_word_eqI) (auto simp: of_be_Cons bit_simps simp del: of_be.simps(2) dest: bit_of_be)
  with Cons show ?case
    by (simp add: of_be_Cons be_bytes_low del: of_be.simps(2))
qed simp

lemma of_be_be_bytes: "of_be 0 (be_bytes n w) = take_bit (8 * n) w"
proof (induction n)
  case (Suc n)
  then show ?case
    by (intro bit_word_eqI) (auto simp: of_be_Cons Suc bit_simps simp del: of_be.simps(2))
qed simp

lemma be_to_u16_to_be [simp]: "be_to_u16 (u16_to_be w) = w"
  by (simp add: be_to_u16_def u16_to_be_def of_be_be_bytes take_bit_word_eq_self)

lemma be_to_u32_to_be [simp]: "be_to_u32 (u32_to_be w) = w"
  by (simp add: be_to_u32_def u32_to_be_def of_be_be_bytes take_bit_word_eq_self)

lemma be_to_u64_to_be [simp]: "be_to_u64 (u64_to_be w) = w"
  by (simp add: be_to_u64_def u64_to_be_def of_be_be_bytes take_bit_word_eq_self)

lemma u32_to_be_to_u32: "length bs = 4 \<Longrightarrow> u32_to_be (be_to_u32 bs) = bs"
  using be_bytes_of_be [of bs, where 'a = 32] by (simp add: be_to_u32_def u32_to_be_def)

lemma u64_to_be_to_u64: "length bs = 8 \<Longrightarrow> u64_to_be (be_to_u64 bs) = bs"
  using be_bytes_of_be [of bs, where 'a = 64] by (simp add: be_to_u64_def u64_to_be_def)

lemma length_to_be [simp]:
  "length (u16_to_be a) = 2" "length (u32_to_be b) = 4" "length (u64_to_be c) = 8"
  by (simp_all add: u16_to_be_def u32_to_be_def u64_to_be_def)

lemma u32_to_be_ne [simp]: "u32_to_be w \<noteq> []" "[] \<noteq> u32_to_be w"
  by (metis length_0_conv length_to_be(2) zero_neq_numeral)+

lemma u32_to_be_inj [simp]: "u32_to_be a = u32_to_be b \<longleftrightarrow> a = b"
  by (metis be_to_u32_to_be)

text \<open>Explicit byte lists, for evaluating concrete encodings.\<close>

lemma u32_to_be_eval:
  "u32_to_be w = [ucast (drop_bit 24 w), ucast (drop_bit 16 w), ucast (drop_bit 8 w), ucast w]"
  by (simp add: u32_to_be_def eval_nat_numeral)

lemma u16_to_be_eval: "u16_to_be w = [ucast (drop_bit 8 w), ucast w]"
  by (simp add: u16_to_be_def eval_nat_numeral)

lemma unat_of_nat_u32: "n \<le> u32_max \<Longrightarrow> unat (of_nat n :: u32) = n"
  by (simp add: u32_max_def unat_of_nat take_bit_eq_mod)

lemma unat_u32_bound [simp]: "unat (w :: u32) \<le> u32_max"
proof -
  have "unat w < 2 ^ LENGTH(32)" by (rule unsigned_less)
  then show ?thesis by (simp add: u32_max_def)
qed

subsection \<open>Actions\<close>

lemma ok_apply [simp]: "ok x s = (Inr x, s)"
  by (simp add: action_defs)

lemma err_apply [simp]: "err e s = (Inl e, s)"
  by (simp add: action_defs)

lemma lift_result_apply [simp]: "lift_result r s = (r, s)"
  by (simp add: action_defs)

lemma and_then_Inr [simp]: "m s = (Inr x, s') \<Longrightarrow> and_then m f s = f x s'"
  by (simp add: and_then_def)

lemma and_then_Inl [simp]: "m s = (Inl e, s') \<Longrightarrow> and_then m f s = (Inl e, s')"
  by (simp add: and_then_def)

lemma and_then_InrE:
  assumes "and_then m f s = (Inr y, s'')"
  obtains x s' where "m s = (Inr x, s')" and "f x s' = (Inr y, s'')"
  using assms by (auto simp: and_then_def split: prod.splits sum.splits)

lemma and_then_cases:
  assumes "and_then m f s = (r, s'')"
  obtains (Err) e where "m s = (Inl e, s'')" and "r = Inl e"
  | (Ok) x s' where "m s = (Inr x, s')" and "f x s' = (r, s'')"
  using assms by (auto simp: and_then_def split: prod.splits sum.splits)

lemma and_then_assoc: "and_then (and_then m f) g = and_then m (\<lambda>x. and_then (f x) g)"
  by (rule ext) (auto simp: and_then_def split: prod.splits sum.splits)

lemma and_then_ok [simp]: "and_then m ok = m"
  by (rule ext) (auto simp: and_then_def split: prod.splits sum.splits)

lemma ok_and_then [simp]: "and_then (ok x) f = f x"
  by (rule ext) (simp add: and_then_def)

lemma map_err_simps [simp]: "map_err f (Inl e) = Inl (f e)" "map_err f (Inr x) = Inr x"
  by (simp_all add: map_err_def)

lemma result_bind_simps [simp]: "result_bind (Inl e) f = Inl e" "result_bind (Inr x) f = f x"
  by (simp_all add: result_bind_def)

lemma map_action_err_simps [simp]:
  "m s = (Inr x, s') \<Longrightarrow> map_action_err f m s = (Inr x, s')"
  "m s = (Inl e, s') \<Longrightarrow> map_action_err f m s = (Inl (f e), s')"
  by (simp_all add: map_action_err_def)

lemma length_repeat_n: "repeat_n n m s = (Inr xs, s') \<Longrightarrow> length xs = n"
  by (induction n arbitrary: s s' xs) (auto elim!: and_then_InrE)

subsection \<open>usize\<close>

lemma checked_add_Some: "checked_add a b = Some c \<longleftrightarrow> c = a + b \<and> a + b \<le> usize_max"
  by (auto simp: checked_add_def)

lemma checked_add_None: "checked_add a b = None \<longleftrightarrow> usize_max < a + b"
  by (auto simp: checked_add_def)

subsection \<open>UTF-8\<close>

lemma utf8_check_ascii: "list_all (\<lambda>b. b < 0x80) bs \<Longrightarrow> utf8_check i bs = None"
  by (induction bs arbitrary: i) (simp_all add: utf8_width_def)

lemma utf8_valid_ascii: "list_all (\<lambda>b. b < 0x80) bs \<Longrightarrow> utf8_valid bs"
  by (simp add: utf8_valid_def utf8_check_ascii)

lemma from_utf8_valid [simp]: "utf8_valid bs \<Longrightarrow> from_utf8 bs = Inr bs"
  by (simp add: from_utf8_def utf8_valid_def)

lemma from_utf8_Inr: "from_utf8 bs = Inr s \<longleftrightarrow> utf8_valid bs \<and> s = bs"
  by (auto simp: from_utf8_def utf8_valid_def split: option.splits)

end
