(* ===== verification/Xdr_Codec.thy ===== *)
theory Xdr_Codec
  imports Onc_Prelude
begin

text \<open>
  The crate \<^verbatim>\<open>onc-rpc-xdr\<close>, file \<^verbatim>\<open>src/crates/onc-rpc-xdr/src/lib.rs\<close>: the XDR codec
  of the primitive types, strings, opaque bodies, vectors, optional boxes and fixed arrays.
  An implementation of \<^verbatim>\<open>XdrEncode\<close> is an action on the output buffer, an implementation of
  \<^verbatim>\<open>XdrDecode\<close> an action on the input cursor. The contract that the two of one type keep is
  the locale \<open>xdr_codec\<close>, which every type of the crate interprets; the containers keep it
  whenever their element type does.

  Signed integers and floats are represented by their two's complement and IEEE bit
  patterns, which is what \<^verbatim>\<open>put_i32\<close> and \<^verbatim>\<open>to_bits\<close> write; a \<^verbatim>\<open>String\<close> by its UTF-8 bytes.
\<close>

section \<open>Errors and the two traits\<close>

datatype xdr_error =
    LengthLimit nat nat
  | UnexpectedEof nat
  | InvalidBool u32
  | InvalidEnum u32
  | InvalidUtf8 string
  | TrailingBytes nat

type_synonym 'a xdr_encoder = "'a \<Rightarrow> (bytes, xdr_error, unit) action"
type_synonym 'a xdr_decoder = "(bytes, xdr_error, 'a) action"

definition to_xdr_bytes :: "'a xdr_encoder \<Rightarrow> 'a \<Rightarrow> xdr_error + bytes" where
  "to_xdr_bytes encode_xdr value = (case encode_xdr value [] of
       (Inl e, _) \<Rightarrow> Inl e
     | (Inr _, output) \<Rightarrow> Inr output)"

definition from_xdr_bytes :: "'a xdr_decoder \<Rightarrow> bytes \<Rightarrow> xdr_error + 'a" where
  "from_xdr_bytes decode_xdr input = (case decode_xdr input of
       (Inl e, _) \<Rightarrow> Inl e
     | (Inr value, rest) \<Rightarrow> if rest \<noteq> [] then Inl (TrailingBytes (length rest)) else Inr value)"

section \<open>Reading and writing words\<close>

definition put_u8 :: "byte \<Rightarrow> (bytes, 'e, unit) action" where
  "put_u8 b output = (Inr (), output @ [b])"

definition put_u32 :: "u32 \<Rightarrow> (bytes, 'e, unit) action" where
  "put_u32 w output = (Inr (), output @ u32_to_be w)"

definition put_u64 :: "u64 \<Rightarrow> (bytes, 'e, unit) action" where
  "put_u64 w output = (Inr (), output @ u64_to_be w)"

definition extend_from_slice :: "bytes \<Rightarrow> (bytes, 'e, unit) action" where
  "extend_from_slice bs output = (Inr (), output @ bs)"

definition ensure_len :: "nat \<Rightarrow> unit xdr_decoder" where
  "ensure_len len input = (if length input < len then (Inl (UnexpectedEof len), input) else (Inr (), input))"

definition xdr_padding :: "nat \<Rightarrow> nat" where
  "xdr_padding len = (4 - len mod 4) mod 4"

definition get_u8 :: "(bytes, 'e, byte) action" where
  "get_u8 input = (Inr (hd input), tl input)"

definition get_u32 :: "(bytes, 'e, u32) action" where
  "get_u32 input = (Inr (be_to_u32 (take 4 input)), drop 4 input)"

definition get_u64 :: "(bytes, 'e, u64) action" where
  "get_u64 input = (Inr (be_to_u64 (take 8 input)), drop 8 input)"

definition copy_to_bytes :: "nat \<Rightarrow> (bytes, 'e, bytes) action" where
  "copy_to_bytes len input = (Inr (take len input), drop len input)"

definition read_u32 :: "u32 xdr_decoder" where
  "read_u32 = and_then (ensure_len 4) (\<lambda>_. get_u32)"

definition read_i32 :: "u32 xdr_decoder" where
  "read_i32 = and_then (ensure_len 4) (\<lambda>_. get_u32)"

definition read_u64 :: "u64 xdr_decoder" where
  "read_u64 = and_then (ensure_len 8) (\<lambda>_. get_u64)"

definition read_i64 :: "u64 xdr_decoder" where
  "read_i64 = and_then (ensure_len 8) (\<lambda>_. get_u64)"

definition read_exact :: "nat \<Rightarrow> bytes xdr_decoder" where
  "read_exact len = and_then (ensure_len len) (\<lambda>_. copy_to_bytes len)"

section \<open>Opaque bodies and padding\<close>

definition pad_to_xdr_alignment :: "nat \<Rightarrow> (bytes, 'e, unit) action" where
  "pad_to_xdr_alignment len output = (Inr (), output @ replicate (xdr_padding len) 0)"

definition discard_padding :: "nat \<Rightarrow> unit xdr_decoder" where
  "discard_padding len = and_then (ensure_len (xdr_padding len))
     (\<lambda>_ input. (Inr (), drop (xdr_padding len) input))"

definition write_fixed_opaque :: "bytes \<Rightarrow> (bytes, 'e, unit) action" where
  "write_fixed_opaque bs = and_then (extend_from_slice bs) (\<lambda>_. pad_to_xdr_alignment (length bs))"

definition read_fixed_opaque :: "nat \<Rightarrow> bytes xdr_decoder" where
  "read_fixed_opaque len = and_then (read_exact len) (\<lambda>bs. and_then (discard_padding len) (\<lambda>_. ok bs))"

definition write_variable_opaque :: "bytes xdr_encoder" where
  "write_variable_opaque bs = and_then (put_u32 (of_nat (length bs))) (\<lambda>_. write_fixed_opaque bs)"

definition read_variable_opaque :: "bytes xdr_decoder" where
  "read_variable_opaque = and_then read_u32 (\<lambda>len. read_fixed_opaque (unat len))"

section \<open>The instances\<close>

definition encode_unit :: "unit xdr_encoder" where
  "encode_unit value = ok ()"

definition decode_unit :: "unit xdr_decoder" where
  "decode_unit = ok ()"

definition encode_bool :: "bool xdr_encoder" where
  "encode_bool value = put_u32 (if value then 1 else 0)"

definition decode_bool :: "bool xdr_decoder" where
  "decode_bool = and_then read_u32 (\<lambda>w.
     if w = 0 then ok False else if w = 1 then ok True else err (InvalidBool w))"

definition encode_i32 :: "u32 xdr_encoder" where
  "encode_i32 value = put_u32 value"

definition decode_i32 :: "u32 xdr_decoder" where
  "decode_i32 = read_i32"

definition encode_u32 :: "u32 xdr_encoder" where
  "encode_u32 value = put_u32 value"

definition decode_u32 :: "u32 xdr_decoder" where
  "decode_u32 = read_u32"

definition encode_i64 :: "u64 xdr_encoder" where
  "encode_i64 value = put_u64 value"

definition decode_i64 :: "u64 xdr_decoder" where
  "decode_i64 = read_i64"

definition encode_u64 :: "u64 xdr_encoder" where
  "encode_u64 value = put_u64 value"

definition decode_u64 :: "u64 xdr_decoder" where
  "decode_u64 = read_u64"

text \<open>\<^verbatim>\<open>f32\<close> and \<^verbatim>\<open>f64\<close>, as the bit patterns of \<^verbatim>\<open>to_bits\<close> and \<^verbatim>\<open>from_bits\<close>.\<close>

definition encode_f32 :: "u32 xdr_encoder" where
  "encode_f32 bits = put_u32 bits"

definition decode_f32 :: "u32 xdr_decoder" where
  "decode_f32 = and_then read_u32 (\<lambda>bits. ok bits)"

definition encode_f64 :: "u64 xdr_encoder" where
  "encode_f64 bits = put_u64 bits"

definition decode_f64 :: "u64 xdr_decoder" where
  "decode_f64 = and_then read_u64 (\<lambda>bits. ok bits)"

definition encode_u8 :: "byte xdr_encoder" where
  "encode_u8 value = put_u8 value"

definition decode_u8 :: "byte xdr_decoder" where
  "decode_u8 = and_then (ensure_len 1) (\<lambda>_. get_u8)"

definition encode_string :: "bytes xdr_encoder" where
  "encode_string value = write_variable_opaque value"

definition decode_string :: "bytes xdr_decoder" where
  "decode_string = and_then read_variable_opaque (\<lambda>bs.
     lift_result (map_err (\<lambda>error. InvalidUtf8 (utf8_error_to_string error)) (from_utf8 bs)))"

definition encode_bytes :: "bytes xdr_encoder" where
  "encode_bytes value = write_variable_opaque value"

definition decode_bytes :: "bytes xdr_decoder" where
  "decode_bytes = read_variable_opaque"

definition encode_vec :: "'a xdr_encoder \<Rightarrow> 'a list xdr_encoder" where
  "encode_vec encode_xdr values = and_then (put_u32 (of_nat (length values))) (\<lambda>_. for_each encode_xdr values)"

definition decode_vec :: "'a xdr_decoder \<Rightarrow> 'a list xdr_decoder" where
  "decode_vec decode_xdr = and_then read_u32 (\<lambda>len. repeat_n (unat len) decode_xdr)"

definition encode_option :: "'a xdr_encoder \<Rightarrow> 'a option xdr_encoder" where
  "encode_option encode_xdr value = (case value of
       Some v \<Rightarrow> and_then (encode_bool True) (\<lambda>_. encode_xdr v)
     | None \<Rightarrow> encode_bool False)"

definition decode_option :: "'a xdr_decoder \<Rightarrow> 'a option xdr_decoder" where
  "decode_option decode_xdr = and_then decode_bool (\<lambda>present.
     if present then and_then decode_xdr (\<lambda>v. ok (Some v)) else ok None)"

text \<open>
  \<^verbatim>\<open>[T; N]\<close>: the \<^verbatim>\<open>TypeId\<close> test of the source is the argument \<open>is_u8\<close>; the byte of an
  element is the first byte of its own encoding, and an element is decoded from a one-byte
  slice, as the source does.
\<close>

definition decode_fixed_array :: "nat \<Rightarrow> 'a xdr_decoder \<Rightarrow> 'a list xdr_decoder" where
  "decode_fixed_array n decode_xdr = repeat_n n decode_xdr"

fun element_bytes :: "'a xdr_encoder \<Rightarrow> 'a list \<Rightarrow> xdr_error + bytes" where
  "element_bytes encode_xdr [] = Inr []"
| "element_bytes encode_xdr (v # vs) = (case encode_xdr v [] of
       (Inl e, _) \<Rightarrow> Inl e
     | (Inr _, out) \<Rightarrow> result_bind (element_bytes encode_xdr vs) (\<lambda>bs. Inr (hd out # bs)))"

fun bytes_elements :: "'a xdr_decoder \<Rightarrow> bytes \<Rightarrow> xdr_error + 'a list" where
  "bytes_elements decode_xdr [] = Inr []"
| "bytes_elements decode_xdr (b # bs) = (case decode_xdr [b] of
       (Inl e, _) \<Rightarrow> Inl e
     | (Inr v, _) \<Rightarrow> result_bind (bytes_elements decode_xdr bs) (\<lambda>vs. Inr (v # vs)))"

definition encode_array :: "bool \<Rightarrow> 'a xdr_encoder \<Rightarrow> 'a list xdr_encoder" where
  "encode_array is_u8 encode_xdr values =
     (if is_u8 then and_then (lift_result (element_bytes encode_xdr values)) (\<lambda>bs. write_fixed_opaque bs)
      else for_each encode_xdr values)"

definition decode_array :: "bool \<Rightarrow> nat \<Rightarrow> 'a xdr_decoder \<Rightarrow> 'a list xdr_decoder" where
  "decode_array is_u8 n decode_xdr =
     (if is_u8 then and_then (read_fixed_opaque n) (\<lambda>bs. lift_result (bytes_elements decode_xdr bs))
      else decode_fixed_array n decode_xdr)"

section \<open>Wire formats\<close>

text \<open>The encodings as RFC 4506 describes them, the reference the codecs are compared with.\<close>

definition opaque_wire :: "bytes \<Rightarrow> bytes" where
  "opaque_wire bs = u32_to_be (of_nat (length bs)) @ bs @ replicate (xdr_padding (length bs)) 0"

definition fixed_opaque_wire :: "bytes \<Rightarrow> bytes" where
  "fixed_opaque_wire bs = bs @ replicate (xdr_padding (length bs)) 0"

definition bool_wire :: "bool \<Rightarrow> bytes" where
  "bool_wire b = u32_to_be (if b then 1 else 0)"

definition vec_wire :: "('a \<Rightarrow> bytes) \<Rightarrow> 'a list \<Rightarrow> bytes" where
  "vec_wire wire xs = u32_to_be (of_nat (length xs)) @ concat (map wire xs)"

definition option_wire :: "('a \<Rightarrow> bytes) \<Rightarrow> 'a option \<Rightarrow> bytes" where
  "option_wire wire v = (case v of Some x \<Rightarrow> bool_wire True @ wire x | None \<Rightarrow> bool_wire False)"

definition vec_valid :: "('a \<Rightarrow> bool) \<Rightarrow> 'a list \<Rightarrow> bool" where
  "vec_valid valid xs = (length xs \<le> u32_max \<and> list_all valid xs)"

definition option_valid :: "('a \<Rightarrow> bool) \<Rightarrow> 'a option \<Rightarrow> bool" where
  "option_valid valid v = (case v of Some x \<Rightarrow> valid x | None \<Rightarrow> True)"

definition opaque_valid :: "bytes \<Rightarrow> bool" where
  "opaque_valid bs = (length bs \<le> u32_max)"

definition string_valid :: "bytes \<Rightarrow> bool" where
  "string_valid bs = (length bs \<le> u32_max \<and> utf8_valid bs)"

text \<open>
  Two disciplines of a decoder. It only ever moves its cursor forward; and on an input
  that stops inside a value it asks for bytes that belong to that value.
\<close>

definition forward :: "(bytes, 'e, 'a) action \<Rightarrow> bool" where
  "forward m = (\<forall>input r rest. m input = (r, rest) \<longrightarrow> suffix rest input)"

definition truncates :: "'a xdr_decoder \<Rightarrow> bytes \<Rightarrow> bool" where
  "truncates m w = (\<forall>p q. w = p @ q \<longrightarrow> q \<noteq> [] \<longrightarrow>
     (\<exists>needed rest. m p = (Inl (UnexpectedEof needed), rest) \<and>
        length rest < needed \<and> needed \<le> length rest + length q))"

section \<open>Cursor discipline\<close>

named_theorems forward_intros "decoders that only move their cursor forward"

lemma forwardD: "forward m \<Longrightarrow> m input = (r, rest) \<Longrightarrow> suffix rest input"
  by (simp add: forward_def)

lemma forward_ok [forward_intros]: "forward (ok x)"
  by (simp add: forward_def)

lemma forward_err [forward_intros]: "forward (err e)"
  by (simp add: forward_def)

lemma forward_lift [forward_intros]: "forward (lift_result r)"
  by (simp add: forward_def)

lemma forward_and_then [forward_intros]: "forward m \<Longrightarrow> (\<And>x. forward (f x)) \<Longrightarrow> forward (and_then m f)"
  unfolding forward_def by (blast elim: and_then_cases intro: suffix_order.trans)

lemma forward_if [forward_intros]: "forward a \<Longrightarrow> forward b \<Longrightarrow> forward (if c then a else b)"
  by simp

lemma forward_repeat_n [forward_intros]: "forward m \<Longrightarrow> forward (repeat_n n m)"
  by (induction n) (auto intro!: forward_intros)

lemma forward_primitives [forward_intros]:
  "forward (ensure_len n)" "forward get_u8" "forward get_u32" "forward get_u64"
  "forward (copy_to_bytes n)" "forward (\<lambda>input. (Inr (), drop n input))"
  by (auto simp: forward_def ensure_len_def get_u8_def get_u32_def get_u64_def copy_to_bytes_def
        suffix_drop)

lemma truncatesD:
  "truncates m (p @ q) \<Longrightarrow> q \<noteq> [] \<Longrightarrow>
   \<exists>needed rest. m p = (Inl (UnexpectedEof needed), rest) \<and> length rest < needed \<and> needed \<le> length rest + length q"
  by (simp add: truncates_def)

lemma truncates_Nil [simp]: "truncates m []"
  by (simp add: truncates_def)

lemma truncates_and_then:
  assumes m: "truncates m w1" and ok: "\<And>s. m (w1 @ s) = (Inr x, s)" and f: "truncates (f x) w2"
  shows "truncates (and_then m f) (w1 @ w2)"
  unfolding truncates_def
proof (intro allI impI)
  fix p q :: bytes
  assume pq: "w1 @ w2 = p @ q" and q: "q \<noteq> []"
  let ?goal = "\<exists>needed rest. and_then m f p = (Inl (UnexpectedEof needed), rest) \<and>
      length rest < needed \<and> needed \<le> length rest + length q"
  from pq obtain us where us: "w1 = p @ us \<and> us @ w2 = q \<or> w1 @ us = p \<and> w2 = us @ q"
    by (auto simp: append_eq_append_conv2)
  have in1: ?goal if "w1 = p @ us" "us @ w2 = q" "us \<noteq> []"
  proof -
    from truncatesD [OF m [unfolded that(1)] that(3)] obtain needed rest where
      "m p = (Inl (UnexpectedEof needed), rest)" "length rest < needed" "needed \<le> length rest + length us"
      by blast
    with that(2) show ?thesis by auto
  qed
  have in2: ?goal if "p = w1 @ vs" "w2 = vs @ q" for vs
    using truncatesD [OF f [unfolded that(2)] q] ok [of vs] that(1) by simp
  show ?goal
    using us in1 in2 [of us] in2 [of "[]"] by (cases "us = []") auto
qed

lemma truncates_ensure:
  assumes "length w = n"
  shows "truncates (and_then (ensure_len n) (\<lambda>_. m)) w"
  using assms by (auto simp: truncates_def ensure_len_def and_then_def)


section \<open>Primitive reads and writes\<close>

lemmas read_defs = read_u32_def read_i32_def read_u64_def read_i64_def read_exact_def
lemmas encode_word_defs = encode_i32_def encode_u32_def encode_i64_def encode_u64_def encode_f32_def encode_f64_def
lemmas decode_word_defs = decode_i32_def decode_u32_def decode_i64_def decode_u64_def decode_f32_def decode_f64_def

lemma ensure_len_ok [simp]: "len \<le> length input \<Longrightarrow> ensure_len len input = (Inr (), input)"
  by (simp add: ensure_len_def)

lemma ensure_len_eof [simp]: "length input < len \<Longrightarrow> ensure_len len input = (Inl (UnexpectedEof len), input)"
  by (simp add: ensure_len_def)

lemma read_u32_wire [simp]: "read_u32 (u32_to_be w @ rest) = (Inr w, rest)"
  by (simp add: read_defs get_u32_def)

lemma read_u64_wire [simp]: "read_u64 (u64_to_be w @ rest) = (Inr w, rest)"
  by (simp add: read_defs get_u64_def)

lemma read_exact_wire [simp]: "length bs = n \<Longrightarrow> read_exact n (bs @ rest) = (Inr bs, rest)"
  by (simp add: read_defs copy_to_bytes_def)

lemma discard_padding_wire [simp]:
  "discard_padding n (replicate (xdr_padding n) 0 @ rest) = (Inr (), rest)"
  by (simp add: discard_padding_def)

lemma read_signed: "read_i32 = read_u32" "read_i64 = read_u64"
  by (simp_all add: read_defs)

lemma read_forward [forward_intros]:
  "forward read_u32" "forward read_u64" "forward (read_exact n)" "forward (discard_padding n)"
  "forward (read_fixed_opaque n)" "forward read_variable_opaque"
  by (auto simp: read_defs discard_padding_def read_fixed_opaque_def read_variable_opaque_def
        intro!: forward_intros)

lemma read_truncates:
  "truncates read_u32 (u32_to_be w)" "truncates read_u64 (u64_to_be v)"
  "length bs = n \<Longrightarrow> truncates (read_exact n) bs"
  "truncates (discard_padding n) (replicate (xdr_padding n) 0)"
  by (auto simp: read_defs discard_padding_def intro!: truncates_ensure)

lemma write_fixed_opaque_wire [simp]: "write_fixed_opaque bs out = (Inr (), out @ fixed_opaque_wire bs)"
  by (simp add: write_fixed_opaque_def extend_from_slice_def pad_to_xdr_alignment_def fixed_opaque_wire_def and_then_def)

lemma write_variable_opaque_wire [simp]: "write_variable_opaque bs out = (Inr (), out @ opaque_wire bs)"
  by (simp add: write_variable_opaque_def put_u32_def opaque_wire_def fixed_opaque_wire_def and_then_def)

lemma read_fixed_opaque_wire [simp]:
  "length bs = n \<Longrightarrow> read_fixed_opaque n (fixed_opaque_wire bs @ rest) = (Inr bs, rest)"
  by (auto simp: read_fixed_opaque_def fixed_opaque_wire_def)

lemma fixed_opaque_truncates: "length bs = n \<Longrightarrow> truncates (read_fixed_opaque n) (fixed_opaque_wire bs)"
  unfolding read_fixed_opaque_def fixed_opaque_wire_def
  by (rule truncates_and_then [where x = bs])
     (auto simp: read_truncates intro!: truncates_and_then [where x = "()" and ?w2.0 = "[]", simplified])

lemma read_variable_opaque_wire [simp]:
  "opaque_valid bs \<Longrightarrow> read_variable_opaque (opaque_wire bs @ rest) = (Inr bs, rest)"
  using read_fixed_opaque_wire [of bs "length bs" rest]
  by (simp add: read_variable_opaque_def opaque_wire_def opaque_valid_def fixed_opaque_wire_def unat_of_nat_u32)

lemma variable_opaque_truncates: "opaque_valid bs \<Longrightarrow> truncates read_variable_opaque (opaque_wire bs)"
  unfolding read_variable_opaque_def opaque_wire_def
  by (rule truncates_and_then [where x = "of_nat (length bs)"])
     (auto simp: read_truncates opaque_valid_def unat_of_nat_u32 fixed_opaque_truncates simp flip: fixed_opaque_wire_def)

lemma read_u32_sound:
  "read_u32 input = (Inr w, rest) \<Longrightarrow> input = u32_to_be w @ rest"
  by (auto simp: read_defs get_u32_def ensure_len_def u32_to_be_to_u32 elim!: and_then_InrE split: if_splits)

lemma take_drop_split3: "take n xs @ take m (drop n xs) @ drop (m + n) xs = xs"
  by (simp flip: drop_drop)

lemma read_variable_opaque_sound:
  assumes "read_variable_opaque input = (Inr bs, rest)"
  shows "\<exists>pad. input = u32_to_be (of_nat (length bs)) @ bs @ pad @ rest \<and> length pad = xdr_padding (length bs)"
proof -
  from assms obtain w r where w: "read_u32 input = (Inr w, r)" and body: "read_fixed_opaque (unat w) r = (Inr bs, rest)"
    by (auto simp: read_variable_opaque_def elim!: and_then_InrE)
  from body have len: "length bs = unat w"
    and r: "r = bs @ take (xdr_padding (unat w)) (drop (unat w) r) @ rest"
    and pad: "length (take (xdr_padding (unat w)) (drop (unat w) r)) = xdr_padding (unat w)"
    by (auto simp: take_drop_split3 read_fixed_opaque_def read_defs copy_to_bytes_def discard_padding_def ensure_len_def
        elim!: and_then_InrE split: if_splits)
  from len have "of_nat (length bs) = w" by simp
  with read_u32_sound [OF w] r pad len show ?thesis by metis
qed

lemma repeat_n_wire:
  "(\<And>x s. x \<in> set xs \<Longrightarrow> m (wire x @ s) = (Inr x, s)) \<Longrightarrow>
   repeat_n (length xs) m (concat (map wire xs) @ rest) = (Inr xs, rest)"
  by (induction xs) auto

lemma repeat_truncates:
  assumes "list_all (\<lambda>x. truncates m (wire x) \<and> (\<forall>s. m (wire x @ s) = (Inr x, s))) xs"
  shows "truncates (repeat_n (length xs) m) (concat (map wire xs))"
  using assms
proof (induction xs)
  case (Cons x xs)
  then have rest: "truncates (repeat_n (length xs) m) (concat (map wire xs))"
    and dec: "\<And>s. repeat_n (length xs) m (concat (map wire xs) @ s) = (Inr xs, s)"
    by (auto simp: list_all_iff intro!: repeat_n_wire)
  from rest have "truncates (and_then (repeat_n (length xs) m) (\<lambda>ys. ok (x # ys))) (concat (map wire xs))"
    using dec by (auto intro!: truncates_and_then [where x = xs and ?w2.0 = "[]", simplified])
  with Cons.prems show ?case
    by (auto intro!: truncates_and_then [where x = x])
qed simp
section \<open>The codec contract\<close>

locale xdr_codec =
  fixes encode :: "'a xdr_encoder"
    and decode :: "'a xdr_decoder"
    and valid :: "'a \<Rightarrow> bool"
    and wire :: "'a \<Rightarrow> bytes"
  assumes encode_wire: "valid x \<Longrightarrow> encode x out = (Inr (), out @ wire x)"
    and decode_wire: "valid x \<Longrightarrow> decode (wire x @ rest) = (Inr x, rest)"
    and decode_forward: "forward decode"
    and decode_truncated: "valid x \<Longrightarrow> truncates decode (wire x)"
begin

lemma to_bytes: "valid x \<Longrightarrow> to_xdr_bytes encode x = Inr (wire x)"
  by (simp add: to_xdr_bytes_def encode_wire)

lemma decode_wire_Nil: "valid x \<Longrightarrow> decode (wire x) = (Inr x, [])"
  using decode_wire [of x "[]"] by simp

lemma from_bytes: "valid x \<Longrightarrow> from_xdr_bytes decode (wire x) = Inr x"
  by (simp add: from_xdr_bytes_def decode_wire_Nil)

lemma from_bytes_trailing:
  "valid x \<Longrightarrow> t \<noteq> [] \<Longrightarrow> from_xdr_bytes decode (wire x @ t) = Inl (TrailingBytes (length t))"
  by (simp add: from_xdr_bytes_def decode_wire)

lemma from_bytes_truncated:
  "valid x \<Longrightarrow> wire x = p @ q \<Longrightarrow> q \<noteq> [] \<Longrightarrow> \<exists>n. from_xdr_bytes decode p = Inl (UnexpectedEof n)"
  using decode_truncated [of x] unfolding truncates_def from_xdr_bytes_def by fastforce

lemma prefix_free:
  "valid x \<Longrightarrow> valid y \<Longrightarrow> wire x @ r = wire y @ s \<Longrightarrow> x = y \<and> r = s"
  by (metis decode_wire prod.inject sum.inject(2))

lemma encode_all:
  "list_all valid xs \<Longrightarrow> for_each encode xs out = (Inr (), out @ concat (map wire xs))"
  by (induction xs arbitrary: out) (auto simp: encode_wire)

lemma decode_all:
  "list_all valid xs \<Longrightarrow> repeat_n (length xs) decode (concat (map wire xs) @ rest) = (Inr xs, rest)"
  by (rule repeat_n_wire) (simp add: decode_wire list_all_iff)

lemma truncated_all:
  "list_all valid xs \<Longrightarrow> truncates (repeat_n (length xs) decode) (concat (map wire xs))"
  by (rule repeat_truncates) (simp add: decode_wire decode_truncated list_all_iff)

end



lemma xdr_codec_vec:
  assumes "xdr_codec encode decode valid wire"
  shows "xdr_codec (encode_vec encode) (decode_vec decode) (vec_valid valid) (vec_wire wire)"
proof
  note codec = xdr_codec.encode_all [OF assms] xdr_codec.decode_all [OF assms] xdr_codec.truncated_all [OF assms]
  fix xs out and rest :: bytes
  assume xs: "vec_valid valid xs"
  then have len: "unat (of_nat (length xs) :: u32) = length xs"
    by (simp add: vec_valid_def unat_of_nat_u32)
  from xs show "encode_vec encode xs out = (Inr (), out @ vec_wire wire xs)"
    by (simp add: encode_vec_def put_u32_def vec_wire_def vec_valid_def codec and_then_def)
  from xs len show "decode_vec decode (vec_wire wire xs @ rest) = (Inr xs, rest)"
    by (simp add: decode_vec_def vec_wire_def vec_valid_def codec)
  from xs len show "truncates (decode_vec decode) (vec_wire wire xs)"
    unfolding decode_vec_def vec_wire_def
    by (intro truncates_and_then [where x = "of_nat (length xs)"]) (auto simp: read_truncates vec_valid_def codec)
next
  show "forward (decode_vec decode)"
    using xdr_codec.decode_forward [OF assms] by (auto simp: decode_vec_def intro!: forward_intros)
qed


lemma bool_wire_decode [simp]: "decode_bool (bool_wire b @ rest) = (Inr b, rest)"
  by (simp add: decode_bool_def bool_wire_def)

lemma bool_truncates: "truncates decode_bool (bool_wire b)"
  unfolding decode_bool_def bool_wire_def
  by (rule truncates_and_then [where x = "if b then 1 else 0" and ?w2.0 = "[]", simplified])
     (simp_all add: read_truncates)

lemma bool_forward [forward_intros]: "forward decode_bool"
  by (auto simp: decode_bool_def intro!: forward_intros)

lemma xdr_codec_option:
  assumes "xdr_codec encode decode valid wire"
  shows "xdr_codec (encode_option encode) (decode_option decode) (option_valid valid) (option_wire wire)"
proof
  note codec = xdr_codec.encode_wire [OF assms] xdr_codec.decode_wire [OF assms] xdr_codec.decode_truncated [OF assms]
  fix v out and rest :: bytes
  assume v: "option_valid valid v"
  then show "encode_option encode v out = (Inr (), out @ option_wire wire v)"
    by (cases v) (simp_all add: encode_option_def option_wire_def option_valid_def encode_bool_def
        put_u32_def bool_wire_def codec and_then_def)
  from v show "decode_option decode (option_wire wire v @ rest) = (Inr v, rest)"
    by (cases v) (simp_all add: decode_option_def option_wire_def option_valid_def codec and_then_def)
  show "truncates (decode_option decode) (option_wire wire v)"
  proof (cases v)
    case None
    then show ?thesis
      unfolding decode_option_def option_wire_def
      by (auto simp: bool_truncates intro!: truncates_and_then [where x = False and ?w2.0 = "[]", simplified])
  next
    case (Some x)
    with v have "truncates (and_then decode (\<lambda>v. ok (Some v))) (wire x)"
      by (auto simp: option_valid_def codec intro!: truncates_and_then [where x = x and ?w2.0 = "[]", simplified])
    with Some show ?thesis
      unfolding decode_option_def option_wire_def
      by (auto simp: bool_truncates intro!: truncates_and_then [where x = True])
  qed
next
  show "forward (decode_option decode)"
    using xdr_codec.decode_forward [OF assms] by (auto simp: decode_option_def intro!: forward_intros)
qed

lemma xdr_codec_array:
  assumes "xdr_codec encode decode valid wire"
  shows "xdr_codec (encode_array False encode) (decode_array False n decode)
           (\<lambda>xs. length xs = n \<and> list_all valid xs) (\<lambda>xs. concat (map wire xs))"
  using xdr_codec.decode_forward [OF assms]
  by unfold_locales
     (auto simp: encode_array_def decode_array_def decode_fixed_array_def
        xdr_codec.encode_all [OF assms] xdr_codec.decode_all [OF assms] xdr_codec.truncated_all [OF assms]
        intro!: forward_intros)

section \<open>Every instance keeps the contract\<close>

interpretation unit_codec: xdr_codec encode_unit decode_unit "\<lambda>_. True" "\<lambda>_. []"
  by unfold_locales (auto simp: encode_unit_def decode_unit_def intro!: forward_intros)

interpretation bool_codec: xdr_codec encode_bool decode_bool "\<lambda>_. True" bool_wire
  by unfold_locales (auto simp: encode_bool_def put_u32_def bool_wire_def[symmetric] bool_truncates intro!: forward_intros)

interpretation u32_codec: xdr_codec encode_u32 decode_u32 "\<lambda>_. True" u32_to_be
  by unfold_locales (auto simp: encode_word_defs decode_word_defs put_u32_def read_truncates intro!: forward_intros)

interpretation i32_codec: xdr_codec encode_i32 decode_i32 "\<lambda>_. True" u32_to_be
  by unfold_locales (auto simp: encode_word_defs decode_word_defs put_u32_def read_signed read_truncates intro!: forward_intros)

interpretation u64_codec: xdr_codec encode_u64 decode_u64 "\<lambda>_. True" u64_to_be
  by unfold_locales (auto simp: encode_word_defs decode_word_defs put_u64_def read_truncates intro!: forward_intros)

interpretation i64_codec: xdr_codec encode_i64 decode_i64 "\<lambda>_. True" u64_to_be
  by unfold_locales (auto simp: encode_word_defs decode_word_defs put_u64_def read_signed read_truncates intro!: forward_intros)

interpretation f32_codec: xdr_codec encode_f32 decode_f32 "\<lambda>_. True" u32_to_be
  by unfold_locales (auto simp: encode_word_defs decode_word_defs put_u32_def read_truncates intro!: forward_intros)

interpretation f64_codec: xdr_codec encode_f64 decode_f64 "\<lambda>_. True" u64_to_be
  by unfold_locales (auto simp: encode_word_defs decode_word_defs put_u64_def read_truncates intro!: forward_intros)

interpretation u8_codec: xdr_codec encode_u8 decode_u8 "\<lambda>_. True" "\<lambda>b. [b]"
  by unfold_locales
     (auto simp: encode_u8_def decode_u8_def put_u8_def get_u8_def intro!: forward_intros truncates_ensure)

interpretation bytes_codec: xdr_codec encode_bytes decode_bytes opaque_valid opaque_wire
  by unfold_locales (auto simp: encode_bytes_def decode_bytes_def variable_opaque_truncates intro!: forward_intros)

lemma string_truncates: "string_valid bs \<Longrightarrow> truncates decode_string (opaque_wire bs)"
  unfolding decode_string_def
  by (rule truncates_and_then [where x = bs and ?w2.0 = "[]", simplified])
     (simp_all add: variable_opaque_truncates string_valid_def opaque_valid_def)

interpretation string_codec: xdr_codec encode_string decode_string string_valid opaque_wire
proof
  fix bs rest
  assume "string_valid bs"
  then show "decode_string (opaque_wire bs @ rest) = (Inr bs, rest)"
    by (simp add: decode_string_def string_valid_def opaque_valid_def)
next
  show "forward decode_string"
    by (auto simp: decode_string_def intro!: forward_intros)
qed (simp_all add: encode_string_def string_truncates)

lemma element_bytes_u8 [simp]: "element_bytes encode_u8 bs = Inr bs"
  by (induction bs) (simp_all add: encode_u8_def put_u8_def)

lemma bytes_elements_u8 [simp]: "bytes_elements decode_u8 bs = Inr bs"
  by (induction bs) (simp_all add: decode_u8_def get_u8_def)

lemma opaque_array_truncates:
  "length bs = n \<Longrightarrow> truncates (decode_array True n decode_u8) (fixed_opaque_wire bs)"
  by (auto simp: decode_array_def fixed_opaque_truncates
        intro!: truncates_and_then [where x = bs and ?w2.0 = "[]", simplified])

lemma xdr_codec_opaque_array:
  "xdr_codec (encode_array True encode_u8) (decode_array True n decode_u8) (\<lambda>bs. length bs = n) fixed_opaque_wire"
  by unfold_locales (auto simp: encode_array_def decode_array_def opaque_array_truncates [unfolded decode_array_def, simplified]
       intro!: forward_intros)


section \<open>Properties\<close>

text \<open>
  C24. Whatever element codec keeps the contract, encoding a vector of at most
  \<open>2 ^ 32 - 1\<close> elements succeeds with the RFC 4506 bytes and decoding those bytes gives
  the vector back.
\<close>
theorem vec_roundtrip:
  assumes "xdr_codec enc dec valid wire" and "vec_valid valid xs"
  shows "to_xdr_bytes (encode_vec enc) xs = Inr (vec_wire wire xs) \<and>
         from_xdr_bytes (decode_vec dec) (vec_wire wire xs) = Inr xs"
  using xdr_codec.to_bytes [OF xdr_codec_vec [OF assms(1)]]
    xdr_codec.from_bytes [OF xdr_codec_vec [OF assms(1)]] assms(2) by blast

theorem vec_roundtrip_witness:
  "to_xdr_bytes (encode_vec encode_u32) [7, 9] = Inr [0, 0, 0, 2, 0, 0, 0, 7, 0, 0, 0, 9] \<and>
   from_xdr_bytes (decode_vec decode_u32) (vec_wire u32_to_be [7, 9]) = Inr [7, 9]"
  using vec_roundtrip [OF u32_codec.xdr_codec_axioms, of "[7, 9]"]
  by (simp add: vec_valid_def u32_max_def vec_wire_def u32_to_be_eval)


text \<open>
  Decoding an input that stops anywhere inside an encoded vector fails with
  \<^verbatim>\<open>UnexpectedEof\<close>, and the bytes it says are missing never reach beyond the vector's own
  encoding: a caller that fetches just those bytes and retries reads nothing that follows.
\<close>
theorem vec_truncated_request:
  assumes "xdr_codec enc dec valid wire" and "vec_valid valid xs"
    and "vec_wire wire xs = p @ q" and "q \<noteq> []"
  shows "\<exists>needed rest. decode_vec dec p = (Inl (UnexpectedEof needed), rest) \<and>
           length rest < needed \<and> length p + (needed - length rest) \<le> length (vec_wire wire xs)"
  using truncatesD [of "decode_vec dec" p q]
    xdr_codec.decode_truncated [OF xdr_codec_vec [OF assms(1)] assms(2)] assms(3,4)
  by fastforce

theorem vec_truncated_request_witness:
  "\<exists>needed rest. decode_vec decode_string [0, 0, 0, 1, 0, 0, 0, 3, 97, 98] = (Inl (UnexpectedEof needed), rest) \<and>
     length rest < needed \<and> length [0, 0, 0, 1, 0, 0, 0, 3, 97, 98 :: byte] + (needed - length rest)
       \<le> length (vec_wire opaque_wire [[97, 98, 99]])"
  using vec_truncated_request [OF string_codec.xdr_codec_axioms, of "[[97, 98, 99]]"
      "[0, 0, 0, 1, 0, 0, 0, 3, 97, 98]" "[99, 0]"]
  by (simp add: vec_valid_def string_valid_def utf8_valid_ascii u32_max_def vec_wire_def opaque_wire_def
      u32_to_be_eval xdr_padding_def)

lemma decode_string_parts:
  assumes "decode_string input = (Inr s, rest)"
  shows "read_variable_opaque input = (Inr s, rest)" "utf8_valid s"
  using assms
  by (auto simp: decode_string_def map_err_def from_utf8_Inr elim!: and_then_InrE)
     (metis from_utf8_Inr map_sum.simps(1,2) sum.distinct(1) sum.exhaust sum.inject(2) id_apply)+

text \<open>
  A decoded string is always valid UTF-8 and is exactly the body that the length field
  announces; the cursor ends after the body and its padding.
\<close>
theorem string_decode_sound:
  assumes "decode_string input = (Inr s, rest)"
  shows "utf8_valid s \<and> (\<exists>pad. input = u32_to_be (of_nat (length s)) @ s @ pad @ rest \<and>
           length pad = xdr_padding (length s))"
  using decode_string_parts [OF assms] read_variable_opaque_sound by blast

theorem string_decode_sound_witness:
  "utf8_valid [97] \<and> (\<exists>pad. [0, 0, 0, 1, 97, 5, 6, 7, 8] = u32_to_be (of_nat (length [97 :: byte])) @ [97] @ pad @ [8] \<and>
     length pad = xdr_padding (length [97 :: byte]))"
proof -
  have "decode_string [0, 0, 0, 1, 97, 5, 6, 7, 8] = (Inr [97], [8])"
    by (simp add: decode_string_def read_variable_opaque_def read_fixed_opaque_def read_u32_def read_exact_def
        get_u32_def be_to_u32_def copy_to_bytes_def discard_padding_def xdr_padding_def utf8_valid_ascii and_then_def)
  from string_decode_sound [OF this] show ?thesis .
qed

end
