(* ===== verification/Xdr_Segments.thy ===== *)
theory Xdr_Segments
  imports Xdr_Codec
begin

text \<open>
  Segmented encoding, file \<^verbatim>\<open>src/crates/onc-rpc-xdr/src/segments.rs\<close>. A \<^verbatim>\<open>SegmentEncoder\<close>
  collects control fields in one growing buffer and keeps every opaque body as a segment of
  its own. The contract \<open>xdr_segments\<close> extends the codec contract: joined together, the
  segments are the contiguous encoding.
\<close>

section \<open>SegmentEncoder\<close>

record segment_encoder =
  control :: bytes
  segments :: "bytes list"

type_synonym 'a segments_encoder = "'a \<Rightarrow> (segment_encoder, xdr_error, unit) action"

definition new_encoder :: segment_encoder where
  "new_encoder = \<lparr>control = [], segments = []\<rparr>"

definition encode_control :: "'a xdr_encoder \<Rightarrow> 'a segments_encoder" where
  "encode_control encode_xdr value se = (case encode_xdr value (control se) of
       (r, c) \<Rightarrow> (r, se\<lparr>control := c\<rparr>))"

definition flush :: "segment_encoder \<Rightarrow> segment_encoder" where
  "flush se = (if control se \<noteq> [] then se\<lparr>control := [], segments := segments se @ [control se]\<rparr> else se)"

definition do_flush :: "(segment_encoder, xdr_error, unit) action" where
  "do_flush se = (Inr (), flush se)"

definition push_segment :: "bytes \<Rightarrow> (segment_encoder, xdr_error, unit) action" where
  "push_segment bs se = (Inr (), se\<lparr>segments := segments se @ [bs]\<rparr>)"

definition finish :: "segment_encoder \<Rightarrow> bytes list" where
  "finish se = segments (flush se)"

definition encode_opaque :: "bytes \<Rightarrow> nat option \<Rightarrow> (segment_encoder, xdr_error, unit) action" where
  "encode_opaque value max_opt =
     (let maximum = min (case max_opt of Some m \<Rightarrow> m | None \<Rightarrow> u32_max) u32_max;
          padding = (4 - length value mod 4) mod 4
      in if length value > maximum then err (LengthLimit (length value) maximum)
         else and_then (encode_control encode_u32 (of_nat (length value))) (\<lambda>_.
              and_then do_flush (\<lambda>_.
              and_then (if value \<noteq> [] then push_segment value else ok ()) (\<lambda>_.
              if padding \<noteq> 0 then push_segment (take padding [0, 0, 0]) else ok ()))))"

section \<open>OpaqueSegments\<close>

text \<open>The owners of one opaque value, in wire order; \<open>maxlen\<close> is the declared bound, the parameter \<^verbatim>\<open>MAX\<close>.\<close>

type_synonym opaque_segments = "bytes list"

fun checked_len_from :: "nat \<Rightarrow> nat \<Rightarrow> bytes list \<Rightarrow> xdr_error + nat" where
  "checked_len_from maximum len [] = Inr len"
| "checked_len_from maximum len (segment # rest) = (case checked_add len (length segment) of
       None \<Rightarrow> Inl (LengthLimit usize_max maximum)
     | Some len' \<Rightarrow> if len' > maximum then Inl (LengthLimit len' maximum) else checked_len_from maximum len' rest)"

definition checked_len :: "nat \<Rightarrow> opaque_segments \<Rightarrow> xdr_error + nat" where
  "checked_len maxlen segs = checked_len_from (min maxlen u32_max) 0 segs"

definition opaque_segments_try_new :: "nat \<Rightarrow> bytes list \<Rightarrow> xdr_error + opaque_segments" where
  "opaque_segments_try_new maxlen segs = result_bind (checked_len maxlen segs) (\<lambda>_. Inr segs)"

definition opaque_segments_from_bytes :: "bytes \<Rightarrow> opaque_segments" where
  "opaque_segments_from_bytes value = [value]"

definition encode_opaque_segments :: "nat \<Rightarrow> opaque_segments \<Rightarrow> (segment_encoder, xdr_error, unit) action" where
  "encode_opaque_segments maxlen value = and_then (lift_result (checked_len maxlen value)) (\<lambda>len.
     and_then (encode_control encode_u32 (of_nat len)) (\<lambda>_.
     and_then do_flush (\<lambda>_.
     and_then (\<lambda>se. (Inr (), se\<lparr>segments := segments se @ filter (\<lambda>segment. segment \<noteq> []) value\<rparr>)) (\<lambda>_.
     if (4 - len mod 4) mod 4 \<noteq> 0 then push_segment (take ((4 - len mod 4) mod 4) [0, 0, 0]) else ok ()))))"

definition opaque_segments_encode_xdr :: "nat \<Rightarrow> opaque_segments xdr_encoder" where
  "opaque_segments_encode_xdr maxlen value = and_then (lift_result (checked_len maxlen value)) (\<lambda>len.
     and_then (encode_u32 (of_nat len)) (\<lambda>_.
     and_then (for_each extend_from_slice value) (\<lambda>_.
     extend_from_slice (take ((4 - len mod 4) mod 4) [0, 0, 0]))))"

section \<open>Metadata\<close>

text \<open>\<^verbatim>\<open>OpaqueLength<MAX>\<close>: the length field of a body that stays on the wire.\<close>

definition decode_opaque_length :: "nat \<Rightarrow> nat xdr_decoder" where
  "decode_opaque_length maxlen = and_then decode_u32 (\<lambda>w.
     if unat w > maxlen then err (LengthLimit (unat w) maxlen) else ok (unat w))"

definition opaque_segments_decode_xdr :: "nat \<Rightarrow> opaque_segments xdr_decoder" where
  "opaque_segments_decode_xdr maxlen input = (case decode_opaque_length maxlen input of
       (Inl e, _) \<Rightarrow> (Inl e, input)
     | (Inr _, _) \<Rightarrow> and_then decode_bytes (\<lambda>value. ok (opaque_segments_from_bytes value)) input)"

definition opaque_length_max_prefix :: nat where
  "opaque_length_max_prefix = 4"

definition opaque_length_opaque_len :: "nat \<Rightarrow> nat option" where
  "opaque_length_opaque_len len = Some len"

definition option_max_prefix :: "nat \<Rightarrow> nat" where
  "option_max_prefix max_prefix = 4 + max_prefix"

definition option_opaque_len :: "('m \<Rightarrow> nat option) \<Rightarrow> 'm option \<Rightarrow> nat option" where
  "option_opaque_len opaque_len v = Option.bind v opaque_len"

section \<open>XdrEncodeSegments instances\<close>

definition to_xdr_segments :: "'a segments_encoder \<Rightarrow> 'a \<Rightarrow> xdr_error + bytes list" where
  "to_xdr_segments encode_xdr_segments value = (case encode_xdr_segments value new_encoder of
       (Inl e, _) \<Rightarrow> Inl e
     | (Inr _, se) \<Rightarrow> Inr (finish se))"

definition segments_bytes :: "bytes segments_encoder" where
  "segments_bytes value = encode_opaque value None"

definition segments_vec :: "'a segments_encoder \<Rightarrow> 'a list segments_encoder" where
  "segments_vec encode_xdr_segments values =
     (if length values > u32_max then err (LengthLimit (length values) u32_max)
      else and_then (encode_control encode_u32 (of_nat (length values))) (\<lambda>_.
           for_each encode_xdr_segments values))"

definition segments_option :: "'a segments_encoder \<Rightarrow> 'a option segments_encoder" where
  "segments_option encode_xdr_segments value =
     and_then (encode_control encode_bool (value \<noteq> None)) (\<lambda>_.
       case value of Some v \<Rightarrow> encode_xdr_segments v | None \<Rightarrow> ok ())"

definition segments_array :: "bool \<Rightarrow> 'a xdr_encoder \<Rightarrow> 'a segments_encoder \<Rightarrow> 'a list segments_encoder" where
  "segments_array is_u8 encode_xdr encode_xdr_segments values =
     (if is_u8 then encode_control (encode_array is_u8 encode_xdr) values
      else for_each encode_xdr_segments values)"

section \<open>The contract of a segmented encoder\<close>

text \<open>What an encoder stands for: the bytes of its segments followed by the pending control bytes.\<close>

definition flat :: "segment_encoder \<Rightarrow> bytes" where
  "flat se = concat (segments se) @ control se"

definition no_empty_segment :: "segment_encoder \<Rightarrow> bool" where
  "no_empty_segment se = ([] \<notin> set (segments se))"

text \<open>An action that appends the given bytes and never leaves an empty segment.\<close>

definition appends :: "(segment_encoder, xdr_error, unit) action \<Rightarrow> bytes \<Rightarrow> bool" where
  "appends m w = (\<forall>se. \<exists>se'. m se = (Inr (), se') \<and> flat se' = flat se @ w \<and>
     (no_empty_segment se \<longrightarrow> no_empty_segment se'))"

lemma flat_flush [simp]: "flat (flush se) = flat se" "control (flush se) = []"
  by (simp_all add: flat_def flush_def)

lemma no_empty_flush [simp]: "no_empty_segment se \<Longrightarrow> no_empty_segment (flush se)"
  by (simp add: no_empty_segment_def flush_def)

lemma concat_finish [simp]: "concat (finish se) = flat se"
  using flat_flush [of se] by (simp add: finish_def flat_def)

lemma finish_no_empty: "no_empty_segment se \<Longrightarrow> [] \<notin> set (finish se)"
  using no_empty_flush [of se] by (simp add: finish_def no_empty_segment_def)

lemma appendsD:
  "appends m w \<Longrightarrow> \<exists>se'. m se = (Inr (), se') \<and> flat se' = flat se @ w \<and>
     (no_empty_segment se \<longrightarrow> no_empty_segment se')"
  by (simp add: appends_def)

lemma appends_ok [simp]: "appends (ok ()) []"
  by (simp add: appends_def)

lemma appends_and_then: "appends m w \<Longrightarrow> appends k v \<Longrightarrow> appends (and_then m (\<lambda>_. k)) (w @ v)"
  unfolding appends_def by (metis and_then_Inr append_assoc)

lemma appends_flush:
  assumes "\<And>se. k se = (Inr (), se\<lparr>segments := segments se @ ss\<rparr>)" and "[] \<notin> set ss"
  shows "appends (and_then do_flush (\<lambda>_. k)) (concat ss)"
proof -
  have "and_then do_flush (\<lambda>_. k) se = (Inr (), (flush se)\<lparr>segments := segments (flush se) @ ss\<rparr>)" for se
    by (simp add: do_flush_def assms(1) and_then_def)
  moreover have "flat ((flush se)\<lparr>segments := segments (flush se) @ ss\<rparr>) = flat se @ concat ss" for se
    using flat_flush [of se] by (simp add: flat_def)
  moreover have "no_empty_segment se \<Longrightarrow>
      no_empty_segment ((flush se)\<lparr>segments := segments (flush se) @ ss\<rparr>)" for se
    using no_empty_flush [of se] assms(2) by (simp add: no_empty_segment_def)
  ultimately show ?thesis by (simp add: appends_def)
qed

lemma appends_control:
  "(\<And>out. encode_xdr v out = (Inr (), out @ w)) \<Longrightarrow> appends (encode_control encode_xdr v) w"
  by (auto simp: appends_def encode_control_def flat_def no_empty_segment_def)

lemma appends_for_each:
  "(\<And>x. x \<in> set xs \<Longrightarrow> appends (f x) (wire x)) \<Longrightarrow> appends (for_each f xs) (concat (map wire xs))"
  by (induction xs) (auto intro!: appends_and_then)



locale xdr_segments = xdr_codec encode decode valid wire
  for encode :: "'a xdr_encoder" and decode :: "'a xdr_decoder" and valid :: "'a \<Rightarrow> bool"
    and wire :: "'a \<Rightarrow> bytes" +
  fixes encode_segments :: "'a segments_encoder"
  assumes segments_append: "valid x \<Longrightarrow> appends (encode_segments x) (wire x)"
begin

lemma to_segments:
  assumes "valid x"
  shows "\<exists>segs. to_xdr_segments encode_segments x = Inr segs \<and> concat segs = wire x \<and> [] \<notin> set segs"
proof -
  from appendsD [OF segments_append [OF assms], of new_encoder] obtain se' where
    "encode_segments x new_encoder = (Inr (), se')" "flat se' = flat new_encoder @ wire x"
    "no_empty_segment new_encoder \<longrightarrow> no_empty_segment se'"
    by blast
  then show ?thesis
    using finish_no_empty [of se'] concat_finish [of se']
    by (simp add: to_xdr_segments_def) (simp add: new_encoder_def flat_def no_empty_segment_def)
qed

end

text \<open>The segments an opaque body contributes after its length field.\<close>

definition body_segments :: "nat \<Rightarrow> bytes list \<Rightarrow> bytes list" where
  "body_segments len owners = filter (\<lambda>s. s \<noteq> []) owners @
     (if xdr_padding len = 0 then [] else [replicate (xdr_padding len) 0])"

lemma take_zeros: "k < 4 \<Longrightarrow> take k [0, 0, 0] = replicate k (0 :: byte)"
  by (auto simp: numeral_eq_Suc less_Suc_eq)

lemma padding_slice: "take ((4 - n mod 4) mod 4) [0, 0, 0] = replicate (xdr_padding n) (0 :: byte)"
  unfolding xdr_padding_def by (rule take_zeros) simp

lemma concat_filter_nonempty: "concat (filter (\<lambda>s. s \<noteq> []) ss) = concat ss"
  by (induction ss) auto

lemma concat_body_segments:
  "concat (body_segments (length (concat owners)) owners) =
     concat owners @ replicate (xdr_padding (length (concat owners))) 0"
  by (simp add: body_segments_def concat_filter_nonempty)

lemma body_segments_no_empty: "[] \<notin> set (body_segments len owners)"
  by (simp add: body_segments_def)

lemma encode_opaque_eq:
  "length value \<le> (case max_opt of Some m \<Rightarrow> m | None \<Rightarrow> u32_max) \<Longrightarrow> length value \<le> u32_max \<Longrightarrow>
   encode_opaque value max_opt = and_then (encode_control encode_u32 (of_nat (length value))) (\<lambda>_.
     and_then do_flush (\<lambda>_ se. (Inr (), se\<lparr>segments := segments se @ body_segments (length value) [value]\<rparr>)))"
  unfolding encode_opaque_def Let_def padding_slice
  by (auto simp: fun_eq_iff and_then_def encode_control_def do_flush_def push_segment_def body_segments_def
        xdr_padding_def split: prod.splits sum.splits option.splits)

lemma body_appends:
  "appends (and_then do_flush (\<lambda>_ se. (Inr (), se\<lparr>segments := segments se @ body_segments (length (concat owners)) owners\<rparr>)))
     (concat owners @ replicate (xdr_padding (length (concat owners))) 0)"
  unfolding concat_body_segments [symmetric] by (rule appends_flush [OF refl body_segments_no_empty])

lemma encode_opaque_appends:
  assumes "length value \<le> (case max_opt of Some m \<Rightarrow> m | None \<Rightarrow> u32_max)" and "length value \<le> u32_max"
  shows "appends (encode_opaque value max_opt) (opaque_wire value)"
  unfolding encode_opaque_eq [OF assms] opaque_wire_def
  using body_appends [of "[value]"]
  by (simp add: appends_and_then appends_control u32_codec.encode_wire)

lemma checked_len_from_ok:
  "len + length (concat segs) \<le> maximum \<Longrightarrow> maximum \<le> usize_max \<Longrightarrow>
   checked_len_from maximum len segs = Inr (len + length (concat segs))"
  by (induction segs arbitrary: len) (auto simp: checked_add_def)

lemma checked_len_from_err:
  "maximum < usize_max \<Longrightarrow> len \<le> maximum \<Longrightarrow> maximum < len + length (concat segs) \<Longrightarrow>
   \<exists>n. checked_len_from maximum len segs = Inl (LengthLimit n maximum) \<and> maximum < n"
  by (induction segs arbitrary: len) (auto simp: checked_add_def)

lemma u32_max_usize [simp]: "u32_max < usize_max" "u32_max \<le> usize_max"
  by (simp_all add: u32_max_def usize_max_def)

lemma checked_len_ok:
  "length (concat segs) \<le> maxlen \<Longrightarrow> length (concat segs) \<le> u32_max \<Longrightarrow>
   checked_len maxlen segs = Inr (length (concat segs))"
  unfolding checked_len_def using u32_max_usize
  by (subst checked_len_from_ok) (auto simp: min_def intro: order_trans)

lemma encode_opaque_segments_appends:
  assumes "length (concat segs) \<le> maxlen" and "length (concat segs) \<le> u32_max"
  shows "appends (encode_opaque_segments maxlen segs) (opaque_wire (concat segs))"
proof -
  let ?n = "length (concat segs)"
  have "encode_opaque_segments maxlen segs =
      and_then (encode_control encode_u32 (of_nat ?n)) (\<lambda>_.
      and_then do_flush (\<lambda>_ se. (Inr (), se\<lparr>segments := segments se @ body_segments ?n segs\<rparr>)))"
    unfolding encode_opaque_segments_def checked_len_ok [OF assms] padding_slice
    by (auto simp: fun_eq_iff and_then_def encode_control_def do_flush_def push_segment_def body_segments_def
        xdr_padding_def split: prod.splits sum.splits)
  with body_appends [of segs] show ?thesis
    unfolding opaque_wire_def
    by (simp add: appends_and_then appends_control u32_codec.encode_wire)
qed


lemma for_each_extend: "for_each extend_from_slice ss out = (Inr (), out @ concat ss)"
  by (induction ss arbitrary: out) (simp_all add: extend_from_slice_def and_then_def)

lemma opaque_segments_encode_wire:
  assumes "length (concat segs) \<le> maxlen" and "length (concat segs) \<le> u32_max"
  shows "opaque_segments_encode_xdr maxlen segs out = (Inr (), out @ opaque_wire (concat segs))"
  unfolding opaque_segments_encode_xdr_def checked_len_ok [OF assms] padding_slice
  by (simp add: and_then_def for_each_extend u32_codec.encode_wire opaque_wire_def)
     (simp add: extend_from_slice_def)

section \<open>Every instance keeps the contract\<close>

lemma xdr_segments_control:
  assumes "xdr_codec enc dec valid wire"
  shows "xdr_segments enc dec valid wire (encode_control enc)"
  using assms by (auto simp: xdr_segments_def xdr_segments_axioms_def xdr_codec.encode_wire intro!: appends_control)

lemma xdr_segments_vec:
  assumes "xdr_segments enc dec valid wire seg"
  shows "xdr_segments (encode_vec enc) (decode_vec dec) (vec_valid valid) (vec_wire wire) (segments_vec seg)"
proof (intro xdr_segments.intro xdr_segments_axioms.intro)
  show "xdr_codec (encode_vec enc) (decode_vec dec) (vec_valid valid) (vec_wire wire)"
    by (rule xdr_codec_vec) (rule xdr_segments.axioms(1) [OF assms])
next
  fix xs assume "vec_valid valid xs"
  then show "appends (segments_vec seg xs) (vec_wire wire xs)"
    by (auto simp: segments_vec_def vec_wire_def vec_valid_def list_all_iff u32_codec.encode_wire
        intro!: appends_and_then appends_control appends_for_each xdr_segments.segments_append [OF assms])
qed

lemma xdr_segments_option:
  assumes "xdr_segments enc dec valid wire seg"
  shows "xdr_segments (encode_option enc) (decode_option dec) (option_valid valid) (option_wire wire) (segments_option seg)"
proof (intro xdr_segments.intro xdr_segments_axioms.intro)
  show "xdr_codec (encode_option enc) (decode_option dec) (option_valid valid) (option_wire wire)"
    by (rule xdr_codec_option) (rule xdr_segments.axioms(1) [OF assms])
next
  fix v assume "option_valid valid v"
  then show "appends (segments_option seg v) (option_wire wire v)"
    using appends_and_then [OF appends_control appends_ok, of encode_bool False "bool_wire False"]
    by (cases v) (auto simp: segments_option_def option_wire_def option_valid_def bool_codec.encode_wire
        intro!: appends_and_then appends_control xdr_segments.segments_append [OF assms])
qed

lemma xdr_segments_array:
  assumes "xdr_segments enc dec valid wire seg"
  shows "xdr_segments (encode_array False enc) (decode_array False n dec)
           (\<lambda>xs. length xs = n \<and> list_all valid xs) (\<lambda>xs. concat (map wire xs)) (segments_array False enc seg)"
  using xdr_codec_array [OF xdr_segments.axioms(1) [OF assms]]
  by (auto simp: xdr_segments_def xdr_segments_axioms_def segments_array_def list_all_iff
      intro!: appends_for_each xdr_segments.segments_append [OF assms])

interpretation bytes_segs: xdr_segments encode_bytes decode_bytes opaque_valid opaque_wire segments_bytes
  by unfold_locales (simp add: segments_bytes_def opaque_valid_def encode_opaque_appends)

interpretation string_segs: xdr_segments encode_string decode_string string_valid opaque_wire "encode_control encode_string"
  by (rule xdr_segments_control) (rule string_codec.xdr_codec_axioms)

interpretation u32_segs: xdr_segments encode_u32 decode_u32 "\<lambda>_. True" u32_to_be "encode_control encode_u32"
  by (rule xdr_segments_control) (rule u32_codec.xdr_codec_axioms)

section \<open>Bounds\<close>

lemma checked_len_err:
  assumes "min maxlen u32_max < length (concat segs)"
  shows "\<exists>n. checked_len maxlen segs = Inl (LengthLimit n (min maxlen u32_max))"
proof -
  have "min maxlen u32_max < usize_max" by (rule min.strict_coboundedI2) simp
  with assms show ?thesis
    unfolding checked_len_def using checked_len_from_err [of "min maxlen u32_max" 0 segs] by auto
qed

lemma checked_len_Inr: "checked_len maxlen segs = Inr n \<Longrightarrow> length (concat segs) \<le> min maxlen u32_max"
  using checked_len_err [of maxlen segs] by (cases "min maxlen u32_max < length (concat segs)") auto

lemma decode_opaque_length_wire:
  "length body \<le> u32_max \<Longrightarrow> decode_opaque_length maxlen (opaque_wire body @ rest) =
     (let rest' = body @ replicate (xdr_padding (length body)) 0 @ rest
      in if length body > maxlen then (Inl (LengthLimit (length body) maxlen), rest') else (Inr (length body), rest'))"
  by (simp add: decode_opaque_length_def opaque_wire_def u32_codec.decode_wire unat_of_nat_u32)

lemma opaque_segments_decode_wire:
  "length body \<le> maxlen \<Longrightarrow> length body \<le> u32_max \<Longrightarrow>
   opaque_segments_decode_xdr maxlen (opaque_wire body @ rest) = (Inr [body], rest)"
  by (simp add: opaque_segments_decode_xdr_def decode_opaque_length_wire Let_def opaque_segments_from_bytes_def
      bytes_codec.decode_wire opaque_valid_def)

section \<open>Properties\<close>

text \<open>
  Segmented encoding refines contiguous encoding: for a vector whose elements keep the
  segment contract, the segments joined in order are exactly the bytes \<^verbatim>\<open>to_xdr_bytes\<close>
  gives, and no segment is empty.
\<close>
theorem segments_vec_refines:
  assumes "xdr_segments enc dec valid wire seg" and "vec_valid valid xs"
  shows "\<exists>segs. to_xdr_segments (segments_vec seg) xs = Inr segs \<and>
           to_xdr_bytes (encode_vec enc) xs = Inr (concat segs) \<and> [] \<notin> set segs"
proof -
  have vec: "xdr_segments (encode_vec enc) (decode_vec dec) (vec_valid valid) (vec_wire wire) (segments_vec seg)"
    by (rule xdr_segments_vec [OF assms(1)])
  from xdr_segments.to_segments [OF vec assms(2)] xdr_codec.to_bytes [OF xdr_segments.axioms(1) [OF vec] assms(2)]
  show ?thesis by auto
qed

theorem segments_vec_refines_witness:
  "\<exists>segs. to_xdr_segments (segments_vec segments_bytes) [[1, 2, 3], [4]] = Inr segs \<and>
     to_xdr_bytes (encode_vec encode_bytes) [[1, 2, 3], [4]] = Inr (concat segs) \<and> [] \<notin> set segs"
  using segments_vec_refines [OF bytes_segs.xdr_segments_axioms, of "[[1, 2, 3], [4]]"]
  by (simp add: vec_valid_def opaque_valid_def u32_max_def)

text \<open>
  What \<^verbatim>\<open>OpaqueSegments::try_new\<close> accepts fits the declared bound and 32 bits; its
  segmented and contiguous encodings agree, with one length and one padding for all owners
  together, and decoding under the same bound returns the joined body.
\<close>
theorem opaque_segments_roundtrip:
  assumes "opaque_segments_try_new maxlen segs = Inr v"
  shows "v = segs \<and> length (concat segs) \<le> min maxlen u32_max \<and>
    (\<exists>ss. to_xdr_segments (encode_opaque_segments maxlen) v = Inr ss \<and>
     to_xdr_bytes (opaque_segments_encode_xdr maxlen) v = Inr (concat ss) \<and>
     from_xdr_bytes (opaque_segments_decode_xdr maxlen) (concat ss) = Inr [concat segs])"
proof -
  from assms have v: "v = segs" and fits: "length (concat segs) \<le> min maxlen u32_max"
    by (auto simp: opaque_segments_try_new_def result_bind_def simp del: min.bounded_iff
        split: sum.splits dest: checked_len_Inr)
  then have len: "length (concat segs) \<le> maxlen" "length (concat segs) \<le> u32_max" by auto
  from appendsD [OF encode_opaque_segments_appends [OF len], of new_encoder] obtain se where
    se: "encode_opaque_segments maxlen segs new_encoder = (Inr (), se)" "flat se = opaque_wire (concat segs)"
    by (auto simp: new_encoder_def flat_def)
  then have "to_xdr_segments (encode_opaque_segments maxlen) segs = Inr (finish se)"
    and "to_xdr_bytes (opaque_segments_encode_xdr maxlen) segs = Inr (concat (finish se))"
    and "from_xdr_bytes (opaque_segments_decode_xdr maxlen) (concat (finish se)) = Inr [concat segs]"
    using opaque_segments_decode_wire [OF len, of "[]"]
    by (simp_all add: to_xdr_segments_def to_xdr_bytes_def from_xdr_bytes_def opaque_segments_encode_wire [OF len])
  with v fits show ?thesis by blast
qed

theorem opaque_segments_roundtrip_witness:
  "\<exists>ss. to_xdr_segments (encode_opaque_segments 5) [[1, 2, 3], [4, 5]] = Inr ss \<and>
     to_xdr_bytes (opaque_segments_encode_xdr 5) [[1, 2, 3], [4, 5]] = Inr (concat ss) \<and>
     from_xdr_bytes (opaque_segments_decode_xdr 5) (concat ss) = Inr [[1, 2, 3, 4, 5]]"
  using opaque_segments_roundtrip [of 5 "[[1, 2, 3], [4, 5]]"]
  by (simp add: opaque_segments_try_new_def checked_len_def checked_add_def u32_max_def usize_max_def)



end
