(* ===== verification/Rpc_Wire.thy ===== *)
theory Rpc_Wire
  imports Xdr_Codec
begin

text \<open>
  The crate \<^verbatim>\<open>onc-rpc-wire\<close>, file \<^verbatim>\<open>src/crates/onc-rpc-wire/src/lib.rs\<close>: RPC messages,
  authentication envelopes, record markers and record fragmentation. Decoding is shown to be
  the exact inverse of encoding, and fragmentation the inverse of reassembly; the contract
  of a reassembler is the locale \<open>record_source\<close>.
\<close>

section \<open>Constants and headers\<close>

definition RPC_VERSION_2 :: u32 where "RPC_VERSION_2 = 2"

definition MAX_AUTH_BYTES :: nat where "MAX_AUTH_BYTES = 400"

definition MAX_FRAGMENT_LEN :: u32 where "MAX_FRAGMENT_LEN = 0x7fffffff"

datatype xid = Xid (xid_number: u32)

record program_version =
  pv_program :: u32
  pv_version :: u32

datatype rpc_procedure = Procedure (procedure_number: u32)

record version_range =
  range_low :: u32
  range_high :: u32

datatype wire_error =
    WUnexpectedEof nat nat
  | FragmentLengthTooLarge u32
  | ZeroFragmentLength
  | UnsupportedRpcVersion u32
  | InvalidMessageType u32
  | InvalidReplyStat u32
  | InvalidAcceptStat u32
  | InvalidRejectStat u32
  | AuthBodyTooLong nat
  | NonZeroXdrPadding
  | WTrailingBytes nat

type_synonym 'a wire_reader = "(bytes, wire_error, 'a) action"
type_synonym wire_writer = "(bytes, wire_error, unit) action"

section \<open>Authentication flavors\<close>

datatype auth_flavor = FlavorNone | FlavorSys | FlavorShort | FlavorDh | FlavorRpcSecGss | FlavorUnknown u32

fun auth_flavor_number :: "auth_flavor \<Rightarrow> u32" where
  "auth_flavor_number FlavorNone = 0"
| "auth_flavor_number FlavorSys = 1"
| "auth_flavor_number FlavorShort = 2"
| "auth_flavor_number FlavorDh = 3"
| "auth_flavor_number FlavorRpcSecGss = 6"
| "auth_flavor_number (FlavorUnknown value) = value"

definition auth_flavor_from :: "u32 \<Rightarrow> auth_flavor" where
  "auth_flavor_from value =
     (if value = 0 then FlavorNone else if value = 1 then FlavorSys else if value = 2 then FlavorShort
      else if value = 3 then FlavorDh else if value = 6 then FlavorRpcSecGss else FlavorUnknown value)"

record opaque_auth =
  oa_flavor :: auth_flavor
  oa_body :: bytes

section \<open>Reading and writing\<close>

definition wire_read_u32 :: "u32 wire_reader" where
  "wire_read_u32 input = (if length input < 4 then (Inl (WUnexpectedEof 4 (length input)), input) else get_u32 input)"

definition wire_xdr_padding :: "nat \<Rightarrow> nat" where
  "wire_xdr_padding len = (4 - len mod 4) mod 4"

definition wire_read_opaque :: "nat \<Rightarrow> bytes wire_reader" where
  "wire_read_opaque len input =
     (if length input < len then (Inl (WUnexpectedEof len (length input)), input)
      else let body = take len input; input' = drop len input; padding = wire_xdr_padding len
           in if length input' < padding then (Inl (WUnexpectedEof padding (length input')), input')
              else if list_ex (\<lambda>b. b \<noteq> 0) (take padding input') then (Inl NonZeroXdrPadding, input')
              else (Inr body, drop padding input'))"

definition wire_pad_to_xdr_alignment :: "nat \<Rightarrow> wire_writer" where
  "wire_pad_to_xdr_alignment len output = (Inr (), output @ replicate (wire_xdr_padding len) 0)"

definition validate_auth_len :: "nat \<Rightarrow> wire_error + unit" where
  "validate_auth_len len = (if len > MAX_AUTH_BYTES then Inl (AuthBodyTooLong len) else Inr ())"

definition expect_end :: "'a \<Rightarrow> 'a wire_reader" where
  "expect_end value input = (if input = [] then (Inr value, input) else (Inl (WTrailingBytes (length input)), input))"

definition take_rest :: "bytes wire_reader" where
  "take_rest input = (Inr input, [])"

definition opaque_auth_new :: "auth_flavor \<Rightarrow> bytes \<Rightarrow> wire_error + opaque_auth" where
  "opaque_auth_new flavor body =
     result_bind (validate_auth_len (length body)) (\<lambda>_. Inr \<lparr>oa_flavor = flavor, oa_body = body\<rparr>)"

definition opaque_auth_none :: opaque_auth where
  "opaque_auth_none = \<lparr>oa_flavor = FlavorNone, oa_body = []\<rparr>"

definition opaque_auth_encode_into :: "opaque_auth \<Rightarrow> wire_writer" where
  "opaque_auth_encode_into self =
     and_then (lift_result (validate_auth_len (length (oa_body self)))) (\<lambda>_.
     and_then (put_u32 (auth_flavor_number (oa_flavor self))) (\<lambda>_.
     and_then (put_u32 (of_nat (length (oa_body self)))) (\<lambda>_.
     and_then (extend_from_slice (oa_body self)) (\<lambda>_.
     wire_pad_to_xdr_alignment (length (oa_body self))))))"

definition opaque_auth_decode :: "opaque_auth wire_reader" where
  "opaque_auth_decode =
     and_then wire_read_u32 (\<lambda>flavor.
     and_then wire_read_u32 (\<lambda>body_len.
     and_then (lift_result (validate_auth_len (unat body_len))) (\<lambda>_.
     and_then (wire_read_opaque (unat body_len)) (\<lambda>body.
     ok \<lparr>oa_flavor = auth_flavor_from flavor, oa_body = body\<rparr>))))"

section \<open>Discriminants\<close>

datatype message_type = MtCall | MtReply

fun message_type_number :: "message_type \<Rightarrow> u32" where
  "message_type_number MtCall = 0"
| "message_type_number MtReply = 1"

definition message_type_try_from :: "u32 \<Rightarrow> wire_error + message_type" where
  "message_type_try_from value =
     (if value = 0 then Inr MtCall else if value = 1 then Inr MtReply else Inl (InvalidMessageType value))"

datatype reply_stat = MessageAccepted | MessageDenied

fun reply_stat_number :: "reply_stat \<Rightarrow> u32" where
  "reply_stat_number MessageAccepted = 0"
| "reply_stat_number MessageDenied = 1"

definition reply_stat_try_from :: "u32 \<Rightarrow> wire_error + reply_stat" where
  "reply_stat_try_from value =
     (if value = 0 then Inr MessageAccepted else if value = 1 then Inr MessageDenied else Inl (InvalidReplyStat value))"

datatype accept_stat = AsSuccess | AsProgramUnavailable | AsProgramMismatch | AsProcedureUnavailable
  | AsGarbageArgs | AsSystemError

fun accept_stat_number :: "accept_stat \<Rightarrow> u32" where
  "accept_stat_number AsSuccess = 0"
| "accept_stat_number AsProgramUnavailable = 1"
| "accept_stat_number AsProgramMismatch = 2"
| "accept_stat_number AsProcedureUnavailable = 3"
| "accept_stat_number AsGarbageArgs = 4"
| "accept_stat_number AsSystemError = 5"

definition accept_stat_try_from :: "u32 \<Rightarrow> wire_error + accept_stat" where
  "accept_stat_try_from value =
     (if value = 0 then Inr AsSuccess else if value = 1 then Inr AsProgramUnavailable
      else if value = 2 then Inr AsProgramMismatch else if value = 3 then Inr AsProcedureUnavailable
      else if value = 4 then Inr AsGarbageArgs else if value = 5 then Inr AsSystemError
      else Inl (InvalidAcceptStat value))"

datatype reject_stat = RsRpcMismatch | RsAuthError

fun reject_stat_number :: "reject_stat \<Rightarrow> u32" where
  "reject_stat_number RsRpcMismatch = 0"
| "reject_stat_number RsAuthError = 1"

definition reject_stat_try_from :: "u32 \<Rightarrow> wire_error + reject_stat" where
  "reject_stat_try_from value =
     (if value = 0 then Inr RsRpcMismatch else if value = 1 then Inr RsAuthError else Inl (InvalidRejectStat value))"

datatype auth_stat = AuthOk | BadCred | RejectedCred | BadVerf | RejectedVerf | TooWeak | InvalidResp | AuthFailed
  | KerbGeneric | TimeExpire | TicketFile | AuthDecode | NetAddr | RpcSecGssCredProblem | RpcSecGssCtxProblem
  | AuthStatUnknown u32

fun auth_stat_number :: "auth_stat \<Rightarrow> u32" where
  "auth_stat_number AuthOk = 0"
| "auth_stat_number BadCred = 1"
| "auth_stat_number RejectedCred = 2"
| "auth_stat_number BadVerf = 3"
| "auth_stat_number RejectedVerf = 4"
| "auth_stat_number TooWeak = 5"
| "auth_stat_number InvalidResp = 6"
| "auth_stat_number AuthFailed = 7"
| "auth_stat_number KerbGeneric = 8"
| "auth_stat_number TimeExpire = 9"
| "auth_stat_number TicketFile = 10"
| "auth_stat_number AuthDecode = 11"
| "auth_stat_number NetAddr = 12"
| "auth_stat_number RpcSecGssCredProblem = 13"
| "auth_stat_number RpcSecGssCtxProblem = 14"
| "auth_stat_number (AuthStatUnknown value) = value"

definition auth_stat_from :: "u32 \<Rightarrow> auth_stat" where
  "auth_stat_from value =
     (if value = 0 then AuthOk else if value = 1 then BadCred else if value = 2 then RejectedCred
      else if value = 3 then BadVerf else if value = 4 then RejectedVerf else if value = 5 then TooWeak
      else if value = 6 then InvalidResp else if value = 7 then AuthFailed else if value = 8 then KerbGeneric
      else if value = 9 then TimeExpire else if value = 10 then TicketFile else if value = 11 then AuthDecode
      else if value = 12 then NetAddr else if value = 13 then RpcSecGssCredProblem
      else if value = 14 then RpcSecGssCtxProblem else AuthStatUnknown value)"

section \<open>Messages\<close>

record call_body =
  cb_rpc_version :: u32
  cb_program :: program_version
  cb_procedure :: rpc_procedure
  cb_credentials :: opaque_auth
  cb_verifier :: opaque_auth
  cb_payload :: bytes

definition call_body_new :: "program_version \<Rightarrow> rpc_procedure \<Rightarrow> opaque_auth \<Rightarrow> opaque_auth \<Rightarrow> bytes \<Rightarrow> call_body" where
  "call_body_new program procedure credentials verifier payload =
     \<lparr>cb_rpc_version = RPC_VERSION_2, cb_program = program, cb_procedure = procedure,
      cb_credentials = credentials, cb_verifier = verifier, cb_payload = payload\<rparr>"

datatype accepted_status = Success bytes | ProgramUnavailable | ProgramMismatch version_range
  | ProcedureUnavailable | GarbageArgs | SystemError

record accepted_reply =
  ar_verifier :: opaque_auth
  ar_status :: accepted_status

datatype rejected_reply = RpcMismatch version_range | AuthError auth_stat

datatype reply_body = Accepted accepted_reply | Denied rejected_reply

datatype message_body = Call call_body | Reply reply_body

record rpc_message =
  msg_xid :: xid
  msg_body :: message_body

fun encode_accepted_status :: "accepted_status \<Rightarrow> wire_writer" where
  "encode_accepted_status (Success results) =
     and_then (put_u32 (accept_stat_number AsSuccess)) (\<lambda>_. extend_from_slice results)"
| "encode_accepted_status ProgramUnavailable = put_u32 (accept_stat_number AsProgramUnavailable)"
| "encode_accepted_status (ProgramMismatch vr) =
     and_then (put_u32 (accept_stat_number AsProgramMismatch)) (\<lambda>_.
     and_then (put_u32 (range_low vr)) (\<lambda>_. put_u32 (range_high vr)))"
| "encode_accepted_status ProcedureUnavailable = put_u32 (accept_stat_number AsProcedureUnavailable)"
| "encode_accepted_status GarbageArgs = put_u32 (accept_stat_number AsGarbageArgs)"
| "encode_accepted_status SystemError = put_u32 (accept_stat_number AsSystemError)"

fun encode_rejected :: "rejected_reply \<Rightarrow> wire_writer" where
  "encode_rejected (RpcMismatch vr) =
     and_then (put_u32 (reject_stat_number RsRpcMismatch)) (\<lambda>_.
     and_then (put_u32 (range_low vr)) (\<lambda>_. put_u32 (range_high vr)))"
| "encode_rejected (AuthError status) =
     and_then (put_u32 (reject_stat_number RsAuthError)) (\<lambda>_. put_u32 (auth_stat_number status))"

fun encode_reply_body :: "reply_body \<Rightarrow> wire_writer" where
  "encode_reply_body (Accepted accepted) =
     and_then (put_u32 (reply_stat_number MessageAccepted)) (\<lambda>_.
     and_then (opaque_auth_encode_into (ar_verifier accepted)) (\<lambda>_.
     encode_accepted_status (ar_status accepted)))"
| "encode_reply_body (Denied rejected) =
     and_then (put_u32 (reply_stat_number MessageDenied)) (\<lambda>_. encode_rejected rejected)"

fun encode_message_body :: "message_body \<Rightarrow> wire_writer" where
  "encode_message_body (Call call) =
     and_then (put_u32 (message_type_number MtCall)) (\<lambda>_.
     and_then (put_u32 (cb_rpc_version call)) (\<lambda>_.
     and_then (put_u32 (pv_program (cb_program call))) (\<lambda>_.
     and_then (put_u32 (pv_version (cb_program call))) (\<lambda>_.
     and_then (put_u32 (procedure_number (cb_procedure call))) (\<lambda>_.
     and_then (opaque_auth_encode_into (cb_credentials call)) (\<lambda>_.
     and_then (opaque_auth_encode_into (cb_verifier call)) (\<lambda>_.
     extend_from_slice (cb_payload call))))))))"
| "encode_message_body (Reply reply) =
     and_then (put_u32 (message_type_number MtReply)) (\<lambda>_. encode_reply_body reply)"

definition rpc_message_encode :: "rpc_message \<Rightarrow> wire_error + bytes" where
  "rpc_message_encode self =
     (case and_then (put_u32 (xid_number (msg_xid self))) (\<lambda>_. encode_message_body (msg_body self)) [] of
       (Inl e, _) \<Rightarrow> Inl e
     | (Inr _, output) \<Rightarrow> Inr output)"

definition decode_call_body :: "call_body wire_reader" where
  "decode_call_body =
     and_then wire_read_u32 (\<lambda>rpc_version.
     if rpc_version \<noteq> RPC_VERSION_2 then err (UnsupportedRpcVersion rpc_version) else
     and_then wire_read_u32 (\<lambda>program.
     and_then wire_read_u32 (\<lambda>version.
     and_then wire_read_u32 (\<lambda>procedure.
     and_then opaque_auth_decode (\<lambda>credentials.
     and_then opaque_auth_decode (\<lambda>verifier.
     and_then take_rest (\<lambda>payload.
     ok \<lparr>cb_rpc_version = rpc_version, cb_program = \<lparr>pv_program = program, pv_version = version\<rparr>,
         cb_procedure = Procedure procedure, cb_credentials = credentials, cb_verifier = verifier,
         cb_payload = payload\<rparr>)))))))"

definition decode_range :: "version_range wire_reader" where
  "decode_range = and_then wire_read_u32 (\<lambda>low. and_then wire_read_u32 (\<lambda>high.
     ok \<lparr>range_low = low, range_high = high\<rparr>))"

definition decode_accepted_status :: "accept_stat \<Rightarrow> accepted_status wire_reader" where
  "decode_accepted_status stat = (case stat of
       AsSuccess \<Rightarrow> and_then take_rest (\<lambda>payload. ok (Success payload))
     | AsProgramUnavailable \<Rightarrow> expect_end ProgramUnavailable
     | AsProgramMismatch \<Rightarrow> and_then decode_range (\<lambda>vr. expect_end (ProgramMismatch vr))
     | AsProcedureUnavailable \<Rightarrow> expect_end ProcedureUnavailable
     | AsGarbageArgs \<Rightarrow> expect_end GarbageArgs
     | AsSystemError \<Rightarrow> expect_end SystemError)"

definition decode_accepted_reply :: "accepted_reply wire_reader" where
  "decode_accepted_reply =
     and_then opaque_auth_decode (\<lambda>verifier.
     and_then wire_read_u32 (\<lambda>word.
     and_then (lift_result (accept_stat_try_from word)) (\<lambda>stat.
     and_then (decode_accepted_status stat) (\<lambda>status.
     ok \<lparr>ar_verifier = verifier, ar_status = status\<rparr>))))"

definition decode_rejected_reply :: "rejected_reply wire_reader" where
  "decode_rejected_reply =
     and_then wire_read_u32 (\<lambda>word.
     and_then (lift_result (reject_stat_try_from word)) (\<lambda>stat.
     case stat of
       RsRpcMismatch \<Rightarrow> and_then decode_range (\<lambda>vr. expect_end (RpcMismatch vr))
     | RsAuthError \<Rightarrow> and_then wire_read_u32 (\<lambda>status. expect_end (AuthError (auth_stat_from status)))))"

definition decode_reply_body :: "reply_body wire_reader" where
  "decode_reply_body =
     and_then wire_read_u32 (\<lambda>word.
     and_then (lift_result (reply_stat_try_from word)) (\<lambda>stat.
     case stat of
       MessageAccepted \<Rightarrow> and_then decode_accepted_reply (\<lambda>reply. ok (Accepted reply))
     | MessageDenied \<Rightarrow> and_then decode_rejected_reply (\<lambda>reply. ok (Denied reply))))"

definition read_message :: "rpc_message wire_reader" where
  "read_message =
     and_then wire_read_u32 (\<lambda>xid.
     and_then wire_read_u32 (\<lambda>word.
     and_then (lift_result (message_type_try_from word)) (\<lambda>message_type.
     and_then (case message_type of
         MtCall \<Rightarrow> and_then decode_call_body (\<lambda>call. ok (Call call))
       | MtReply \<Rightarrow> and_then decode_reply_body (\<lambda>reply. ok (Reply reply))) (\<lambda>body.
     ok \<lparr>msg_xid = Xid xid, msg_body = body\<rparr>))))"

definition rpc_message_decode :: "bytes \<Rightarrow> wire_error + rpc_message" where
  "rpc_message_decode input = fst (read_message input)"

section \<open>Record marking\<close>

record record_marker =
  last_fragment :: bool
  payload_len :: u32

definition record_marker_new :: "u32 \<Rightarrow> bool \<Rightarrow> wire_error + record_marker" where
  "record_marker_new len is_last = (if len > MAX_FRAGMENT_LEN then Inl (FragmentLengthTooLarge len)
     else Inr \<lparr>last_fragment = is_last, payload_len = len\<rparr>)"

definition record_marker_encode :: "record_marker \<Rightarrow> u32" where
  "record_marker_encode self =
     (let final_fragment = (if last_fragment self then push_bit 31 1 else 0) in final_fragment OR payload_len self)"

definition record_marker_encode_bytes :: "record_marker \<Rightarrow> bytes" where
  "record_marker_encode_bytes self = u32_to_be (record_marker_encode self)"

definition record_marker_decode :: "u32 \<Rightarrow> record_marker" where
  "record_marker_decode word =
     \<lparr>last_fragment = (word AND push_bit 31 1 \<noteq> 0), payload_len = word AND MAX_FRAGMENT_LEN\<rparr>"

definition record_marker_decode_bytes :: "bytes \<Rightarrow> record_marker" where
  "record_marker_decode_bytes header = record_marker_decode (be_to_u32 header)"

datatype record_read = Incomplete | Complete (record_data: bytes) (record_consumed: nat) (record_fragments: nat)

text \<open>\<^verbatim>\<open>slice::chunks\<close> and \<^verbatim>\<open>usize::div_ceil\<close> of the standard library.\<close>

function chunks :: "nat \<Rightarrow> 'a list \<Rightarrow> 'a list list" where
  "chunks n xs = (if n = 0 \<or> xs = [] then [] else take n xs # chunks n (drop n xs))"
  by pat_completeness auto
termination
  by (relation "measure (\<lambda>(n, xs). length xs)") auto

declare chunks.simps [simp del]

definition div_ceil :: "nat \<Rightarrow> nat \<Rightarrow> nat" where
  "div_ceil a b = (if a mod b > 0 then a div b + 1 else a div b)"

fun fragment_chunks :: "nat \<Rightarrow> nat \<Rightarrow> bytes list \<Rightarrow> wire_error + bytes list" where
  "fragment_chunks idx fragment_count [] = Inr []"
| "fragment_chunks idx fragment_count (chunk # rest) =
     result_bind (record_marker_new (of_nat (length chunk)) (idx + 1 = fragment_count)) (\<lambda>marker.
     result_bind (fragment_chunks (idx + 1) fragment_count rest) (\<lambda>fragments.
     Inr ((record_marker_encode_bytes marker @ chunk) # fragments)))"

definition fragment_record :: "bytes \<Rightarrow> u32 \<Rightarrow> wire_error + bytes list" where
  "fragment_record data max_fragment_len =
     (if max_fragment_len = 0 then Inl ZeroFragmentLength
      else if max_fragment_len > MAX_FRAGMENT_LEN then Inl (FragmentLengthTooLarge max_fragment_len)
      else let chunk_len = unat max_fragment_len;
               fragment_count = max (div_ceil (length data) chunk_len) 1
           in if data = [] then result_bind (record_marker_new 0 True) (\<lambda>marker. Inr [record_marker_encode_bytes marker])
              else fragment_chunks 0 fragment_count (chunks chunk_len data))"

function read_record_loop :: "bytes \<Rightarrow> nat \<Rightarrow> nat \<Rightarrow> bytes \<Rightarrow> wire_error + record_read" where
  "read_record_loop input offset fragments rec =
     (let remaining = drop offset input
      in if remaining = [] \<and> fragments = 0 then Inr Incomplete
         else if length remaining < 4 then Inr Incomplete
         else let marker = record_marker_decode_bytes (take 4 remaining);
                  fragment_len = unat (payload_len marker);
                  fragment_end = 4 + fragment_len
              in if length remaining < fragment_end then Inr Incomplete
                 else let rec' = rec @ take fragment_len (drop 4 remaining)
                      in if last_fragment marker then Inr (Complete rec' (offset + fragment_end) (fragments + 1))
                         else read_record_loop input (offset + fragment_end) (fragments + 1) rec')"
  by pat_completeness auto
termination
  by (relation "measure (\<lambda>(input, offset, fragments, rec). length input - offset)") (auto simp: Let_def)

declare read_record_loop.simps [simp del]

definition read_record :: "bytes \<Rightarrow> wire_error + record_read" where
  "read_record input = read_record_loop input 0 0 []"


section \<open>Discriminants are read back exactly\<close>

text \<open>A closed enumeration: a fallible conversion accepts exactly the numbers of its variants.\<close>

locale discriminant =
  fixes number :: "'a \<Rightarrow> u32"
    and try_from :: "u32 \<Rightarrow> wire_error + 'a"
  assumes try_from_Inr: "try_from w = Inr t \<longleftrightarrow> w = number t"
begin

lemma roundtrip [simp]: "try_from (number t) = Inr t"
  by (simp add: try_from_Inr)

lemma number_inj: "number s = number t \<longleftrightarrow> s = t"
  by (metis roundtrip sum.inject(2))

end

text \<open>An open enumeration: every number converts, and converting back gives the number.\<close>

locale open_enumeration =
  fixes number :: "'a \<Rightarrow> u32"
    and of_number :: "u32 \<Rightarrow> 'a"
  assumes number_of [simp]: "number (of_number w) = w"
begin

lemma of_number_eq: "of_number w = t \<longleftrightarrow> w = number t \<and> of_number (number t) = t"
  by auto

lemma ex_of_number: "(\<exists>w. P w \<and> of_number w = t) \<longleftrightarrow> P (number t) \<and> of_number (number t) = t"
  by auto

end

interpretation message_type: discriminant message_type_number message_type_try_from
  by unfold_locales (case_tac t; auto simp: message_type_try_from_def)

interpretation reply_stat: discriminant reply_stat_number reply_stat_try_from
  by unfold_locales (case_tac t; auto simp: reply_stat_try_from_def)

interpretation accept_stat: discriminant accept_stat_number accept_stat_try_from
  by unfold_locales (case_tac t; auto simp: accept_stat_try_from_def)

interpretation reject_stat: discriminant reject_stat_number reject_stat_try_from
  by unfold_locales (case_tac t; auto simp: reject_stat_try_from_def)

interpretation auth_flavor: open_enumeration auth_flavor_number auth_flavor_from
  by unfold_locales (simp add: auth_flavor_from_def)

interpretation auth_stat: open_enumeration auth_stat_number auth_stat_from
  by unfold_locales (simp add: auth_stat_from_def)

lemmas try_from_Inr = message_type.try_from_Inr reply_stat.try_from_Inr accept_stat.try_from_Inr
  reject_stat.try_from_Inr

section \<open>The message layout of RFC 5531\<close>

definition auth_wire :: "opaque_auth \<Rightarrow> bytes" where
  "auth_wire a = u32_to_be (auth_flavor_number (oa_flavor a)) @ opaque_wire (oa_body a)"

definition range_wire :: "version_range \<Rightarrow> bytes" where
  "range_wire vr = u32_to_be (range_low vr) @ u32_to_be (range_high vr)"

fun status_wire :: "accepted_status \<Rightarrow> bytes" where
  "status_wire (Success results) = u32_to_be 0 @ results"
| "status_wire ProgramUnavailable = u32_to_be 1"
| "status_wire (ProgramMismatch vr) = u32_to_be 2 @ range_wire vr"
| "status_wire ProcedureUnavailable = u32_to_be 3"
| "status_wire GarbageArgs = u32_to_be 4"
| "status_wire SystemError = u32_to_be 5"

fun rejected_wire :: "rejected_reply \<Rightarrow> bytes" where
  "rejected_wire (RpcMismatch vr) = u32_to_be 0 @ range_wire vr"
| "rejected_wire (AuthError status) = u32_to_be 1 @ u32_to_be (auth_stat_number status)"

fun reply_wire :: "reply_body \<Rightarrow> bytes" where
  "reply_wire (Accepted r) = u32_to_be 0 @ auth_wire (ar_verifier r) @ status_wire (ar_status r)"
| "reply_wire (Denied r) = u32_to_be 1 @ rejected_wire r"

definition call_wire :: "call_body \<Rightarrow> bytes" where
  "call_wire c = u32_to_be (cb_rpc_version c) @ u32_to_be (pv_program (cb_program c)) @
     u32_to_be (pv_version (cb_program c)) @ u32_to_be (procedure_number (cb_procedure c)) @
     auth_wire (cb_credentials c) @ auth_wire (cb_verifier c) @ cb_payload c"

fun body_wire :: "message_body \<Rightarrow> bytes" where
  "body_wire (Call c) = u32_to_be 0 @ call_wire c"
| "body_wire (Reply r) = u32_to_be 1 @ reply_wire r"

definition message_wire :: "rpc_message \<Rightarrow> bytes" where
  "message_wire m = u32_to_be (xid_number (msg_xid m)) @ body_wire (msg_body m)"

fun message_auths :: "message_body \<Rightarrow> opaque_auth list" where
  "message_auths (Call c) = [cb_credentials c, cb_verifier c]"
| "message_auths (Reply (Accepted r)) = [ar_verifier r]"
| "message_auths (Reply (Denied r)) = []"

definition auth_fits :: "opaque_auth \<Rightarrow> bool" where
  "auth_fits a \<longleftrightarrow> length (oa_body a) \<le> MAX_AUTH_BYTES"

definition auth_canonical :: "opaque_auth \<Rightarrow> bool" where
  "auth_canonical a \<longleftrightarrow> auth_flavor_from (auth_flavor_number (oa_flavor a)) = oa_flavor a"

text \<open>The messages a peer can send: no variant stands in for another's number, and calls are version 2.\<close>

fun wf_body :: "message_body \<Rightarrow> bool" where
  "wf_body (Call c) \<longleftrightarrow> cb_rpc_version c = RPC_VERSION_2 \<and> list_all auth_canonical [cb_credentials c, cb_verifier c]"
| "wf_body (Reply (Accepted r)) \<longleftrightarrow> auth_canonical (ar_verifier r)"
| "wf_body (Reply (Denied (RpcMismatch vr))) \<longleftrightarrow> True"
| "wf_body (Reply (Denied (AuthError status))) \<longleftrightarrow> auth_stat_from (auth_stat_number status) = status"

definition wf_message :: "rpc_message \<Rightarrow> bool" where
  "wf_message m \<longleftrightarrow> wf_body (msg_body m)"

section \<open>Encoding\<close>

lemma wire_xdr_padding_eq: "wire_xdr_padding = xdr_padding"
  by (auto simp: wire_xdr_padding_def xdr_padding_def)

lemma wire_put [simp]: "put_u32 w out = (Inr (), out @ u32_to_be w)" "extend_from_slice bs out = (Inr (), out @ bs)"
  by (simp_all add: put_u32_def extend_from_slice_def)

lemma auth_encode:
  "opaque_auth_encode_into a out = (if auth_fits a then (Inr (), out @ auth_wire a)
     else (Inl (AuthBodyTooLong (length (oa_body a))), out))"
  by (auto simp: opaque_auth_encode_into_def auth_fits_def validate_auth_len_def auth_wire_def opaque_wire_def
      wire_pad_to_xdr_alignment_def wire_xdr_padding_eq and_then_def)

lemma status_encode: "encode_accepted_status st out = (Inr (), out @ status_wire st)"
  by (cases st) (auto simp: range_wire_def and_then_def)

lemma rejected_encode: "encode_rejected r out = (Inr (), out @ rejected_wire r)"
  by (cases r) (auto simp: range_wire_def and_then_def)

lemma find_None_iff_list_all: "find (\<lambda>a. \<not> P a) xs = None \<longleftrightarrow> list_all P xs"
  by (auto simp: find_None_iff list_all_iff)

lemma body_encode_ok:
  "list_all auth_fits (message_auths b) \<Longrightarrow> encode_message_body b out = (Inr (), out @ body_wire b)"
  by (cases b rule: message_auths.cases)
     (auto simp: auth_encode status_encode rejected_encode call_wire_def and_then_def)

lemma body_encode_err:
  "find (\<lambda>a. \<not> auth_fits a) (message_auths b) = Some a \<Longrightarrow>
   fst (encode_message_body b out) = Inl (AuthBodyTooLong (length (oa_body a)))"
  by (cases b rule: message_auths.cases)
     (auto simp: auth_encode status_encode rejected_encode and_then_def split: if_splits)

lemma message_encode:
  "rpc_message_encode m = (case find (\<lambda>a. \<not> auth_fits a) (message_auths (msg_body m)) of
      Some a \<Rightarrow> Inl (AuthBodyTooLong (length (oa_body a))) | None \<Rightarrow> Inr (message_wire m))"
proof (cases "find (\<lambda>a. \<not> auth_fits a) (message_auths (msg_body m))")
  case None
  then have "list_all auth_fits (message_auths (msg_body m))"
    by (simp add: find_None_iff_list_all)
  with None show ?thesis
    by (simp add: rpc_message_encode_def message_wire_def body_encode_ok)
next
  case (Some a)
  from body_encode_err [OF this, of "u32_to_be (xid_number (msg_xid m))"] Some show ?thesis
    by (auto simp: rpc_message_encode_def split: prod.splits)
qed

lemma message_encode_Inr:
  "rpc_message_encode m = Inr bs \<longleftrightarrow> list_all auth_fits (message_auths (msg_body m)) \<and> bs = message_wire m"
  by (auto simp: message_encode simp flip: find_None_iff_list_all split: option.splits)

section \<open>Decoding\<close>

lemma and_then_Inr_iff:
  "and_then m f s = (Inr y, t) \<longleftrightarrow> (\<exists>x r. m s = (Inr x, r) \<and> f x r = (Inr y, t))"
  by (auto simp: and_then_def split: sum.splits prod.splits)

lemma wire_read_u32_iff: "wire_read_u32 i = (Inr w, r) \<longleftrightarrow> i = u32_to_be w @ r"
  by (auto simp: wire_read_u32_def get_u32_def u32_to_be_to_u32)

lemma validate_auth_len_iff: "validate_auth_len n = Inr u \<longleftrightarrow> n \<le> MAX_AUTH_BYTES"
  by (simp add: validate_auth_len_def)

lemma wire_read_opaque_iff:
  "wire_read_opaque n i = (Inr bs, r) \<longleftrightarrow> length bs = n \<and> i = fixed_opaque_wire bs @ r"
proof
  assume l: "wire_read_opaque n i = (Inr bs, r)"
  then have n: "n \<le> length i" "bs = take n i" "xdr_padding n \<le> length (drop n i)"
    "r = drop (xdr_padding n) (drop n i)" "list_all (\<lambda>b. b = 0) (take (xdr_padding n) (drop n i))"
    by (auto simp: wire_read_opaque_def wire_xdr_padding_eq Let_def list_all_iff list_ex_iff split: if_splits)
  then have "take (xdr_padding n) (drop n i) = replicate (xdr_padding n) 0"
    by (auto simp: list_all_iff intro!: replicate_eqI)
  with n show "length bs = n \<and> i = fixed_opaque_wire bs @ r"
    by (metis append_assoc append_take_drop_id fixed_opaque_wire_def length_take min_absorb2)
next
  assume "length bs = n \<and> i = fixed_opaque_wire bs @ r"
  then show "wire_read_opaque n i = (Inr bs, r)"
    by (auto simp: wire_read_opaque_def fixed_opaque_wire_def wire_xdr_padding_eq Let_def list_ex_iff)
qed

lemma auth_decode_iff:
  "opaque_auth_decode i = (Inr a, r) \<longleftrightarrow> auth_canonical a \<and> auth_fits a \<and> i = auth_wire a @ r"
proof -
  have "opaque_auth_decode i = (Inr a, r) \<longleftrightarrow>
      (\<exists>w n. auth_fits a \<and> length (oa_body a) = unat n \<and> auth_flavor_from w = oa_flavor a \<and>
        i = u32_to_be w @ u32_to_be n @ fixed_opaque_wire (oa_body a) @ r)"
    by (cases a)
       (auto simp: opaque_auth_decode_def and_then_Inr_iff wire_read_u32_iff wire_read_opaque_iff validate_auth_len_iff
        auth_fits_def)
  also have "\<dots> \<longleftrightarrow> auth_canonical a \<and> auth_fits a \<and> i = auth_wire a @ r" (is "?l \<longleftrightarrow> ?r")
  proof
    assume ?l
    then obtain w n where wn: "auth_fits a" "length (oa_body a) = unat (n :: u32)" "auth_flavor_from w = oa_flavor a"
      "i = u32_to_be w @ u32_to_be n @ fixed_opaque_wire (oa_body a) @ r"
      by blast
    from wn(3) have "auth_flavor_number (oa_flavor a) = w" by (metis auth_flavor.number_of)
    with wn show ?r
      by (simp add: auth_canonical_def auth_wire_def opaque_wire_def fixed_opaque_wire_def)
  next
    assume ?r
    then show ?l
      by (intro exI [of _ "auth_flavor_number (oa_flavor a)"] exI [of _ "of_nat (length (oa_body a))"])
         (auto simp: auth_canonical_def auth_fits_def MAX_AUTH_BYTES_def auth_wire_def opaque_wire_def
           fixed_opaque_wire_def unat_of_nat_u32 u32_max_def)
  qed
  finally show ?thesis .
qed

lemma expect_end_iff: "expect_end v i = (Inr x, r) \<longleftrightarrow> i = [] \<and> r = [] \<and> x = v"
  by (auto simp: expect_end_def)

lemma take_rest_iff: "take_rest i = (Inr x, r) \<longleftrightarrow> i = x \<and> r = []"
  by (auto simp: take_rest_def)

lemmas wire_iffs = and_then_Inr_iff wire_read_u32_iff auth_decode_iff expect_end_iff take_rest_iff
  try_from_Inr

lemma range_decode_iff: "decode_range i = (Inr vr, r) \<longleftrightarrow> i = range_wire vr @ r"
  by (cases vr) (auto simp: decode_range_def range_wire_def wire_iffs)

lemma u32_append_inj [simp]: "u32_to_be a @ x = u32_to_be b @ y \<longleftrightarrow> a = b \<and> x = y"
  by simp

lemma u32_append_Nil [simp]: "u32_to_be a = u32_to_be b @ y \<longleftrightarrow> a = b \<and> y = []"
  using u32_append_inj [of a "[]" b y] by auto

lemma status_decode_iff:
  "decode_accepted_status stat i = (Inr st, r) \<longleftrightarrow>
     status_wire st = u32_to_be (accept_stat_number stat) @ i \<and> r = []"
  by (cases stat; cases st)
     (auto simp: decode_accepted_status_def wire_iffs range_decode_iff)

lemma wire_reads [simp]:
  "wire_read_u32 (u32_to_be w @ r) = (Inr w, r)"
  "wire_read_u32 (u32_to_be w) = (Inr w, [])"
  "auth_canonical a \<Longrightarrow> auth_fits a \<Longrightarrow> opaque_auth_decode (auth_wire a @ r) = (Inr a, r)"
  "expect_end v [] = (Inr v, [])" "take_rest r = (Inr r, [])"
  "decode_range (range_wire vr) = (Inr vr, [])"
  by (simp_all add: wire_iffs range_decode_iff)

lemma status_wire_discriminant: "\<exists>stat j. status_wire st = u32_to_be (accept_stat_number stat) @ j"
  by (cases st; simp) (metis accept_stat_number.simps)+

lemma two_variants:
  "x \<noteq> RsRpcMismatch \<longleftrightarrow> x = RsAuthError" "y \<noteq> MessageAccepted \<longleftrightarrow> y = MessageDenied" "z \<noteq> MtCall \<longleftrightarrow> z = MtReply"
  "x \<noteq> RsAuthError \<longleftrightarrow> x = RsRpcMismatch" "y \<noteq> MessageDenied \<longleftrightarrow> y = MessageAccepted" "z \<noteq> MtReply \<longleftrightarrow> z = MtCall"
  by (cases x; cases y; cases z; simp)+

lemma accepted_decode_iff:
  "decode_accepted_reply i = (Inr a, r) \<longleftrightarrow> auth_canonical (ar_verifier a) \<and> auth_fits (ar_verifier a) \<and>
     i = auth_wire (ar_verifier a) @ status_wire (ar_status a) \<and> r = []" (is "?l \<longleftrightarrow> ?r")
proof
  assume ?l
  then show ?r
    by (auto simp: decode_accepted_reply_def wire_iffs status_decode_iff)
next
  assume r: ?r
  obtain stat j where st: "status_wire (ar_status a) = u32_to_be (accept_stat_number stat) @ j"
    using status_wire_discriminant by blast
  then have "decode_accepted_status stat j = (Inr (ar_status a), [])"
    by (simp add: status_decode_iff)
  with r st show ?l
    by (simp add: decode_accepted_reply_def)
qed

lemma rejected_decode_iff:
  "decode_rejected_reply i = (Inr d, r) \<longleftrightarrow> wf_body (Reply (Denied d)) \<and> i = rejected_wire d \<and> r = []" (is "?l \<longleftrightarrow> ?r")
proof
  assume ?l
  then show ?r
    by (auto simp: decode_rejected_reply_def wire_iffs range_decode_iff two_variants split: reject_stat.splits)
next
  assume ?r
  then show ?l
    by (cases d) (auto simp: decode_rejected_reply_def reject_stat_try_from_def)
qed

lemma reply_decode_iff:
  "decode_reply_body i = (Inr b, r) \<longleftrightarrow> wf_body (Reply b) \<and> list_all auth_fits (message_auths (Reply b)) \<and>
     i = reply_wire b \<and> r = []" (is "?l \<longleftrightarrow> ?r")
proof
  assume ?l
  then show ?r
    by (auto simp: decode_reply_body_def wire_iffs rejected_decode_iff accepted_decode_iff two_variants split: reply_stat.splits)
next
  assume r: ?r
  show ?l
  proof (cases b)
    case (Accepted a)
    with r have "decode_accepted_reply (auth_wire (ar_verifier a) @ status_wire (ar_status a)) = (Inr a, [])"
      by (simp add: accepted_decode_iff)
    with r Accepted show ?thesis by (simp add: decode_reply_body_def reply_stat_try_from_def)
  next
    case (Denied d)
    with r have "decode_rejected_reply (rejected_wire d) = (Inr d, [])"
      by (simp add: rejected_decode_iff)
    with r Denied show ?thesis by (simp add: decode_reply_body_def reply_stat_try_from_def)
  qed
qed

lemma call_decode_iff:
  "decode_call_body i = (Inr c, r) \<longleftrightarrow> wf_body (Call c) \<and> list_all auth_fits (message_auths (Call c)) \<and>
     i = call_wire c \<and> r = []" (is "?l \<longleftrightarrow> ?r")
proof
  assume ?l
  then show ?r
    by (auto simp: decode_call_body_def wire_iffs call_wire_def split: if_splits)
next
  assume ?r
  then show ?l
    by (cases "cb_procedure c") (auto simp: decode_call_body_def call_wire_def)
qed

lemma message_decode_iff:
  "rpc_message_decode bs = Inr m \<longleftrightarrow> wf_message m \<and> list_all auth_fits (message_auths (msg_body m)) \<and>
     bs = message_wire m" (is "?l \<longleftrightarrow> ?r")
proof
  assume ?l
  then obtain r where "read_message bs = (Inr m, r)"
    by (cases "read_message bs") (simp add: rpc_message_decode_def)
  then show ?r
    by (auto simp: read_message_def wire_iffs call_decode_iff reply_decode_iff message_wire_def wf_message_def two_variants
        split: message_type.splits)
next
  assume r: ?r
  show ?l
  proof (cases "msg_body m")
    case (Call c)
    with r have "decode_call_body (call_wire c) = (Inr c, [])"
      by (simp add: call_decode_iff wf_message_def)
    with r Call show ?thesis
      by (cases m; cases "msg_xid m") (simp add: rpc_message_decode_def read_message_def message_wire_def message_type_try_from_def)
  next
    case (Reply b)
    with r have "decode_reply_body (reply_wire b) = (Inr b, [])"
      by (simp add: reply_decode_iff wf_message_def)
    with r Reply show ?thesis
      by (cases m; cases "msg_xid m") (simp add: rpc_message_decode_def read_message_def message_wire_def message_type_try_from_def)
  qed
qed


section \<open>Record markers\<close>

lemma marker_bits: "MAX_FRAGMENT_LEN = mask 31"
  by (simp add: MAX_FRAGMENT_LEN_def mask_eq_exp_minus_1)

lemma bit_top: "bit (push_bit 31 1 :: u32) n \<longleftrightarrow> n = 31"
  using bit_push_bit_iff [of 31 "1 :: u32" n] by (simp add: bit_1_iff) arith

lemma split_top_bit:
  assumes "\<And>n. bit t n \<longleftrightarrow> n = 31"
  shows "(if bit w 31 then t else 0) OR (w AND mask 31) = (w :: u32)"
    and "\<not> bit w 31 \<Longrightarrow> ((if b then t else 0) OR w) AND mask 31 = w"
    and "\<not> bit w 31 \<Longrightarrow> bit ((if b then t else 0) OR w) 31 = b"
proof -
  show w: "(if bit w 31 then t else 0) OR (w AND mask 31) = w"
  proof (rule bit_word_eqI)
    fix n assume "n < LENGTH(32)"
    then consider "n = 31" | "n < 31" by fastforce
    then show "bit ((if bit w 31 then t else 0) OR (w AND mask 31)) n = bit w n"
      by cases (auto simp: bit_simps assms)
  qed
  show "((if b then t else 0) OR w) AND mask 31 = w" if "\<not> bit w 31"
  proof (rule bit_word_eqI)
    fix n assume "n < LENGTH(32)"
    then consider "n = 31" | "n < 31" by fastforce
    then show "bit (((if b then t else 0) OR w) AND mask 31) n = bit w n"
      by cases (use that in \<open>auto simp: bit_simps assms\<close>)
  qed
  show "bit ((if b then t else 0) OR w) 31 = b" if "\<not> bit w 31"
    using that by (simp add: bit_simps assms)
qed

lemma le_MAX_iff: "w \<le> MAX_FRAGMENT_LEN \<longleftrightarrow> \<not> bit w 31"
proof -
  have "w \<le> MAX_FRAGMENT_LEN \<longleftrightarrow> uint w < 2 ^ 31"
    by (auto simp: MAX_FRAGMENT_LEN_def word_le_def)
  also have "\<dots> \<longleftrightarrow> w AND mask 31 = w"
    by (simp only: mask_eq_iff)
  also have "\<dots> \<longleftrightarrow> \<not> bit w 31"
    using split_top_bit(2) [OF bit_top, of w False]
    by (metis bit_and_iff bit_mask_iff less_irrefl or.left_neutral)
  finally show ?thesis .
qed

lemma top_bit_iff: "w AND push_bit 31 1 \<noteq> 0 \<longleftrightarrow> bit w 31" for w :: u32
  by (simp add: bit_iff_and_push_bit_not_eq_0)

lemma marker_len_le [simp]: "payload_len (record_marker_decode w) \<le> MAX_FRAGMENT_LEN"
  by (simp add: record_marker_decode_def word_and_le1)

lemma marker_encode_decode [simp]: "record_marker_encode (record_marker_decode w) = w"
  unfolding record_marker_encode_def record_marker_decode_def record_marker.simps Let_def top_bit_iff marker_bits
  by (rule split_top_bit(1) [OF bit_top])

lemma marker_decode_encode:
  assumes "payload_len m \<le> MAX_FRAGMENT_LEN"
  shows "record_marker_decode (record_marker_encode m) = m"
proof (rule record_marker.equality)
  note parts = split_top_bit(2,3) [OF bit_top, of "payload_len m" "last_fragment m"]
  from assms have len: "\<not> bit (payload_len m) 31" unfolding le_MAX_iff .
  show "last_fragment (record_marker_decode (record_marker_encode m)) = last_fragment m"
    unfolding record_marker_encode_def record_marker_decode_def record_marker.simps Let_def top_bit_iff
    by (rule parts(2) [OF len])
  show "payload_len (record_marker_decode (record_marker_encode m)) = payload_len m"
    unfolding record_marker_encode_def record_marker_decode_def record_marker.simps Let_def marker_bits
    by (rule parts(1) [OF len])
qed simp

section \<open>Framed records\<close>

text \<open>A record on the wire: its fragments, each behind a marker, the last one flagged (RFC 5531, section 11).\<close>

definition fragment_wire :: "bool \<Rightarrow> bytes \<Rightarrow> bytes" where
  "fragment_wire is_last p =
     record_marker_encode_bytes \<lparr>last_fragment = is_last, payload_len = of_nat (length p)\<rparr> @ p"

fun framed :: "bytes list \<Rightarrow> bytes" where
  "framed [] = []"
| "framed [p] = fragment_wire True p"
| "framed (p # q # ps) = fragment_wire False p @ framed (q # ps)"

definition fragment_fits :: "bytes \<Rightarrow> bool" where
  "fragment_fits p \<longleftrightarrow> length p \<le> unat MAX_FRAGMENT_LEN"

definition frames_ok :: "bytes list \<Rightarrow> bool" where
  "frames_ok ps \<longleftrightarrow> ps \<noteq> [] \<and> list_all fragment_fits ps"

lemma fragment_len: "fragment_fits p \<Longrightarrow> unat (of_nat (length p) :: u32) = length p"
  by (simp add: fragment_fits_def MAX_FRAGMENT_LEN_def unat_of_nat_u32 u32_max_def)

lemma fragment_len_le: "fragment_fits p \<Longrightarrow> (of_nat (length p) :: u32) \<le> MAX_FRAGMENT_LEN"
  using fragment_len [of p] by (simp add: word_le_nat_alt fragment_fits_def)

lemma length_fragment_wire [simp]: "length (fragment_wire l p) = 4 + length p"
  by (simp add: fragment_wire_def record_marker_encode_bytes_def)

lemma fragment_wire_ne [simp]: "fragment_wire l p \<noteq> []"
  using length_fragment_wire [of l p] by (metis add_is_0 list.size(3) zero_neq_numeral)

lemma fragment_wire_marker [simp]:
  assumes "fragment_fits p"
  shows "record_marker_decode_bytes (take 4 (fragment_wire l p)) =
           \<lparr>last_fragment = l, payload_len = of_nat (length p)\<rparr>"
  using fragment_len_le [OF assms]
  by (simp add: fragment_wire_def record_marker_encode_bytes_def record_marker_decode_bytes_def marker_decode_encode)

lemma fragment_wire_payload [simp]: "drop 4 (fragment_wire l p) = p"
  by (simp add: fragment_wire_def record_marker_encode_bytes_def)

lemma fragment_wire_inj:
  assumes "fragment_fits p" "fragment_fits q" "fragment_wire l p @ r = fragment_wire k q @ s"
  shows "l = k \<and> p = q \<and> r = s"
proof -
  have "take 4 (fragment_wire l p @ r) = take 4 (fragment_wire k q @ s)" by (simp only: assms(3))
  then have "take 4 (fragment_wire l p) = take 4 (fragment_wire k q)" by simp
  with fragment_wire_marker [OF assms(1), of l] fragment_wire_marker [OF assms(2), of k]
  have "l = k" and len: "(of_nat (length p) :: u32) = of_nat (length q)" by simp_all
  from len have "length p = length q"
    by (metis assms(1,2) fragment_len)
  moreover have "p @ r = q @ s"
  proof -
    have "drop 4 (fragment_wire l p @ r) = drop 4 (fragment_wire k q @ s)" by (simp only: assms(3))
    then show ?thesis by simp
  qed
  ultimately show ?thesis using \<open>l = k\<close> by simp
qed

lemma framed_Cons: "framed (p # ps) = fragment_wire (ps = []) p @ framed ps"
  by (cases ps) simp_all

lemma framed_inj:
  "frames_ok ps \<Longrightarrow> frames_ok qs \<Longrightarrow> framed ps @ r = framed qs @ s \<Longrightarrow> ps = qs \<and> r = s"
proof (induction ps arbitrary: qs)
  case Nil
  then show ?case by (simp add: frames_ok_def)
next
  case (Cons p ps)
  then obtain q qs' where qs: "qs = q # qs'" by (cases qs) (auto simp: frames_ok_def)
  with Cons.prems have fits: "fragment_fits p" "fragment_fits q" "list_all fragment_fits ps" "list_all fragment_fits qs'"
    by (auto simp: frames_ok_def)
  from Cons.prems(3) qs have "fragment_wire (ps = []) p @ framed ps @ r = fragment_wire (qs' = []) q @ framed qs' @ s"
    by (simp add: framed_Cons)
  from fragment_wire_inj [OF fits(1,2) this]
  have "(ps = []) = (qs' = []) \<and> p = q \<and> framed ps @ r = framed qs' @ s" .
  with Cons.IH [of qs'] fits qs show ?case
    by (cases "ps = []") (auto simp: frames_ok_def)
qed

locale record_source =
  fixes take_record :: "bytes \<Rightarrow> (bytes \<times> nat) option"
  assumes take_framed: "frames_ok ps \<Longrightarrow> take_record (framed ps @ rest) = Some (concat ps, length (framed ps))"
    and take_sound: "take_record i = Some (d, n) \<Longrightarrow>
      \<exists>ps rest. frames_ok ps \<and> i = framed ps @ rest \<and> d = concat ps \<and> n = length (framed ps)"
begin

lemma take_iff:
  "take_record i = Some (d, n) \<longleftrightarrow>
     (\<exists>ps rest. frames_ok ps \<and> i = framed ps @ rest \<and> d = concat ps \<and> n = length (framed ps))"
  using take_framed take_sound by blast

lemma incomplete:
  assumes "frames_ok ps" "framed ps = i @ q" "q \<noteq> []"
  shows "take_record i = None"
proof (rule ccontr)
  assume "take_record i \<noteq> None"
  then obtain qs rest where qs: "frames_ok qs" "i = framed qs @ rest"
    using take_sound by fastforce
  with assms(2) have "framed ps @ [] = framed qs @ (rest @ q)" by simp
  from framed_inj [OF assms(1) qs(1) this] assms(3) show False by simp
qed

lemma waits_iff:
  "take_record i = None \<longleftrightarrow> (\<forall>ps rest. frames_ok ps \<longrightarrow> i \<noteq> framed ps @ rest)"
  using take_framed take_sound by (metis not_None_eq surj_pair)

end

lemma record_sources_agree:
  assumes "record_source f" "record_source g"
  shows "f = g"
  by (rule ext) (metis assms record_source.take_iff option.exhaust surj_pair)

section \<open>Reassembly\<close>

lemma read_loop_fragment:
  assumes "fragment_fits p" "drop offset input = fragment_wire l p @ r"
  shows "read_record_loop input offset fragments rec =
    (if l then Inr (Complete (rec @ p) (offset + (4 + length p)) (fragments + 1))
     else read_record_loop input (offset + (4 + length p)) (fragments + 1) (rec @ p))"
  by (subst read_record_loop.simps) (simp add: assms Let_def fragment_len)

lemma read_loop_framed:
  "frames_ok ps \<Longrightarrow> offset \<le> length input \<Longrightarrow> drop offset input = framed ps @ rest \<Longrightarrow>
   read_record_loop input offset fragments rec =
     Inr (Complete (rec @ concat ps) (offset + length (framed ps)) (fragments + length ps))"
proof (induction ps arbitrary: offset fragments rec)
  case Nil
  then show ?case by (simp add: frames_ok_def)
next
  case (Cons p ps)
  then have p: "fragment_fits p" and in_wire: "drop offset input = fragment_wire (ps = []) p @ framed ps @ rest"
    by (simp_all add: frames_ok_def framed_Cons)
  have rest: "drop (offset + (4 + length p)) input = framed ps @ rest"
    using arg_cong [OF in_wire, of "drop (4 + length p)"] by (simp add: ac_simps)
  have le: "offset + (4 + length p) \<le> length input"
    using arg_cong [OF in_wire, of length] Cons.prems(2) by simp
  note step = read_loop_fragment [OF p in_wire, of fragments rec]
  show ?case
  proof (cases "ps = []")
    case True
    with step show ?thesis by simp
  next
    case False
    then have "frames_ok ps" using Cons.prems(1) by (simp add: frames_ok_def)
    from Cons.IH [OF this le rest] step False show ?thesis by (simp add: framed_Cons)
  qed
qed

lemma fragment_at:
  assumes "m = record_marker_decode_bytes (take 4 i)" "4 + unat (payload_len m) \<le> length i"
    and "p = take (unat (payload_len m)) (drop 4 i)"
  shows "fragment_fits p \<and> length p = unat (payload_len m) \<and>
         i = fragment_wire (last_fragment m) p @ drop (4 + unat (payload_len m)) i"
proof (intro conjI)
  show len: "length p = unat (payload_len m)" using assms by simp
  with assms(1) show "fragment_fits p"
    using marker_len_le [of "be_to_u32 (take 4 i)"]
    by (simp add: fragment_fits_def record_marker_decode_bytes_def word_le_nat_alt)
  have "fragment_wire (last_fragment m) p = take 4 i @ p"
  proof -
    have "\<lparr>last_fragment = last_fragment m, payload_len = of_nat (length p)\<rparr> = m" using len by simp
    then show ?thesis
      using assms(1,2)
      by (simp add: fragment_wire_def record_marker_encode_bytes_def record_marker_decode_bytes_def u32_to_be_to_u32)
  qed
  then show "i = fragment_wire (last_fragment m) p @ drop (4 + unat (payload_len m)) i"
    by (simp add: assms(3)) (metis add.commute append_take_drop_id drop_drop)
qed

lemma read_loop_sound:
  "read_record_loop input offset fragments rec = Inr (Complete d n k) \<Longrightarrow> offset \<le> length input \<Longrightarrow>
   \<exists>ps rest. frames_ok ps \<and> drop offset input = framed ps @ rest \<and> d = rec @ concat ps \<and>
     n = offset + length (framed ps) \<and> k = fragments + length ps"
proof (induction input offset fragments rec rule: read_record_loop.induct)
  case (1 input offset fragments rec)
  let ?i = "drop offset input"
  define m where "m = record_marker_decode_bytes (take 4 ?i)"
  define p where "p = take (unat (payload_len m)) (drop 4 ?i)"
  from 1(2) have len: "4 + unat (payload_len m) \<le> length ?i" and ne: "\<not> (?i = [] \<and> fragments = 0)" "\<not> length ?i < 4"
    by (subst (asm) read_record_loop.simps; auto simp: Let_def m_def split: if_splits)+
  note frag = fragment_at [OF m_def len p_def]
  note step = read_loop_fragment [OF conjunct1 [OF frag] conjunct2 [OF conjunct2 [OF frag]], of fragments rec]
  show ?case
  proof (cases "last_fragment m")
    case True
    with 1(2) step frag show ?thesis
      by (intro exI [of _ "[p]"] exI [of _ "drop (4 + unat (payload_len m)) ?i"]) (auto simp: frames_ok_def)
  next
    case False
    from False step 1(2) have rec: "read_record_loop input (offset + (4 + unat (payload_len m))) (fragments + 1) (rec @ p) =
        Inr (Complete d n k)"
      using frag by simp
    from 1(3) len have le: "offset + (4 + unat (payload_len m)) \<le> length input" by simp
    from 1(1) [OF refl ne m_def refl refl _ _ False, of "rec @ p"] rec le len
    obtain ps rest where "frames_ok ps" "drop (offset + (4 + unat (payload_len m))) input = framed ps @ rest"
      "d = (rec @ p) @ concat ps" "n = offset + (4 + unat (payload_len m)) + length (framed ps)" "k = fragments + 1 + length ps"
      by (auto simp: p_def)
    with frag False show ?thesis
      by (intro exI [of _ "p # ps"] exI [of _ rest]) (auto simp: frames_ok_def framed_Cons ac_simps)
  qed
qed

lemma read_loop_Inr: "\<exists>x. read_record_loop input offset fragments rec = Inr x"
  by (induction input offset fragments rec rule: read_record_loop.induct)
     (subst read_record_loop.simps, auto simp: Let_def)

definition read_record_take :: "bytes \<Rightarrow> (bytes \<times> nat) option" where
  "read_record_take input = (case read_record input of Inr (Complete d n k) \<Rightarrow> Some (d, n) | _ \<Rightarrow> None)"

lemma read_record_cases: "\<exists>r. read_record input = Inr r"
  by (simp add: read_record_def read_loop_Inr)

interpretation wire_records: record_source read_record_take
proof
  fix ps rest assume "frames_ok ps"
  then show "read_record_take (framed ps @ rest) = Some (concat ps, length (framed ps))"
    by (simp add: read_record_take_def read_record_def read_loop_framed)
next
  fix i d n assume "read_record_take i = Some (d, n)"
  then obtain k where "read_record_loop i 0 0 [] = Inr (Complete d n k)"
    by (auto simp: read_record_take_def read_record_def split: sum.splits record_read.splits)
  from read_loop_sound [OF this] show "\<exists>ps rest. frames_ok ps \<and> i = framed ps @ rest \<and> d = concat ps \<and> n = length (framed ps)"
    by auto
qed


section \<open>Fragmentation\<close>

lemma chunks_concat: "0 < n \<Longrightarrow> concat (chunks n xs) = xs"
  by (induction n xs rule: chunks.induct) (subst chunks.simps, auto)

lemma chunks_ne: "0 < n \<Longrightarrow> xs \<noteq> [] \<Longrightarrow> chunks n xs \<noteq> []"
  by (subst chunks.simps) simp

lemma chunks_bounded: "list_all (\<lambda>c. 0 < length c \<and> length c \<le> n) (chunks n xs)"
  by (induction n xs rule: chunks.induct) (subst chunks.simps, auto simp: list_all_iff)

lemma div_ceil_step: "0 < b \<Longrightarrow> 0 < a \<Longrightarrow> div_ceil a b = Suc (div_ceil (a - b) b)"
  by (cases "a < b") (auto simp: div_ceil_def le_div_geq le_mod_geq not_less)

lemma length_chunks: "0 < n \<Longrightarrow> length (chunks n xs) = div_ceil (length xs) n"
proof (induction n xs rule: chunks.induct)
  case (1 n xs)
  then show ?case
    by (subst chunks.simps) (auto simp: div_ceil_step div_ceil_def [of 0])
qed

lemma fragment_chunks_framed:
  "list_all fragment_fits cs \<Longrightarrow> idx + length cs = fragment_count \<Longrightarrow>
   \<exists>fs. fragment_chunks idx fragment_count cs = Inr fs \<and> concat fs = framed cs \<and> length fs = length cs"
proof (induction cs arbitrary: idx)
  case (Cons c cs)
  then obtain fs where fs: "fragment_chunks (idx + 1) fragment_count cs = Inr fs" "concat fs = framed cs" "length fs = length cs"
    using Cons.IH [of "idx + 1"] by auto
  from Cons.prems have "record_marker_new (of_nat (length c)) (idx + 1 = fragment_count) =
      Inr \<lparr>last_fragment = (cs = []), payload_len = of_nat (length c)\<rparr>"
    by (auto simp: record_marker_new_def dest: fragment_len_le)
  with fs show ?case by (simp add: framed_Cons fragment_wire_def)
qed simp

lemma fragment_record_framed:
  fixes data :: bytes
  assumes "0 < n" "n \<le> MAX_FRAGMENT_LEN"
  defines "ps \<equiv> if data = [] then [[]] else chunks (unat n) data"
  shows "frames_ok ps \<and> concat ps = data \<and> list_all (\<lambda>p. length p \<le> unat n) ps \<and>
    (\<exists>fs. fragment_record data n = Inr fs \<and> concat fs = framed ps \<and> length fs = length ps)"
proof (cases "data = []")
  case True
  with assms show ?thesis
    by (auto simp: frames_ok_def fragment_fits_def fragment_record_def fragment_wire_def record_marker_new_def)
next
  case False
  from assms(1) have pos: "0 < unat n" by (simp add: word_less_nat_alt)
  have fits: "list_all fragment_fits (chunks (unat n) data)" "list_all (\<lambda>p. length p \<le> unat n) (chunks (unat n) data)"
    using chunks_bounded [of "unat n" data] assms(2)
    by (auto simp: list_all_iff fragment_fits_def word_le_nat_alt)
  have "max (div_ceil (length data) (unat n)) 1 = 0 + length (chunks (unat n) data)"
    using chunks_ne [OF pos False] length_chunks [OF pos, of data]
    by (metis One_nat_def Suc_leI add_0 length_greater_0_conv max_absorb1)
  with fragment_chunks_framed [OF fits(1), of 0] assms(1,2) False fits pos show ?thesis
    by (auto simp: ps_def frames_ok_def fragment_record_def chunks_concat chunks_ne)
qed

section \<open>Properties\<close>

text \<open>
  C10. Decoding and encoding RPC messages are exact inverses: an input decodes to a message
  precisely when that message is well formed and encodes to that very input. So every
  message a peer may send survives the round trip, no two inputs decode alike, and every
  malformed input (wrong RPC version, unknown discriminant, non-zero padding, trailing or
  missing bytes, oversized credential) is refused.
\<close>
theorem message_codec_exact:
  "rpc_message_decode bs = Inr m \<longleftrightarrow> wf_message m \<and> rpc_message_encode m = Inr bs"
  by (auto simp: message_decode_iff message_encode_Inr)

text \<open>
  Encoding a message fails exactly when one of its authentication bodies exceeds 400
  bytes, and reports the first such length; otherwise it gives the RFC 5531 layout.
\<close>
theorem message_encode_total:
  "rpc_message_encode m = (case find (\<lambda>a. length (oa_body a) > 400) (message_auths (msg_body m)) of
      Some a \<Rightarrow> Inl (AuthBodyTooLong (length (oa_body a))) | None \<Rightarrow> Inr (message_wire m))"
  by (simp add: message_encode auth_fits_def MAX_AUTH_BYTES_def not_le)

text \<open>
  C11. Any record split with any legal fragment size is reassembled whatever follows it on the
  stream: the same bytes come back, exactly the fragments' own bytes are consumed, and no
  fragment is longer than asked.
\<close>
theorem fragment_read_roundtrip:
  assumes "0 < n" and "n \<le> MAX_FRAGMENT_LEN"
  shows "\<exists>fs. fragment_record data n = Inr fs \<and> length fs = max 1 (div_ceil (length data) (unat n)) \<and>
           read_record (concat fs @ rest) = Inr (Complete data (length (concat fs)) (length fs))"
proof -
  define ps where "ps = (if data = [] then [[]] else chunks (unat n) data)"
  from fragment_record_framed [OF assms, of data, folded ps_def] obtain fs where
    ps: "frames_ok ps" "concat ps = data" and fs: "fragment_record data n = Inr fs" "concat fs = framed ps" "length fs = length ps"
    by blast
  from assms(1) have pos: "0 < unat n" by (simp add: word_less_nat_alt)
  then have "length ps = max 1 (div_ceil (length data) (unat n))"
    using chunks_ne [OF pos, of data] length_chunks [OF pos, of data]
    by (auto simp: ps_def div_ceil_def [of 0] max_def Suc_le_eq) (metis length_greater_0_conv)
  moreover from ps(1) have "read_record (framed ps @ rest) = Inr (Complete (concat ps) (length (framed ps)) (length ps))"
    by (simp add: read_record_def read_loop_framed)
  ultimately show ?thesis using ps fs by auto
qed

theorem fragment_read_roundtrip_witness:
  "\<exists>fs. fragment_record [97, 98, 99, 100, 101] 2 = Inr fs \<and> length fs = 3 \<and>
     read_record (concat fs @ [7]) = Inr (Complete [97, 98, 99, 100, 101] (length (concat fs)) (length fs))"
  using fragment_read_roundtrip [of 2 "[97, 98, 99, 100, 101]" "[7]"]
  by (simp add: MAX_FRAGMENT_LEN_def div_ceil_def numeral_3_eq_3)

text \<open>
  The reassembler completes exactly on the inputs that start with a framed record, with
  that record's bytes, extent and fragment count, and waits for more input on every other
  one; it never fails.
\<close>
theorem read_record_exact:
  "(read_record input = Inr (Complete d n k) \<longleftrightarrow>
      (\<exists>ps rest. frames_ok ps \<and> input = framed ps @ rest \<and> d = concat ps \<and> n = length (framed ps) \<and> k = length ps)) \<and>
   (read_record input = Inr Incomplete \<longleftrightarrow> \<not> (\<exists>ps rest. frames_ok ps \<and> input = framed ps @ rest))"
proof -
  have complete: "read_record (framed ps @ rest) = Inr (Complete (concat ps) (length (framed ps)) (length ps))"
    if "frames_ok ps" for ps rest
    using that by (simp add: read_record_def read_loop_framed)
  have sound: "\<exists>ps rest. frames_ok ps \<and> input = framed ps @ rest \<and> d = concat ps \<and> n = length (framed ps) \<and> k = length ps"
    if "read_record input = Inr (Complete d n k)" for d n k
    using read_loop_sound [of input 0 0 "[]" d n k] that by (simp add: read_record_def)
  obtain r where r: "read_record input = Inr r" using read_record_cases by blast
  have "read_record input = Inr Incomplete \<longleftrightarrow> \<not> (\<exists>ps rest. frames_ok ps \<and> input = framed ps @ rest)"
    using r by (cases r) (use complete sound in \<open>fastforce+\<close>)
  with complete sound show ?thesis by blast
qed

end
