(* ===== verification/Rpc_Auth.thy ===== *)
theory Rpc_Auth
  imports Rpc_Wire
begin

text \<open>
  The crate \<^verbatim>\<open>onc-rpc-auth\<close>, file \<^verbatim>\<open>src/crates/onc-rpc-auth/src/lib.rs\<close>: \<^verbatim>\<open>AUTH_NONE\<close> and
  \<^verbatim>\<open>AUTH_SYS\<close> credentials and their opaque form on the wire. The machine name is a Rust
  \<^verbatim>\<open>String\<close>, a list of bytes that is valid UTF-8.
\<close>

definition AUTH_SYS_MAX_MACHINE_NAME :: nat where "AUTH_SYS_MAX_MACHINE_NAME = 255"

definition AUTH_SYS_MAX_GIDS :: nat where "AUTH_SYS_MAX_GIDS = 16"

record auth_sys =
  as_stamp :: u32
  as_machine_name :: bytes
  as_uid :: u32
  as_gid :: u32
  as_gids :: "u32 list"

datatype auth_choice = ChooseNone | ChooseSys auth_sys

datatype auth_failure =
    MachineNameTooLong
  | TooManyAuxiliaryGroups
  | UnsupportedFlavor auth_flavor
  | AuthWire wire_error
  | AuthXdr xdr_error

definition auth_sys_validate :: "auth_sys \<Rightarrow> auth_failure + unit" where
  "auth_sys_validate self =
     (if length (as_machine_name self) > AUTH_SYS_MAX_MACHINE_NAME then Inl MachineNameTooLong
      else if length (as_gids self) > AUTH_SYS_MAX_GIDS then Inl TooManyAuxiliaryGroups
      else Inr ())"

definition auth_sys_encode_body :: "auth_sys \<Rightarrow> (bytes, xdr_error, unit) action" where
  "auth_sys_encode_body self =
     and_then (encode_u32 (as_stamp self)) (\<lambda>_.
     and_then (encode_string (as_machine_name self)) (\<lambda>_.
     and_then (encode_u32 (as_uid self)) (\<lambda>_.
     and_then (encode_u32 (as_gid self)) (\<lambda>_.
     encode_vec encode_u32 (as_gids self)))))"

definition auth_sys_to_opaque_auth :: "auth_sys \<Rightarrow> auth_failure + opaque_auth" where
  "auth_sys_to_opaque_auth self =
     result_bind (auth_sys_validate self) (\<lambda>_.
     case auth_sys_encode_body self [] of
       (Inl e, _) \<Rightarrow> Inl (AuthXdr e)
     | (Inr _, encoded) \<Rightarrow> map_err AuthWire (opaque_auth_new FlavorSys encoded))"

definition auth_sys_decode_body :: "(bytes, xdr_error, auth_sys) action" where
  "auth_sys_decode_body =
     and_then decode_u32 (\<lambda>stamp.
     and_then decode_string (\<lambda>machine_name.
     and_then decode_u32 (\<lambda>uid.
     and_then decode_u32 (\<lambda>gid.
     and_then (decode_vec decode_u32) (\<lambda>gids.
     ok \<lparr>as_stamp = stamp, as_machine_name = machine_name, as_uid = uid, as_gid = gid, as_gids = gids\<rparr>)))))"

definition auth_sys_from_opaque_auth :: "opaque_auth \<Rightarrow> auth_failure + auth_sys" where
  "auth_sys_from_opaque_auth auth =
     (if oa_flavor auth \<noteq> FlavorSys then Inl (UnsupportedFlavor (oa_flavor auth))
      else case auth_sys_decode_body (oa_body auth) of
        (Inl e, _) \<Rightarrow> Inl (AuthXdr e)
      | (Inr v, input) \<Rightarrow>
          if input \<noteq> [] then Inl (AuthXdr (TrailingBytes (length input)))
          else result_bind (auth_sys_validate v) (\<lambda>_. Inr v))"

fun auth_to_opaque_auth :: "auth_choice \<Rightarrow> auth_failure + opaque_auth" where
  "auth_to_opaque_auth ChooseNone = Inr opaque_auth_none"
| "auth_to_opaque_auth (ChooseSys v) = auth_sys_to_opaque_auth v"

definition auth_from_opaque_auth :: "opaque_auth \<Rightarrow> auth_failure + auth_choice" where
  "auth_from_opaque_auth auth = (case oa_flavor auth of
       FlavorNone \<Rightarrow> Inr ChooseNone
     | FlavorSys \<Rightarrow> result_bind (auth_sys_from_opaque_auth auth) (\<lambda>v. Inr (ChooseSys v))
     | other \<Rightarrow> Inl (UnsupportedFlavor other))"

definition auth_none :: opaque_auth where
  "auth_none = opaque_auth_none"

definition auth_sys_new :: "u32 \<Rightarrow> bytes \<Rightarrow> u32 \<Rightarrow> u32 \<Rightarrow> u32 list \<Rightarrow> auth_failure + opaque_auth" where
  "auth_sys_new stamp machine_name uid gid gids =
     auth_sys_to_opaque_auth
       \<lparr>as_stamp = stamp, as_machine_name = machine_name, as_uid = uid, as_gid = gid, as_gids = gids\<rparr>"

definition decode_auth :: "opaque_auth \<Rightarrow> auth_failure + auth_choice" where
  "decode_auth auth = auth_from_opaque_auth auth"

definition auth_none_verifier :: opaque_auth where
  "auth_none_verifier = opaque_auth_none"

definition auth_body :: "opaque_auth \<Rightarrow> bytes" where
  "auth_body auth = oa_body auth"

section \<open>The credential body\<close>

definition auth_sys_wire :: "auth_sys \<Rightarrow> bytes" where
  "auth_sys_wire a = u32_to_be (as_stamp a) @ opaque_wire (as_machine_name a) @ u32_to_be (as_uid a) @
     u32_to_be (as_gid a) @ vec_wire u32_to_be (as_gids a)"

definition auth_sys_ok :: "auth_sys \<Rightarrow> bool" where
  "auth_sys_ok a \<longleftrightarrow> length (as_machine_name a) \<le> 255 \<and> length (as_gids a) \<le> 16"

lemma validate_iff: "auth_sys_validate a = Inr u \<longleftrightarrow> auth_sys_ok a"
  by (auto simp: auth_sys_validate_def auth_sys_ok_def AUTH_SYS_MAX_MACHINE_NAME_def AUTH_SYS_MAX_GIDS_def)

lemma gids_codec:
  "length gs \<le> 16 \<Longrightarrow> encode_vec encode_u32 gs out = (Inr (), out @ vec_wire u32_to_be gs)"
  "length gs \<le> 16 \<Longrightarrow> decode_vec decode_u32 (vec_wire u32_to_be gs @ rest) = (Inr gs, rest)"
  using xdr_codec.encode_wire [OF xdr_codec_vec [OF u32_codec.xdr_codec_axioms], of gs out]
    xdr_codec.decode_wire [OF xdr_codec_vec [OF u32_codec.xdr_codec_axioms], of gs rest]
  by (simp_all add: vec_valid_def u32_max_def list_all_iff)

lemma body_encode [simp]: "auth_sys_ok a \<Longrightarrow> auth_sys_encode_body a out = (Inr (), out @ auth_sys_wire a)"
  by (simp add: auth_sys_encode_body_def auth_sys_wire_def auth_sys_ok_def gids_codec encode_string_def encode_u32_def)

lemma body_decode:
  "auth_sys_ok a \<Longrightarrow> utf8_valid (as_machine_name a) \<Longrightarrow> auth_sys_decode_body (auth_sys_wire a @ rest) = (Inr a, rest)"
  by (simp add: auth_sys_decode_body_def auth_sys_wire_def auth_sys_ok_def gids_codec string_codec.decode_wire
      u32_codec.decode_wire string_valid_def u32_max_def)

lemma length_gids: "length (concat (map u32_to_be gs)) = 4 * length gs"
  by (induction gs) auto

lemma padded_length_le: "n \<le> 255 \<Longrightarrow> n + xdr_padding n \<le> 256"
  using mod_less_divisor [of 4 n] by (cases "n mod 4 = 0") (simp_all add: xdr_padding_def, presburger+)

lemma auth_sys_wire_bound: "auth_sys_ok a \<Longrightarrow> length (auth_sys_wire a) \<le> 340"
  using padded_length_le [of "length (as_machine_name a)"]
  by (simp add: auth_sys_wire_def auth_sys_ok_def opaque_wire_def vec_wire_def length_gids)

lemma validate_Inl:
  "\<not> auth_sys_ok a \<Longrightarrow> auth_sys_validate a =
     Inl (if length (as_machine_name a) > 255 then MachineNameTooLong else TooManyAuxiliaryGroups)"
  by (auto simp: auth_sys_validate_def auth_sys_ok_def AUTH_SYS_MAX_MACHINE_NAME_def AUTH_SYS_MAX_GIDS_def)

lemma to_opaque:
  "auth_sys_to_opaque_auth a =
     (if auth_sys_ok a then Inr \<lparr>oa_flavor = FlavorSys, oa_body = auth_sys_wire a\<rparr>
      else Inl (if length (as_machine_name a) > 255 then MachineNameTooLong else TooManyAuxiliaryGroups))"
proof (cases "auth_sys_ok a")
  case True
  then have "auth_sys_validate a = Inr ()" by (simp add: validate_iff)
  with True auth_sys_wire_bound [OF True] show ?thesis
    by (simp add: auth_sys_to_opaque_auth_def opaque_auth_new_def validate_auth_len_def MAX_AUTH_BYTES_def)
next
  case False
  then show ?thesis by (simp add: auth_sys_to_opaque_auth_def validate_Inl)
qed

lemma from_opaque_Inr:
  "auth_sys_from_opaque_auth oa = Inr a \<longleftrightarrow>
     oa_flavor oa = FlavorSys \<and> auth_sys_ok a \<and> auth_sys_decode_body (oa_body oa) = (Inr a, [])"
proof -
  have "result_bind (auth_sys_validate v) (\<lambda>_. Inr v) = Inr a \<longleftrightarrow> v = a \<and> auth_sys_ok a" for v
    by (cases "auth_sys_validate v") (use validate_iff [of v] in auto)
  then show ?thesis
    by (auto simp: auth_sys_from_opaque_auth_def split: prod.splits sum.splits)
qed

lemma replicate_3: "replicate 3 x = [x, x, x]"
  by (simp add: numeral_3_eq_3)

section \<open>Properties\<close>

text \<open>
  Building an \<^verbatim>\<open>AUTH_SYS\<close> credential succeeds exactly within the RFC limits (255 bytes of
  machine name, 16 groups), reports the machine name first otherwise, and never meets the
  400-byte limit of the envelope: its body is at most 340 bytes.
\<close>
theorem auth_sys_credential:
  "auth_sys_to_opaque_auth a =
     (if length (as_machine_name a) > 255 then Inl MachineNameTooLong
      else if length (as_gids a) > 16 then Inl TooManyAuxiliaryGroups
      else Inr \<lparr>oa_flavor = FlavorSys, oa_body = auth_sys_wire a\<rparr>) \<and>
   (length (as_machine_name a) \<le> 255 \<and> length (as_gids a) \<le> 16 \<longrightarrow> length (auth_sys_wire a) \<le> 340)"
  using auth_sys_wire_bound [of a] by (auto simp: to_opaque auth_sys_ok_def)

theorem auth_sys_credential_witness:
  "auth_sys_to_opaque_auth \<lparr>as_stamp = 1, as_machine_name = [104], as_uid = 0, as_gid = 0, as_gids = [5]\<rparr> =
     Inr \<lparr>oa_flavor = FlavorSys, oa_body = [0, 0, 0, 1, 0, 0, 0, 1, 104, 0, 0, 0, 0, 0, 0, 0, 0, 0, 0, 0, 0, 0, 0, 1, 0, 0, 0, 5]\<rparr>"
  using auth_sys_credential [of "\<lparr>as_stamp = 1, as_machine_name = [104], as_uid = 0, as_gid = 0, as_gids = [5]\<rparr>"]
  by (simp add: auth_sys_wire_def opaque_wire_def vec_wire_def u32_to_be_eval xdr_padding_def replicate_3)

text \<open>
  Every credential that can be built is decoded back to itself; and whatever a peer
  sends, a decoded \<^verbatim>\<open>AUTH_SYS\<close> credential respects the limits and has a valid UTF-8 name.
\<close>
theorem auth_roundtrip:
  assumes "utf8_valid (as_machine_name a)"
  shows "(auth_to_opaque_auth (ChooseSys a) = Inr oa \<longrightarrow> decode_auth oa = Inr (ChooseSys a)) \<and>
         (decode_auth peer = Inr (ChooseSys b) \<longrightarrow> length (as_machine_name b) \<le> 255 \<and> length (as_gids b) \<le> 16 \<and>
            utf8_valid (as_machine_name b))"
proof (intro conjI impI)
  assume "auth_to_opaque_auth (ChooseSys a) = Inr oa"
  then have ok: "auth_sys_ok a" and oa: "oa = \<lparr>oa_flavor = FlavorSys, oa_body = auth_sys_wire a\<rparr>"
    by (auto simp: to_opaque split: if_splits)
  from body_decode [OF ok assms, of "[]"] ok oa show "decode_auth oa = Inr (ChooseSys a)"
    using from_opaque_Inr [of oa a] by (simp add: decode_auth_def auth_from_opaque_auth_def)
next
  assume "decode_auth peer = Inr (ChooseSys b)"
  then have "auth_sys_from_opaque_auth peer = Inr b"
    by (auto simp: decode_auth_def auth_from_opaque_auth_def result_bind_def split: auth_flavor.splits sum.splits)
  then have ok: "auth_sys_ok b" and dec: "auth_sys_decode_body (oa_body peer) = (Inr b, [])"
    by (simp_all add: from_opaque_Inr)
  from ok show "length (as_machine_name b) \<le> 255" "length (as_gids b) \<le> 16" by (simp_all add: auth_sys_ok_def)
  from dec show "utf8_valid (as_machine_name b)"
    by (auto simp: auth_sys_decode_body_def and_then_Inr_iff dest!: decode_string_parts(2))
qed

theorem auth_roundtrip_witness:
  "let a = \<lparr>as_stamp = 1, as_machine_name = [104], as_uid = 0, as_gid = 0, as_gids = [5]\<rparr>;
       oa = \<lparr>oa_flavor = FlavorSys, oa_body = auth_sys_wire a\<rparr>
   in auth_to_opaque_auth (ChooseSys a) = Inr oa \<and> decode_auth oa = Inr (ChooseSys a)"
  using auth_roundtrip [of "\<lparr>as_stamp = 1, as_machine_name = [104], as_uid = 0, as_gid = 0, as_gids = [5]\<rparr>"]
  by (simp add: Let_def to_opaque auth_sys_ok_def utf8_valid_ascii)

end
