(* ===== verification/Runtime_Base.thy ===== *)
theory Runtime_Base
  imports Rpc_Auth
begin

text \<open>
  Types shared by the modules of the crate \<^verbatim>\<open>onc-rpc-runtime\<close>: the error type of
  \<^verbatim>\<open>lib.rs\<close>, the record limits of \<^verbatim>\<open>owned.rs\<close>, and byte streams. A duration is a number of
  nanoseconds.

  A stream read by the runtime is the list of what successive polls give: a chunk of bytes,
  an I/O error, or the caller dropping the future while the read is pending. A chunk longer
  than the destination stays in front for the next read; the end of the list, like an empty
  chunk, reads as end of file. A stream written by the runtime is the list of the polls'
  answers: the number of bytes the peer accepts, an error, or the future being dropped;
  when the list ends the write stays pending and its future is dropped.
\<close>

type_synonym duration = nat

datatype runtime_error =
    Cancelled
  | CallTimeoutError duration
  | WriteTimeoutError duration
  | UnsupportedCancellation
  | Transport string
  | ConnectionClosed
  | WireFailure wire_error
  | XidMismatch xid xid
  | UnexpectedCallMessage
  | RemoteProgramUnavailable
  | RemoteProgramMismatch version_range
  | RemoteProcedureUnavailable
  | RemoteGarbageArgs
  | RemoteSystemError
  | RemoteRpcMismatch version_range
  | RemoteAuthError auth_stat
  | EncodeFailure xdr_error
  | DecodeFailure xdr_error

section \<open>Record limits\<close>

definition MAX_RECORD_BYTES :: nat where "MAX_RECORD_BYTES = 128 * 1024 * 1024"

definition MAX_FRAGMENTS :: nat where "MAX_FRAGMENTS = 1024"

record record_limits =
  max_record_bytes :: nat
  max_fragments :: nat

definition record_limits_default :: record_limits where
  "record_limits_default = \<lparr>max_record_bytes = MAX_RECORD_BYTES, max_fragments = MAX_FRAGMENTS\<rparr>"

definition record_limits_validate :: "record_limits \<Rightarrow> runtime_error + unit" where
  "record_limits_validate self =
     (if max_record_bytes self < 4 \<or> max_fragments self = 0
      then Inl (Transport ''invalid RPC record limits'') else Inr ())"

section \<open>Streams\<close>

datatype io_error = UnexpectedEofKind string | InterruptedKind string | OtherKind string

fun io_error_to_string :: "io_error \<Rightarrow> string" where
  "io_error_to_string (UnexpectedEofKind s) = s"
| "io_error_to_string (InterruptedKind s) = s"
| "io_error_to_string (OtherKind s) = s"

datatype read_event = Data bytes | ReadFails io_error | DropRead

datatype write_event = Accept nat | WriteFails io_error | DropWrite

text \<open>How an asynchronous operation ends early: it returns an error, or its future is dropped.\<close>

datatype halt = Failed runtime_error | Dropped

datatype read_result = Got bytes | ReadError io_error | ReadDropped

fun stream_read :: "nat \<Rightarrow> read_event list \<Rightarrow> read_result \<times> read_event list" where
  "stream_read n [] = (Got [], [])"
| "stream_read n (Data d # es) =
     (if length d \<le> n then (Got d, es) else (Got (take n d), Data (drop n d) # es))"
| "stream_read n (ReadFails e # es) = (ReadError e, es)"
| "stream_read n (DropRead # es) = (ReadDropped, es)"

definition read_error :: "io_error \<Rightarrow> runtime_error" where
  "read_error error = (case error of UnexpectedEofKind _ \<Rightarrow> ConnectionClosed
     | _ \<Rightarrow> Transport (io_error_to_string error))"

text \<open>The bytes a stream still carries, and streams that neither fail nor end early.\<close>

fun content :: "read_event list \<Rightarrow> bytes" where
  "content [] = []"
| "content (Data d # es) = d @ content es"
| "content (ReadFails e # es) = content es"
| "content (DropRead # es) = content es"

fun clean :: "read_event list \<Rightarrow> bool" where
  "clean [] = True"
| "clean (Data d # es) = (d \<noteq> [] \<and> clean es)"
| "clean (ReadFails e # es) = False"
| "clean (DropRead # es) = clean es"

fun stream_size :: "read_event list \<Rightarrow> nat" where
  "stream_size [] = 0"
| "stream_size (Data d # es) = Suc (length d + stream_size es)"
| "stream_size (ReadFails e # es) = Suc (stream_size es)"
| "stream_size (DropRead # es) = Suc (stream_size es)"

lemma stream_read_size: "stream_read n es = (Got bs, es') \<Longrightarrow> bs \<noteq> [] \<Longrightarrow> stream_size es' < stream_size es"
  by (induction n es rule: stream_read.induct) (auto split: if_splits)

lemma stream_read_content:
  "stream_read n es = (r, es') \<Longrightarrow> content es = (case r of Got bs \<Rightarrow> bs | _ \<Rightarrow> []) @ content es'"
  by (induction n es rule: stream_read.induct) (auto split: if_splits)

lemma stream_read_length: "stream_read n es = (Got bs, es') \<Longrightarrow> length bs \<le> n"
  by (induction n es rule: stream_read.induct) (auto split: if_splits)

lemma stream_read_clean: "clean es \<Longrightarrow> stream_read n es = (r, es') \<Longrightarrow> clean es'"
  by (induction n es rule: stream_read.induct) (auto split: if_splits)

lemma stream_read_progress:
  "clean es \<Longrightarrow> content es \<noteq> [] \<Longrightarrow> 0 < n \<Longrightarrow> stream_read n es = (r, es') \<Longrightarrow>
   (\<exists>bs. r = Got bs \<and> bs \<noteq> []) \<or> r = ReadDropped"
  by (induction n es rule: stream_read.induct) (auto split: if_splits)

end
