(* ===== verification/Record_Io.thy ===== *)
theory Record_Io
  imports Runtime_Base
begin

text \<open>
  The module \<^verbatim>\<open>src/crates/onc-rpc-runtime/src/record_io.rs\<close>: reading one record from a stream
  without assembling it, and writing one record from owned segments.
\<close>

section \<open>Reading\<close>

record record_reader =
  rr_stream :: "read_event list"
  rr_limits :: record_limits
  rr_fragments :: nat
  rr_record_bytes :: nat
  rr_remaining :: nat
  rr_last :: bool
  rr_marker :: bytes
  rr_marker_used :: nat

definition record_reader_new :: "read_event list \<Rightarrow> record_limits \<Rightarrow> runtime_error + record_reader" where
  "record_reader_new reader limits =
     (if max_record_bytes limits < 4 \<or> max_fragments limits = 0
      then Inl (Transport ''invalid RPC record limits'')
      else Inr \<lparr>rr_stream = reader, rr_limits = limits, rr_fragments = 0, rr_record_bytes = 0,
                rr_remaining = 0, rr_last = False, rr_marker = [0, 0, 0, 0], rr_marker_used = 0\<rparr>)"

text \<open>The inner loop of \<^verbatim>\<open>read_some\<close>: fill the marker, keeping what was read when the future is dropped.\<close>

function fill_marker :: "record_reader \<Rightarrow> (halt + unit) \<times> record_reader" where
  "fill_marker self =
     (if rr_marker_used self < 4
      then case stream_read (4 - rr_marker_used self) (rr_stream self) of
          (ReadError e, es) \<Rightarrow> (Inl (Failed (read_error e)), self\<lparr>rr_stream := es\<rparr>)
        | (ReadDropped, es) \<Rightarrow> (Inl Dropped, self\<lparr>rr_stream := es\<rparr>)
        | (Got bs, es) \<Rightarrow>
            if bs = [] then (Inl (Failed ConnectionClosed), self\<lparr>rr_stream := es\<rparr>)
            else fill_marker (self\<lparr>rr_stream := es,
                   rr_marker := take (rr_marker_used self) (rr_marker self) @ bs @
                                drop (rr_marker_used self + length bs) (rr_marker self),
                   rr_marker_used := rr_marker_used self + length bs\<rparr>)
      else (Inr (), self))"
  by pat_completeness auto
termination
  by (relation "measure (\<lambda>self. stream_size (rr_stream self))") (auto dest: stream_read_size [OF sym])

declare fill_marker.simps [simp del]

definition accept_marker :: "record_reader \<Rightarrow> (halt + unit) \<times> record_reader" where
  "accept_marker self =
     (let marker = be_to_u32 (rr_marker self);
          self = self\<lparr>rr_marker_used := 0\<rparr>;
          len = unat (marker AND MAX_FRAGMENT_LEN)
      in case Option.bind (checked_add (rr_record_bytes self) 4) (\<lambda>sum. checked_add sum len) of
           None \<Rightarrow> (Inl (Failed (Transport ''RPC record exceeds configured limit'')), self)
         | Some new_total \<Rightarrow>
             if new_total \<le> max_record_bytes (rr_limits self)
             then (Inr (), self\<lparr>rr_record_bytes := new_total, rr_fragments := rr_fragments self + 1,
                                 rr_remaining := len, rr_last := (marker AND 0x80000000 \<noteq> 0)\<rparr>)
             else (Inl (Failed (Transport ''RPC record exceeds configured limit'')), self))"

lemma fill_marker_size:
  "fill_marker self = (Inr u, self') \<Longrightarrow> stream_size (rr_stream self') \<le> stream_size (rr_stream self) \<and>
   (rr_marker_used self < 4 \<longrightarrow> stream_size (rr_stream self') < stream_size (rr_stream self))"
proof (induction self rule: fill_marker.induct)
  case (1 self)
  show ?case
  proof (cases "rr_marker_used self < 4")
    case True
    with 1(2) obtain bs es where bs: "stream_read (4 - rr_marker_used self) (rr_stream self) = (Got bs, es)" "bs \<noteq> []"
      by (subst (asm) fill_marker.simps) (auto split: if_splits prod.splits read_result.splits)
    with 1(2) True have "fill_marker (self\<lparr>rr_stream := es,
         rr_marker := take (rr_marker_used self) (rr_marker self) @ bs @ drop (rr_marker_used self + length bs) (rr_marker self),
         rr_marker_used := rr_marker_used self + length bs\<rparr>) = (Inr u, self')"
      by (subst (asm) fill_marker.simps) simp
    from 1(1) [OF True bs(1) [symmetric] _ bs(2) this] stream_read_size [OF bs] show ?thesis
      by simp
  next
    case False
    with 1(2) show ?thesis by (subst (asm) fill_marker.simps) simp
  qed
qed

lemma accept_marker_stream:
  "accept_marker self = (r, self') \<Longrightarrow> rr_stream self' = rr_stream self \<and> rr_marker_used self' = 0"
  by (auto simp: accept_marker_def Let_def split: option.splits if_splits)

text \<open>The outer loop of \<^verbatim>\<open>read_some\<close>: \<open>Inr True\<close> is the end of the record, \<open>Inr False\<close> a fragment with bytes left.\<close>

function next_fragment :: "record_reader \<Rightarrow> (halt + bool) \<times> record_reader" where
  "next_fragment self =
     (if rr_remaining self = 0
      then if rr_last self then (Inr True, self)
           else if rr_fragments self = max_fragments (rr_limits self)
           then (Inl (Failed (Transport ''RPC record has too many fragments'')), self)
           else case and_then fill_marker (\<lambda>_. accept_marker) self of
               (Inl e, self') \<Rightarrow> (Inl e, self')
             | (Inr _, self') \<Rightarrow> next_fragment self'
      else (Inr False, self))"
  by pat_completeness auto
termination
proof (relation "measures [\<lambda>self. stream_size (rr_stream self), rr_marker_used]", goal_cases)
  case (2 self x self' r)
  from 2(4,5) obtain u mid where fill: "fill_marker self = (Inr u, mid)" and "accept_marker mid = (Inr r, self')"
    by (cases x) (auto simp: and_then_Inr_iff dest!: sym [of "(_, self')"])
  then have same: "rr_stream self' = rr_stream mid" "rr_marker_used self' = 0"
    by (auto dest: accept_marker_stream)
  from fill_marker_size [OF fill] same show ?case by auto
qed simp

declare next_fragment.simps [simp del]

definition read_some :: "nat \<Rightarrow> record_reader \<Rightarrow> (halt + bytes) \<times> record_reader" where
  "read_some output_len self =
     (if output_len = 0 then (Inl (Failed (Transport ''empty RPC read destination'')), self)
      else case next_fragment self of
          (Inl e, self') \<Rightarrow> (Inl e, self')
        | (Inr True, self') \<Rightarrow> (Inr [], self')
        | (Inr False, self') \<Rightarrow>
            (case stream_read (min output_len (rr_remaining self')) (rr_stream self') of
               (ReadError e, es) \<Rightarrow> (Inl (Failed (read_error e)), self'\<lparr>rr_stream := es\<rparr>)
             | (ReadDropped, es) \<Rightarrow> (Inl Dropped, self'\<lparr>rr_stream := es\<rparr>)
             | (Got bs, es) \<Rightarrow>
                 if bs = [] then (Inl (Failed ConnectionClosed), self'\<lparr>rr_stream := es\<rparr>)
                 else (Inr bs, self'\<lparr>rr_stream := es, rr_remaining := rr_remaining self' - length bs\<rparr>)))"

text \<open>\<^verbatim>\<open>read_exact\<close> fills the caller's buffer: \<open>filled\<close> is what it holds so far, also after a failure.\<close>

function reader_read_exact :: "nat \<Rightarrow> record_reader \<times> bytes \<Rightarrow> (halt + unit) \<times> record_reader \<times> bytes" where
  "reader_read_exact output_len (self, filled) =
     (if output_len = 0 then (Inr (), self, filled)
      else case read_some output_len self of
          (Inl e, self') \<Rightarrow> (Inl e, self', filled)
        | (Inr bs, self') \<Rightarrow>
            if bs = [] then (Inl (Failed (WireFailure (WUnexpectedEof output_len 0))), self', filled)
            else reader_read_exact (output_len - length bs) (self', filled @ bs))"
  by pat_completeness auto
termination
  by (relation "measure fst") auto

declare reader_read_exact.simps [simp del]

section \<open>Writing\<close>

fun checked_total :: "nat \<Rightarrow> bytes list \<Rightarrow> runtime_error + nat" where
  "checked_total len [] = Inr len"
| "checked_total len (segment # rest) =
     (case checked_add len (length segment) of
        None \<Rightarrow> Inl (Transport ''RPC record exceeds single-fragment limit'')
      | Some new_len \<Rightarrow>
          if new_len \<le> unat MAX_FRAGMENT_LEN then checked_total new_len rest
          else Inl (Transport ''RPC record exceeds single-fragment limit''))"

definition frame_piece :: "bytes \<Rightarrow> bytes list \<Rightarrow> nat \<Rightarrow> bytes" where
  "frame_piece marker segments current = (if current = 0 then marker else segments ! (current - 1))"

fun collect_slices :: "(nat \<Rightarrow> bytes) \<Rightarrow> nat \<Rightarrow> nat \<Rightarrow> nat list \<Rightarrow> bytes list \<Rightarrow> bytes list" where
  "collect_slices piece index offset [] slices = slices"
| "collect_slices piece index offset (current # currents) slices =
     (let bs = drop (if current = index then offset else 0) (piece current)
      in if bs \<noteq> [] then
           (if length (slices @ [bs]) = 64 then slices @ [bs]
            else collect_slices piece index offset currents (slices @ [bs]))
         else collect_slices piece index offset currents slices)"

function advance_cursor :: "(nat \<Rightarrow> bytes) \<Rightarrow> nat \<Rightarrow> nat \<Rightarrow> nat \<Rightarrow> nat \<Rightarrow> nat \<times> nat" where
  "advance_cursor piece segment_count written index offset =
     (if index \<le> segment_count
      then let available = length (piece index) - offset
           in if written < available then (index, offset + written)
              else advance_cursor piece segment_count (written - available) (index + 1) 0
      else (index, offset))"
  by pat_completeness auto
termination
  by (relation "measure (\<lambda>(_, n, _, i, _). Suc n - i)") auto

declare advance_cursor.simps [simp del]

fun write_loop :: "bytes \<Rightarrow> bytes list \<Rightarrow> nat \<Rightarrow> nat \<Rightarrow> write_event list \<Rightarrow> bytes \<Rightarrow>
    (halt + unit) \<times> write_event list \<times> bytes" where
  "write_loop marker segments index offset schedule sink =
     (if index > length segments then (Inr (), schedule, sink)
      else let piece = frame_piece marker segments;
               slices = collect_slices piece index offset [index ..< Suc (length segments)] []
           in if slices = [] then (Inl (Failed (Transport ''RPC frame write returned zero'')), schedule, sink)
              else case schedule of
                  [] \<Rightarrow> (Inl Dropped, [], sink)
                | DropWrite # es \<Rightarrow> (Inl Dropped, es, sink)
                | WriteFails e # es \<Rightarrow>
                    (case e of InterruptedKind _ \<Rightarrow> write_loop marker segments index offset es sink
                     | _ \<Rightarrow> (Inl (Failed (Transport (io_error_to_string e))), es, sink))
                | Accept k # es \<Rightarrow>
                    let written = min k (length (concat slices)); sink' = sink @ take written (concat slices)
                    in if written = 0 then (Inl (Failed (Transport ''RPC frame write returned zero'')), es, sink')
                       else case advance_cursor piece (length segments) written index offset of
                           (index', offset') \<Rightarrow>
                             if index' > length segments then (Inr (), es, sink')
                             else write_loop marker segments index' offset' es sink')"

declare write_loop.simps [simp del]

definition write_segments :: "bytes list \<Rightarrow> write_event list \<times> bytes \<Rightarrow> (halt + unit) \<times> write_event list \<times> bytes" where
  "write_segments segments writer =
     (case writer of (schedule, sink) \<Rightarrow>
        case checked_total 0 segments of
          Inl e \<Rightarrow> (Inl (Failed e), schedule, sink)
        | Inr len \<Rightarrow> write_loop (u32_to_be (0x80000000 OR of_nat len)) segments 0 0 schedule sink)"

section \<open>What a frame still has to send\<close>

definition frame_rest :: "(nat \<Rightarrow> bytes) \<Rightarrow> nat \<Rightarrow> nat \<Rightarrow> nat \<Rightarrow> bytes" where
  "frame_rest piece n index offset =
     (if index \<le> n then drop offset (piece index) @ concat (map piece [Suc index ..< Suc n]) else [])"

lemma collect_slices_keeps: "prefix slices (collect_slices piece index offset xs slices)"
proof (induction piece index offset xs slices rule: collect_slices.induct)
  case (2 piece index offset current currents slices)
  show ?case
    using 2(1) [OF refl] 2(2) [OF refl] by (auto simp: Let_def dest: append_prefixD)
qed simp

lemma collect_slices_prefix:
  "prefix (concat (collect_slices piece index offset xs slices))
     (concat slices @ concat (map (\<lambda>c. drop (if c = index then offset else 0) (piece c)) xs)) \<and>
   (collect_slices piece index offset xs slices = [] \<longrightarrow>
     concat (map (\<lambda>c. drop (if c = index then offset else 0) (piece c)) xs) = [])"
proof (induction piece index offset xs slices rule: collect_slices.induct)
  case (2 piece index offset current currents slices)
  define bs where "bs = drop (if current = index then offset else 0) (piece current)"
  have step: "collect_slices piece index offset (current # currents) slices =
      (if bs \<noteq> [] then if length (slices @ [bs]) = 64 then slices @ [bs]
         else collect_slices piece index offset currents (slices @ [bs])
       else collect_slices piece index offset currents slices)"
    by (simp add: bs_def Let_def)
  consider "bs = []" | "bs \<noteq> []" "length (slices @ [bs]) = 64" | "bs \<noteq> []" "length (slices @ [bs]) \<noteq> 64" by blast
  then show ?case
  proof cases
    case 1
    with step "2.IH"(2) [OF bs_def] show ?thesis by (simp flip: bs_def)
  next
    case 2
    with step show ?thesis by (simp add: prefix_def flip: bs_def)
  next
    case 3
    have "collect_slices piece index offset currents (slices @ [bs]) \<noteq> []"
      using collect_slices_keeps [of "slices @ [bs]" piece index offset currents] by auto
    with 3 step "2.IH"(1) [OF bs_def] show ?thesis
      unfolding list.map concat.simps bs_def [symmetric] by simp
  qed
qed simp

lemma collect_slices_nonempty: "[] \<notin> set slices \<Longrightarrow> [] \<notin> set (collect_slices piece index offset xs slices)"
  by (induction piece index offset xs slices rule: collect_slices.induct) (auto simp: Let_def)

lemma slices_rest:
  assumes "index \<le> n" and slices_def: "slices = collect_slices piece index offset [index ..< Suc n] []"
  shows "prefix (concat slices) (frame_rest piece n index offset)"
    and "frame_rest piece n index offset \<noteq> [] \<Longrightarrow> slices \<noteq> []"
proof -
  have "map (\<lambda>c. drop (if c = index then offset else 0) (piece c)) [index ..< Suc n] =
      drop offset (piece index) # map piece [Suc index ..< Suc n]"
    using assms(1) by (subst upt_rec) (auto simp del: upt_Suc)
  with collect_slices_prefix [of piece index offset "[index ..< Suc n]" "[]"] assms(1)
  show "prefix (concat slices) (frame_rest piece n index offset)"
    and "frame_rest piece n index offset \<noteq> [] \<Longrightarrow> slices \<noteq> []"
    unfolding slices_def frame_rest_def by (auto simp del: upt_Suc)
qed

lemma frame_rest_step:
  "i \<le> n \<Longrightarrow> frame_rest piece n i offset = drop offset (piece i) @ frame_rest piece n (Suc i) 0"
  by (cases "i = n") (auto simp: frame_rest_def upt_rec [of "Suc i"] simp del: upt_Suc)

lemma advance_cursor_rest:
  "advance_cursor piece n w i ofs = (i', ofs') \<Longrightarrow> w \<le> length (frame_rest piece n i ofs) \<Longrightarrow> ofs \<le> length (piece i) \<Longrightarrow>
   frame_rest piece n i' ofs' = drop w (frame_rest piece n i ofs) \<and>
   (i' \<le> n \<longrightarrow> ofs' \<le> length (piece i') \<and> frame_rest piece n i' ofs' \<noteq> [])"
proof (induction piece n w i ofs rule: advance_cursor.induct)
  case (1 piece n w i ofs)
  let ?av = "length (piece i) - ofs"
  consider "n < i" | "i \<le> n" "w < ?av" | "i \<le> n" "\<not> w < ?av" by linarith
  then show ?case
  proof cases
    case 1
    with "1.prems" show ?thesis by (subst (asm) advance_cursor.simps) (auto simp: frame_rest_def)
  next
    case 2
    with "1.prems" show ?thesis
      by (subst (asm) advance_cursor.simps) (auto simp: frame_rest_def add.commute simp del: upt_Suc)
  next
    case 3
    with "1.prems"(1) have "advance_cursor piece n (w - ?av) (i + 1) 0 = (i', ofs')"
      by (subst (asm) advance_cursor.simps) simp
    note ih = "1.IH" [OF 3(1) refl 3(2) this]
    from 3 "1.prems"(2,3) have le: "w - ?av \<le> length (frame_rest piece n (i + 1) 0)"
      by (simp add: frame_rest_step [of i n])
    have "drop w (frame_rest piece n i ofs) = drop (w - ?av) (frame_rest piece n (i + 1) 0)"
      using 3 by (simp add: frame_rest_step [of i n])
    with ih [OF le] show ?thesis by auto
  qed
qed


section \<open>The write loop\<close>

definition progressing :: "write_event \<Rightarrow> bool" where
  "progressing e \<longleftrightarrow> (case e of Accept k \<Rightarrow> 0 < k | WriteFails (InterruptedKind _) \<Rightarrow> True | _ \<Rightarrow> False)"

definition accepts :: "write_event list \<Rightarrow> nat" where
  "accepts es = length (filter (\<lambda>e. case e of Accept _ \<Rightarrow> True | _ \<Rightarrow> False) es)"

text \<open>
  From a cursor with bytes left to send, the loop appends a prefix of those bytes, succeeds
  exactly when it appended all of them, and does succeed on a writer that keeps accepting.
\<close>

definition frame_written :: "bytes \<Rightarrow> write_event list \<Rightarrow> bytes \<Rightarrow> (halt + unit) \<times> write_event list \<times> bytes \<Rightarrow> bool" where
  "frame_written todo schedule sink res \<longleftrightarrow> (case res of (r, schedule', sink') \<Rightarrow>
     (\<exists>w. sink' = sink @ w \<and> prefix w todo \<and> (r = Inr () \<longleftrightarrow> w = todo)) \<and>
     (list_all progressing schedule \<and> length todo \<le> accepts schedule \<longrightarrow> r = Inr ()))"

lemma frame_written_step:
  assumes "frame_written (drop w todo) es (sink @ take w todo) res" "0 < w" "w \<le> length todo"
  shows "frame_written todo (Accept k # es) sink res"
proof -
  obtain r schedule' sink' where res: "res = (r, schedule', sink')" by (cases res)
  with assms(1) obtain v where v: "sink' = sink @ take w todo @ v" "prefix v (drop w todo)" "r = Inr () \<longleftrightarrow> v = drop w todo"
    and live: "list_all progressing es \<and> length (drop w todo) \<le> accepts es \<longrightarrow> r = Inr ()"
    by (auto simp: frame_written_def)
  have "prefix (take w todo @ v) todo"
    using v(2) by (metis append_take_drop_id same_prefix_prefix)
  moreover have "take w todo @ v = todo \<longleftrightarrow> v = drop w todo"
    by (metis append_take_drop_id same_append_eq)
  ultimately show ?thesis
    using v live assms(2,3) by (auto simp: frame_written_def res accepts_def)
qed

lemma write_loop_written:
  "index \<le> length segments \<Longrightarrow> offset \<le> length (frame_piece marker segments index) \<Longrightarrow>
   todo = frame_rest (frame_piece marker segments) (length segments) index offset \<Longrightarrow> todo \<noteq> [] \<Longrightarrow>
   frame_written todo schedule sink (write_loop marker segments index offset schedule sink)"
proof (induction schedule arbitrary: index offset sink todo)
  case Nil
  then show ?case
    using slices_rest(2) [OF Nil(1) refl, of "frame_piece marker segments" offset]
    by (subst write_loop.simps) (auto simp: Let_def frame_written_def accepts_def simp del: upt_Suc)
next
  case (Cons e es)
  define slices where "slices = collect_slices (frame_piece marker segments) index offset [index ..< Suc (length segments)] []"
  have pre: "prefix (concat slices) todo" and ne: "slices \<noteq> []"
    using slices_rest [OF Cons.prems(1) slices_def] Cons.prems(3,4) by auto
  have cne: "concat slices \<noteq> []"
    using ne collect_slices_nonempty [of "[]" "frame_piece marker segments" index offset "[index ..< Suc (length segments)]"]
    by (cases slices) (auto simp: slices_def [symmetric] simp del: upt_Suc)
  have step: "write_loop marker segments index offset (e # es) sink = (case e of
        DropWrite \<Rightarrow> (Inl Dropped, es, sink)
      | WriteFails error \<Rightarrow> (case error of InterruptedKind _ \<Rightarrow> write_loop marker segments index offset es sink
           | _ \<Rightarrow> (Inl (Failed (Transport (io_error_to_string error))), es, sink))
      | Accept k \<Rightarrow> let written = min k (length (concat slices)); sink' = sink @ take written (concat slices)
          in if written = 0 then (Inl (Failed (Transport ''RPC frame write returned zero'')), es, sink')
             else case advance_cursor (frame_piece marker segments) (length segments) written index offset of
               (index', offset') \<Rightarrow> if index' > length segments then (Inr (), es, sink')
                 else write_loop marker segments index' offset' es sink')"
    using Cons.prems(1) ne by (subst write_loop.simps) (simp add: Let_def slices_def [symmetric] del: upt_Suc split: write_event.split)
  show ?case
  proof (cases e)
    case (Accept k)
    define w where "w = min k (length (concat slices))"
    have tk: "take w (concat slices) = take w todo" and le: "w \<le> length todo"
      using pre by (auto simp: w_def prefix_def)
    show ?thesis
    proof (cases "w = 0")
      case True
      with cne have "k = 0" by (simp add: w_def min_def split: if_splits)
      with Accept Cons.prems(4) show ?thesis unfolding step by (simp add: frame_written_def progressing_def)
    next
      case False
      obtain i' o' where adv: "advance_cursor (frame_piece marker segments) (length segments) w index offset = (i', o')"
        by fastforce
      note rest = advance_cursor_rest [OF adv, folded Cons.prems(3), OF le Cons.prems(2)]
      have res: "write_loop marker segments index offset (e # es) sink =
          (if i' > length segments then (Inr (), es, sink @ take w todo) else write_loop marker segments i' o' es (sink @ take w todo))"
        using False unfolding step by (simp add: Accept Let_def adv tk flip: w_def)
      have "frame_written (drop w todo) es (sink @ take w todo) (write_loop marker segments index offset (e # es) sink)"
      proof (cases "i' > length segments")
        case True
        then have "frame_rest (frame_piece marker segments) (length segments) i' o' = []" by (simp add: frame_rest_def)
        with rest have "drop w todo = []" by simp
        with True show ?thesis by (simp add: res frame_written_def)
      next
        case False
        then show ?thesis
          unfolding res using rest Cons.IH [of i' o' "drop w todo" "sink @ take w todo"] by auto
      qed
      from frame_written_step [OF this _ le, of k] False show ?thesis by (simp add: Accept)
    qed
  next
    case (WriteFails error)
    with Cons.IH [OF Cons.prems, of sink] Cons.prems(4) show ?thesis
      unfolding step by (cases error) (auto simp: frame_written_def progressing_def accepts_def)
  next
    case DropWrite
    with Cons.prems(4) show ?thesis unfolding step by (simp add: frame_written_def progressing_def)
  qed
qed

lemma checked_total_Inr:
  "checked_total n segs = Inr m \<longleftrightarrow> m = n + length (concat segs) \<and> (segs = [] \<or> m \<le> unat MAX_FRAGMENT_LEN)"
proof (induction segs arbitrary: n)
  case (Cons x segs)
  have fits: "unat MAX_FRAGMENT_LEN \<le> usize_max" by (simp add: MAX_FRAGMENT_LEN_def usize_max_def)
  show ?case
  proof (cases "n + length x \<le> unat MAX_FRAGMENT_LEN")
    case True
    with fits have "checked_add n (length x) = Some (n + length x)" by (simp add: checked_add_def)
    with True show ?thesis by (auto simp: Cons.IH)
  next
    case False
    then have "checked_total n (x # segs) = Inl (Transport ''RPC record exceeds single-fragment limit'')"
      by (auto simp: checked_add_Some split: option.splits)
    with False show ?thesis by auto
  qed
qed auto

lemma checked_total_Inl:
  "checked_total n segs = Inl e \<Longrightarrow> e = Transport ''RPC record exceeds single-fragment limit''"
  by (induction n segs rule: checked_total.induct) (auto split: option.splits if_splits)

lemma frame_rest_whole:
  "frame_rest (frame_piece marker segs) (length segs) 0 0 = marker @ concat segs"
proof -
  have "map (frame_piece marker segs) [Suc 0 ..< Suc (length segs)] = map (\<lambda>i. segs ! i) [0 ..< length segs]"
    by (subst map_Suc_upt [symmetric]) (simp add: frame_piece_def comp_def)
  then show ?thesis by (simp add: frame_rest_def frame_piece_def map_nth del: upt_Suc)
qed

lemma single_frame: "framed [bs] = u32_to_be (0x80000000 OR of_nat (length bs)) @ bs"
  by (simp add: fragment_wire_def record_marker_encode_bytes_def record_marker_encode_def push_bit_eq_mult)

lemma frame_written_segments:
  assumes "checked_total 0 segs = Inr len"
  shows "frame_written (framed [concat segs]) schedule sink (write_segments segs (schedule, sink))"
proof -
  from assms have "len = length (concat segs)" by (simp add: checked_total_Inr)
  with assms write_loop_written [of 0 segs 0 "u32_to_be (0x80000000 OR of_nat len)" "framed [concat segs]" schedule sink]
  show ?thesis by (simp add: write_segments_def frame_rest_whole single_frame del: framed.simps)
qed

section \<open>The state of a reader\<close>

text \<open>
  A reader that has \<open>todo\<close> left to deliver of its record, with \<open>rest\<close> following on the
  stream: the marker bytes already read and the stream together hold the end of the current
  fragment and the fragments still to come, and those fit the limits.
\<close>

definition reader_at :: "record_reader \<Rightarrow> bytes \<Rightarrow> bytes \<Rightarrow> bool" where
  "reader_at r todo rest \<longleftrightarrow> clean (rr_stream r) \<and> length (rr_marker r) = 4 \<and> rr_marker_used r < 4 \<and>
     (rr_marker_used r = 0 \<or> rr_remaining r = 0) \<and>
     (\<exists>p qs. list_all fragment_fits qs \<and> (rr_last r \<longleftrightarrow> qs = []) \<and> length p = rr_remaining r \<and> todo = p @ concat qs \<and>
        (rr_last r \<longrightarrow> rr_marker_used r = 0) \<and>
        take (rr_marker_used r) (rr_marker r) @ content (rr_stream r) = p @ framed qs @ rest \<and>
        rr_fragments r + length qs \<le> max_fragments (rr_limits r) \<and>
        rr_record_bytes r + length (framed qs) \<le> min (max_record_bytes (rr_limits r)) usize_max)"

definition finished :: "record_reader \<Rightarrow> bool" where
  "finished r \<longleftrightarrow> rr_last r \<and> rr_remaining r = 0"

lemma finished_content: "reader_at r todo rest \<Longrightarrow> finished r \<Longrightarrow> content (rr_stream r) = rest"
  by (auto simp: reader_at_def finished_def)

lemma finished_read_some: "finished r \<Longrightarrow> 0 < n \<Longrightarrow> read_some n r = (Inr [], r)"
  by (simp add: read_some_def next_fragment.simps [of r] finished_def)

lemma reader_at_new:
  assumes "frames_ok ps" "clean es" "content es = framed ps @ rest"
    and "length ps \<le> max_fragments limits" "length (framed ps) \<le> min (max_record_bytes limits) usize_max"
  shows "\<exists>r. record_reader_new es limits = Inr r \<and> reader_at r (concat ps) rest"
proof -
  have "ps \<noteq> []" using assms(1) by (simp add: frames_ok_def)
  then have "4 \<le> length (framed ps)" by (cases ps) (simp_all add: framed_Cons)
  moreover have "0 < max_fragments limits" using \<open>ps \<noteq> []\<close> assms(4) by (cases ps) auto
  ultimately show ?thesis
    using assms \<open>ps \<noteq> []\<close> by (auto simp: record_reader_new_def reader_at_def frames_ok_def intro!: exI [of _ ps])
qed

lemma fill_marker_reads:
  "clean (rr_stream r) \<Longrightarrow> length (rr_marker r) = 4 \<Longrightarrow> rr_marker_used r \<le> 4 \<Longrightarrow> length m = 4 \<Longrightarrow>
   take (rr_marker_used r) (rr_marker r) @ content (rr_stream r) = m @ t \<Longrightarrow>
   (\<exists>es. fill_marker r = (Inr (), r\<lparr>rr_stream := es, rr_marker := m, rr_marker_used := 4\<rparr>) \<and> clean es \<and> content es = t) \<or>
   (\<exists>es k used. fill_marker r = (Inl Dropped, r\<lparr>rr_stream := es, rr_marker := k, rr_marker_used := used\<rparr>) \<and> clean es \<and>
       length k = 4 \<and> used < 4 \<and> take used k @ content es = m @ t)"
proof (induction r rule: fill_marker.induct)
  case (1 r)
  note prems = "1.prems"
  show ?case
  proof (cases "rr_marker_used r < 4")
    case False
    with prems have "rr_marker r = m" "content (rr_stream r) = t" "rr_marker_used r = 4" by simp_all
    with False prems(1) show ?thesis
      by (subst (1) fill_marker.simps) (intro disjI1 exI [of _ "rr_stream r"], simp)
  next
    case True
    obtain res es where sr: "stream_read (4 - rr_marker_used r) (rr_stream r) = (res, es)" by fastforce
    have "length (take (rr_marker_used r) (rr_marker r) @ content (rr_stream r)) = length (m @ t)"
      by (simp only: prems(5))
    with True prems(2,4) have "content (rr_stream r) \<noteq> []" by auto
    from stream_read_progress [OF prems(1) this _ sr] True consider bs where "res = Got bs" "bs \<noteq> []" | "res = ReadDropped"
      by auto
    then show ?thesis
    proof cases
      case (1 bs)
      define r' where "r' = r\<lparr>rr_stream := es, rr_marker := take (rr_marker_used r) (rr_marker r) @ bs @
          drop (rr_marker_used r + length bs) (rr_marker r), rr_marker_used := rr_marker_used r + length bs\<rparr>"
      have len: "length bs \<le> 4 - rr_marker_used r" using stream_read_length sr 1 by blast
      have "fill_marker r = fill_marker r'"
        using True sr 1 by (subst fill_marker.simps) (simp add: r'_def)
      moreover have "clean (rr_stream r')" "length (rr_marker r') = 4" "rr_marker_used r' \<le> 4"
        "take (rr_marker_used r') (rr_marker r') @ content (rr_stream r') = m @ t"
        using stream_read_clean [OF prems(1) sr] stream_read_content [OF sr] prems len True 1 by (auto simp: r'_def)
      moreover note "1.IH" [OF True sr [symmetric] 1(1) 1(2), folded r'_def, OF calculation(2-4) prems(4) calculation(5)]
      ultimately show ?thesis by (auto simp: r'_def)
    next
      case 2
      have "fill_marker r = (Inl Dropped, r\<lparr>rr_stream := es, rr_marker := rr_marker r, rr_marker_used := rr_marker_used r\<rparr>)"
        using True sr 2 by (subst fill_marker.simps) simp
      moreover have "clean es" "take (rr_marker_used r) (rr_marker r) @ content es = m @ t"
        using stream_read_clean [OF prems(1) sr] stream_read_content [OF sr] 2 prems(5) by auto
      ultimately show ?thesis using True prems(2) by blast
    qed
  qed
qed

lemma accept_marker_fragment:
  assumes "rr_marker r = take 4 (fragment_wire l p)" "fragment_fits p"
    and "rr_record_bytes r + 4 + length p \<le> min (max_record_bytes (rr_limits r)) usize_max"
  shows "accept_marker r = (Inr (), r\<lparr>rr_marker_used := 0, rr_record_bytes := rr_record_bytes r + 4 + length p,
           rr_fragments := rr_fragments r + 1, rr_remaining := length p, rr_last := l\<rparr>)"
proof -
  have "record_marker_decode (be_to_u32 (rr_marker r)) = \<lparr>last_fragment = l, payload_len = of_nat (length p)\<rparr>"
    using fragment_wire_marker [OF assms(2), of l] assms(1) by (simp add: record_marker_decode_bytes_def)
  then have m: "(be_to_u32 (rr_marker r) AND 0x80000000 \<noteq> 0) = l" "be_to_u32 (rr_marker r) AND MAX_FRAGMENT_LEN = of_nat (length p)"
    by (simp_all add: record_marker_decode_def push_bit_eq_mult)
  from assms(3) show ?thesis
    by (auto simp: accept_marker_def Let_def m fragment_len [OF assms(2)] checked_add_def)
qed

lemma reader_at_marker:
  assumes at: "reader_at r todo rest" and "rr_remaining r = 0" "\<not> rr_last r"
  shows "rr_fragments r \<noteq> max_fragments (rr_limits r) \<and>
    ((\<exists>r'. and_then fill_marker (\<lambda>_. accept_marker) r = (Inr (), r') \<and> reader_at r' todo rest) \<or>
     (\<exists>r'. and_then fill_marker (\<lambda>_. accept_marker) r = (Inl Dropped, r') \<and> reader_at r' todo rest))"
proof -
  from at assms(2,3) obtain q qs where qs: "list_all fragment_fits (q # qs)" "todo = concat (q # qs)"
    and wire: "take (rr_marker_used r) (rr_marker r) @ content (rr_stream r) = framed (q # qs) @ rest"
    and lim: "rr_fragments r + length (q # qs) \<le> max_fragments (rr_limits r)"
      "rr_record_bytes r + length (framed (q # qs)) \<le> min (max_record_bytes (rr_limits r)) usize_max"
    and st: "clean (rr_stream r)" "length (rr_marker r) = 4" "rr_marker_used r < 4"
    by (clarsimp simp: reader_at_def neq_Nil_conv)
  define m t where "m = take 4 (fragment_wire (qs = []) q)" and "t = q @ framed qs @ rest"
  have m: "length m = 4" "fragment_wire (qs = []) q = m @ q"
    by (simp_all add: m_def) (metis append_take_drop_id fragment_wire_payload)
  with wire have wire': "take (rr_marker_used r) (rr_marker r) @ content (rr_stream r) = m @ t"
    by (simp add: framed_Cons t_def)
  from fill_marker_reads [OF st(1,2) less_imp_le [OF st(3)] m(1) wire']
  consider es where "fill_marker r = (Inr (), r\<lparr>rr_stream := es, rr_marker := m, rr_marker_used := 4\<rparr>)" "clean es" "content es = t"
    | es k used where "fill_marker r = (Inl Dropped, r\<lparr>rr_stream := es, rr_marker := k, rr_marker_used := used\<rparr>)" "clean es"
        "length k = 4" "used < 4" "take used k @ content es = m @ t"
    by blast
  then have "(\<exists>r'. and_then fill_marker (\<lambda>_. accept_marker) r = (Inr (), r') \<and> reader_at r' todo rest) \<or>
     (\<exists>r'. and_then fill_marker (\<lambda>_. accept_marker) r = (Inl Dropped, r') \<and> reader_at r' todo rest)"
  proof cases
    case 1
    let ?r = "r\<lparr>rr_stream := es, rr_marker := m, rr_marker_used := 4\<rparr>"
    let ?r' = "?r\<lparr>rr_marker_used := 0, rr_record_bytes := rr_record_bytes r + 4 + length q,
        rr_fragments := rr_fragments r + 1, rr_remaining := length q, rr_last := (qs = [])\<rparr>"
    have "accept_marker ?r = (Inr (), ?r')"
      using accept_marker_fragment [of ?r "qs = []" q] qs(1) lim(2) by (simp add: m_def framed_Cons)
    moreover have "reader_at ?r' todo rest"
      using 1 qs lim m(1) by (auto simp: reader_at_def t_def framed_Cons intro!: exI [of _ q] exI [of _ qs])
    ultimately show ?thesis using 1 by auto
  next
    case 2
    have "reader_at (r\<lparr>rr_stream := es, rr_marker := k, rr_marker_used := used\<rparr>) todo rest"
      using 2 qs lim m assms(2,3)
      by (auto simp: reader_at_def t_def framed_Cons intro!: exI [of _ "[]"] exI [of _ "q # qs"])
    with 2 show ?thesis by auto
  qed
  with lim show ?thesis by auto
qed

lemma next_fragment_reads:
  "reader_at r todo rest \<Longrightarrow>
   (\<exists>r'. next_fragment r = (Inl Dropped, r') \<and> reader_at r' todo rest) \<or>
   (\<exists>r' x. next_fragment r = (Inr x, r') \<and> reader_at r' todo rest \<and> rr_marker_used r' = 0 \<and>
      (if x then todo = [] \<and> finished r' else 0 < rr_remaining r'))"
proof (induction r rule: next_fragment.induct)
  case (1 r)
  consider "0 < rr_remaining r" | "rr_remaining r = 0" "rr_last r" | "rr_remaining r = 0" "\<not> rr_last r" by blast
  then show ?case
  proof cases
    case 1
    then have "next_fragment r = (Inr False, r)" by (subst next_fragment.simps) simp
    moreover have "rr_marker_used r = 0" using "1.prems" 1 by (simp add: reader_at_def)
    ultimately show ?thesis using "1.prems" 1 by auto
  next
    case 2
    then have "next_fragment r = (Inr True, r)" by (subst next_fragment.simps) simp
    moreover have "rr_marker_used r = 0" "todo = []" "finished r"
      using "1.prems" 2 by (auto simp: reader_at_def finished_def)
    ultimately show ?thesis using "1.prems" by auto
  next
    case 3
    note m = reader_at_marker [OF "1.prems" 3]
    from m consider r' where "and_then fill_marker (\<lambda>_. accept_marker) r = (Inr (), r')" "reader_at r' todo rest"
      | r' where "and_then fill_marker (\<lambda>_. accept_marker) r = (Inl Dropped, r')" "reader_at r' todo rest" by blast
    then show ?thesis
    proof cases
      case (1 r')
      then have "next_fragment r = next_fragment r'" using 3 m by (subst next_fragment.simps) simp
      with "1.IH" [OF 3 conjunct1 [OF m] 1(1) [symmetric] refl 1(2)] show ?thesis by simp
    next
      case (2 r')
      then have "next_fragment r = (Inl Dropped, r')" using 3 m by (subst next_fragment.simps) simp
      with 2 show ?thesis by auto
    qed
  qed
qed

lemma reader_at_payload:
  assumes at: "reader_at r todo rest" and "0 < rr_remaining r" "rr_marker_used r = 0" "0 < n"
    and sr: "stream_read (min n (rr_remaining r)) (rr_stream r) = (res, es)"
  shows "res = ReadDropped \<and> reader_at (r\<lparr>rr_stream := es\<rparr>) todo rest \<or>
    (\<exists>bs todo'. res = Got bs \<and> bs \<noteq> [] \<and> length bs \<le> n \<and> todo = bs @ todo' \<and>
       reader_at (r\<lparr>rr_stream := es, rr_remaining := rr_remaining r - length bs\<rparr>) todo' rest)"
proof -
  from at obtain p qs where qs: "list_all fragment_fits qs" "rr_last r \<longleftrightarrow> qs = []" "length p = rr_remaining r"
      "todo = p @ concat qs" "content (rr_stream r) = p @ framed qs @ rest"
      "rr_fragments r + length qs \<le> max_fragments (rr_limits r)"
      "rr_record_bytes r + length (framed qs) \<le> min (max_record_bytes (rr_limits r)) usize_max"
    and st: "clean (rr_stream r)" "length (rr_marker r) = 4"
    using assms(3) by (auto simp: reader_at_def)
  from qs(3,5) assms(2) have "content (rr_stream r) \<noteq> []" by auto
  from stream_read_progress [OF st(1) this _ sr] assms(2,4)
  consider bs where "res = Got bs" "bs \<noteq> []" | "res = ReadDropped" by auto
  then show ?thesis
  proof cases
    case (1 bs)
    have len: "length bs \<le> min n (rr_remaining r)" using stream_read_length sr 1(1) by blast
    have c: "bs @ content es = p @ framed qs @ rest" using stream_read_content [OF sr] 1(1) qs(5) by simp
    with len qs(3) have "bs = take (length bs) p" and c': "content es = drop (length bs) p @ framed qs @ rest"
      by (auto simp: append_eq_append_conv_if split: if_splits)
    then have p: "p = bs @ drop (length bs) p" by (metis append_take_drop_id)
    have "todo = bs @ drop (length bs) p @ concat qs" using p qs(4) by (metis append.assoc)
    moreover have "reader_at (r\<lparr>rr_stream := es, rr_remaining := rr_remaining r - length bs\<rparr>) (drop (length bs) p @ concat qs) rest"
      using stream_read_clean [OF st(1) sr] st qs assms(3) c'
      by (auto simp: reader_at_def intro!: exI [of _ "drop (length bs) p"] exI [of _ qs])
    ultimately show ?thesis using 1 len by auto
  next
    case 2
    with stream_read_clean [OF st(1) sr] stream_read_content [OF sr] st qs assms(3)
    have "reader_at (r\<lparr>rr_stream := es\<rparr>) todo rest"
      by (auto simp: reader_at_def intro!: exI [of _ p] exI [of _ qs])
    with 2 show ?thesis by blast
  qed
qed

lemma read_some_reads:
  assumes "reader_at r todo rest" "0 < n"
  shows "(\<exists>r'. read_some n r = (Inl Dropped, r') \<and> reader_at r' todo rest) \<or>
    (\<exists>r' bs todo'. read_some n r = (Inr bs, r') \<and> todo = bs @ todo' \<and> length bs \<le> n \<and> reader_at r' todo' rest \<and>
       (bs = [] \<longrightarrow> todo = [] \<and> finished r'))"
proof -
  from next_fragment_reads [OF assms(1)]
  consider r' where "next_fragment r = (Inl Dropped, r')" "reader_at r' todo rest"
    | r' where "next_fragment r = (Inr True, r')" "reader_at r' todo rest" "todo = []" "finished r'"
    | r' where "next_fragment r = (Inr False, r')" "reader_at r' todo rest" "0 < rr_remaining r'" "rr_marker_used r' = 0"
    by (auto split: if_splits)
  then show ?thesis
  proof cases
    case (3 r')
    obtain res es where sr: "stream_read (min n (rr_remaining r')) (rr_stream r') = (res, es)" by fastforce
    from reader_at_payload [OF 3(2,3,4) assms(2) sr] 3(1) sr assms(2) show ?thesis
      by (auto simp: read_some_def)
  qed (use assms(2) in \<open>auto simp: read_some_def\<close>)
qed

lemma read_exact_reads:
  "reader_at r todo rest \<Longrightarrow>
   (\<exists>r' k. k < n \<and> reader_read_exact n (r, filled) = (Inl Dropped, r', filled @ take k todo) \<and> k \<le> length todo \<and> reader_at r' (drop k todo) rest) \<or>
   (\<exists>r'. reader_read_exact n (r, filled) =
      (if n \<le> length todo then Inr () else Inl (Failed (WireFailure (WUnexpectedEof (n - length todo) 0))), r', filled @ take n todo) \<and>
      reader_at r' (drop n todo) rest)"
proof (induction n arbitrary: r todo filled rule: less_induct)
  case (less n)
  show ?case
  proof (cases "n = 0")
    case True
    with less.prems show ?thesis by (subst (1 2) reader_read_exact.simps) auto
  next
    case False
    then have n: "0 < n" by simp
    from read_some_reads [OF less.prems n]
    consider r' where "read_some n r = (Inl Dropped, r')" "reader_at r' todo rest"
      | r' where "read_some n r = (Inr [], r')" "todo = []" "reader_at r' [] rest"
      | r' bs todo' where "read_some n r = (Inr bs, r')" "bs \<noteq> []" "todo = bs @ todo'" "length bs \<le> n" "reader_at r' todo' rest"
      by force
    then show ?thesis
    proof cases
      case (1 r')
      with n have "reader_read_exact n (r, filled) = (Inl Dropped, r', filled)" by (subst reader_read_exact.simps) simp
      with 1 n show ?thesis by (intro disjI1 exI [of _ r'] exI [of _ 0]) simp
    next
      case (2 r')
      with n have "reader_read_exact n (r, filled) = (Inl (Failed (WireFailure (WUnexpectedEof n 0))), r', filled)"
        by (subst reader_read_exact.simps) simp
      with 2 n show ?thesis by auto
    next
      case (3 r' bs todo')
      then have step: "reader_read_exact n (r, filled) = reader_read_exact (n - length bs) (r', filled @ bs)"
        using n by (subst reader_read_exact.simps) simp
      have "n - length bs < n" using 3 n by simp
      from less.IH [OF this 3(5), of "filled @ bs"] show ?thesis
      proof (elim disjE exE conjE)
        fix r'' k
        assume k: "k < n - length bs" "reader_read_exact (n - length bs) (r', filled @ bs) = (Inl Dropped, r'', (filled @ bs) @ take k todo')"
          "k \<le> length todo'" "reader_at r'' (drop k todo') rest"
        then show ?thesis
          unfolding step using 3(3,4) by (intro disjI1 exI [of _ r''] exI [of _ "length bs + k"]) auto
      next
        fix r''
        assume "reader_read_exact (n - length bs) (r', filled @ bs) =
            (if n - length bs \<le> length todo' then Inr () else Inl (Failed (WireFailure (WUnexpectedEof (n - length bs - length todo') 0))),
             r'', (filled @ bs) @ take (n - length bs) todo')"
          "reader_at r'' (drop (n - length bs) todo') rest"
        then show ?thesis
          unfolding step using 3(3,4) by (intro disjI2 exI [of _ r'']) auto
      qed
    qed
  qed
qed

section \<open>Progress and limits\<close>

lemma stream_read_shrinks:
  "stream_read n es = (res, es') \<Longrightarrow> stream_size es' \<le> stream_size es \<and>
   (res = ReadDropped \<longrightarrow> stream_size es' < stream_size es)"
  by (induction n es rule: stream_read.induct) (auto split: if_splits)

lemma fill_marker_shrinks:
  "fill_marker r = (res, r') \<Longrightarrow> stream_size (rr_stream r') \<le> stream_size (rr_stream r) \<and>
   (res = Inl Dropped \<longrightarrow> stream_size (rr_stream r') < stream_size (rr_stream r)) \<and>
   rr_limits r' = rr_limits r \<and> rr_fragments r' = rr_fragments r \<and> rr_remaining r' = rr_remaining r \<and>
   rr_record_bytes r' = rr_record_bytes r"
proof (induction r rule: fill_marker.induct)
  case (1 r)
  obtain sr es where sr: "stream_read (4 - rr_marker_used r) (rr_stream r) = (sr, es)" by fastforce
  note le = stream_read_shrinks [OF sr]
  show ?case
  proof (cases "rr_marker_used r < 4 \<and> (\<exists>bs. sr = Got bs \<and> bs \<noteq> [])")
    case True
    then obtain bs where bs: "rr_marker_used r < 4" "sr = Got bs" "bs \<noteq> []" by blast
    with 1(2) sr have "fill_marker (r\<lparr>rr_stream := es,
         rr_marker := take (rr_marker_used r) (rr_marker r) @ bs @ drop (rr_marker_used r + length bs) (rr_marker r),
         rr_marker_used := rr_marker_used r + length bs\<rparr>) = (res, r')"
      by (subst (asm) fill_marker.simps) simp
    from 1(1) [OF bs(1) sr [symmetric] bs(2,3) this] le show ?thesis by auto
  next
    case False
    with 1(2) sr le show ?thesis
      by (subst (asm) fill_marker.simps)
         (auto split: if_splits read_result.splits)
  qed
qed

text \<open>\<open>spent\<close> bytes of the record have been delivered, within the limits, whatever the stream holds.\<close>

definition within_limits :: "record_reader \<Rightarrow> nat \<Rightarrow> bool" where
  "within_limits r spent \<longleftrightarrow> rr_fragments r \<le> max_fragments (rr_limits r) \<and>
     rr_record_bytes r \<le> max_record_bytes (rr_limits r) \<and>
     spent + rr_remaining r + 4 * rr_fragments r = rr_record_bytes r"

lemma next_fragment_within:
  "next_fragment r = (res, r') \<Longrightarrow> within_limits r spent \<Longrightarrow>
   within_limits r' spent \<and> rr_limits r' = rr_limits r \<and> stream_size (rr_stream r') \<le> stream_size (rr_stream r) \<and>
   (res = Inl Dropped \<longrightarrow> stream_size (rr_stream r') < stream_size (rr_stream r))"
proof (induction r rule: next_fragment.induct)
  case (1 r)
  show ?case
  proof (cases "rr_remaining r = 0 \<and> \<not> rr_last r \<and> rr_fragments r \<noteq> max_fragments (rr_limits r)")
    case False
    with "1.prems" show ?thesis by (subst (asm) next_fragment.simps) (auto split: if_splits)
  next
    case True
    obtain f mid where f: "fill_marker r = (f, mid)" by fastforce
    note shr = fill_marker_shrinks [OF f]
    then have mid: "within_limits mid spent" "rr_limits mid = rr_limits r" "rr_fragments mid = rr_fragments r"
      "rr_remaining mid = rr_remaining r" "rr_record_bytes mid = rr_record_bytes r"
      using "1.prems"(2) by (auto simp: within_limits_def)
    show ?thesis
    proof (cases f)
      case (Inl e)
      with "1.prems" True f mid shr show ?thesis by (subst (asm) next_fragment.simps) auto
    next
      case (Inr u)
      obtain g r2 where g: "accept_marker mid = (g, r2)" by fastforce
      have both: "and_then fill_marker (\<lambda>_. accept_marker) r = (g, r2)" using f Inr g by simp
      have keep: "rr_limits r2 = rr_limits r" "rr_stream r2 = rr_stream mid"
        using g mid by (auto simp: accept_marker_def Let_def split: option.splits if_splits)
      have w: "within_limits r2 spent" and nd: "g \<noteq> Inl Dropped"
        using g mid True
        by (auto simp: accept_marker_def Let_def within_limits_def checked_add_Some Suc_le_eq
            split: option.splits if_splits bind_splits)
      show ?thesis
      proof (cases g)
        case (Inl e)
        with "1.prems"(1) True both keep w nd shr show ?thesis by (subst (asm) next_fragment.simps) auto
      next
        case (Inr v)
        then have "next_fragment r2 = (res, r')" using "1.prems"(1) True both by (subst (asm) next_fragment.simps) simp
        from "1.IH" [OF _ _ _ both [symmetric] Inr this w] True keep shr show ?thesis by auto
      qed
    qed
  qed
qed

lemma read_some_within:
  assumes "read_some n r = (res, r')" "within_limits r spent"
  shows "within_limits r' (spent + (case res of Inr bs \<Rightarrow> length bs | Inl _ \<Rightarrow> 0)) \<and> rr_limits r' = rr_limits r \<and>
    stream_size (rr_stream r') \<le> stream_size (rr_stream r) \<and>
    (res = Inl Dropped \<or> (\<exists>bs. res = Inr bs \<and> bs \<noteq> []) \<longrightarrow> stream_size (rr_stream r') < stream_size (rr_stream r))"
proof (cases "n = 0")
  case True
  with assms show ?thesis by (auto simp: read_some_def)
next
  case False
  obtain nf mid where nf: "next_fragment r = (nf, mid)" by fastforce
  note mid = next_fragment_within [OF nf assms(2)]
  obtain sr es where sr: "stream_read (min n (rr_remaining mid)) (rr_stream mid) = (sr, es)" by fastforce
  have got: "length bs \<le> rr_remaining mid \<and> (bs \<noteq> [] \<longrightarrow> stream_size es < stream_size (rr_stream mid))" if "sr = Got bs" for bs
    using stream_read_length [of "min n (rr_remaining mid)" "rr_stream mid" bs es] stream_read_size sr that by auto
  show ?thesis
  proof (cases "nf = Inr False")
    case True
    with assms(1) False nf sr mid got stream_read_shrinks [OF sr] show ?thesis
      by (cases sr) (auto simp: read_some_def within_limits_def split: if_splits)
  next
    case no: False
    with assms(1) False nf mid show ?thesis
      by (cases nf) (auto simp: read_some_def split: bool.splits)
  qed
qed

text \<open>A client of the reader: a sequence of reads with given buffer sizes, carried on after a dropped or failed one.\<close>

fun read_calls :: "nat list \<Rightarrow> record_reader \<Rightarrow> (halt + bytes) list \<times> record_reader" where
  "read_calls [] r = ([], r)"
| "read_calls (n # ns) r =
     (case read_some n r of (res, r') \<Rightarrow> case read_calls ns r' of (results, r'') \<Rightarrow> (res # results, r''))"

definition delivered :: "(halt + bytes) list \<Rightarrow> bytes" where
  "delivered results = concat (map (\<lambda>res. case res of Inr bs \<Rightarrow> bs | Inl _ \<Rightarrow> []) results)"

lemma read_calls_within:
  "read_calls ns r = (results, r') \<Longrightarrow> within_limits r spent \<Longrightarrow>
   within_limits r' (spent + length (delivered results)) \<and> rr_limits r' = rr_limits r"
proof (induction ns arbitrary: r results spent)
  case (Cons n ns)
  obtain res mid where rs: "read_some n r = (res, mid)" by fastforce
  obtain results' where rest: "read_calls ns mid = (results', r')" and res: "results = res # results'"
    using Cons.prems(1) rs by (auto split: prod.splits)
  note w = read_some_within [OF rs Cons.prems(2)]
  from Cons.IH [OF rest conjunct1 [OF w]] w show ?case
    by (cases res) (simp_all add: res delivered_def add.assoc)
qed (simp add: delivered_def)

lemma read_calls_finished:
  "finished r \<Longrightarrow> list_all (\<lambda>n. 0 < n) ns \<Longrightarrow> read_calls ns r = (replicate (length ns) (Inr []), r)"
  by (induction ns) (simp_all add: finished_read_some)

lemma read_calls_reads:
  "read_calls ns r = (results, r') \<Longrightarrow> reader_at r todo rest \<Longrightarrow> within_limits r spent \<Longrightarrow> list_all (\<lambda>n. 0 < n) ns \<Longrightarrow>
   (\<exists>todo'. todo = delivered results @ todo' \<and> reader_at r' todo' rest) \<and>
   list_all (\<lambda>res. res = Inl Dropped \<or> (\<exists>bs. res = Inr bs)) results \<and>
   (stream_size (rr_stream r) < length ns \<longrightarrow> todo = delivered results \<and> content (rr_stream r') = rest)"
proof (induction ns arbitrary: r results todo spent)
  case (Cons n ns)
  obtain res mid where rs: "read_some n r = (res, mid)" by fastforce
  obtain results' where rest: "read_calls ns mid = (results', r')" and res: "results = res # results'"
    using Cons.prems(1) rs by (auto split: prod.splits)
  from Cons.prems(4) have n: "0 < n" "list_all (\<lambda>n. 0 < n) ns" by auto
  note w = read_some_within [OF rs Cons.prems(3)]
  from read_some_reads [OF Cons.prems(2) n(1)] rs
  consider "res = Inl Dropped" "reader_at mid todo rest"
    | bs todo1 where "res = Inr bs" "todo = bs @ todo1" "reader_at mid todo1 rest" "bs = [] \<longrightarrow> todo = [] \<and> finished mid"
    by auto
  then show ?case
  proof cases
    case 1
    with Cons.IH [OF rest 1(2) conjunct1 [OF w] n(2)] w show ?thesis by (auto simp: res delivered_def)
  next
    case (2 bs todo1)
    note ih = Cons.IH [OF rest 2(3) conjunct1 [OF w] n(2)]
    show ?thesis
    proof (cases "bs = []")
      case True
      with 2 read_calls_finished [of mid ns] rest n(2) have "results' = replicate (length ns) (Inr [])" "r' = mid" by auto
      with True 2 show ?thesis
        by (auto simp: res delivered_def list_all_iff finished_content)
    next
      case False
      with ih w 2 show ?thesis by (auto simp: res delivered_def)
    qed
  qed
qed (auto simp: delivered_def)

section \<open>Properties\<close>

text \<open>
  C13. Whatever the writer does, what \<^verbatim>\<open>write_segments\<close> puts on the stream is a prefix of one
  framed record holding the segments' bytes, it reports success exactly when the whole
  frame was written, and it refuses records beyond the fragment limit before writing a byte.
\<close>
theorem write_segments_frame:
  "\<exists>w. snd (snd (write_segments segs (schedule, sink))) = sink @ w \<and> prefix w (framed [concat segs]) \<and>
     (fst (write_segments segs (schedule, sink)) = Inr () \<longleftrightarrow> w = framed [concat segs]) \<and>
     (length (concat segs) > unat MAX_FRAGMENT_LEN \<longrightarrow>
        w = [] \<and> fst (write_segments segs (schedule, sink)) = Inl (Failed (Transport ''RPC record exceeds single-fragment limit'')))"
proof (cases "checked_total 0 segs")
  case (Inl e)
  with checked_total_Inl [OF Inl] show ?thesis
    by (intro exI [of _ "[]"]) (auto simp: write_segments_def single_frame simp del: framed.simps)
next
  case (Inr len)
  then have len: "len = length (concat segs)" "len \<le> unat MAX_FRAGMENT_LEN"
    using checked_total_Inr [of 0 segs len] by auto
  from frame_written_segments [OF Inr, of schedule sink] len show ?thesis
    by (auto simp: frame_written_def split: prod.splits simp del: framed.simps)
qed

theorem write_segments_frame_witness:
  "fst (write_segments [replicate (2 ^ 31) 7] ([Accept 9], [])) =
     Inl (Failed (Transport ''RPC record exceeds single-fragment limit'')) \<and>
   snd (snd (write_segments [replicate (2 ^ 31) 7] ([Accept 9], []))) = []"
proof -
  have "unat MAX_FRAGMENT_LEN < length (concat [replicate (2 ^ 31) (7 :: byte)])"
    unfolding concat.simps append_Nil2 length_replicate by (simp add: MAX_FRAGMENT_LEN_def)
  then show ?thesis
    using write_segments_frame [of "[replicate (2 ^ 31) 7]" "[Accept 9]" "[]", unfolded append_Nil] by (elim exE conjE) blast
qed

text \<open>
  C26. On a writer that keeps accepting bytes, interrupted or not, however few at a time, the
  whole frame is written.
\<close>
theorem write_segments_completes:
  assumes "length (concat segs) \<le> unat MAX_FRAGMENT_LEN" "list_all progressing schedule"
    and "4 + length (concat segs) \<le> accepts schedule"
  shows "fst (write_segments segs (schedule, sink)) = Inr () \<and>
         snd (snd (write_segments segs (schedule, sink))) = sink @ framed [concat segs]"
proof -
  have "checked_total 0 segs = Inr (length (concat segs))" using assms(1) by (simp add: checked_total_Inr)
  from frame_written_segments [OF this, of schedule sink] assms(2,3) show ?thesis
    by (auto simp: frame_written_def single_frame simp del: framed.simps split: prod.splits)
qed

theorem write_segments_completes_witness:
  "fst (write_segments [[1], [], [2, 3]] (replicate 7 (Accept 1), [])) = Inr () \<and>
   snd (snd (write_segments [[1], [], [2, 3]] (replicate 7 (Accept 1), []))) = [] @ framed [[1, 2, 3]]"
  using write_segments_completes [of "[[1], [], [2, 3]]" "replicate 7 (Accept 1)" "[]"]
  by (simp add: MAX_FRAGMENT_LEN_def list_all_length progressing_def accepts_def)

text \<open>
  C12. Reading one record from a stream that carries it, cut into any chunks and interrupted
  by any dropped futures, with any buffer sizes: no call fails, what was delivered is a
  prefix of the record's payload, and after enough calls it is the whole payload while the
  bytes after the record are still on the stream.
\<close>
theorem record_reader_delivers:
  assumes "frames_ok ps" "clean es" "content es = framed ps @ rest"
    and "length ps \<le> max_fragments limits" "length (framed ps) \<le> min (max_record_bytes limits) usize_max"
    and "list_all (\<lambda>n. 0 < n) ns"
  shows "\<exists>r results r'. record_reader_new es limits = Inr r \<and> read_calls ns r = (results, r') \<and>
    list_all (\<lambda>res. res = Inl Dropped \<or> (\<exists>bs. res = Inr bs)) results \<and> prefix (delivered results) (concat ps) \<and>
    (stream_size es < length ns \<longrightarrow> delivered results = concat ps \<and> content (rr_stream r') = rest)"
proof -
  from reader_at_new [OF assms(1-5)] obtain r where r: "record_reader_new es limits = Inr r" "reader_at r (concat ps) rest"
    by blast
  then have "rr_stream r = es" "within_limits r 0"
    by (auto simp: record_reader_new_def within_limits_def split: if_splits)
  moreover obtain results r' where "read_calls ns r = (results, r')" by fastforce
  ultimately show ?thesis
    using r read_calls_reads [of ns r results r' "concat ps" rest 0] assms(6) by (auto simp: prefix_def)
qed

theorem record_reader_delivers_witness:
  "\<exists>r results r'. record_reader_new [Data [0x80, 0], DropRead, Data [0, 2, 7], Data [8, 9]] record_limits_default = Inr r \<and>
     read_calls (replicate 13 1) r = (results, r') \<and>
     delivered results = [7, 8] \<and> content (rr_stream r') = [9]"
proof -
  have "framed [[7, 8]] = [0x80, 0, 0, 2, 7, 8 :: byte]"
    by (simp add: single_frame u32_to_be_eval del: framed.simps)
  then have "\<exists>r results r'. record_reader_new [Data [0x80, 0], DropRead, Data [0, 2, 7], Data [8, 9]] record_limits_default = Inr r \<and>
     read_calls (replicate 13 1) r = (results, r') \<and>
     list_all (\<lambda>res. res = Inl Dropped \<or> (\<exists>bs. res = Inr bs)) results \<and> prefix (delivered results) (concat [[7, 8]]) \<and>
     (stream_size [Data [0x80, 0], DropRead, Data [0, 2, 7], Data [8, 9]] < length (replicate 13 (1 :: nat)) \<longrightarrow>
        delivered results = concat [[7, 8]] \<and> content (rr_stream r') = [9])"
    by (intro record_reader_delivers)
       (auto simp: frames_ok_def fragment_fits_def MAX_FRAGMENT_LEN_def record_limits_default_def MAX_FRAGMENTS_def
         MAX_RECORD_BYTES_def usize_max_def list_all_length simp del: framed.simps)
  then show ?thesis by auto
qed

text \<open>
  C25. Whatever the peer sends, however the reader is called and resumed, it accepts at most
  the configured number of fragments and delivers at most the configured number of bytes,
  less four for each fragment.
\<close>
theorem record_reader_bounded:
  assumes "record_reader_new es limits = Inr r" "read_calls ns r = (results, r')"
  shows "rr_fragments r' \<le> max_fragments limits \<and>
         length (delivered results) + 4 * rr_fragments r' \<le> max_record_bytes limits"
proof -
  from assms(1) have "within_limits r 0" "rr_limits r = limits"
    by (auto simp: record_reader_new_def within_limits_def split: if_splits)
  from read_calls_within [OF assms(2) this(1)] this(2) show ?thesis by (auto simp: within_limits_def)
qed

theorem record_reader_bounded_witness:
  "\<exists>r results r'. record_reader_new [Data [0x80, 0, 0, 9, 1]] \<lparr>max_record_bytes = 8, max_fragments = 1\<rparr> = Inr r \<and>
     read_calls [5] r = (results, r') \<and> rr_fragments r' \<le> 1 \<and> length (delivered results) + 4 * rr_fragments r' \<le> 8"
proof -
  obtain r where r: "record_reader_new [Data [0x80, 0, 0, 9, 1]] \<lparr>max_record_bytes = 8, max_fragments = 1\<rparr> = Inr r"
    by (simp add: record_reader_new_def)
  obtain results r' where "read_calls [5] r = (results, r')" by fastforce
  with record_reader_bounded [OF r this] r show ?thesis by auto
qed

end
