(* ===== verification/Admission_Ctl.thy ===== *)
theory Admission_Ctl
  imports Runtime_Base "HOL-Library.Multiset"
begin

text \<open>
  The module \<^verbatim>\<open>src/crates/onc-rpc-runtime/src/admission.rs\<close>: a shared budget of calls and
  bytes. The state behind the mutex is a record and each operation holds the lock for its
  whole state change. A permit is its byte weight; releasing one is a checked subtraction,
  \<open>None\<close> standing for the arithmetic underflow that would panic.
\<close>

record admission_limits =
  max_calls :: nat
  max_bytes :: nat

definition admission_limits_default :: admission_limits where
  "admission_limits_default = \<lparr>max_calls = 1024, max_bytes = 128 * 1024 * 1024\<rparr>"

datatype admission_error =
    AtCapacity
  | TooLarge nat nat
  | AdmissionClosed
  | InvalidLimits
  | InvalidRequest runtime_error

definition is_retryable :: "admission_error \<Rightarrow> bool" where
  "is_retryable self = (case self of AtCapacity \<Rightarrow> True | _ \<Rightarrow> False)"

record admission_snapshot =
  snap_limits :: admission_limits
  snap_calls :: nat
  snap_bytes :: nat

record admission =
  adm_limits :: admission_limits
  adm_calls :: nat
  adm_bytes :: nat
  adm_closed :: bool

definition admission_check :: "admission \<Rightarrow> nat \<Rightarrow> admission_error + unit" where
  "admission_check self bytes =
     (if adm_closed self then Inl AdmissionClosed
      else if bytes > max_bytes (adm_limits self) then Inl (TooLarge bytes (max_bytes (adm_limits self)))
      else if (case checked_add (adm_calls self) 1 of None \<Rightarrow> True | Some calls \<Rightarrow> calls > max_calls (adm_limits self)) \<or>
              (case checked_add (adm_bytes self) bytes of None \<Rightarrow> True | Some bytes \<Rightarrow> bytes > max_bytes (adm_limits self))
      then Inl AtCapacity else Inr ())"

definition admission_new :: "admission_limits \<Rightarrow> admission_error + admission" where
  "admission_new limits =
     (if max_calls limits = 0 \<or> max_bytes limits = 0 then Inl InvalidLimits
      else Inr \<lparr>adm_limits = limits, adm_calls = 0, adm_bytes = 0, adm_closed = False\<rparr>)"

definition admission_unlimited :: "admission_error + admission" where
  "admission_unlimited = admission_new \<lparr>max_calls = usize_max, max_bytes = usize_max\<rparr>"

definition try_acquire :: "nat \<Rightarrow> (admission, admission_error, nat) action" where
  "try_acquire bytes self =
     (case admission_check self bytes of
        Inl e \<Rightarrow> (Inl e, self)
      | Inr _ \<Rightarrow> (Inr bytes, self\<lparr>adm_calls := adm_calls self + 1, adm_bytes := adm_bytes self + bytes\<rparr>))"

definition snapshot :: "admission \<Rightarrow> admission_snapshot" where
  "snapshot self = \<lparr>snap_limits = adm_limits self, snap_calls = adm_calls self, snap_bytes = adm_bytes self\<rparr>"

definition close_admission :: "admission \<Rightarrow> admission" where
  "close_admission self = self\<lparr>adm_closed := True\<rparr>"

definition drop_permit :: "nat \<Rightarrow> admission \<Rightarrow> admission option" where
  "drop_permit bytes self =
     (if adm_calls self < 1 \<or> adm_bytes self < bytes then None
      else Some (self\<lparr>adm_calls := adm_calls self - 1, adm_bytes := adm_bytes self - bytes\<rparr>))"

section \<open>Histories\<close>

text \<open>
  The operations of any number of threads, in the order in which they take the lock, beside
  the permits that are alive: only a live permit can be dropped, and once.
\<close>

inductive adm_step :: "admission \<times> nat multiset \<Rightarrow> admission \<times> nat multiset \<Rightarrow> bool" where
  acquire: "try_acquire bytes a = (Inr permit, a') \<Longrightarrow> adm_step (a, live) (a', add_mset permit live)"
| refuse: "try_acquire bytes a = (Inl e, a') \<Longrightarrow> adm_step (a, live) (a', live)"
| release: "permit \<in># live \<Longrightarrow> drop_permit permit a = Some a' \<Longrightarrow> adm_step (a, live) (a', live - {#permit#})"
| shut: "adm_step (a, live) (close_admission a, live)"

inductive_cases adm_stepE: "adm_step s s'"

definition adm_history :: "admission_limits \<Rightarrow> admission \<Rightarrow> nat multiset \<Rightarrow> bool" where
  "adm_history limits a live \<longleftrightarrow> (\<exists>a0. admission_new limits = Inr a0 \<and> adm_step\<^sup>*\<^sup>* (a0, {#}) (a, live))"

definition accounted :: "admission_limits \<Rightarrow> admission \<times> nat multiset \<Rightarrow> bool" where
  "accounted limits s \<longleftrightarrow> (case s of (a, live) \<Rightarrow> adm_limits a = limits \<and> adm_calls a = size live \<and> adm_bytes a = \<Sum>\<^sub># live \<and>
     size live \<le> max_calls limits \<and> \<Sum>\<^sub># live \<le> max_bytes limits)"

lemma check_Inr:
  "admission_check a bytes = Inr u \<longleftrightarrow> \<not> adm_closed a \<and> adm_calls a + 1 \<le> min usize_max (max_calls (adm_limits a)) \<and>
     adm_bytes a + bytes \<le> min usize_max (max_bytes (adm_limits a))"
  by (auto simp: admission_check_def checked_add_def)

lemma try_acquire_Inr:
  "try_acquire bytes a = (Inr p, a') \<longleftrightarrow> admission_check a bytes = Inr () \<and> p = bytes \<and>
     a' = a\<lparr>adm_calls := adm_calls a + 1, adm_bytes := adm_bytes a + bytes\<rparr>"
  by (auto simp: try_acquire_def split: sum.splits)

lemma try_acquire_Inl:
  "try_acquire bytes a = (Inl e, a') \<longleftrightarrow> admission_check a bytes = Inl e \<and> a' = a"
  by (auto simp: try_acquire_def split: sum.splits)

lemma accounted_release:
  assumes "accounted limits (a, live)" "permit \<in># live"
  shows "\<exists>a'. drop_permit permit a = Some a' \<and> accounted limits (a', live - {#permit#}) \<and> adm_closed a' = adm_closed a"
proof -
  from assms(2) obtain rest where "live = add_mset permit rest" by (metis insert_DiffM)
  with assms(1) show ?thesis by (auto simp: accounted_def drop_permit_def)
qed

lemma accounted_step: "adm_step s s' \<Longrightarrow> accounted limits s \<Longrightarrow> accounted limits s'"
proof (induction rule: adm_step.induct)
  case (release permit live a a')
  then show ?case using accounted_release [of limits a live permit] by auto
qed (auto simp: accounted_def try_acquire_Inr try_acquire_Inl check_Inr close_admission_def)

lemma accounted_steps: "adm_step\<^sup>*\<^sup>* s s' \<Longrightarrow> accounted limits s \<Longrightarrow> accounted limits s'"
  by (induction rule: rtranclp_induct) (auto intro: accounted_step)

lemma accounted_history: "adm_history limits a live \<Longrightarrow> accounted limits (a, live)"
proof -
  assume "adm_history limits a live"
  then obtain a0 where "admission_new limits = Inr a0" and steps: "adm_step\<^sup>*\<^sup>* (a0, {#}) (a, live)"
    by (auto simp: adm_history_def)
  then have "accounted limits (a0, {#})"
    by (auto simp: admission_new_def accounted_def split: if_splits)
  from accounted_steps [OF steps this] show ?thesis .
qed

lemma closed_step: "adm_step s s' \<Longrightarrow> adm_closed (fst s) \<Longrightarrow> adm_closed (fst s')"
  by (induction rule: adm_step.induct)
     (auto simp: try_acquire_Inr try_acquire_Inl close_admission_def drop_permit_def check_Inr split: if_splits)

lemma closed_steps: "adm_step\<^sup>*\<^sup>* s s' \<Longrightarrow> adm_closed (fst s) \<Longrightarrow> adm_closed (fst s')"
  by (induction rule: rtranclp_induct) (auto intro: closed_step)

text \<open>Dropping every live permit, in any order.\<close>

fun drop_all :: "nat list \<Rightarrow> admission \<Rightarrow> admission option" where
  "drop_all [] a = Some a"
| "drop_all (p # ps) a = Option.bind (drop_permit p a) (drop_all ps)"

lemma drop_all_accounted:
  "accounted limits (a, mset ps) \<Longrightarrow> \<exists>a'. drop_all ps a = Some a' \<and> accounted limits (a', {#}) \<and> adm_closed a' = adm_closed a"
proof (induction ps arbitrary: a)
  case (Cons p ps)
  from accounted_release [OF Cons.prems, of p] obtain a1 where
    "drop_permit p a = Some a1" "accounted limits (a1, mset ps)" "adm_closed a1 = adm_closed a" by auto
  with Cons.IH [of a1] show ?case by auto
qed auto

section \<open>Properties\<close>

text \<open>
  C16. In every history of the operations, the state's counters are exactly the number and the
  total weight of the live permits, both within the configured limits, the snapshot reports
  them, and dropping a live permit never underflows.
\<close>
theorem admission_accounting:
  assumes "adm_history limits a live"
  shows "snapshot a = \<lparr>snap_limits = limits, snap_calls = size live, snap_bytes = \<Sum>\<^sub># live\<rparr> \<and>
    size live \<le> max_calls limits \<and> \<Sum>\<^sub># live \<le> max_bytes limits \<and>
    (\<forall>permit. permit \<in># live \<longrightarrow> drop_permit permit a \<noteq> None)"
  using accounted_history [OF assms] accounted_release [of limits a live]
  by (fastforce simp: snapshot_def accounted_def)

lemma one_call_history:
  "adm_history \<lparr>max_calls = 2, max_bytes = 10\<rparr>
     \<lparr>adm_limits = \<lparr>max_calls = 2, max_bytes = 10\<rparr>, adm_calls = 1, adm_bytes = 7, adm_closed = False\<rparr> {#7#}"
  unfolding adm_history_def
  by (intro exI conjI, simp add: admission_new_def, rule r_into_rtranclp)
     (use adm_step.acquire [of 7 "\<lparr>adm_limits = \<lparr>max_calls = 2, max_bytes = 10\<rparr>, adm_calls = 0, adm_bytes = 0, adm_closed = False\<rparr>" 7 _ "{#}"]
      in \<open>simp add: try_acquire_def admission_check_def checked_add_def usize_max_def\<close>)

theorem admission_accounting_witness:
  "size {#7 :: nat#} \<le> 2 \<and> \<Sum>\<^sub># {#7 :: nat#} \<le> 10 \<and>
   drop_permit 7 \<lparr>adm_limits = \<lparr>max_calls = 2, max_bytes = 10\<rparr>, adm_calls = 1, adm_bytes = 7, adm_closed = False\<rparr> \<noteq> None"
  using admission_accounting [OF one_call_history] by simp

text \<open>
  Each refusal means what it says: \<^verbatim>\<open>TooLarge\<close> is for requests that exceed the byte limit
  by themselves; \<^verbatim>\<open>AtCapacity\<close>, the only retryable one, only occurs while permits are alive,
  and once they are all dropped the same request is admitted; after a close every request
  is refused with \<^verbatim>\<open>Closed\<close>, for good.
\<close>
theorem admission_refusals:
  assumes "adm_history limits a (mset ps)" "admission_check a bytes = Inl e" "max_bytes limits \<le> usize_max"
  shows "(e = TooLarge bytes (max_bytes limits) \<and> bytes > max_bytes limits) \<or>
    (e = AtCapacity \<and> ps \<noteq> [] \<and> (\<exists>idle. drop_all ps a = Some idle \<and> admission_check idle bytes = Inr ())) \<or>
    (e = AdmissionClosed \<and> (\<forall>a' live. adm_step\<^sup>*\<^sup>* (a, mset ps) (a', live) \<longrightarrow> (\<forall>n. admission_check a' n = Inl AdmissionClosed)))"
proof -
  note acc = accounted_history [OF assms(1)]
  consider "adm_closed a" | "\<not> adm_closed a" "bytes > max_bytes limits" | "\<not> adm_closed a" "bytes \<le> max_bytes limits" by linarith
  then show ?thesis
  proof cases
    case 1
    with assms(2) have "e = AdmissionClosed" by (simp add: admission_check_def)
    with 1 closed_steps [of "(a, mset ps)"] show ?thesis by (fastforce simp: admission_check_def)
  next
    case 2
    with assms(2) acc show ?thesis by (simp add: admission_check_def accounted_def)
  next
    case 3
    from drop_all_accounted [OF acc] obtain idle where idle: "drop_all ps a = Some idle" "accounted limits (idle, {#})"
      "\<not> adm_closed idle" using 3 by auto
    from assms(1) have "0 < max_calls limits"
      by (auto simp: adm_history_def admission_new_def split: if_splits)
    with idle 3 assms(3) have "admission_check idle bytes = Inr ()"
      by (auto simp: check_Inr accounted_def usize_max_def)
    moreover from this assms(2) idle(1) have "ps \<noteq> []" by (cases ps) auto
    moreover from 3 assms(2) acc have "e = AtCapacity" by (auto simp: admission_check_def accounted_def split: if_splits)
    ultimately show ?thesis using idle(1) by blast
  qed
qed

theorem admission_refusals_witness:
  "\<exists>idle. drop_all [7] \<lparr>adm_limits = \<lparr>max_calls = 2, max_bytes = 10\<rparr>, adm_calls = 1, adm_bytes = 7, adm_closed = False\<rparr> = Some idle \<and>
     admission_check idle 5 = Inr ()"
proof -
  let ?a = "\<lparr>adm_limits = \<lparr>max_calls = 2, max_bytes = 10\<rparr>, adm_calls = 1, adm_bytes = 7, adm_closed = False\<rparr>"
  have "admission_check ?a 5 = Inl AtCapacity"
    by (simp add: admission_check_def checked_add_def usize_max_def)
  from admission_refusals [of "\<lparr>max_calls = 2, max_bytes = 10\<rparr>" ?a "[7]", OF _ this] one_call_history show ?thesis
    by (simp add: usize_max_def)
qed

end
