(* ===== verification/Wait_Loop.thy ===== *)
theory Wait_Loop
  imports Admission_Ctl
begin

text \<open>
  The waiting loops of the runtime, which all have one shape: register with a
  \<^verbatim>\<open>tokio::sync::Notify\<close>, look at the shared state, and suspend until notified when there is
  nothing to return. The loops are \<^verbatim>\<open>Admission::wait_for_capacity\<close> of \<^verbatim>\<open>admission.rs\<close> and
  \<^verbatim>\<open>CallCancellation::cancelled\<close> of \<^verbatim>\<open>cancellation.rs\<close>; a waiter may be interleaved with
  any other waiter, with state changes and with the notifications these changes owe, since a
  change is made under a lock and its notification is sent after the lock is released.

  \<^verbatim>\<open>Notify\<close> belongs to tokio and is a parameter of the loops: three operations and what its
  documentation promises of them, \<open>notify_ok\<close>.
\<close>

section \<open>The loop\<close>

record 'n notify_api =
  api_enable :: "nat \<Rightarrow> 'n \<Rightarrow> 'n"
  api_notify_waiters :: "'n \<Rightarrow> 'n"
  api_woken :: "nat \<Rightarrow> 'n \<Rightarrow> bool"

datatype 'r wait_pc = WaitStart | WaitEnabled | WaitAwaiting | WaitReturned 'r

record ('s, 'n, 'r) wait_system =
  sys_shared :: 's
  sys_notify :: 'n
  sys_owed :: nat
  sys_pc :: "nat \<Rightarrow> 'r wait_pc"

definition waiter_step :: "'n notify_api \<Rightarrow> ('s \<Rightarrow> 'r option) \<Rightarrow> nat \<Rightarrow> ('s, 'n, 'r) wait_system \<Rightarrow> ('s, 'n, 'r) wait_system" where
  "waiter_step api poll t sys = (case sys_pc sys t of
       WaitStart \<Rightarrow> sys\<lparr>sys_notify := api_enable api t (sys_notify sys), sys_pc := (sys_pc sys)(t := WaitEnabled)\<rparr>
     | WaitEnabled \<Rightarrow> sys\<lparr>sys_pc := (sys_pc sys)(t :=
         (case poll (sys_shared sys) of Some r \<Rightarrow> WaitReturned r | None \<Rightarrow> WaitAwaiting))\<rparr>
     | WaitAwaiting \<Rightarrow> if api_woken api t (sys_notify sys) then sys\<lparr>sys_pc := (sys_pc sys)(t := WaitStart)\<rparr> else sys
     | WaitReturned r \<Rightarrow> sys)"

text \<open>A change of the shared state says whether a call of \<^verbatim>\<open>notify_waiters\<close> follows it.\<close>

inductive wait_step :: "'n notify_api \<Rightarrow> ('s \<Rightarrow> 'r option) \<Rightarrow> ('s \<Rightarrow> 's \<Rightarrow> bool \<Rightarrow> bool) \<Rightarrow>
    ('s, 'n, 'r) wait_system \<Rightarrow> ('s, 'n, 'r) wait_system \<Rightarrow> bool"
  for api poll mutates where
  waiter: "wait_step api poll mutates sys (waiter_step api poll t sys)"
| mutate: "mutates (sys_shared sys) s' owes \<Longrightarrow>
    wait_step api poll mutates sys (sys\<lparr>sys_shared := s', sys_owed := sys_owed sys + of_bool owes\<rparr>)"
| notify: "0 < sys_owed sys \<Longrightarrow>
    wait_step api poll mutates sys
      (sys\<lparr>sys_notify := api_notify_waiters api (sys_notify sys), sys_owed := sys_owed sys - 1\<rparr>)"

definition wait_init :: "'s \<Rightarrow> 'n \<Rightarrow> ('s, 'n, 'r) wait_system" where
  "wait_init s n = \<lparr>sys_shared = s, sys_notify = n, sys_owed = 0, sys_pc = (\<lambda>_. WaitStart)\<rparr>"

text \<open>
  What the documentation of \<^verbatim>\<open>Notify\<close> promises: enabling registers a waiter, other waiters do
  not disturb it, and \<^verbatim>\<open>notify_waiters\<close> wakes every registered waiter.
\<close>

definition notify_ok :: "'n notify_api \<Rightarrow> (nat \<Rightarrow> 'n \<Rightarrow> bool) \<Rightarrow> bool" where
  "notify_ok api registered \<longleftrightarrow>
     (\<forall>t n. registered t (api_enable api t n)) \<and>
     (\<forall>t u n. t \<noteq> u \<longrightarrow> registered t n \<longrightarrow> registered t (api_enable api u n)) \<and>
     (\<forall>t u n. t \<noteq> u \<longrightarrow> api_woken api t n \<longrightarrow> api_woken api t (api_enable api u n)) \<and>
     (\<forall>t n. registered t n \<or> api_woken api t n \<longrightarrow> api_woken api t (api_notify_waiters api n))"

section \<open>No wake-up is lost\<close>

locale waking =
  fixes poll :: "'s \<Rightarrow> 'r option"
    and mutates :: "'s \<Rightarrow> 's \<Rightarrow> bool \<Rightarrow> bool"
  assumes wakes: "mutates s s' owes \<Longrightarrow> poll s = None \<Longrightarrow> poll s' \<noteq> None \<Longrightarrow> owes"
begin

definition watched :: "'n notify_api \<Rightarrow> (nat \<Rightarrow> 'n \<Rightarrow> bool) \<Rightarrow> ('s, 'n, 'r) wait_system \<Rightarrow> bool" where
  "watched api registered sys \<longleftrightarrow> (\<forall>t.
     (sys_pc sys t = WaitEnabled \<longrightarrow> registered t (sys_notify sys) \<or> api_woken api t (sys_notify sys)) \<and>
     (sys_pc sys t = WaitAwaiting \<longrightarrow> api_woken api t (sys_notify sys) \<or>
        registered t (sys_notify sys) \<and> (poll (sys_shared sys) = None \<or> 0 < sys_owed sys)))"

lemma watched_init: "watched api registered (wait_init s n)"
  by (simp add: watched_def wait_init_def)

lemma watched_waiter:
  assumes "notify_ok api registered" "watched api registered sys"
  shows "watched api registered (waiter_step api poll t sys)"
proof (cases "sys_pc sys t")
  case WaitStart
  with assms show ?thesis
    by (auto simp: watched_def waiter_step_def notify_ok_def)
next
  case WaitEnabled
  with assms(2) show ?thesis
    by (auto simp: watched_def waiter_step_def split: option.splits)
qed (use assms(2) in \<open>auto simp: watched_def waiter_step_def\<close>)

lemma watched_step:
  assumes "wait_step api poll mutates sys sys'" "notify_ok api registered" "watched api registered sys"
  shows "watched api registered sys'"
  using assms
proof (induction rule: wait_step.induct)
  case (waiter sys t)
  then show ?case by (simp add: watched_waiter)
next
  case (mutate sys s' owes)
  then show ?case using wakes [OF mutate(1)] by (auto simp: watched_def)
next
  case (notify sys)
  then show ?case by (auto simp: watched_def notify_ok_def)
qed

lemma watched_steps:
  "(wait_step api poll mutates)\<^sup>*\<^sup>* sys sys' \<Longrightarrow> notify_ok api registered \<Longrightarrow> watched api registered sys \<Longrightarrow>
   watched api registered sys'"
  by (induction rule: rtranclp_induct) (auto intro: watched_step)

lemma suspended_woken:
  assumes "(wait_step api poll mutates)\<^sup>*\<^sup>* (wait_init s n) sys" "notify_ok api registered"
    and "sys_pc sys t = WaitAwaiting" "sys_owed sys = 0" "poll (sys_shared sys) \<noteq> None"
  shows "api_woken api t (sys_notify sys)"
  using watched_steps [OF assms(1,2) watched_init] assms(3-5) by (auto simp: watched_def)

lemma woken_returns:
  assumes "sys_pc sys t = WaitAwaiting" "api_woken api t (sys_notify sys)" "poll (sys_shared sys) = Some r"
  shows "sys_pc ((waiter_step api poll t ^^ 3) sys) t = WaitReturned r"
  using assms by (simp add: waiter_step_def numeral_3_eq_3)

lemma no_lost_wakeup:
  assumes "(wait_step api poll mutates)\<^sup>*\<^sup>* (wait_init s n) sys" "notify_ok api registered"
    and "sys_pc sys t = WaitAwaiting" "sys_owed sys = 0" "poll (sys_shared sys) = Some r"
  shows "sys_pc ((waiter_step api poll t ^^ 3) sys) t = WaitReturned r"
  using suspended_woken [OF assms(1-4)] woken_returns [OF assms(3) _ assms(5)] assms(5) by simp

end

section \<open>Waiting for capacity\<close>

definition capacity_poll :: "nat \<Rightarrow> admission \<Rightarrow> (admission_error + unit) option" where
  "capacity_poll bytes a = (case admission_check a bytes of
       Inr _ \<Rightarrow> Some (Inr ())
     | Inl AtCapacity \<Rightarrow> None
     | Inl e \<Rightarrow> Some (Inl e))"

definition wait_for_capacity_step :: "'n notify_api \<Rightarrow> nat \<Rightarrow> nat \<Rightarrow>
    (admission, 'n, admission_error + unit) wait_system \<Rightarrow> (admission, 'n, admission_error + unit) wait_system" where
  "wait_for_capacity_step api bytes t = waiter_step api (capacity_poll bytes) t"

text \<open>The changes of the admission state: \<^verbatim>\<open>drop\<close> and \<^verbatim>\<open>close\<close> notify, \<^verbatim>\<open>try_acquire\<close> does not.\<close>

inductive adm_mutates :: "admission \<Rightarrow> admission \<Rightarrow> bool \<Rightarrow> bool" where
  "try_acquire bytes a = (res, a') \<Longrightarrow> adm_mutates a a' False"
| "drop_permit bytes a = Some a' \<Longrightarrow> adm_mutates a a' True"
| "adm_mutates a (close_admission a) True"

lemma capacity_poll_None:
  "capacity_poll bytes a = None \<longleftrightarrow> \<not> adm_closed a \<and> bytes \<le> max_bytes (adm_limits a) \<and>
     (usize_max < adm_calls a + 1 \<or> max_calls (adm_limits a) < adm_calls a + 1 \<or>
      usize_max < adm_bytes a + bytes \<or> max_bytes (adm_limits a) < adm_bytes a + bytes)"
  by (auto simp: capacity_poll_def admission_check_def checked_add_def)

lemma acquire_keeps_waiting: "try_acquire n a = (res, a') \<Longrightarrow> capacity_poll bytes a = None \<Longrightarrow> capacity_poll bytes a' = None"
  by (cases res) (auto simp: try_acquire_Inr try_acquire_Inl capacity_poll_None)

interpretation capacity: waking "capacity_poll bytes" adm_mutates for bytes
  by unfold_locales (auto elim!: adm_mutates.cases dest: acquire_keeps_waiting)

section \<open>Cancellation\<close>

definition call_cancellation_new :: bool where
  "call_cancellation_new = False"

text \<open>\<^verbatim>\<open>cancel\<close> swaps the flag and notifies only when it was clear.\<close>

definition cancel :: "bool \<Rightarrow> bool \<times> bool" where
  "cancel cancelled = (True, \<not> cancelled)"

definition is_cancelled :: "bool \<Rightarrow> bool" where
  "is_cancelled cancelled = cancelled"

definition cancelled_poll :: "bool \<Rightarrow> unit option" where
  "cancelled_poll c = (if is_cancelled c then Some () else None)"

definition cancelled_step :: "'n notify_api \<Rightarrow> nat \<Rightarrow> (bool, 'n, unit) wait_system \<Rightarrow> (bool, 'n, unit) wait_system" where
  "cancelled_step api t = waiter_step api cancelled_poll t"

definition cancel_mutates :: "bool \<Rightarrow> bool \<Rightarrow> bool \<Rightarrow> bool" where
  "cancel_mutates c c' owes \<longleftrightarrow> cancel c = (c', owes)"

interpretation cancellation: waking cancelled_poll cancel_mutates
  by unfold_locales (auto simp: cancelled_poll_def cancel_mutates_def cancel_def is_cancelled_def split: if_splits)

lemma cancelled_stays:
  "wait_step api cancelled_poll cancel_mutates sys sys' \<Longrightarrow> sys_shared sys \<Longrightarrow> sys_shared sys'"
  by (induction rule: wait_step.induct)
     (auto simp: waiter_step_def cancel_mutates_def cancel_def split: wait_pc.splits option.splits if_splits)

section \<open>An instance of the promises\<close>

text \<open>Waiters registered and waiters woken, as lists: used to show that \<open>notify_ok\<close> can hold.\<close>

definition list_notify :: "(nat list \<times> nat list) notify_api" where
  "list_notify = \<lparr>api_enable = (\<lambda>t (r, w). (t # r, removeAll t w)),
     api_notify_waiters = (\<lambda>(r, w). ([], r @ w)), api_woken = (\<lambda>t (r, w). t \<in> set w)\<rparr>"

lemma list_notify_ok: "notify_ok list_notify (\<lambda>t (r, w). t \<in> set r)"
  by (auto simp: notify_ok_def list_notify_def)

section \<open>Properties\<close>

text \<open>
  C28. A task waiting for capacity never misses it: whatever the interleaving of waiters,
  acquisitions, releases, closes and their notifications, a suspended waiter whose request
  could now be decided has been woken once the owed notifications are sent, and three of its
  own steps return that decision.
\<close>
theorem capacity_wakeup:
  assumes "(wait_step api (capacity_poll bytes) adm_mutates)\<^sup>*\<^sup>* (wait_init a n) sys" "notify_ok api registered"
    and "sys_pc sys t = WaitAwaiting" "sys_owed sys = 0" "admission_check (sys_shared sys) bytes = r" "r \<noteq> Inl AtCapacity"
  shows "api_woken api t (sys_notify sys) \<and>
    sys_pc ((wait_for_capacity_step api bytes t ^^ 3) sys) t = WaitReturned r"
proof -
  from assms(5,6) have poll: "capacity_poll bytes (sys_shared sys) = Some r"
    by (auto simp: capacity_poll_def split: sum.splits admission_error.splits)
  with capacity.suspended_woken [OF assms(1-4)] capacity.no_lost_wakeup [OF assms(1-4) poll] show ?thesis
    by (simp add: wait_for_capacity_step_def [abs_def])
qed

text \<open>One waiter suspends, the state changes, the notification is sent.\<close>

lemma suspend_then_notify:
  assumes "poll s = None" "mutates s s' True"
  shows "(wait_step api poll mutates)\<^sup>*\<^sup>* (wait_init s n)
    \<lparr>sys_shared = s', sys_notify = api_notify_waiters api (api_enable api 0 n), sys_owed = 0,
     sys_pc = (\<lambda>_. WaitStart)(0 := WaitAwaiting)\<rparr>"
proof -
  let ?s1 = "waiter_step api poll 0 (wait_init s n)"
  let ?s2 = "waiter_step api poll 0 ?s1"
  let ?s3 = "?s2\<lparr>sys_shared := s', sys_owed := 1\<rparr>"
  let ?s4 = "?s3\<lparr>sys_notify := api_notify_waiters api (sys_notify ?s3), sys_owed := 0\<rparr>"
  have s2: "?s2 = \<lparr>sys_shared = s, sys_notify = api_enable api 0 n, sys_owed = 0, sys_pc = (\<lambda>_. WaitStart)(0 := WaitAwaiting)\<rparr>"
    using assms(1) by (simp add: waiter_step_def wait_init_def)
  have "wait_step api poll mutates ?s2 ?s3"
    using wait_step.mutate [of mutates ?s2 s' True api poll] assms(2) by (simp add: s2)
  moreover have "wait_step api poll mutates ?s3 ?s4"
    using wait_step.notify [of ?s3 api poll mutates] by simp
  moreover have "wait_step api poll mutates (wait_init s n) ?s1" "wait_step api poll mutates ?s1 ?s2"
    by (rule wait_step.waiter)+
  ultimately have "(wait_step api poll mutates)\<^sup>*\<^sup>* (wait_init s n) ?s4"
    by (meson converse_rtranclp_into_rtranclp rtranclp.rtrancl_refl)
  then show ?thesis by (simp add: s2)
qed

theorem capacity_wakeup_witness:
  "let idle = \<lparr>adm_limits = \<lparr>max_calls = 1, max_bytes = 9\<rparr>, adm_calls = 0, adm_bytes = 0, adm_closed = False\<rparr>;
       sys = \<lparr>sys_shared = idle, sys_notify = ([], [0]), sys_owed = 0, sys_pc = (\<lambda>_. WaitStart)(0 := WaitAwaiting)\<rparr>
   in api_woken list_notify 0 (sys_notify sys) \<and>
      sys_pc ((wait_for_capacity_step list_notify 5 0 ^^ 3) sys) 0 = WaitReturned (Inr ())"
proof -
  let ?busy = "\<lparr>adm_limits = \<lparr>max_calls = 1, max_bytes = 9\<rparr>, adm_calls = 1, adm_bytes = 7, adm_closed = False\<rparr>"
  let ?idle = "\<lparr>adm_limits = \<lparr>max_calls = 1, max_bytes = 9\<rparr>, adm_calls = 0, adm_bytes = 0, adm_closed = False\<rparr>"
  let ?sys = "\<lparr>sys_shared = ?idle, sys_notify = ([], [0]), sys_owed = 0, sys_pc = (\<lambda>_. WaitStart)(0 := WaitAwaiting)\<rparr>"
  have "capacity_poll 5 ?busy = None"
    by (simp add: capacity_poll_None usize_max_def)
  moreover have "adm_mutates ?busy ?idle True"
    by (rule adm_mutates.intros(2) [of 7]) (simp add: drop_permit_def)
  ultimately have "(wait_step list_notify (capacity_poll 5) adm_mutates)\<^sup>*\<^sup>* (wait_init ?busy ([], [])) ?sys"
    using suspend_then_notify [of "capacity_poll 5" ?busy adm_mutates ?idle list_notify "([], [])"] by (simp add: list_notify_def)
  moreover have "admission_check ?idle 5 = Inr ()" by (simp add: admission_check_def checked_add_def usize_max_def)
  ultimately show ?thesis
    unfolding Let_def using capacity_wakeup [OF _ list_notify_ok, of 5 ?busy "([], [])" ?sys 0 "Inr ()"] by simp
qed

text \<open>
  A task waiting on a cancellation token never misses the cancellation, however it races
  with the registration: once the token is cancelled and its notification sent, every
  suspended waiter is awake and returns; and a token once cancelled stays so.
\<close>
theorem cancellation_wakeup:
  assumes "(wait_step api cancelled_poll cancel_mutates)\<^sup>*\<^sup>* (wait_init call_cancellation_new n) sys" "notify_ok api registered"
    and "is_cancelled (sys_shared sys)"
  shows "(sys_pc sys t = WaitAwaiting \<and> sys_owed sys = 0 \<longrightarrow> api_woken api t (sys_notify sys) \<and>
            sys_pc ((cancelled_step api t ^^ 3) sys) t = WaitReturned ()) \<and>
         (wait_step api cancelled_poll cancel_mutates sys sys' \<longrightarrow> is_cancelled (sys_shared sys'))"
proof -
  from assms(3) have poll: "cancelled_poll (sys_shared sys) = Some ()" by (simp add: cancelled_poll_def)
  with cancellation.suspended_woken [OF assms(1,2), of t] cancellation.no_lost_wakeup [OF assms(1,2), of t "()"]
    cancelled_stays [of api sys sys'] assms(3) show ?thesis
    by (simp add: cancelled_step_def [abs_def] is_cancelled_def)
qed

theorem cancellation_wakeup_witness:
  "let sys = \<lparr>sys_shared = True, sys_notify = ([], [0]), sys_owed = 0, sys_pc = (\<lambda>_. WaitStart)(0 := WaitAwaiting)\<rparr>
   in api_woken list_notify 0 (sys_notify sys) \<and> sys_pc ((cancelled_step list_notify 0 ^^ 3) sys) 0 = WaitReturned ()"
proof -
  let ?sys = "\<lparr>sys_shared = True, sys_notify = ([], [0]), sys_owed = 0, sys_pc = (\<lambda>_. WaitStart)(0 := WaitAwaiting)\<rparr>"
  have "(wait_step list_notify cancelled_poll cancel_mutates)\<^sup>*\<^sup>* (wait_init call_cancellation_new ([], [])) ?sys"
    using suspend_then_notify [of cancelled_poll call_cancellation_new cancel_mutates True list_notify "([], [])"]
    by (simp add: list_notify_def cancelled_poll_def is_cancelled_def call_cancellation_new_def cancel_mutates_def cancel_def)
  then show ?thesis
    unfolding Let_def using cancellation_wakeup [OF _ list_notify_ok, of "([], [])" ?sys 0 ?sys] by (simp add: is_cancelled_def)
qed

end
