(* ===== verification/Rpc_Client.thy ===== *)
theory Rpc_Client
  imports Record_Io
begin

text \<open>
  The module \<^verbatim>\<open>src/crates/onc-rpc-runtime/src/lib.rs\<close>: client configuration, call options,
  transaction identifiers, the client calls over a transport, and records in buffers and on
  writers. A client's state is the XID counter it shares beside the transport's own state.
  The transport is a trait that applications implement, and the writer is tokio's: both are
  parameters. A cancellation token is the address of its flag, and \<open>flags\<close> holds the flags.
\<close>

section \<open>Configuration\<close>

datatype socket_addr = SocketV4 bytes u16 | SocketV6 bytes u16 u32 u32

record client_config =
  cc_remote_addr :: socket_addr
  cc_local_addr :: "socket_addr option"
  cc_connect_timeout :: duration
  cc_default_call_timeout :: "duration option"
  cc_write_timeout :: "duration option"
  cc_service_name :: "bytes option"
  cc_credentials :: opaque_auth
  cc_verifier :: opaque_auth

definition from_secs :: "nat \<Rightarrow> duration" where
  "from_secs s = s * 10 ^ 9"

definition client_config_new :: "socket_addr \<Rightarrow> client_config" where
  "client_config_new remote_addr =
     \<lparr>cc_remote_addr = remote_addr, cc_local_addr = None, cc_connect_timeout = from_secs 30,
      cc_default_call_timeout = None, cc_write_timeout = None, cc_service_name = None,
      cc_credentials = opaque_auth_none, cc_verifier = opaque_auth_none\<rparr>"

definition config_with_local_addr :: "socket_addr \<Rightarrow> client_config \<Rightarrow> client_config" where
  "config_with_local_addr local_addr self = self\<lparr>cc_local_addr := Some local_addr\<rparr>"

definition config_with_connect_timeout :: "duration \<Rightarrow> client_config \<Rightarrow> client_config" where
  "config_with_connect_timeout timeout self = self\<lparr>cc_connect_timeout := timeout\<rparr>"

definition config_with_default_call_timeout :: "duration \<Rightarrow> client_config \<Rightarrow> client_config" where
  "config_with_default_call_timeout timeout self = self\<lparr>cc_default_call_timeout := Some timeout\<rparr>"

definition config_without_default_call_timeout :: "client_config \<Rightarrow> client_config" where
  "config_without_default_call_timeout self = self\<lparr>cc_default_call_timeout := None\<rparr>"

definition config_with_write_timeout :: "duration \<Rightarrow> client_config \<Rightarrow> client_config" where
  "config_with_write_timeout timeout self = self\<lparr>cc_write_timeout := Some timeout\<rparr>"

definition config_with_service_name :: "bytes \<Rightarrow> client_config \<Rightarrow> client_config" where
  "config_with_service_name service_name self = self\<lparr>cc_service_name := Some service_name\<rparr>"

definition config_with_credentials :: "opaque_auth \<Rightarrow> client_config \<Rightarrow> client_config" where
  "config_with_credentials credentials self = self\<lparr>cc_credentials := credentials\<rparr>"

definition config_with_verifier :: "opaque_auth \<Rightarrow> client_config \<Rightarrow> client_config" where
  "config_with_verifier verifier self = self\<lparr>cc_verifier := verifier\<rparr>"

definition config_with_auth_none :: "client_config \<Rightarrow> client_config" where
  "config_with_auth_none self = self\<lparr>cc_credentials := opaque_auth_none, cc_verifier := opaque_auth_none\<rparr>"

definition config_with_auth_sys :: "auth_sys \<Rightarrow> client_config \<Rightarrow> auth_failure + client_config" where
  "config_with_auth_sys auth self =
     result_bind (auth_sys_to_opaque_auth auth) (\<lambda>credentials.
     Inr (self\<lparr>cc_credentials := credentials, cc_verifier := opaque_auth_none\<rparr>))"

section \<open>Requests and options\<close>

record call_request =
  cq_program :: program_version
  cq_procedure :: rpc_procedure
  cq_credentials :: opaque_auth
  cq_verifier :: opaque_auth
  cq_payload :: bytes

definition call_request_new :: "program_version \<Rightarrow> rpc_procedure \<Rightarrow> bytes \<Rightarrow> call_request" where
  "call_request_new program procedure payload =
     \<lparr>cq_program = program, cq_procedure = procedure, cq_credentials = opaque_auth_none,
      cq_verifier = opaque_auth_none, cq_payload = payload\<rparr>"

record call_response =
  cp_xid :: xid
  cp_verifier :: opaque_auth
  cp_payload :: bytes

datatype call_timeout = TimeoutInherit | TimeoutNone | TimeoutDuration duration

record call_options =
  co_cancellation :: "nat option"
  co_timeout :: call_timeout
  co_credentials :: "opaque_auth option"
  co_verifier :: "opaque_auth option"

definition call_options_new :: call_options where
  "call_options_new = \<lparr>co_cancellation = None, co_timeout = TimeoutInherit, co_credentials = None, co_verifier = None\<rparr>"

definition options_with_cancellation :: "nat \<Rightarrow> call_options \<Rightarrow> call_options" where
  "options_with_cancellation cancellation self = self\<lparr>co_cancellation := Some cancellation\<rparr>"

definition check_cancellation_support :: "(nat \<Rightarrow> bool) \<Rightarrow> call_options \<Rightarrow> runtime_error + unit" where
  "check_cancellation_support flags self = (case co_cancellation self of
       Some token \<Rightarrow> if flags token then Inl Cancelled else Inl UnsupportedCancellation
     | None \<Rightarrow> Inr ())"

definition options_with_timeout :: "duration \<Rightarrow> call_options \<Rightarrow> call_options" where
  "options_with_timeout timeout self = self\<lparr>co_timeout := TimeoutDuration timeout\<rparr>"

definition options_without_timeout :: "call_options \<Rightarrow> call_options" where
  "options_without_timeout self = self\<lparr>co_timeout := TimeoutNone\<rparr>"

definition effective_timeout :: "call_options \<Rightarrow> duration option \<Rightarrow> duration option" where
  "effective_timeout self default_timeout = (case co_timeout self of
       TimeoutInherit \<Rightarrow> default_timeout
     | TimeoutNone \<Rightarrow> None
     | TimeoutDuration timeout \<Rightarrow> Some timeout)"

definition options_with_credentials :: "opaque_auth \<Rightarrow> call_options \<Rightarrow> call_options" where
  "options_with_credentials credentials self = self\<lparr>co_credentials := Some credentials\<rparr>"

definition options_with_verifier :: "opaque_auth \<Rightarrow> call_options \<Rightarrow> call_options" where
  "options_with_verifier verifier self = self\<lparr>co_verifier := Some verifier\<rparr>"

definition options_with_auth_none :: "call_options \<Rightarrow> call_options" where
  "options_with_auth_none self = self\<lparr>co_credentials := Some opaque_auth_none, co_verifier := Some opaque_auth_none\<rparr>"

definition options_with_auth_sys :: "auth_sys \<Rightarrow> call_options \<Rightarrow> auth_failure + call_options" where
  "options_with_auth_sys auth self =
     result_bind (auth_sys_to_opaque_auth auth) (\<lambda>credentials.
     Inr (self\<lparr>co_credentials := Some credentials, co_verifier := Some opaque_auth_none\<rparr>))"

section \<open>Transaction identifiers\<close>

definition xid_allocator_new :: u32 where
  "xid_allocator_new = 1"

definition u32_checked_add :: "u32 \<Rightarrow> u32 \<Rightarrow> u32 option" where
  "u32_checked_add a b = (if unat a + unat b \<le> u32_max then Some (a + b) else None)"

definition xid_exhausted :: runtime_error where
  "xid_exhausted = Transport ''RPC XID space exhausted; replace the client connection''"

text \<open>A thread inside \<^verbatim>\<open>allocate_xid\<close>: before its load, holding \<open>current\<close> in the loop, or returned.\<close>

datatype xid_pc = XidLoad | XidLoop u32 | XidReturned "runtime_error + xid"

definition xid_load :: "u32 \<Rightarrow> xid_pc" where
  "xid_load counter = XidLoop counter"

text \<open>One iteration; \<open>spurious\<close> is the weak exchange failing although the values agree.\<close>

definition xid_iterate :: "bool \<Rightarrow> u32 \<Rightarrow> u32 \<Rightarrow> xid_pc \<times> u32" where
  "xid_iterate spurious current counter = (case u32_checked_add current 1 of
       None \<Rightarrow> (XidReturned (Inl xid_exhausted), counter)
     | Some new \<Rightarrow>
         if counter = current \<and> \<not> spurious then (XidReturned (Inr (Xid current)), new)
         else (XidLoop counter, counter))"

text \<open>The same function when no other thread runs.\<close>

definition allocate_xid :: "(u32, runtime_error, xid) action" where
  "allocate_xid counter = (case xid_load counter of
       XidLoop current \<Rightarrow> (case xid_iterate False current counter of
           (XidReturned r, counter') \<Rightarrow> (r, counter')
         | (_, counter') \<Rightarrow> (Inl xid_exhausted, counter'))
     | _ \<Rightarrow> (Inl xid_exhausted, counter))"

section \<open>Calls\<close>

record 't client_transport =
  ct_xid_allocator :: "u32 option"
  ct_call :: "rpc_message \<Rightarrow> ('t, runtime_error, rpc_message) action"
  ct_call_with_options :: "rpc_message \<Rightarrow> call_options \<Rightarrow> ('t, runtime_error, rpc_message) action"

text \<open>The method a transport inherits when it does not define \<^verbatim>\<open>call_with_options\<close>.\<close>

definition default_call_with_options :: "(nat \<Rightarrow> bool) \<Rightarrow> (rpc_message \<Rightarrow> ('t, runtime_error, rpc_message) action) \<Rightarrow>
    rpc_message \<Rightarrow> call_options \<Rightarrow> ('t, runtime_error, rpc_message) action" where
  "default_call_with_options flags call request options =
     and_then (lift_result (check_cancellation_support flags options)) (\<lambda>_. call request)"

record 't client =
  cl_config :: client_config
  cl_transport :: "'t client_transport"
  cl_next_xid :: u32

definition client_new :: "client_config \<Rightarrow> 't client_transport \<Rightarrow> 't client" where
  "client_new config transport =
     \<lparr>cl_config = config, cl_transport = transport,
      cl_next_xid = (case ct_xid_allocator transport of Some counter \<Rightarrow> counter | None \<Rightarrow> xid_allocator_new)\<rparr>"

definition build_request_message :: "client_config \<Rightarrow> xid \<Rightarrow> call_request \<Rightarrow> rpc_message" where
  "build_request_message config xid request =
     (let credentials = (if cq_credentials request = opaque_auth_none then cc_credentials config else cq_credentials request);
          verifier = (if cq_verifier request = opaque_auth_none then cc_verifier config else cq_verifier request)
      in \<lparr>msg_xid = xid, msg_body = Call (call_body_new (cq_program request) (cq_procedure request)
            credentials verifier (cq_payload request))\<rparr>)"

definition build_request_message_with_options :: "client_config \<Rightarrow> xid \<Rightarrow> call_request \<Rightarrow> call_options \<Rightarrow> rpc_message" where
  "build_request_message_with_options config xid request options =
     (let message = build_request_message config xid request
      in case msg_body message of
           Call call \<Rightarrow>
             (let call = (case co_credentials options of Some credentials \<Rightarrow> call\<lparr>cb_credentials := credentials\<rparr> | None \<Rightarrow> call);
                  call = (case co_verifier options of Some verifier \<Rightarrow> call\<lparr>cb_verifier := verifier\<rparr> | None \<Rightarrow> call)
              in message\<lparr>msg_body := Call call\<rparr>)
         | Reply _ \<Rightarrow> message)"

definition handle_reply :: "xid \<Rightarrow> rpc_message \<Rightarrow> runtime_error + call_response" where
  "handle_reply xid reply =
     (if msg_xid reply \<noteq> xid then Inl (XidMismatch xid (msg_xid reply))
      else case msg_body reply of
          Call _ \<Rightarrow> Inl UnexpectedCallMessage
        | Reply (Accepted accepted) \<Rightarrow> (case ar_status accepted of
              Success payload \<Rightarrow> Inr \<lparr>cp_xid = xid, cp_verifier = ar_verifier accepted, cp_payload = payload\<rparr>
            | ProgramUnavailable \<Rightarrow> Inl RemoteProgramUnavailable
            | ProgramMismatch vr \<Rightarrow> Inl (RemoteProgramMismatch vr)
            | ProcedureUnavailable \<Rightarrow> Inl RemoteProcedureUnavailable
            | GarbageArgs \<Rightarrow> Inl RemoteGarbageArgs
            | SystemError \<Rightarrow> Inl RemoteSystemError)
        | Reply (Denied (RpcMismatch vr)) \<Rightarrow> Inl (RemoteRpcMismatch vr)
        | Reply (Denied (AuthError status)) \<Rightarrow> Inl (RemoteAuthError status))"

text \<open>The state of a call: the counter and the transport's state.\<close>

definition on_counter :: "(u32, 'e, 'a) action \<Rightarrow> (u32 \<times> 't, 'e, 'a) action" where
  "on_counter m s = (case m (fst s) of (r, counter) \<Rightarrow> (r, (counter, snd s)))"

definition on_transport :: "('t, 'e, 'a) action \<Rightarrow> (u32 \<times> 't, 'e, 'a) action" where
  "on_transport m s = (case m (snd s) of (r, t) \<Rightarrow> (r, (fst s, t)))"

definition client_call_with_options :: "client_config \<Rightarrow> 't client_transport \<Rightarrow> call_request \<Rightarrow> call_options \<Rightarrow>
    (u32 \<times> 't, runtime_error, call_response) action" where
  "client_call_with_options config transport request options =
     and_then (on_counter allocate_xid) (\<lambda>xid.
     and_then (on_transport (ct_call_with_options transport
         (build_request_message_with_options config xid request options) options)) (\<lambda>reply.
     lift_result (handle_reply xid reply)))"

definition client_call :: "client_config \<Rightarrow> 't client_transport \<Rightarrow> call_request \<Rightarrow>
    (u32 \<times> 't, runtime_error, call_response) action" where
  "client_call config transport request = client_call_with_options config transport request call_options_new"

definition call_typed_with_options :: "'arg xdr_encoder \<Rightarrow> 'ret xdr_decoder \<Rightarrow> client_config \<Rightarrow> 't client_transport \<Rightarrow>
    program_version \<Rightarrow> rpc_procedure \<Rightarrow> 'arg \<Rightarrow> call_options \<Rightarrow> (u32 \<times> 't, runtime_error, 'ret) action" where
  "call_typed_with_options enc dec config transport program procedure argument options =
     and_then (lift_result (map_err EncodeFailure (to_xdr_bytes enc argument))) (\<lambda>payload.
     and_then (client_call_with_options config transport (call_request_new program procedure payload) options) (\<lambda>response.
     lift_result (map_err DecodeFailure (from_xdr_bytes dec (cp_payload response)))))"

definition call_typed :: "'arg xdr_encoder \<Rightarrow> 'ret xdr_decoder \<Rightarrow> client_config \<Rightarrow> 't client_transport \<Rightarrow>
    program_version \<Rightarrow> rpc_procedure \<Rightarrow> 'arg \<Rightarrow> (u32 \<times> 't, runtime_error, 'ret) action" where
  "call_typed enc dec config transport program procedure argument =
     call_typed_with_options enc dec config transport program procedure argument call_options_new"

section \<open>The asynchronous client\<close>

text \<open>
  \<^verbatim>\<open>AsyncClient\<close> repeats the synchronous client over an asynchronous transport; what its transport
  does is an action on the transport's state, as observed when the call's future completes.
\<close>

record 't async_client_transport =
  at_xid_allocator :: "u32 option"
  at_call :: "rpc_message \<Rightarrow> ('t, runtime_error, rpc_message) action"
  at_call_with_options :: "rpc_message \<Rightarrow> call_options \<Rightarrow> ('t, runtime_error, rpc_message) action"

definition async_default_call_with_options :: "(nat \<Rightarrow> bool) \<Rightarrow> (rpc_message \<Rightarrow> ('t, runtime_error, rpc_message) action) \<Rightarrow>
    rpc_message \<Rightarrow> call_options \<Rightarrow> ('t, runtime_error, rpc_message) action" where
  "async_default_call_with_options flags call request options =
     and_then (lift_result (check_cancellation_support flags options)) (\<lambda>_. call request)"

record 't async_client =
  ac_config :: client_config
  ac_transport :: "'t async_client_transport"
  ac_next_xid :: u32

definition async_client_new :: "client_config \<Rightarrow> 't async_client_transport \<Rightarrow> 't async_client" where
  "async_client_new config transport =
     \<lparr>ac_config = config, ac_transport = transport,
      ac_next_xid = (case at_xid_allocator transport of Some counter \<Rightarrow> counter | None \<Rightarrow> xid_allocator_new)\<rparr>"

definition async_client_call_with_options :: "client_config \<Rightarrow> 't async_client_transport \<Rightarrow> call_request \<Rightarrow> call_options \<Rightarrow>
    (u32 \<times> 't, runtime_error, call_response) action" where
  "async_client_call_with_options config transport request options =
     and_then (on_counter allocate_xid) (\<lambda>xid.
     let wire_request = build_request_message_with_options config xid request options
     in and_then (on_transport (at_call_with_options transport wire_request options)) (\<lambda>reply.
        lift_result (handle_reply xid reply)))"

definition async_client_call :: "client_config \<Rightarrow> 't async_client_transport \<Rightarrow> call_request \<Rightarrow>
    (u32 \<times> 't, runtime_error, call_response) action" where
  "async_client_call config transport request = async_client_call_with_options config transport request call_options_new"

definition async_call_typed_with_options :: "'arg xdr_encoder \<Rightarrow> 'ret xdr_decoder \<Rightarrow> client_config \<Rightarrow> 't async_client_transport \<Rightarrow>
    program_version \<Rightarrow> rpc_procedure \<Rightarrow> 'arg \<Rightarrow> call_options \<Rightarrow> (u32 \<times> 't, runtime_error, 'ret) action" where
  "async_call_typed_with_options enc dec config transport program procedure argument options =
     and_then (lift_result (map_err EncodeFailure (to_xdr_bytes enc argument))) (\<lambda>payload.
     and_then (async_client_call_with_options config transport (call_request_new program procedure payload) options) (\<lambda>response.
     lift_result (map_err DecodeFailure (from_xdr_bytes dec (cp_payload response)))))"

definition async_call_typed :: "'arg xdr_encoder \<Rightarrow> 'ret xdr_decoder \<Rightarrow> client_config \<Rightarrow> 't async_client_transport \<Rightarrow>
    program_version \<Rightarrow> rpc_procedure \<Rightarrow> 'arg \<Rightarrow> (u32 \<times> 't, runtime_error, 'ret) action" where
  "async_call_typed enc dec config transport program procedure argument =
     async_call_typed_with_options enc dec config transport program procedure argument call_options_new"

section \<open>Records in buffers\<close>

text \<open>A slice or array conversion out of range would panic; \<open>Inl SlicePanic\<close> stands for it.\<close>

datatype panic = SlicePanic

function scan_record :: "bytes \<Rightarrow> nat \<Rightarrow> nat \<Rightarrow> nat \<Rightarrow> (nat \<times> nat \<times> nat) option" where
  "scan_record buffer offset fragments total_payload_len =
     (let remaining = drop offset buffer
      in if remaining = [] then None
         else if length remaining < 4 then None
         else let marker = record_marker_decode_bytes (take 4 remaining);
                  fragment_len = unat (payload_len marker);
                  consumed = 4 + fragment_len
              in if length remaining < consumed then None
                 else if last_fragment marker
                 then Some (offset + consumed, fragments + 1, total_payload_len + fragment_len)
                 else scan_record buffer (offset + consumed) (fragments + 1) (total_payload_len + fragment_len))"
  by pat_completeness auto
termination
  by (relation "measure (\<lambda>(buffer, offset, _, _). length buffer - offset)") (auto simp: Let_def)

declare scan_record.simps [simp del]

function assemble_record :: "bytes \<Rightarrow> bytes \<Rightarrow> panic + bytes" where
  "assemble_record consumed assembled =
     (if consumed = [] then Inr assembled
      else if length consumed < 4 then Inl SlicePanic
      else let marker = record_marker_decode_bytes (take 4 consumed);
               consumed = drop 4 consumed;
               fragment_len = unat (payload_len marker)
           in if length consumed < fragment_len then Inl SlicePanic
              else let assembled = assembled @ take fragment_len consumed;
                       consumed = drop fragment_len consumed
                   in if last_fragment marker then Inr assembled else assemble_record consumed assembled)"
  by pat_completeness auto
termination
  by (relation "measure (\<lambda>(consumed, _). length consumed)") (auto simp: Let_def)

declare assemble_record.simps [simp del]

definition try_take_record_from_buffer :: "(bytes, panic, bytes option) action" where
  "try_take_record_from_buffer buffer = (case scan_record buffer 0 0 0 of
       None \<Rightarrow> (Inr None, buffer)
     | Some (offset, fragments, total_payload_len) \<Rightarrow>
         (let consumed = take offset buffer; buffer' = drop offset buffer
          in if fragments = 1 then
               (if length consumed < 4 then (Inl SlicePanic, buffer') else (Inr (Some (drop 4 consumed)), buffer'))
             else case assemble_record consumed [] of
                 Inl e \<Rightarrow> (Inl e, buffer')
               | Inr assembled \<Rightarrow> (Inr (Some assembled), buffer')))"

definition try_decode_message_from_buffer :: "(bytes, panic, runtime_error + rpc_message option) action" where
  "try_decode_message_from_buffer =
     and_then try_take_record_from_buffer (\<lambda>record.
     ok (case record of
           None \<Rightarrow> Inr None
         | Some bs \<Rightarrow> map_err WireFailure (result_bind (rpc_message_decode bs) (\<lambda>m. Inr (Some m)))))"

definition encode_rpc_message_datagram :: "rpc_message \<Rightarrow> runtime_error + bytes" where
  "encode_rpc_message_datagram message = map_err WireFailure (rpc_message_encode message)"

definition decode_rpc_message_datagram :: "bytes \<Rightarrow> runtime_error + rpc_message" where
  "decode_rpc_message_datagram datagram = map_err WireFailure (rpc_message_decode datagram)"

section \<open>Records on writers\<close>

text \<open>What the code uses of tokio's \<^verbatim>\<open>AsyncWriteExt\<close>.\<close>

record 'w writer_api =
  wa_write_all :: "bytes \<Rightarrow> ('w, io_error, unit) action"
  wa_flush :: "('w, io_error, unit) action"

definition transport_error :: "io_error \<Rightarrow> runtime_error" where
  "transport_error e = Transport (io_error_to_string e)"

definition write_record_payload :: "'w writer_api \<Rightarrow> bytes \<Rightarrow> ('w, runtime_error, unit) action" where
  "write_record_payload writer payload =
     (if length payload \<le> unat MAX_FRAGMENT_LEN
      then and_then (lift_result (map_err WireFailure (record_marker_new (of_nat (length payload)) True))) (\<lambda>marker.
           and_then (map_action_err transport_error (wa_write_all writer (record_marker_encode_bytes marker))) (\<lambda>_.
           and_then (map_action_err transport_error (wa_write_all writer payload)) (\<lambda>_.
           map_action_err transport_error (wa_flush writer))))
      else and_then (lift_result (map_err WireFailure (fragment_record payload MAX_FRAGMENT_LEN))) (\<lambda>fragments.
           and_then (for_each (\<lambda>fragment. map_action_err transport_error (wa_write_all writer fragment)) fragments) (\<lambda>_.
           map_action_err transport_error (wa_flush writer))))"

definition write_rpc_message :: "'w writer_api \<Rightarrow> rpc_message \<Rightarrow> ('w, runtime_error, unit) action" where
  "write_rpc_message writer message =
     and_then (lift_result (map_err WireFailure (rpc_message_encode message))) (\<lambda>payload.
     write_record_payload writer payload)"

text \<open>What tokio promises of a writer whose accepted bytes are \<open>written\<close>.\<close>

definition writer_ok :: "'w writer_api \<Rightarrow> ('w \<Rightarrow> bytes) \<Rightarrow> bool" where
  "writer_ok writer written \<longleftrightarrow>
     (\<forall>bs w r w'. wa_write_all writer bs w = (r, w') \<longrightarrow>
        (\<exists>p. prefix p bs \<and> written w' = written w @ p \<and> (r = Inr () \<longrightarrow> p = bs))) \<and>
     (\<forall>w r w'. wa_flush writer w = (r, w') \<longrightarrow> written w' = written w)"

section \<open>Taking records from a buffer\<close>

lemma scan_record_loop:
  "map_option (\<lambda>(m, j, _). (m, j)) (scan_record buffer offset k n) =
    (case read_record_loop buffer offset k rec of Inr (Complete d m j) \<Rightarrow> Some (m, j) | _ \<Rightarrow> None)"
proof (induction buffer offset k n arbitrary: rec rule: scan_record.induct)
  case (1 buffer offset k n)
  show ?case
  proof (cases "length (drop offset buffer) < 4")
    case True
    then show ?thesis
      by (subst scan_record.simps, subst read_record_loop.simps) (simp add: Let_def)
  next
    case False
    then have "drop offset buffer \<noteq> []" by auto
    with False "1.IH" [OF refl this False refl refl refl] show ?thesis
      by (subst scan_record.simps, subst read_record_loop.simps) (simp add: Let_def)
  qed
qed

lemma assemble_fragment:
  "fragment_fits p \<Longrightarrow> assemble_record (fragment_wire l p @ r) acc =
     (if l then Inr (acc @ p) else assemble_record r (acc @ p))"
  by (simp add: assemble_record.simps [of "fragment_wire l p @ r"] Let_def fragment_len)

lemma assemble_framed:
  "frames_ok ps \<Longrightarrow> assemble_record (framed ps) acc = Inr (acc @ concat ps)"
proof (induction ps arbitrary: acc)
  case Nil
  then show ?case by (simp add: frames_ok_def)
next
  case (Cons p ps)
  then have p: "fragment_fits p" by (simp add: frames_ok_def)
  then have step: "assemble_record (framed (p # ps)) acc =
      (if ps = [] then Inr (acc @ p) else assemble_record (framed ps) (acc @ p))"
    unfolding framed_Cons by (rule assemble_fragment)
  from Cons show ?case unfolding step by (cases "ps = []") (simp_all add: frames_ok_def)
qed

lemma try_take_framed:
  assumes "frames_ok ps"
  shows "try_take_record_from_buffer (framed ps @ rest) = (Inr (Some (concat ps)), rest)"
proof -
  have "map_option (\<lambda>(m, j, _). (m, j)) (scan_record (framed ps @ rest) 0 0 0) = Some (length (framed ps), length ps)"
    using scan_record_loop [of "framed ps @ rest" 0 0 0 "[]"] read_loop_framed [OF assms, of 0 "framed ps @ rest" rest 0 "[]"] by simp
  then obtain n where scan: "scan_record (framed ps @ rest) 0 0 0 = Some (length (framed ps), length ps, n)"
    by auto
  have "length ps = 1 \<Longrightarrow> \<exists>p. ps = [p]" by (cases ps) auto
  with scan assemble_framed [OF assms, of "[]"] show ?thesis
    by (cases "length ps = 1") (auto simp: try_take_record_from_buffer_def)
qed

lemma try_take_waits:
  assumes "\<And>ps rest. frames_ok ps \<Longrightarrow> buffer \<noteq> framed ps @ rest"
  shows "try_take_record_from_buffer buffer = (Inr None, buffer)"
proof -
  have "read_record_take buffer = None"
    using assms by (auto simp: wire_records.waits_iff)
  then have "scan_record buffer 0 0 0 = None"
    using scan_record_loop [of buffer 0 0 0 "[]"] read_loop_Inr [of buffer 0 0 "[]"]
    by (auto simp: read_record_take_def read_record_def split: record_read.splits)
  then show ?thesis by (simp add: try_take_record_from_buffer_def)
qed

definition buffer_take :: "bytes \<Rightarrow> (bytes \<times> nat) option" where
  "buffer_take buffer = (case try_take_record_from_buffer buffer of
       (Inr (Some data), buffer') \<Rightarrow> Some (data, length buffer - length buffer')
     | _ \<Rightarrow> None)"

interpretation buffer_records: record_source buffer_take
proof
  fix i d n
  assume t: "buffer_take i = Some (d, n)"
  have "\<exists>ps rest. frames_ok ps \<and> i = framed ps @ rest"
    by (rule ccontr) (use t try_take_waits [of i] in \<open>auto simp: buffer_take_def\<close>)
  then obtain ps rest where "frames_ok ps" "i = framed ps @ rest" by blast
  with t show "\<exists>ps rest. frames_ok ps \<and> i = framed ps @ rest \<and> d = concat ps \<and> n = length (framed ps)"
    by (auto simp: buffer_take_def try_take_framed intro!: exI [of _ ps])
qed (simp add: buffer_take_def try_take_framed)

section \<open>Writing records\<close>

lemma for_each_writes:
  assumes "writer_ok writer written"
  shows "for_each (\<lambda>f. map_action_err g (wa_write_all writer f)) fs w = (r, w') \<Longrightarrow>
    \<exists>p. prefix p (concat fs) \<and> written w' = written w @ p \<and> (r = Inr () \<longrightarrow> p = concat fs)"
proof (induction fs arbitrary: w)
  case (Cons f fs)
  obtain q w1 where q: "wa_write_all writer f w = (q, w1)" by fastforce
  with assms obtain p where p: "prefix p f" "written w1 = written w @ p" "q = Inr () \<longrightarrow> p = f"
    unfolding writer_ok_def by blast
  show ?case
  proof (cases q)
    case (Inl e)
    with q p Cons.prems show ?thesis by (intro exI [of _ p]) (auto simp: prefix_def)
  next
    case (Inr u)
    with q Cons.prems have "for_each (\<lambda>f. map_action_err g (wa_write_all writer f)) fs w1 = (r, w')" by simp
    from Cons.IH [OF this] p Inr show ?thesis by auto
  qed
qed (auto simp: prefix_def)

lemma for_each_two: "for_each m [x, y] = and_then (m x) (\<lambda>_. m y)"
  by (auto simp: fun_eq_iff and_then_def split: prod.splits sum.splits)

lemma write_then_flush:
  assumes "writer_ok writer written"
    and "and_then (for_each (\<lambda>f. map_action_err g (wa_write_all writer f)) fs) (\<lambda>_. map_action_err g (wa_flush writer)) w = (r, w')"
  shows "\<exists>p. prefix p (concat fs) \<and> written w' = written w @ p \<and> (r = Inr () \<longrightarrow> p = concat fs)"
proof -
  obtain q w1 where q: "for_each (\<lambda>f. map_action_err g (wa_write_all writer f)) fs w = (q, w1)" by fastforce
  from for_each_writes [OF assms(1) q] obtain p where
    p: "prefix p (concat fs)" "written w1 = written w @ p" "q = Inr () \<longrightarrow> p = concat fs" by blast
  show ?thesis
  proof (cases q)
    case (Inl e)
    with q p assms(2) show ?thesis by (intro exI [of _ p]) auto
  next
    case (Inr u)
    obtain f w2 where "wa_flush writer w1 = (f, w2)" by fastforce
    moreover from this assms(1) have "written w2 = written w1" unfolding writer_ok_def by blast
    ultimately have "written w' = written w1" using Inr q assms(2) by (cases f) auto
    with p Inr show ?thesis by auto
  qed
qed

lemma write_record_payload_writes:
  assumes "writer_ok writer written" "write_record_payload writer payload w = (r, w')"
  shows "\<exists>ps p. frames_ok ps \<and> concat ps = payload \<and> prefix p (framed ps) \<and> written w' = written w @ p \<and>
           (r = Inr () \<longrightarrow> p = framed ps)"
proof (cases "length payload \<le> unat MAX_FRAGMENT_LEN")
  case True
  then have fits: "fragment_fits payload" by (simp add: fragment_fits_def)
  let ?fs = "[record_marker_encode_bytes \<lparr>last_fragment = True, payload_len = of_nat (length payload)\<rparr>, payload]"
  have "record_marker_new (of_nat (length payload)) True = Inr \<lparr>last_fragment = True, payload_len = of_nat (length payload)\<rparr>"
    using fragment_len_le [OF fits] by (simp add: record_marker_new_def)
  with assms(2) True have "and_then (for_each (\<lambda>f. map_action_err transport_error (wa_write_all writer f)) ?fs)
      (\<lambda>_. map_action_err transport_error (wa_flush writer)) w = (r, w')"
    by (simp add: write_record_payload_def for_each_two and_then_assoc del: for_each.simps)
  from write_then_flush [OF assms(1) this] obtain p where
    "prefix p (concat ?fs)" "written w' = written w @ p" "r = Inr () \<longrightarrow> p = concat ?fs" by blast
  with fits show ?thesis
    by (intro exI [of _ "[payload]"] exI [of _ p]) (simp add: frames_ok_def fragment_wire_def)
next
  case False
  let ?ps = "chunks (unat MAX_FRAGMENT_LEN) payload"
  from False have "payload \<noteq> []" by auto
  with fragment_record_framed [of MAX_FRAGMENT_LEN payload] obtain fs where
    ps: "frames_ok ?ps" "concat ?ps = payload" and fs: "fragment_record payload MAX_FRAGMENT_LEN = Inr fs" "concat fs = framed ?ps"
    by (auto simp: MAX_FRAGMENT_LEN_def)
  with assms(2) False have "and_then (for_each (\<lambda>f. map_action_err transport_error (wa_write_all writer f)) fs)
      (\<lambda>_. map_action_err transport_error (wa_flush writer)) w = (r, w')"
    by (simp add: write_record_payload_def)
  from write_then_flush [OF assms(1) this] ps fs(2) show ?thesis by metis
qed

section \<open>Allocating identifiers\<close>

lemma u32_checked_add_1: "u32_checked_add a 1 = (if unat a = u32_max then None else Some (a + 1))"
  by (auto simp: u32_checked_add_def not_less_eq_eq intro: le_antisym)

lemma allocate_xid_eq:
  "allocate_xid counter = (if unat counter = u32_max then (Inl xid_exhausted, counter) else (Inr (Xid counter), counter + 1))"
  by (simp add: allocate_xid_def xid_load_def xid_iterate_def u32_checked_add_1)

text \<open>
  Any number of threads inside \<^verbatim>\<open>allocate_xid\<close> on one counter, with the identifiers returned
  so far in order; a thread that has returned may call again.
\<close>

record xid_system =
  xs_counter :: u32
  xs_pc :: "nat \<Rightarrow> xid_pc"
  xs_returned :: "xid list"

inductive xid_step :: "xid_system \<Rightarrow> xid_system \<Rightarrow> bool" where
  load: "xs_pc s t = XidLoad \<Longrightarrow> xid_step s (s\<lparr>xs_pc := (xs_pc s)(t := xid_load (xs_counter s))\<rparr>)"
| iterate: "xs_pc s t = XidLoop current \<Longrightarrow> xid_iterate spurious current (xs_counter s) = (pc, counter) \<Longrightarrow>
    xid_step s \<lparr>xs_counter = counter, xs_pc = (xs_pc s)(t := pc),
      xs_returned = xs_returned s @ (case pc of XidReturned (Inr xid) \<Rightarrow> [xid] | _ \<Rightarrow> [])\<rparr>"
| again: "xs_pc s t = XidReturned r \<Longrightarrow> xid_step s (s\<lparr>xs_pc := (xs_pc s)(t := XidLoad)\<rparr>)"

inductive_cases xid_stepE: "xid_step s s'"

definition xid_start :: "u32 \<Rightarrow> xid_system" where
  "xid_start counter = \<lparr>xs_counter = counter, xs_pc = (\<lambda>_. XidLoad), xs_returned = []\<rparr>"

definition xids_from :: "u32 \<Rightarrow> u32 \<Rightarrow> xid list" where
  "xids_from lo hi = map (\<lambda>n. Xid (of_nat n)) [unat lo ..< unat hi]"

definition counted :: "u32 \<Rightarrow> xid_system \<Rightarrow> bool" where
  "counted lo s \<longleftrightarrow> lo \<le> xs_counter s \<and> xs_returned s = xids_from lo (xs_counter s)"

lemma unat_Suc_u32: "unat hi \<noteq> u32_max \<Longrightarrow> unat (hi + 1 :: u32) = Suc (unat hi)"
  using le_neq_implies_less [OF unat_u32_bound [of hi]] by (simp add: unat_add_lem [THEN iffD1] u32_max_def)

lemma xids_from_Suc: "lo \<le> hi \<Longrightarrow> unat hi \<noteq> u32_max \<Longrightarrow> xids_from lo (hi + 1) = xids_from lo hi @ [Xid hi]"
  by (simp add: xids_from_def unat_Suc_u32 word_le_nat_alt)

lemma counted_step: "xid_step s s' \<Longrightarrow> counted lo s \<Longrightarrow> counted lo s'"
proof (induction rule: xid_step.induct)
  case (iterate s t current spurious pc counter)
  show ?case
  proof (cases "unat current \<noteq> u32_max \<and> xs_counter s = current \<and> \<not> spurious")
    case True
    with iterate have "pc = XidReturned (Inr (Xid current))" "counter = current + 1"
      by (auto simp: xid_iterate_def u32_checked_add_1)
    with True iterate(3) unat_Suc_u32 [of current] show ?thesis
      by (simp add: counted_def xids_from_Suc word_le_nat_alt)
  next
    case False
    with iterate show ?thesis
      by (auto simp: counted_def xid_iterate_def u32_checked_add_1 split: if_splits)
  qed
qed (auto simp: counted_def)

lemma counted_steps: "xid_step\<^sup>*\<^sup>* s s' \<Longrightarrow> counted lo s \<Longrightarrow> counted lo s'"
  by (induction rule: rtranclp_induct) (auto intro: counted_step)

lemma distinct_xids_from: "distinct (xids_from lo hi)"
proof -
  have "inj_on (\<lambda>n. Xid (of_nat n)) {unat lo ..< unat hi}"
  proof (rule inj_onI)
    fix m n
    assume mn: "m \<in> {unat lo ..< unat hi}" "n \<in> {unat lo ..< unat hi}" and "Xid (of_nat m) = Xid (of_nat n)"
    then have "unat (of_nat m :: u32) = unat (of_nat n :: u32)" by simp
    moreover have "m \<le> u32_max" "n \<le> u32_max"
      using mn unat_u32_bound [of hi] by (auto simp del: unat_u32_bound)
    ultimately show "m = n" by (simp add: unat_of_nat_u32)
  qed
  then show ?thesis by (simp add: xids_from_def distinct_map)
qed

section \<open>Replies\<close>

lemma handle_reply_Inr:
  "handle_reply xid reply = Inr response \<longleftrightarrow> cp_xid response = xid \<and>
     reply = \<lparr>msg_xid = xid, msg_body = Reply (Accepted \<lparr>ar_verifier = cp_verifier response, ar_status = Success (cp_payload response)\<rparr>)\<rparr>"
  by (cases reply; cases response; cases "msg_body reply")
     (auto simp: handle_reply_def split: reply_body.splits accepted_status.splits rejected_reply.splits)

section \<open>A sample exchange\<close>

definition null_call :: rpc_message where
  "null_call = \<lparr>msg_xid = Xid 5, msg_body = Call (call_body_new \<lparr>pv_program = 9, pv_version = 1\<rparr> (Procedure 0) opaque_auth_none opaque_auth_none [])\<rparr>"

definition null_reply :: rpc_message where
  "null_reply = \<lparr>msg_xid = Xid 5, msg_body = Reply (Accepted \<lparr>ar_verifier = opaque_auth_none, ar_status = ProgramUnavailable\<rparr>)\<rparr>"

lemmas null_defs = null_call_def null_reply_def call_body_new_def opaque_auth_none_def auth_canonical_def auth_fits_def
  auth_flavor_from_def MAX_AUTH_BYTES_def

lemma null_call_decodes: "rpc_message_decode (message_wire null_call) = Inr null_call"
  by (simp add: message_decode_iff wf_message_def null_defs)

lemma null_reply_decodes: "rpc_message_decode (message_wire null_reply) = Inr null_reply"
  by (simp add: message_decode_iff wf_message_def null_defs)

lemma null_encodes: "rpc_message_encode null_call = Inr (message_wire null_call)" "rpc_message_encode null_reply = Inr (message_wire null_reply)"
  by (simp_all add: message_encode_Inr null_defs)

lemma null_length: "length (message_wire null_call) = 40" "length (message_wire null_reply) = 24"
  by (simp_all add: message_wire_def null_call_def null_reply_def call_body_new_def opaque_auth_none_def auth_wire_def call_wire_def
      opaque_wire_def fixed_opaque_wire_def xdr_padding_def)

section \<open>Properties\<close>

text \<open>
  Identifiers allocated on one counter are never repeated and never wrap: however the
  threads interleave and however often the weak exchange fails spuriously, the identifiers
  returned so far are exactly the numbers from the start of the counter up to its current
  value, in order.
\<close>
theorem xids_unique:
  assumes "xid_step\<^sup>*\<^sup>* (xid_start lo) s"
  shows "distinct (xs_returned s) \<and> lo \<le> xs_counter s \<and> xs_returned s = xids_from lo (xs_counter s)"
proof -
  have "counted lo (xid_start lo)" by (simp add: counted_def xid_start_def xids_from_def)
  from counted_steps [OF assms this] show ?thesis by (simp add: counted_def distinct_xids_from)
qed

theorem xids_unique_witness:
  "distinct (xs_returned \<lparr>xs_counter = 2, xs_pc = (\<lambda>_. XidLoad)(3 := XidReturned (Inr (Xid 1))), xs_returned = [Xid 1]\<rparr>) \<and>
   [Xid 1] = xids_from xid_allocator_new 2"
proof -
  let ?s1 = "(xid_start xid_allocator_new)\<lparr>xs_pc := (\<lambda>_. XidLoad)(3 := XidLoop 1)\<rparr>"
  let ?s2 = "\<lparr>xs_counter = 2, xs_pc = (\<lambda>_. XidLoad)(3 := XidReturned (Inr (Xid 1))), xs_returned = [Xid 1]\<rparr>"
  have "xid_step (xid_start xid_allocator_new) ?s1"
    using xid_step.load [of "xid_start xid_allocator_new" 3]
    by (simp add: xid_start_def xid_load_def xid_allocator_new_def fun_upd_def)
  moreover have "xid_step ?s1 ?s2"
    using xid_step.iterate [of ?s1 3 1 False "XidReturned (Inr (Xid 1))" 2]
    by (simp add: xid_start_def xid_allocator_new_def xid_iterate_def u32_checked_add_def u32_max_def)
  ultimately have "xid_step\<^sup>*\<^sup>* (xid_start xid_allocator_new) ?s2" by (meson converse_rtranclp_into_rtranclp rtranclp.rtrancl_refl)
  from xids_unique [OF this] show ?thesis
    by (elim conjE, intro conjI; simp only: xid_system.simps)
qed

text \<open>
  C29. Taking a record out of a receive buffer agrees with the reference reassembler on every
  buffer, never panics, and leaves exactly the bytes behind the record; when it returns
  nothing the buffer is untouched.
\<close>
theorem buffer_take_matches_read_record:
  "buffer_take = read_record_take \<and>
   (\<exists>d. try_take_record_from_buffer buffer = (Inr d, drop (case read_record_take buffer of Some (_, n) \<Rightarrow> n | None \<Rightarrow> 0) buffer) \<and>
        d = map_option fst (read_record_take buffer))"
proof
  show "buffer_take = read_record_take"
    by (rule record_sources_agree) (rule buffer_records.record_source_axioms, rule wire_records.record_source_axioms)
  show "\<exists>d. try_take_record_from_buffer buffer = (Inr d, drop (case read_record_take buffer of Some (_, n) \<Rightarrow> n | None \<Rightarrow> 0) buffer) \<and>
        d = map_option fst (read_record_take buffer)"
  proof (cases "read_record_take buffer")
    case None
    then have "try_take_record_from_buffer buffer = (Inr None, buffer)"
      using try_take_waits [of buffer] by (simp add: wire_records.waits_iff)
    with None show ?thesis by simp
  next
    case (Some dn)
    with wire_records.take_sound [of buffer "fst dn" "snd dn"] obtain ps rest where
      "frames_ok ps" "buffer = framed ps @ rest" "fst dn = concat ps" "snd dn = length (framed ps)" by auto
    with Some show ?thesis by (cases dn) (simp add: try_take_framed)
  qed
qed

text \<open>
  A message written to a stream is read back from any buffer that receives the written
  bytes, leaving what follows; and a failed write leaves a prefix of one framed record.
\<close>
theorem written_message_is_read_back:
  assumes "writer_ok writer written" "write_rpc_message writer m w = (r, w')"
  shows "\<exists>p. written w' = written w @ p \<and>
    (r = Inr () \<and> wf_message m \<longrightarrow> try_decode_message_from_buffer (p @ rest) = (Inr (Inr (Some m)), rest)) \<and>
    (\<exists>ps. p = [] \<or> frames_ok ps \<and> prefix p (framed ps) \<and> rpc_message_encode m = Inr (concat ps))"
proof (cases "rpc_message_encode m")
  case (Inl e)
  with assms(2) show ?thesis by (intro exI [of _ "[]"]) (auto simp: write_rpc_message_def)
next
  case (Inr payload)
  with assms(2) have "write_record_payload writer payload w = (r, w')" by (simp add: write_rpc_message_def)
  from write_record_payload_writes [OF assms(1) this] obtain ps p where
    ps: "frames_ok ps" "concat ps = payload" "prefix p (framed ps)" "written w' = written w @ p" "r = Inr () \<longrightarrow> p = framed ps"
    by blast
  moreover have "rpc_message_decode payload = Inr m" if "wf_message m"
    using that Inr by (simp add: message_decode_iff message_encode_Inr)
  ultimately show ?thesis
    using Inr by (intro exI [of _ p]) (auto simp: try_decode_message_from_buffer_def try_take_framed)
qed

theorem written_message_is_read_back_witness:
  "\<exists>p. write_rpc_message \<lparr>wa_write_all = (\<lambda>bs w. (Inr (), w @ bs)), wa_flush = (\<lambda>w. (Inr (), w))\<rparr>
      \<lparr>msg_xid = Xid 7, msg_body = Reply (Denied (AuthError TooWeak))\<rparr> [] = (Inr (), p) \<and>
     try_decode_message_from_buffer (p @ [1, 2]) = (Inr (Inr (Some \<lparr>msg_xid = Xid 7, msg_body = Reply (Denied (AuthError TooWeak))\<rparr>)), [1, 2])"
proof -
  let ?w = "\<lparr>wa_write_all = (\<lambda>bs w. (Inr (), w @ bs)), wa_flush = (\<lambda>w. (Inr (), w))\<rparr> :: bytes writer_api"
  let ?m = "\<lparr>msg_xid = Xid 7, msg_body = Reply (Denied (AuthError TooWeak))\<rparr>"
  have ok: "writer_ok ?w (\<lambda>w. w)" by (auto simp: writer_ok_def)
  have enc: "rpc_message_encode ?m = Inr (message_wire ?m)" by (simp add: message_encode)
  have len: "length (message_wire ?m) \<le> unat MAX_FRAGMENT_LEN"
    by (simp add: message_wire_def MAX_FRAGMENT_LEN_def)
  then have "record_marker_new (of_nat (length (message_wire ?m))) True =
      Inr \<lparr>last_fragment = True, payload_len = of_nat (length (message_wire ?m))\<rparr>"
    using fragment_len_le [of "message_wire ?m"] by (simp add: record_marker_new_def fragment_fits_def)
  with len enc obtain p where p: "write_rpc_message ?w ?m [] = (Inr (), p)"
    by (simp add: write_rpc_message_def write_record_payload_def)
  from written_message_is_read_back [OF ok p, of "[1, 2]"] p show ?thesis
    by (auto simp: wf_message_def auth_stat_from_def)
qed

text \<open>
  C8. A call succeeds exactly when an identifier is left, the transport takes the request
  built for it (version 2, the caller's program, procedure and payload, credentials and
  verifier from the options, else from the request unless they are the null ones, else
  from the configuration), and the reply carries the same identifier and a success status;
  the response holds that reply's verifier and payload, and the counter moves by one.
\<close>
theorem client_call_succeeds_iff:
  "client_call_with_options config transport request options (c, t) = (Inr response, (c', t')) \<longleftrightarrow>
     unat c \<noteq> u32_max \<and> c' = c + 1 \<and> cp_xid response = Xid c \<and>
     ct_call_with_options transport
       \<lparr>msg_xid = Xid c, msg_body = Call \<lparr>cb_rpc_version = 2, cb_program = cq_program request, cb_procedure = cq_procedure request,
          cb_credentials = (case co_credentials options of Some a \<Rightarrow> a | None \<Rightarrow>
             if cq_credentials request = opaque_auth_none then cc_credentials config else cq_credentials request),
          cb_verifier = (case co_verifier options of Some a \<Rightarrow> a | None \<Rightarrow>
             if cq_verifier request = opaque_auth_none then cc_verifier config else cq_verifier request),
          cb_payload = cq_payload request\<rparr>\<rparr> options t =
       (Inr \<lparr>msg_xid = Xid c, msg_body = Reply (Accepted \<lparr>ar_verifier = cp_verifier response, ar_status = Success (cp_payload response)\<rparr>)\<rparr>, t')"
proof -
  have build: "build_request_message_with_options config (Xid c) request options =
      \<lparr>msg_xid = Xid c, msg_body = Call \<lparr>cb_rpc_version = 2, cb_program = cq_program request, cb_procedure = cq_procedure request,
          cb_credentials = (case co_credentials options of Some a \<Rightarrow> a | None \<Rightarrow>
             if cq_credentials request = opaque_auth_none then cc_credentials config else cq_credentials request),
          cb_verifier = (case co_verifier options of Some a \<Rightarrow> a | None \<Rightarrow>
             if cq_verifier request = opaque_auth_none then cc_verifier config else cq_verifier request),
          cb_payload = cq_payload request\<rparr>\<rparr>"
    by (simp add: build_request_message_with_options_def build_request_message_def call_body_new_def RPC_VERSION_2_def Let_def
        split: option.splits)
  show ?thesis
    unfolding client_call_with_options_def build [symmetric]
    by (auto simp: and_then_Inr_iff on_counter_def on_transport_def allocate_xid_eq handle_reply_Inr split: if_splits prod.splits)
qed

end
