(* ===== verification/Rpc_Server.thy ===== *)
theory Rpc_Server
  imports Rpc_Client "HOL-Library.Product_Lexorder" "HOL-Library.Multiset"
begin

text \<open>
  The module \<^verbatim>\<open>src/crates/onc-rpc-server/src/lib.rs\<close>: registration of programs and dispatch of
  calls. A dispatcher is application code: a parameter that acts on the application's state.
  The table of dispatchers is an association list; the order of its entries stands for the
  unspecified iteration order of a \<^verbatim>\<open>HashMap\<close>. The asynchronous server repeats the code of the
  synchronous one, and both are modelled.
\<close>

section \<open>Programs\<close>

datatype program = Program (program_number: u32) (program_vers: u32)

text \<open>The order by which \<^verbatim>\<open>registered_programs\<close> sorts.\<close>

definition program_key :: "program \<Rightarrow> u32 \<times> u32" where
  "program_key p = (program_number p, program_vers p)"

instantiation program :: linorder
begin

definition less_eq_program :: "program \<Rightarrow> program \<Rightarrow> bool" where
  "less_eq_program p q \<longleftrightarrow> program_number p < program_number q \<or>
     program_number p = program_number q \<and> program_vers p \<le> program_vers q"

definition less_program :: "program \<Rightarrow> program \<Rightarrow> bool" where
  "less_program p q \<longleftrightarrow> program_number p < program_number q \<or>
     program_number p = program_number q \<and> program_vers p < program_vers q"

instance
  by standard (auto simp: less_eq_program_def less_program_def program.expand)

end

definition program_from :: "program_version \<Rightarrow> program" where
  "program_from v = Program (pv_program v) (pv_version v)"

section \<open>Configuration\<close>

record server_config =
  sc_bind_addr :: socket_addr
  sc_auto_publish :: bool
  sc_rpcbind_addr :: "socket_addr option"
  sc_service_name :: "bytes option"
  sc_selector_threads :: nat
  sc_worker_threads :: nat

definition server_config_default :: server_config where
  "server_config_default =
     \<lparr>sc_bind_addr = SocketV4 [0, 0, 0, 0] 0, sc_auto_publish = False, sc_rpcbind_addr = None,
      sc_service_name = None, sc_selector_threads = 1, sc_worker_threads = 1\<rparr>"

definition server_builder_new :: server_config where
  "server_builder_new = server_config_default"

definition builder_with_bind_addr :: "socket_addr \<Rightarrow> server_config \<Rightarrow> server_config" where
  "builder_with_bind_addr bind_addr config = config\<lparr>sc_bind_addr := bind_addr\<rparr>"

definition builder_with_auto_publish :: "bool \<Rightarrow> server_config \<Rightarrow> server_config" where
  "builder_with_auto_publish enabled config = config\<lparr>sc_auto_publish := enabled\<rparr>"

definition builder_with_rpcbind_addr :: "socket_addr \<Rightarrow> server_config \<Rightarrow> server_config" where
  "builder_with_rpcbind_addr rpcbind_addr config = config\<lparr>sc_rpcbind_addr := Some rpcbind_addr\<rparr>"

definition builder_with_service_name :: "bytes \<Rightarrow> server_config \<Rightarrow> server_config" where
  "builder_with_service_name service_name config = config\<lparr>sc_service_name := Some service_name\<rparr>"

definition builder_with_selector_threads :: "nat \<Rightarrow> server_config \<Rightarrow> server_config" where
  "builder_with_selector_threads n config = config\<lparr>sc_selector_threads := n\<rparr>"

definition builder_with_worker_threads :: "nat \<Rightarrow> server_config \<Rightarrow> server_config" where
  "builder_with_worker_threads n config = config\<lparr>sc_worker_threads := n\<rparr>"

section \<open>Requests\<close>

record request_context =
  rq_xid :: xid
  rq_program :: program_version
  rq_procedure :: rpc_procedure
  rq_peer_addr :: "socket_addr option"
  rq_credentials :: opaque_auth
  rq_verifier :: opaque_auth
  rq_payload :: bytes

definition decode_credentials :: "request_context \<Rightarrow> auth_failure + auth_choice" where
  "decode_credentials self = decode_auth (rq_credentials self)"

definition decode_verifier :: "request_context \<Rightarrow> auth_failure + auth_choice" where
  "decode_verifier self = decode_auth (rq_verifier self)"

record response_payload =
  rp_verifier :: opaque_auth
  rp_payload :: bytes

definition response_success :: "bytes \<Rightarrow> response_payload" where
  "response_success payload = \<lparr>rp_verifier = opaque_auth_none, rp_payload = payload\<rparr>"

datatype dispatch_error = DispatchProcedureUnavailable | DispatchGarbageArgs | DispatchSystemError

datatype server_error = DuplicateRegistration program | UnexpectedReplyMessage

type_synonym 'd dispatch = "request_context \<Rightarrow> ('d, dispatch_error, response_payload) action"

section \<open>The server\<close>

record 'd server =
  sv_config :: server_config
  sv_dispatchers :: "(program \<times> 'd dispatch) list"

definition server_build :: "server_config \<Rightarrow> 'd server" where
  "server_build config = \<lparr>sv_config = config, sv_dispatchers = []\<rparr>"

definition registered_programs :: "'d server \<Rightarrow> program list" where
  "registered_programs self = sort_key program_key (map fst (sv_dispatchers self))"

definition register :: "program \<Rightarrow> 'd dispatch \<Rightarrow> ('d server, server_error, unit) action" where
  "register program dispatch self = (case map_of (sv_dispatchers self) program of
       Some _ \<Rightarrow> (Inl (DuplicateRegistration program), self)
     | None \<Rightarrow> (Inr (), self\<lparr>sv_dispatchers := (program, dispatch) # sv_dispatchers self\<rparr>))"

definition success_reply :: "response_payload \<Rightarrow> reply_body" where
  "success_reply response = Accepted \<lparr>ar_verifier = rp_verifier response, ar_status = Success (rp_payload response)\<rparr>"

definition procedure_unavailable_reply :: reply_body where
  "procedure_unavailable_reply = Accepted \<lparr>ar_verifier = opaque_auth_none, ar_status = ProcedureUnavailable\<rparr>"

definition garbage_args_reply :: reply_body where
  "garbage_args_reply = Accepted \<lparr>ar_verifier = opaque_auth_none, ar_status = GarbageArgs\<rparr>"

definition system_error_reply :: reply_body where
  "system_error_reply = Accepted \<lparr>ar_verifier = opaque_auth_none, ar_status = SystemError\<rparr>"

definition program_unavailable_reply :: reply_body where
  "program_unavailable_reply = Accepted \<lparr>ar_verifier = opaque_auth_none, ar_status = ProgramUnavailable\<rparr>"

definition resolve_dispatch :: "'d server \<Rightarrow> rpc_message \<Rightarrow> socket_addr option \<Rightarrow>
    server_error + (xid \<times> request_context \<times> 'd dispatch option)" where
  "resolve_dispatch self message peer_addr = (case msg_body message of
       Reply _ \<Rightarrow> Inl UnexpectedReplyMessage
     | Call call \<Rightarrow>
         (let program = \<lparr>pv_program = pv_program (cb_program call), pv_version = pv_version (cb_program call)\<rparr>;
              dispatch_key = program_from program;
              request = \<lparr>rq_xid = msg_xid message, rq_program = program, rq_procedure = cb_procedure call,
                         rq_peer_addr = peer_addr, rq_credentials = cb_credentials call,
                         rq_verifier = cb_verifier call, rq_payload = cb_payload call\<rparr>
          in Inr (msg_xid message, request, map_of (sv_dispatchers self) dispatch_key)))"

definition handle_message_with_peer_addr :: "'d server \<Rightarrow> rpc_message \<Rightarrow> socket_addr option \<Rightarrow> ('d, server_error, rpc_message) action" where
  "handle_message_with_peer_addr self message peer_addr app =
     (case resolve_dispatch self message peer_addr of
        Inl e \<Rightarrow> (Inl e, app)
      | Inr (xid, request, dispatcher) \<Rightarrow>
          (let (body, app') = (case dispatcher of
                 Some dispatch \<Rightarrow> (case dispatch request app of
                     (Inr response, app') \<Rightarrow> (success_reply response, app')
                   | (Inl DispatchProcedureUnavailable, app') \<Rightarrow> (procedure_unavailable_reply, app')
                   | (Inl DispatchGarbageArgs, app') \<Rightarrow> (garbage_args_reply, app')
                   | (Inl DispatchSystemError, app') \<Rightarrow> (system_error_reply, app'))
               | None \<Rightarrow> (program_unavailable_reply, app))
           in (Inr \<lparr>msg_xid = xid, msg_body = Reply body\<rparr>, app')))"

definition handle_message :: "'d server \<Rightarrow> rpc_message \<Rightarrow> ('d, server_error, rpc_message) action" where
  "handle_message self message = handle_message_with_peer_addr self message None"

section \<open>The asynchronous server\<close>

record 'd async_server =
  as_config :: server_config
  as_dispatchers :: "(program \<times> 'd dispatch) list"

definition server_build_async :: "server_config \<Rightarrow> 'd async_server" where
  "server_build_async config = \<lparr>as_config = config, as_dispatchers = []\<rparr>"

definition async_registered_programs :: "'d async_server \<Rightarrow> program list" where
  "async_registered_programs self = sort_key program_key (map fst (as_dispatchers self))"

definition async_register :: "program \<Rightarrow> 'd dispatch \<Rightarrow> ('d async_server, server_error, unit) action" where
  "async_register program dispatch self = (case map_of (as_dispatchers self) program of
       Some _ \<Rightarrow> (Inl (DuplicateRegistration program), self)
     | None \<Rightarrow> (Inr (), self\<lparr>as_dispatchers := (program, dispatch) # as_dispatchers self\<rparr>))"

definition async_resolve_dispatch :: "'d async_server \<Rightarrow> rpc_message \<Rightarrow> socket_addr option \<Rightarrow>
    server_error + (xid \<times> request_context \<times> 'd dispatch option)" where
  "async_resolve_dispatch self message peer_addr = (case msg_body message of
       Reply _ \<Rightarrow> Inl UnexpectedReplyMessage
     | Call call \<Rightarrow>
         (let program = \<lparr>pv_program = pv_program (cb_program call), pv_version = pv_version (cb_program call)\<rparr>;
              dispatch_key = program_from program;
              request = \<lparr>rq_xid = msg_xid message, rq_program = program, rq_procedure = cb_procedure call,
                         rq_peer_addr = peer_addr, rq_credentials = cb_credentials call,
                         rq_verifier = cb_verifier call, rq_payload = cb_payload call\<rparr>
          in Inr (msg_xid message, request, map_of (as_dispatchers self) dispatch_key)))"

definition async_handle_message_with_peer_addr :: "'d async_server \<Rightarrow> rpc_message \<Rightarrow> socket_addr option \<Rightarrow>
    ('d, server_error, rpc_message) action" where
  "async_handle_message_with_peer_addr self message peer_addr app =
     (case async_resolve_dispatch self message peer_addr of
        Inl e \<Rightarrow> (Inl e, app)
      | Inr (xid, request, dispatcher) \<Rightarrow>
          (let (body, app') = (case dispatcher of
                 Some dispatch \<Rightarrow> (case dispatch request app of
                     (Inr response, app') \<Rightarrow> (success_reply response, app')
                   | (Inl DispatchProcedureUnavailable, app') \<Rightarrow> (procedure_unavailable_reply, app')
                   | (Inl DispatchGarbageArgs, app') \<Rightarrow> (garbage_args_reply, app')
                   | (Inl DispatchSystemError, app') \<Rightarrow> (system_error_reply, app'))
               | None \<Rightarrow> (program_unavailable_reply, app))
           in (Inr \<lparr>msg_xid = xid, msg_body = Reply body\<rparr>, app')))"

definition async_handle_message :: "'d async_server \<Rightarrow> rpc_message \<Rightarrow> ('d, server_error, rpc_message) action" where
  "async_handle_message self message = async_handle_message_with_peer_addr self message None"

section \<open>Registration\<close>

text \<open>The contract of a registry: what clients of a server rely on, whichever server it is.\<close>

locale registry =
  fixes lookup :: "'s \<Rightarrow> program \<Rightarrow> 'd dispatch option"
    and register_op :: "program \<Rightarrow> 'd dispatch \<Rightarrow> ('s, server_error, unit) action"
    and programs :: "'s \<Rightarrow> program list"
    and valid :: "'s \<Rightarrow> bool"
  assumes register_new: "valid s \<Longrightarrow> lookup s p = None \<Longrightarrow>
      \<exists>s'. register_op p d s = (Inr (), s') \<and> valid s' \<and> lookup s' = (lookup s)(p \<mapsto> d)"
    and register_dup: "lookup s p \<noteq> None \<Longrightarrow> register_op p d s = (Inl (DuplicateRegistration p), s)"
    and programs_listed: "valid s \<Longrightarrow> set (programs s) = dom (lookup s) \<and> sorted (programs s) \<and> distinct (programs s)"
begin

lemma register_keeps: "valid s \<Longrightarrow> valid (snd (register_op p d s)) \<and> lookup (snd (register_op p d s)) = (\<lambda>q.
    case lookup s q of Some e \<Rightarrow> Some e | None \<Rightarrow> if q = p then Some d else None)"
proof (cases "lookup s p")
  case None
  moreover assume "valid s"
  ultimately obtain s' where "register_op p d s = (Inr (), s')" "valid s'" "lookup s' = (lookup s)(p \<mapsto> d)"
    using register_new by blast
  with None show ?thesis by (auto simp: fun_eq_iff split: option.splits)
next
  case (Some e)
  moreover assume "valid s"
  ultimately show ?thesis using register_dup [of s p d] by (auto simp: fun_eq_iff split: option.splits)
qed

lemma register_all_lookup:
  "valid s \<Longrightarrow> valid (fold (\<lambda>(p, d) s. snd (register_op p d s)) pds s) \<and>
     lookup (fold (\<lambda>(p, d) s. snd (register_op p d s)) pds s) q =
     (case lookup s q of Some d \<Rightarrow> Some d | None \<Rightarrow> map_of pds q)"
  by (induction pds arbitrary: s) (auto simp: register_keeps split: option.splits)

lemma programs_unique: "valid s \<Longrightarrow> valid s' \<Longrightarrow> dom (lookup s) = dom (lookup s') \<Longrightarrow> programs s = programs s'"
  using programs_listed by (metis sorted_distinct_set_unique)

end


lemma program_key_le: "program_key p \<le> program_key q \<longleftrightarrow> p \<le> q"
  by (auto simp: program_key_def less_eq_program_def)

lemma sort_program_key: "sort_key program_key ps = sort ps"
proof -
  have "sorted (sort_key program_key ps)"
    using sorted_sort_key [of program_key ps] by (simp add: sorted_map program_key_le)
  then show ?thesis
    by (metis mset_sort properties_for_sort)
qed

definition server_valid :: "(program \<times> 'd dispatch) list \<Rightarrow> bool" where
  "server_valid table \<longleftrightarrow> distinct (map fst table)"

lemma listed:
  "server_valid table \<Longrightarrow> set (sort (map fst table)) = dom (map_of table) \<and> sorted (sort (map fst table)) \<and> distinct (sort (map fst table))"
  by (simp add: server_valid_def dom_map_of_conv_image_fst)

interpretation sync_registry: registry "\<lambda>s. map_of (sv_dispatchers s)" register registered_programs "\<lambda>s. server_valid (sv_dispatchers s)"
  by unfold_locales
     (auto simp: register_def registered_programs_def sort_program_key listed server_valid_def map_of_eq_None_iff
          dest: map_of_SomeD intro: rev_image_eqI split: option.splits)

interpretation async_registry: registry "\<lambda>s. map_of (as_dispatchers s)" async_register async_registered_programs
    "\<lambda>s. server_valid (as_dispatchers s)"
  by unfold_locales
     (auto simp: async_register_def async_registered_programs_def sort_program_key listed server_valid_def map_of_eq_None_iff
          dest: map_of_SomeD intro: rev_image_eqI split: option.splits)

section \<open>Properties\<close>

text \<open>
  Registering any list of services on a fresh server: each program is served by the
  first dispatcher registered for it, a second registration changes nothing, and the listed
  programs are exactly the registered ones, strictly ordered by number and version.
\<close>
theorem registration_first_wins:
  assumes "server = fold (\<lambda>(p, d) s. snd (register p d s)) services (server_build config)"
  shows "map_of (sv_dispatchers server) = map_of services \<and> set (registered_programs server) = fst ` set services \<and>
    sorted_wrt (<) (registered_programs server)"
proof -
  have fresh: "server_valid (sv_dispatchers (server_build config))" by (simp add: server_build_def server_valid_def)
  have served: "server_valid (sv_dispatchers server)" "map_of (sv_dispatchers server) = map_of services"
    using sync_registry.register_all_lookup [OF fresh, of services]
    by (auto simp: assms server_build_def fun_eq_iff)
  from sync_registry.programs_listed [OF served(1)] served(2) show ?thesis
    by (simp add: dom_map_of_conv_image_fst strict_sorted_iff)
qed

theorem registration_first_wins_witness:
  "let server = fold (\<lambda>(p, d) s. snd (register p d s))
       [(Program 9 2, \<lambda>_. err DispatchGarbageArgs), (Program 9 1, \<lambda>_. err DispatchGarbageArgs),
        (Program 9 2, \<lambda>_. err DispatchSystemError)] (server_build server_config_default) :: unit server
   in sorted_wrt (<) (registered_programs server) \<and> set (registered_programs server) = {Program 9 1, Program 9 2}"
  using registration_first_wins [OF refl, of "[(Program 9 2, \<lambda>_. err DispatchGarbageArgs), (Program 9 1, \<lambda>_. err DispatchGarbageArgs),
        (Program 9 2, \<lambda>_. err DispatchSystemError)]" server_config_default]
  by (auto simp: Let_def)

text \<open>
  C9. Every call gets exactly one reply with its own identifier, which is never a denial: the
  dispatcher registered for its program and version runs once, on the call's own fields, and
  its result decides the status; without one the status is program unavailable and no
  application code runs. A reply message is refused and runs nothing.
\<close>
theorem handle_message_replies:
  "(case msg_body message of
      Reply _ \<Rightarrow> handle_message_with_peer_addr server message peer app = (Inl UnexpectedReplyMessage, app)
    | Call call \<Rightarrow> (case map_of (sv_dispatchers server) (program_from (cb_program call)) of
        None \<Rightarrow> handle_message_with_peer_addr server message peer app =
          (Inr \<lparr>msg_xid = msg_xid message, msg_body = Reply (Accepted \<lparr>ar_verifier = opaque_auth_none, ar_status = ProgramUnavailable\<rparr>)\<rparr>, app)
      | Some d \<Rightarrow>
          \<exists>r app' a. d \<lparr>rq_xid = msg_xid message, rq_program = cb_program call, rq_procedure = cb_procedure call, rq_peer_addr = peer,
                  rq_credentials = cb_credentials call, rq_verifier = cb_verifier call, rq_payload = cb_payload call\<rparr> app = (r, app') \<and>
            handle_message_with_peer_addr server message peer app = (Inr \<lparr>msg_xid = msg_xid message, msg_body = Reply (Accepted a)\<rparr>, app') \<and>
            a = (case r of Inr p \<Rightarrow> \<lparr>ar_verifier = rp_verifier p, ar_status = Success (rp_payload p)\<rparr>
              | Inl DispatchProcedureUnavailable \<Rightarrow> \<lparr>ar_verifier = opaque_auth_none, ar_status = ProcedureUnavailable\<rparr>
              | Inl DispatchGarbageArgs \<Rightarrow> \<lparr>ar_verifier = opaque_auth_none, ar_status = GarbageArgs\<rparr>
              | Inl DispatchSystemError \<Rightarrow> \<lparr>ar_verifier = opaque_auth_none, ar_status = SystemError\<rparr>)))"
proof (cases "msg_body message")
  case (Reply r)
  then show ?thesis by (simp add: handle_message_with_peer_addr_def resolve_dispatch_def)
next
  case (Call call)
  have same: "\<lparr>pv_program = pv_program (cb_program call), pv_version = pv_version (cb_program call)\<rparr> = cb_program call" by simp
  show ?thesis
  proof (cases "map_of (sv_dispatchers server) (program_from (cb_program call))")
    case None
    with Call show ?thesis
      by (simp add: handle_message_with_peer_addr_def resolve_dispatch_def program_unavailable_reply_def Let_def same)
  next
    case (Some d)
    let ?rq = "\<lparr>rq_xid = msg_xid message, rq_program = cb_program call, rq_procedure = cb_procedure call, rq_peer_addr = peer,
                  rq_credentials = cb_credentials call, rq_verifier = cb_verifier call, rq_payload = cb_payload call\<rparr>"
    obtain r app' where "d ?rq app = (r, app')" by fastforce
    with Some Call show ?thesis
      by (cases r; simp add: handle_message_with_peer_addr_def resolve_dispatch_def Let_def same success_reply_def
           procedure_unavailable_reply_def garbage_args_reply_def system_error_reply_def split: dispatch_error.split)
  qed
qed

text \<open>
  The asynchronous server is the synchronous one: built from the same configuration and
  given the same registrations they answer every message alike and list the same programs.
\<close>
theorem async_server_equivalent:
  assumes "sync = fold (\<lambda>(p, d) s. snd (register p d s)) services (server_build config)"
    and "asyn = fold (\<lambda>(p, d) s. snd (async_register p d s)) services (server_build_async config)"
  shows "async_handle_message_with_peer_addr asyn message peer app = handle_message_with_peer_addr sync message peer app \<and>
    async_registered_programs asyn = registered_programs sync"
proof -
  have "sv_dispatchers (fold (\<lambda>(p, d) s. snd (register p d s)) services s) = as_dispatchers (fold (\<lambda>(p, d) s. snd (async_register p d s)) services t)"
    if "sv_dispatchers s = as_dispatchers t" for s :: "'a server" and t :: "'a async_server"
    using that by (induction services arbitrary: s t) (auto simp: register_def async_register_def split: option.splits)
  then have "sv_dispatchers sync = as_dispatchers asyn"
    by (simp add: assms server_build_def server_build_async_def)
  then show ?thesis
    by (cases "msg_body message")
       (simp_all add: async_handle_message_with_peer_addr_def handle_message_with_peer_addr_def async_resolve_dispatch_def
        resolve_dispatch_def async_registered_programs_def registered_programs_def)
qed

theorem async_server_equivalent_witness:
  "async_handle_message_with_peer_addr (server_build_async server_config_default) \<lparr>msg_xid = Xid 4, msg_body = Reply (Denied (AuthError TooWeak))\<rparr> None () =
   handle_message_with_peer_addr (server_build server_config_default) \<lparr>msg_xid = Xid 4, msg_body = Reply (Denied (AuthError TooWeak))\<rparr> None ()"
  using async_server_equivalent [of "server_build server_config_default" "[]" server_config_default
      "server_build_async server_config_default" "\<lparr>msg_xid = Xid 4, msg_body = Reply (Denied (AuthError TooWeak))\<rparr>" None "()"] by simp

end
