(* ===== verification/Server_Transport.thy ===== *)
theory Server_Transport
  imports Rpc_Server
begin

text \<open>
  The module \<^verbatim>\<open>src/crates/onc-rpc-server/src/transport.rs\<close>: the loops that serve TCP connections
  and UDP datagrams on a shared pool of worker permits.

  The sockets are environment: a connection's input is the list of what its successive reads
  return, its writer a \<open>writer_api\<close>. tokio's \<^verbatim>\<open>Semaphore\<close> is a parameter, three operations with
  what its documentation promises of them, \<open>semaphore_ok\<close>. The program counter of a
  connection or of a task stands at its next operation on shared state: decoding and
  acquiring a permit, reading, dispatching, writing a reply under the writer's lock.
\<close>

section \<open>Errors and permits\<close>

datatype server_transport_error =
    StIo string
  | StWire wire_error
  | StServer server_error
  | StRuntime runtime_error

definition map_runtime_error :: "runtime_error \<Rightarrow> server_transport_error" where
  "map_runtime_error error = (case error of WireFailure e \<Rightarrow> StWire e | other \<Rightarrow> StRuntime other)"

definition io_failure :: "io_error \<Rightarrow> server_transport_error" where
  "io_failure e = StIo (io_error_to_string e)"

datatype 'q acquisition = Acquired 'q | AcquirePending | AcquireClosed

record 'q semaphore_api =
  sem_new :: "nat \<Rightarrow> 'q"
  sem_acquire :: "'q \<Rightarrow> 'q acquisition"
  sem_release :: "'q \<Rightarrow> 'q"

text \<open>What tokio promises of a semaphore that nobody closes.\<close>

definition semaphore_ok :: "'q semaphore_api \<Rightarrow> ('q \<Rightarrow> nat) \<Rightarrow> bool" where
  "semaphore_ok sem available \<longleftrightarrow>
     (\<forall>n. available (sem_new sem n) = n) \<and>
     (\<forall>q q'. sem_acquire sem q = Acquired q' \<longrightarrow> available q = Suc (available q')) \<and>
     (\<forall>q. sem_acquire sem q = AcquirePending \<longrightarrow> available q = 0) \<and>
     (\<forall>q. sem_acquire sem q \<noteq> AcquireClosed) \<and>
     (\<forall>q. available (sem_release sem q) = Suc (available q))"

definition worker_threads_permits :: "nat \<Rightarrow> nat" where
  "worker_threads_permits worker_threads = max worker_threads 1"

text \<open>\<open>None\<close> while the acquisition is pending.\<close>

definition acquire_worker_permit :: "'q semaphore_api \<Rightarrow> 'q \<Rightarrow> (server_transport_error + unit) option \<times> 'q" where
  "acquire_worker_permit sem worker_limit = (case sem_acquire sem worker_limit of
       AcquirePending \<Rightarrow> (None, worker_limit)
     | Acquired worker_limit' \<Rightarrow> (Some (Inr ()), worker_limit')
     | AcquireClosed \<Rightarrow> (Some (Inl (StIo ''server worker semaphore closed'')), worker_limit))"

section \<open>Connections\<close>

type_synonym 'd handler = "rpc_message \<Rightarrow> socket_addr option \<Rightarrow> ('d, server_error, rpc_message) action"

datatype conn_pc =
    ConnDrain
  | ConnAcquire rpc_message
  | ConnRead
  | ConnReturned "server_transport_error + unit"
  | ConnPanicked
  | ConnDropped

datatype task = TaskDispatch rpc_message | TaskReply rpc_message

text \<open>
  The last four fields record what happened, for the statements below: the writer as the
  connection got it, the bytes read, the messages handed to tasks and the replies of the
  tasks that have ended.
\<close>

record 'w connection =
  cn_peer :: socket_addr
  cn_input :: "read_event list"
  cn_writer :: 'w
  cn_buffer :: bytes
  cn_pc :: conn_pc
  cn_tasks :: "task list"
  cn_opened :: 'w
  cn_received :: bytes
  cn_spawned :: "rpc_message list"
  cn_replied :: "rpc_message list"

definition connection_new :: "socket_addr \<Rightarrow> read_event list \<Rightarrow> 'w \<Rightarrow> 'w connection" where
  "connection_new peer_addr input writer =
     \<lparr>cn_peer = peer_addr, cn_input = input, cn_writer = writer, cn_buffer = [], cn_pc = ConnDrain,
      cn_tasks = [], cn_opened = writer, cn_received = [], cn_spawned = [], cn_replied = []\<rparr>"

definition conn_decode :: "'w connection \<Rightarrow> 'w connection" where
  "conn_decode c = (case try_decode_message_from_buffer (cn_buffer c) of
       (Inl p, buffer) \<Rightarrow> c\<lparr>cn_buffer := buffer, cn_pc := ConnPanicked\<rparr>
     | (Inr (Inl e), buffer) \<Rightarrow> c\<lparr>cn_buffer := buffer, cn_pc := ConnReturned (Inl (map_runtime_error e))\<rparr>
     | (Inr (Inr (Some message)), buffer) \<Rightarrow> c\<lparr>cn_buffer := buffer, cn_pc := ConnAcquire message\<rparr>
     | (Inr (Inr None), buffer) \<Rightarrow> c\<lparr>cn_buffer := buffer, cn_pc := ConnRead\<rparr>)"

definition conn_spawn :: "'q semaphore_api \<Rightarrow> rpc_message \<Rightarrow> 'q \<times> 'w connection \<Rightarrow> 'q \<times> 'w connection" where
  "conn_spawn sem message = (\<lambda>(workers, c). (case acquire_worker_permit sem workers of
       (None, workers') \<Rightarrow> (workers', c)
     | (Some (Inl e), workers') \<Rightarrow> (workers', c\<lparr>cn_pc := ConnReturned (Inl e)\<rparr>)
     | (Some (Inr _), workers') \<Rightarrow>
         (workers', c\<lparr>cn_pc := ConnDrain, cn_tasks := cn_tasks c @ [TaskDispatch message],
                      cn_spawned := cn_spawned c @ [message]\<rparr>)))"

definition conn_read :: "'w connection \<Rightarrow> 'w connection" where
  "conn_read c = (case cn_input c of
       [] \<Rightarrow> c\<lparr>cn_pc := ConnReturned (Inr ())\<rparr>
     | Data d # es \<Rightarrow>
         if d = [] then c\<lparr>cn_input := es, cn_pc := ConnReturned (Inr ())\<rparr>
         else c\<lparr>cn_input := es, cn_buffer := cn_buffer c @ d, cn_pc := ConnDrain, cn_received := cn_received c @ d\<rparr>
     | ReadFails e # es \<Rightarrow> c\<lparr>cn_input := es, cn_pc := ConnReturned (Inl (io_failure e))\<rparr>
     | DropRead # es \<Rightarrow> c\<lparr>cn_input := es, cn_pc := ConnDropped\<rparr>)"

definition serve_connection_step :: "'q semaphore_api \<Rightarrow> 'q \<times> 'w connection \<Rightarrow> 'q \<times> 'w connection" where
  "serve_connection_step sem = (\<lambda>(workers, c). (case cn_pc c of
       ConnDrain \<Rightarrow> (workers, conn_decode c)
     | ConnAcquire message \<Rightarrow> conn_spawn sem message (workers, c)
     | ConnRead \<Rightarrow> (workers, conn_read c)
     | _ \<Rightarrow> (workers, c)))"

text \<open>
  One step of a spawned task: the handler's answer is awaited; a reply is written with the
  writer locked, and the outcome of the write is discarded. The task's permit is released
  when it ends, which \<open>None\<close> says.
\<close>

definition message_task_step :: "'d handler \<Rightarrow> 'w writer_api \<Rightarrow> socket_addr \<Rightarrow> task \<Rightarrow> 'd \<times> 'w \<Rightarrow> task option \<times> 'd \<times> 'w" where
  "message_task_step handle wr peer_addr task = (\<lambda>(app, w). (case task of
       TaskDispatch message \<Rightarrow> (case handle message (Some peer_addr) app of
           (Inr reply, app') \<Rightarrow> (Some (TaskReply reply), app', w)
         | (Inl _, app') \<Rightarrow> (None, app', w))
     | TaskReply reply \<Rightarrow> (case write_rpc_message wr reply w of (_, w') \<Rightarrow> (None, app, w'))))"

record ('q, 'd, 'w) tcp_system =
  ts_workers :: 'q
  ts_app :: 'd
  ts_conns :: "'w connection list"

text \<open>The transport after \<^verbatim>\<open>bind\<close>, before its first connection.\<close>

definition tcp_bind :: "'q semaphore_api \<Rightarrow> server_config \<Rightarrow> 'd \<Rightarrow> ('q, 'd, 'w) tcp_system" where
  "tcp_bind sem config app =
     \<lparr>ts_workers = sem_new sem (worker_threads_permits (sc_worker_threads config)), ts_app = app, ts_conns = []\<rparr>"

definition tcp_serve :: "'q semaphore_api \<Rightarrow> nat \<Rightarrow> ('q, 'd, 'w) tcp_system \<Rightarrow> ('q, 'd, 'w) tcp_system" where
  "tcp_serve sem i s = (case serve_connection_step sem (ts_workers s, ts_conns s ! i) of
       (workers, c) \<Rightarrow> s\<lparr>ts_workers := workers, ts_conns := (ts_conns s)[i := c]\<rparr>)"

definition drop_nth :: "nat \<Rightarrow> 'a list \<Rightarrow> 'a list" where
  "drop_nth j xs = take j xs @ drop (Suc j) xs"

definition conn_task_next :: "nat \<Rightarrow> task \<Rightarrow> 'w \<Rightarrow> 'w connection \<Rightarrow> 'w connection" where
  "conn_task_next j t w c = c\<lparr>cn_writer := w, cn_tasks := (cn_tasks c)[j := t]\<rparr>"

definition conn_task_end :: "nat \<Rightarrow> 'w \<Rightarrow> 'w connection \<Rightarrow> 'w connection" where
  "conn_task_end j w c = c\<lparr>cn_writer := w, cn_tasks := drop_nth j (cn_tasks c),
     cn_replied := cn_replied c @ (case cn_tasks c ! j of TaskReply reply \<Rightarrow> [reply] | _ \<Rightarrow> [])\<rparr>"

definition tcp_task :: "'d handler \<Rightarrow> 'w writer_api \<Rightarrow> 'q semaphore_api \<Rightarrow> nat \<Rightarrow> nat \<Rightarrow>
    ('q, 'd, 'w) tcp_system \<Rightarrow> ('q, 'd, 'w) tcp_system" where
  "tcp_task handle wr sem i j s =
     (case message_task_step handle wr (cn_peer (ts_conns s ! i)) (cn_tasks (ts_conns s ! i) ! j)
             (ts_app s, cn_writer (ts_conns s ! i)) of
        (Some t, app, w) \<Rightarrow>
          s\<lparr>ts_app := app, ts_conns := (ts_conns s)[i := conn_task_next j t w (ts_conns s ! i)]\<rparr>
      | (None, app, w) \<Rightarrow>
          s\<lparr>ts_workers := sem_release sem (ts_workers s), ts_app := app,
            ts_conns := (ts_conns s)[i := conn_task_end j w (ts_conns s ! i)]\<rparr>)"

text \<open>
  Any interleaving of accepted connections, connection loops and tasks. A connection's
  future ending does not end its tasks.
\<close>

inductive tcp_step :: "'d handler \<Rightarrow> 'w writer_api \<Rightarrow> 'q semaphore_api \<Rightarrow>
    ('q, 'd, 'w) tcp_system \<Rightarrow> ('q, 'd, 'w) tcp_system \<Rightarrow> bool" for handle wr sem where
  accept: "tcp_step handle wr sem s (s\<lparr>ts_conns := ts_conns s @ [connection_new peer_addr input writer]\<rparr>)"
| serve: "i < length (ts_conns s) \<Longrightarrow> tcp_step handle wr sem s (tcp_serve sem i s)"
| run_task: "i < length (ts_conns s) \<Longrightarrow> j < length (cn_tasks (ts_conns s ! i)) \<Longrightarrow>
    tcp_step handle wr sem s (tcp_task handle wr sem i j s)"

text \<open>The synchronous and the asynchronous server on this transport.\<close>

abbreviation sync_tcp_step :: "'d server \<Rightarrow> 'w writer_api \<Rightarrow> 'q semaphore_api \<Rightarrow>
    ('q, 'd, 'w) tcp_system \<Rightarrow> ('q, 'd, 'w) tcp_system \<Rightarrow> bool" where
  "sync_tcp_step server \<equiv> tcp_step (handle_message_with_peer_addr server)"

abbreviation async_tcp_step :: "'d async_server \<Rightarrow> 'w writer_api \<Rightarrow> 'q semaphore_api \<Rightarrow>
    ('q, 'd, 'w) tcp_system \<Rightarrow> ('q, 'd, 'w) tcp_system \<Rightarrow> bool" where
  "async_tcp_step server \<equiv> tcp_step (async_handle_message_with_peer_addr server)"

section \<open>Datagrams\<close>

record 'u udp_api =
  udp_send_to :: "bytes \<Rightarrow> socket_addr \<Rightarrow> ('u, io_error, unit) action"

definition handle_udp_datagram :: "'d handler \<Rightarrow> 'u udp_api \<Rightarrow> socket_addr \<Rightarrow> bytes \<Rightarrow>
    ('d \<times> 'u, server_transport_error, unit) action" where
  "handle_udp_datagram handle socket peer datagram = (\<lambda>(app, u).
     (case map_err map_runtime_error (decode_rpc_message_datagram datagram) of
        Inl e \<Rightarrow> (Inl e, app, u)
      | Inr message \<Rightarrow> (case handle message (Some peer) app of
            (Inl e, app') \<Rightarrow> (Inl (StServer e), app', u)
          | (Inr reply, app') \<Rightarrow> (case encode_rpc_message_datagram reply of
                Inl e \<Rightarrow> (Inl (StRuntime e), app', u)
              | Inr payload \<Rightarrow> (case udp_send_to socket payload peer u of
                    (Inl e, u') \<Rightarrow> (Inl (io_failure e), app', u')
                  | (Inr _, u') \<Rightarrow> (Inr (), app', u'))))))"

definition handle_sync_udp_datagram :: "'u udp_api \<Rightarrow> 'd server \<Rightarrow> socket_addr \<Rightarrow> bytes \<Rightarrow>
    ('d \<times> 'u, server_transport_error, unit) action" where
  "handle_sync_udp_datagram socket server = handle_udp_datagram (handle_message_with_peer_addr server) socket"

definition handle_async_udp_datagram :: "'u udp_api \<Rightarrow> 'd async_server \<Rightarrow> socket_addr \<Rightarrow> bytes \<Rightarrow>
    ('d \<times> 'u, server_transport_error, unit) action" where
  "handle_async_udp_datagram socket server = handle_udp_datagram (async_handle_message_with_peer_addr server) socket"

text \<open>
  A datagram longer than the 65,536-byte buffer is cut by the operating system. The serving
  loop holds a permit while it waits for a datagram, and returns on a receive error.
\<close>

datatype udp_event = Datagram socket_addr bytes | RecvFails io_error

definition recv_udp_datagram :: "udp_event \<Rightarrow> server_transport_error + (socket_addr \<times> bytes)" where
  "recv_udp_datagram event = (case event of
       Datagram peer d \<Rightarrow> Inr (peer, take 65536 d)
     | RecvFails e \<Rightarrow> Inl (io_failure e))"

datatype udp_pc = UdpAcquire | UdpRecv | UdpReturned server_transport_error

record ('q, 'd, 'u) udp_system =
  us_workers :: 'q
  us_app :: 'd
  us_socket :: 'u
  us_pc :: udp_pc
  us_tasks :: "(socket_addr \<times> bytes) list"

definition udp_bind :: "'q semaphore_api \<Rightarrow> server_config \<Rightarrow> 'd \<Rightarrow> 'u \<Rightarrow> ('q, 'd, 'u) udp_system" where
  "udp_bind sem config app socket =
     \<lparr>us_workers = sem_new sem (worker_threads_permits (sc_worker_threads config)), us_app = app,
      us_socket = socket, us_pc = UdpAcquire, us_tasks = []\<rparr>"

definition udp_acquire :: "'q semaphore_api \<Rightarrow> ('q, 'd, 'u) udp_system \<Rightarrow> ('q, 'd, 'u) udp_system" where
  "udp_acquire sem s = (case acquire_worker_permit sem (us_workers s) of
       (None, workers) \<Rightarrow> s
     | (Some (Inl e), workers) \<Rightarrow> s\<lparr>us_workers := workers, us_pc := UdpReturned e\<rparr>
     | (Some (Inr _), workers) \<Rightarrow> s\<lparr>us_workers := workers, us_pc := UdpRecv\<rparr>)"

definition udp_recv :: "'q semaphore_api \<Rightarrow> udp_event \<Rightarrow> ('q, 'd, 'u) udp_system \<Rightarrow> ('q, 'd, 'u) udp_system" where
  "udp_recv sem event s = (case recv_udp_datagram event of
       Inl e \<Rightarrow> s\<lparr>us_workers := sem_release sem (us_workers s), us_pc := UdpReturned e\<rparr>
     | Inr (peer, datagram) \<Rightarrow> s\<lparr>us_pc := UdpAcquire, us_tasks := us_tasks s @ [(peer, datagram)]\<rparr>)"

definition udp_task :: "'d handler \<Rightarrow> 'u udp_api \<Rightarrow> 'q semaphore_api \<Rightarrow> nat \<Rightarrow> ('q, 'd, 'u) udp_system \<Rightarrow> ('q, 'd, 'u) udp_system" where
  "udp_task handle socket sem j s =
     (let (peer, datagram) = us_tasks s ! j
      in case handle_udp_datagram handle socket peer datagram (us_app s, us_socket s) of
           (_, app, u) \<Rightarrow> s\<lparr>us_workers := sem_release sem (us_workers s), us_app := app, us_socket := u,
                             us_tasks := drop_nth j (us_tasks s)\<rparr>)"

inductive udp_step :: "'d handler \<Rightarrow> 'u udp_api \<Rightarrow> 'q semaphore_api \<Rightarrow>
    ('q, 'd, 'u) udp_system \<Rightarrow> ('q, 'd, 'u) udp_system \<Rightarrow> bool" for handle socket sem where
  acquire: "us_pc s = UdpAcquire \<Longrightarrow> udp_step handle socket sem s (udp_acquire sem s)"
| recv: "us_pc s = UdpRecv \<Longrightarrow> udp_step handle socket sem s (udp_recv sem event s)"
| run_task: "j < length (us_tasks s) \<Longrightarrow> udp_step handle socket sem s (udp_task handle socket sem j s)"

section \<open>The worker pool\<close>

text \<open>A system whose steps only move permits between the semaphore and their holders.\<close>

locale worker_pool =
  fixes step :: "'q semaphore_api \<Rightarrow> 's \<Rightarrow> 's \<Rightarrow> bool"
    and workers :: "'s \<Rightarrow> 'q"
    and holders :: "'s \<Rightarrow> nat"
  assumes conserves: "semaphore_ok sem available \<Longrightarrow> step sem s s' \<Longrightarrow>
      available (workers s') + holders s' = available (workers s) + holders s"
begin

lemma conserved:
  "(step sem)\<^sup>*\<^sup>* s s' \<Longrightarrow> semaphore_ok sem available \<Longrightarrow>
   available (workers s') + holders s' = available (workers s) + holders s"
  by (induction rule: rtranclp_induct) (auto dest: conserves)

end

lemma acquire_worker_permit_cases:
  assumes "semaphore_ok sem available"
  obtains "acquire_worker_permit sem q = (None, q)" "available q = 0"
    | q' where "acquire_worker_permit sem q = (Some (Inr ()), q')" "available q = Suc (available q')"
  using assms by (cases "sem_acquire sem q") (auto simp: acquire_worker_permit_def semaphore_ok_def)

lemma length_drop_nth: "j < length xs \<Longrightarrow> Suc (length (drop_nth j xs)) = length xs"
  by (simp add: drop_nth_def)

lemma mset_drop_nth: "j < length xs \<Longrightarrow> add_mset (xs ! j) (mset (drop_nth j xs)) = mset xs"
  by (metis drop_nth_def id_take_nth_drop mset.simps(2) mset_append union_mset_add_mset_right)

definition running :: "('q, 'd, 'w) tcp_system \<Rightarrow> nat" where
  "running s = (\<Sum>c\<leftarrow>ts_conns s. length (cn_tasks c))"

lemma sum_list_nth_update:
  fixes f :: "'a \<Rightarrow> nat"
  shows "i < length xs \<Longrightarrow> sum_list (map f (xs[i := y])) + f (xs ! i) = sum_list (map f xs) + f y"
  by (induction xs arbitrary: i) (auto split: nat.splits)

lemma running_update:
  assumes "i < length (ts_conns s)" "ts_conns s' = (ts_conns s)[i := c]"
    and "m + length (cn_tasks c) = n + length (cn_tasks (ts_conns s ! i))"
  shows "m + running s' = n + running s"
  using sum_list_nth_update [OF assms(1), of "\<lambda>c. length (cn_tasks c)" c] assms(2,3) by (simp add: running_def)

lemma tcp_serve_conserves:
  assumes "semaphore_ok sem available" "i < length (ts_conns s)"
  shows "available (ts_workers (tcp_serve sem i s)) + running (tcp_serve sem i s) = available (ts_workers s) + running s"
proof -
  let ?c = "ts_conns s ! i"
  obtain q c where sc: "serve_connection_step sem (ts_workers s, ?c) = (q, c)" by fastforce
  have "available q + length (cn_tasks c) = available (ts_workers s) + length (cn_tasks ?c)"
  proof (cases "cn_pc ?c")
    case (ConnAcquire m)
    show ?thesis
      by (rule acquire_worker_permit_cases [OF assms(1), of "ts_workers s"])
         (use sc ConnAcquire in \<open>auto simp: serve_connection_step_def conn_spawn_def\<close>)
  qed (use sc in \<open>auto simp: serve_connection_step_def conn_decode_def conn_read_def
        split: prod.splits sum.splits option.splits list.splits read_event.splits if_splits\<close>)
  then show ?thesis
    by (intro running_update [OF assms(2), of _ c]) (simp_all add: tcp_serve_def sc)
qed

lemma tcp_task_conserves:
  assumes "semaphore_ok sem available" "i < length (ts_conns s)" "j < length (cn_tasks (ts_conns s ! i))"
  shows "available (ts_workers (tcp_task handle wr sem i j s)) + running (tcp_task handle wr sem i j s) =
    available (ts_workers s) + running s"
proof -
  let ?c = "ts_conns s ! i"
  obtain t' app w where st: "message_task_step handle wr (cn_peer ?c) (cn_tasks ?c ! j) (ts_app s, cn_writer ?c) = (t', app, w)"
    by (metis prod_cases3)
  from assms(1) have rel: "available (sem_release sem (ts_workers s)) = Suc (available (ts_workers s))"
    by (simp add: semaphore_ok_def)
  show ?thesis
  proof (cases t')
    case None
    with st rel length_drop_nth [OF assms(3)] show ?thesis
      by (intro running_update [OF assms(2), of _ "conn_task_end j w ?c"]) (simp_all add: tcp_task_def conn_task_end_def)
  next
    case (Some t)
    with st show ?thesis
      by (intro running_update [OF assms(2), of _ "conn_task_next j t w ?c"]) (simp_all add: tcp_task_def conn_task_next_def)
  qed
qed

interpretation tcp_pool: worker_pool "tcp_step handle wr" ts_workers running for handle wr
proof (unfold_locales, goal_cases)
  case (1 sem available s s')
  from 1(2,1) show ?case
    by (induction rule: tcp_step.induct)
       (simp_all add: tcp_serve_conserves tcp_task_conserves, simp add: running_def connection_new_def)
qed

definition udp_holders :: "('q, 'd, 'u) udp_system \<Rightarrow> nat" where
  "udp_holders s = length (us_tasks s) + (if us_pc s = UdpRecv then 1 else 0)"

interpretation udp_pool: worker_pool "udp_step handle socket" us_workers udp_holders for handle socket
proof (unfold_locales, goal_cases)
  case (1 sem available s s')
  note sem = 1(1)
  from sem have rel: "available (sem_release sem q) = Suc (available q)" for q by (simp add: semaphore_ok_def)
  from 1(2) show ?case
  proof cases
    case acquire
    show ?thesis
      by (rule acquire_worker_permit_cases [OF sem, of "us_workers s"])
         (use acquire in \<open>auto simp: udp_acquire_def udp_holders_def\<close>)
  next
    case (recv event)
    then show ?thesis
      by (auto simp: udp_recv_def udp_holders_def rel split: sum.splits)
  next
    case (run_task j)
    with length_drop_nth [of j "us_tasks s"] show ?thesis
      by (auto simp: udp_task_def udp_holders_def rel split: prod.splits)
  qed
qed

section \<open>What a connection dispatches\<close>

text \<open>
  The reference: the messages of a byte stream, record by record, up to the first record that
  is incomplete or does not decode; in the latter case with its error.
\<close>

function parse_stream :: "bytes \<Rightarrow> rpc_message list \<times> wire_error option" where
  "parse_stream bs = (case read_record_take bs of
       None \<Rightarrow> ([], None)
     | Some (d, n) \<Rightarrow> (case rpc_message_decode d of
           Inl e \<Rightarrow> ([], Some e)
         | Inr m \<Rightarrow> (case parse_stream (drop n bs) of (ms, r) \<Rightarrow> (m # ms, r))))"
  by pat_completeness auto
termination
proof (relation "measure length", goal_cases)
  case (2 bs dn d n m)
  then obtain ps rest where "frames_ok ps" "bs = framed ps @ rest" "n = length (framed ps)"
    using wire_records.take_sound by metis
  then show ?case by (cases ps) (auto simp: frames_ok_def framed_Cons)
qed simp

declare parse_stream.simps [simp del]

lemma parse_record:
  assumes "frames_ok ps"
  shows "parse_stream (framed ps @ rest) = (case rpc_message_decode (concat ps) of
     Inl e \<Rightarrow> ([], Some e) | Inr m \<Rightarrow> (m # fst (parse_stream rest), snd (parse_stream rest)))"
  by (subst parse_stream.simps) (simp add: wire_records.take_framed [OF assms] split: sum.split prod.split)

lemma parse_waits: "read_record_take bs = None \<Longrightarrow> parse_stream bs = ([], None)"
  by (simp add: parse_stream.simps)

lemma parse_records:
  "list_all2 (\<lambda>ps m. frames_ok ps \<and> rpc_message_decode (concat ps) = Inr m) pss ms \<Longrightarrow>
   parse_stream (concat (map framed pss) @ rest) = (ms @ fst (parse_stream rest), snd (parse_stream rest))"
  by (induction pss ms rule: list_all2_induct) (auto simp: parse_record)

lemma try_decode_cases:
  obtains ps rest where "frames_ok ps" "buffer = framed ps @ rest"
      "try_decode_message_from_buffer buffer =
         (Inr (case rpc_message_decode (concat ps) of Inl e \<Rightarrow> Inl (WireFailure e) | Inr m \<Rightarrow> Inr (Some m)), rest)"
    | "read_record_take buffer = None" "try_decode_message_from_buffer buffer = (Inr (Inr None), buffer)"
proof (cases "read_record_take buffer")
  case None
  then have "try_take_record_from_buffer buffer = (Inr None, buffer)"
    by (intro try_take_waits) (simp add: wire_records.waits_iff)
  then have "try_decode_message_from_buffer buffer = (Inr (Inr None), buffer)"
    by (simp add: try_decode_message_from_buffer_def)
  with None show ?thesis using that(2) by blast
next
  case (Some dn)
  then obtain ps rest where ps: "frames_ok ps" "buffer = framed ps @ rest"
    using wire_records.take_sound [of buffer "fst dn" "snd dn"] by auto
  then have "try_decode_message_from_buffer buffer =
      (Inr (case rpc_message_decode (concat ps) of Inl e \<Rightarrow> Inl (WireFailure e) | Inr m \<Rightarrow> Inr (Some m)), rest)"
    by (simp add: try_decode_message_from_buffer_def try_take_framed split: sum.split)
  with ps show ?thesis using that(1) by blast
qed

fun pending :: "conn_pc \<Rightarrow> rpc_message list" where
  "pending (ConnAcquire m) = [m]"
| "pending _ = []"

text \<open>Every way of continuing the input parses to what was taken followed by the rest of the buffer.\<close>

definition dispatched_at :: "bytes \<Rightarrow> rpc_message list \<Rightarrow> conn_pc \<Rightarrow> bytes \<Rightarrow> bool" where
  "dispatched_at received spawned pc buffer \<longleftrightarrow>
     (\<forall>rest. parse_stream (received @ rest) =
      (case pc of
         ConnReturned (Inl (StWire e)) \<Rightarrow> (spawned, Some e)
       | _ \<Rightarrow> (spawned @ pending pc @ fst (parse_stream (buffer @ rest)), snd (parse_stream (buffer @ rest))))) \<and>
     (pc \<in> {ConnDrain} \<union> range ConnAcquire \<or> (\<exists>e. pc = ConnReturned (Inl (StWire e))) \<or>
        read_record_take buffer = None) \<and> pc \<noteq> ConnPanicked"

abbreviation dispatched :: "'w connection \<Rightarrow> bool" where
  "dispatched c \<equiv> dispatched_at (cn_received c) (cn_spawned c) (cn_pc c) (cn_buffer c)"

lemma dispatched_new: "dispatched (connection_new peer input w)"
  by (simp add: dispatched_at_def connection_new_def)

lemma dispatched_decode:
  assumes "cn_pc c = ConnDrain" "dispatched c"
  shows "dispatched (conn_decode c)"
proof (cases rule: try_decode_cases [of "cn_buffer c"])
  case (1 ps rest)
  with assms show ?thesis
    by (cases "rpc_message_decode (concat ps)")
       (auto simp: dispatched_at_def conn_decode_def parse_record map_runtime_error_def)
next
  case 2
  with assms show ?thesis by (simp add: dispatched_at_def conn_decode_def)
qed

lemma dispatched_read:
  assumes "cn_pc c = ConnRead" "dispatched c"
  shows "dispatched (conn_read c)"
  using assms
  by (auto simp: dispatched_at_def conn_read_def io_failure_def split: list.splits read_event.splits)

lemma dispatched_serve:
  assumes "semaphore_ok sem available" "dispatched c"
  shows "dispatched (snd (serve_connection_step sem (q, c)))"
proof (cases "cn_pc c")
  case (ConnAcquire m)
  show ?thesis
    by (rule acquire_worker_permit_cases [OF assms(1), of q])
       (use ConnAcquire assms(2) in \<open>auto simp: serve_connection_step_def conn_spawn_def dispatched_at_def\<close>)
qed (use assms(2) in \<open>auto simp: serve_connection_step_def dispatched_decode dispatched_read\<close>)

lemma dispatched_task: "dispatched (conn_task_next j t w c) = dispatched c" "dispatched (conn_task_end j w c) = dispatched c"
  by (simp_all add: conn_task_next_def conn_task_end_def)

text \<open>An invariant of single connections that the loop and the tasks keep holds of all of them.\<close>

lemma conns_invariant:
  assumes "tcp_step handle wr sem s s'"
    and "\<And>peer input w. P (connection_new peer input w)"
    and "\<And>q c. P c \<Longrightarrow> P (snd (serve_connection_step sem (q, c)))"
    and "\<And>c j app t app' w. P c \<Longrightarrow> j < length (cn_tasks c) \<Longrightarrow>
          message_task_step handle wr (cn_peer c) (cn_tasks c ! j) (app, cn_writer c) = (Some t, app', w) \<Longrightarrow> P (conn_task_next j t w c)"
    and "\<And>c j app app' w. P c \<Longrightarrow> j < length (cn_tasks c) \<Longrightarrow>
          message_task_step handle wr (cn_peer c) (cn_tasks c ! j) (app, cn_writer c) = (None, app', w) \<Longrightarrow> P (conn_task_end j w c)"
    and "\<forall>c\<in>set (ts_conns s). P c"
  shows "\<forall>c\<in>set (ts_conns s'). P c"
  using assms(1)
proof cases
  case (accept peer input w)
  with assms(2,6) show ?thesis by auto
next
  case (serve i)
  with assms(3) [of "ts_conns s ! i" "ts_workers s"] assms(6) show ?thesis
    by (auto simp: tcp_serve_def split: prod.splits dest!: set_update_subset_insert [THEN subsetD])
next
  case (run_task i j)
  let ?c = "ts_conns s ! i"
  obtain t app w where st: "message_task_step handle wr (cn_peer ?c) (cn_tasks ?c ! j) (ts_app s, cn_writer ?c) = (t, app, w)"
    by (metis prod_cases3)
  from run_task assms(6) have "P ?c" by simp
  with run_task st assms(4) [of ?c j "ts_app s" _ app w] assms(5) [of ?c j "ts_app s" app w] assms(6) show ?thesis
    by (cases t) (auto simp: tcp_task_def dest!: set_update_subset_insert [THEN subsetD])
qed

lemma dispatched_all:
  assumes "(tcp_step handle wr sem)\<^sup>*\<^sup>* (tcp_bind sem config app) s" "semaphore_ok sem available"
  shows "\<forall>c\<in>set (ts_conns s). dispatched c"
  using assms(1)
proof (induction rule: rtranclp_induct)
  case base
  show ?case by (simp add: tcp_bind_def)
next
  case (step s s')
  show ?case
    by (rule conns_invariant [OF step(2) _ _ _ _ step(3)])
       (auto simp: dispatched_new dispatched_serve [OF assms(2)] dispatched_task)
qed

section \<open>What a connection answers\<close>

fun is_call :: "rpc_message \<Rightarrow> bool" where
  "is_call m = (case msg_body m of Call _ \<Rightarrow> True | Reply _ \<Rightarrow> False)"

lemma concat_update:
  "j < length ts \<Longrightarrow> f t = f (ts ! j) \<Longrightarrow> concat (map f (ts[j := t])) = concat (map f ts)"
  by (metis list_update_id map_update)

lemma concat_drop_nth:
  assumes "j < length ts"
  shows "mset (concat (map f ts)) = mset (f (ts ! j)) + mset (concat (map f (drop_nth j ts)))"
proof -
  have "ts = take j ts @ ts ! j # drop (Suc j) ts" by (rule id_take_nth_drop [OF assms])
  then have "map f ts = map f (take j ts) @ f (ts ! j) # map f (drop (Suc j) ts)" by (metis list.simps(9) map_append)
  then show ?thesis by (simp add: drop_nth_def)
qed

text \<open>A writer that never fails holds exactly the framed replies of the ended tasks.\<close>

definition reliable :: "'w writer_api \<Rightarrow> ('w \<Rightarrow> bytes) \<Rightarrow> bool" where
  "reliable wr written \<longleftrightarrow> writer_ok wr written \<and> (\<forall>bs w. fst (wa_write_all wr bs w) = Inr ()) \<and> (\<forall>w. fst (wa_flush wr w) = Inr ())"

definition sendable :: "rpc_message \<Rightarrow> bool" where
  "sendable r \<longleftrightarrow> list_all auth_fits (message_auths (msg_body r))"

definition wrote :: "('w \<Rightarrow> bytes) \<Rightarrow> 'w connection \<Rightarrow> bool" where
  "wrote written c \<longleftrightarrow> (\<exists>pss. written (cn_writer c) = written (cn_opened c) @ concat (map framed pss) \<and>
     list_all2 (\<lambda>ps r. frames_ok ps \<and> rpc_message_encode r = Inr (concat ps)) pss
       (filter sendable (cn_replied c)))"

lemma write_reliable:
  assumes rel: "reliable wr written"
  shows "rpc_message_encode r = Inr payload \<Longrightarrow>
     \<exists>ps. frames_ok ps \<and> concat ps = payload \<and> written (snd (write_rpc_message wr r w)) = written w @ framed ps"
    and "rpc_message_encode r = Inl e \<Longrightarrow> snd (write_rpc_message wr r w) = w"
proof -
  from rel have assms: "writer_ok wr written" "\<exists>w'. wa_write_all wr bs w = (Inr (), w')" "\<exists>w'. wa_flush wr w = (Inr (), w')" for bs w
    by (auto simp: reliable_def prod_eq_iff)
  assume enc: "rpc_message_encode r = Inr payload"
  have each: "\<exists>w'. for_each (\<lambda>f. map_action_err g (wa_write_all wr f)) fs w = (Inr (), w')" for fs g w
  proof (induction fs arbitrary: w)
    case (Cons f fs)
    obtain w1 where "wa_write_all wr f w = (Inr (), w1)" using assms(2) by blast
    with Cons [of w1] show ?case by simp
  qed auto
  obtain q w' where w': "write_record_payload wr payload w = (q, w')" by fastforce
  have "q = Inr ()"
  proof (cases "length payload \<le> unat MAX_FRAGMENT_LEN")
    case True
    obtain w1 where "wa_write_all wr (record_marker_encode_bytes \<lparr>last_fragment = True, payload_len = of_nat (length payload)\<rparr>) w = (Inr (), w1)"
      using assms(2) by blast
    moreover obtain w2 where "wa_write_all wr payload w1 = (Inr (), w2)" using assms(2) by blast
    moreover obtain w3 where "wa_flush wr w2 = (Inr (), w3)" using assms(3) by blast
    moreover have "record_marker_new (of_nat (length payload)) True = Inr \<lparr>last_fragment = True, payload_len = of_nat (length payload)\<rparr>"
      using fragment_len_le [of payload] True by (simp add: record_marker_new_def fragment_fits_def)
    ultimately show ?thesis using w' True by (simp add: write_record_payload_def)
  next
    case False
    then have "payload \<noteq> []" by auto
    with fragment_record_framed [of MAX_FRAGMENT_LEN payload] obtain fs where fs: "fragment_record payload MAX_FRAGMENT_LEN = Inr fs"
      by (auto simp: MAX_FRAGMENT_LEN_def)
    from each [of transport_error fs w] obtain w1 where
      "for_each (\<lambda>f. map_action_err transport_error (wa_write_all wr f)) fs w = (Inr (), w1)" by blast
    moreover obtain w2 where "wa_flush wr w1 = (Inr (), w2)" using assms(3) by blast
    ultimately show ?thesis using w' False fs by (simp add: write_record_payload_def)
  qed
  with w' write_record_payload_writes [OF assms(1) w'] enc show
    "\<exists>ps. frames_ok ps \<and> concat ps = payload \<and> written (snd (write_rpc_message wr r w)) = written w @ framed ps"
    by (auto simp: write_rpc_message_def)
qed (simp add: write_rpc_message_def)

lemma wrote_next: "wrote written c \<Longrightarrow> message_task_step handle wr p t (app, cn_writer c) = (Some t', app', w) \<Longrightarrow> wrote written (conn_task_next j t' w c)"
  by (cases t) (auto simp: wrote_def conn_task_next_def message_task_step_def split: prod.splits sum.splits)

lemma wrote_end:
  assumes "reliable wr written" "wrote written c"
    and "message_task_step handle wr (cn_peer c) (cn_tasks c ! j) (app, cn_writer c) = (None, app', w)"
  shows "wrote written (conn_task_end j w c)"
proof (cases "cn_tasks c ! j")
  case (TaskDispatch m)
  with assms(2,3) show ?thesis
    by (auto simp: wrote_def conn_task_end_def message_task_step_def split: prod.splits sum.splits)
next
  case (TaskReply r)
  with assms(3) have w: "w = snd (write_rpc_message wr r (cn_writer c))"
    by (auto simp: message_task_step_def split: prod.splits)
  from assms(2) obtain pss where pss: "written (cn_writer c) = written (cn_opened c) @ concat (map framed pss)"
    "list_all2 (\<lambda>ps r. frames_ok ps \<and> rpc_message_encode r = Inr (concat ps)) pss (filter sendable (cn_replied c))"
    by (auto simp: wrote_def)
  show ?thesis
  proof (cases "rpc_message_encode r")
    case (Inl e)
    then have "\<not> sendable r" using message_encode_Inr [of r "message_wire r"] by (auto simp: sendable_def)
    with TaskReply w pss write_reliable(2) [OF assms(1) Inl] show ?thesis
      by (auto simp: wrote_def conn_task_end_def)
  next
    case (Inr payload)
    then have "sendable r" by (simp add: message_encode_Inr sendable_def)
    moreover from write_reliable(1) [OF assms(1) Inr, of "cn_writer c"] w obtain ps where
      "frames_ok ps" "concat ps = payload" "written w = written (cn_writer c) @ framed ps" by auto
    ultimately show ?thesis
      using TaskReply pss Inr by (auto simp: wrote_def conn_task_end_def list_all2_appendI intro!: exI [of _ "pss @ [ps]"])
  qed
qed

text \<open>What the transport relies on of a server: calls are answered under their own identifier.\<close>

locale answering =
  fixes handle :: "'d handler"
  assumes answers: "is_call m \<Longrightarrow> \<exists>r app'. handle m p app = (Inr r, app') \<and> msg_xid r = msg_xid m"
    and refuses: "\<not> is_call m \<Longrightarrow> \<exists>e app'. handle m p app = (Inl e, app')"
begin

definition task_calls :: "task \<Rightarrow> xid list" where
  "task_calls t = (case t of TaskDispatch m \<Rightarrow> if is_call m then [msg_xid m] else [] | TaskReply r \<Rightarrow> [msg_xid r])"

text \<open>Each call is in a task or answered, never both.\<close>

definition answered :: "'w connection \<Rightarrow> bool" where
  "answered c \<longleftrightarrow> mset (map msg_xid (cn_replied c)) + mset (concat (map task_calls (cn_tasks c))) =
     mset (map msg_xid (filter is_call (cn_spawned c)))"

lemma answered_serve: "answered c \<Longrightarrow> answered (snd (serve_connection_step sem (q, c)))"
  by (auto simp: answered_def serve_connection_step_def conn_decode_def conn_spawn_def conn_read_def task_calls_def
      split: conn_pc.splits prod.splits sum.splits option.splits list.splits read_event.splits)

lemma task_Some:
  assumes "message_task_step handle wr p t (app, w) = (Some t', app', w')"
  shows "task_calls t' = task_calls t \<and> w' = w"
proof (cases t)
  case (TaskDispatch m)
  with assms answers [of m "Some p" app] refuses [of m "Some p" app] show ?thesis
    by (cases "is_call m") (auto simp: message_task_step_def task_calls_def simp del: is_call.simps)
qed (use assms in \<open>auto simp: message_task_step_def split: prod.splits\<close>)

lemma task_None:
  assumes "message_task_step handle wr p t (app, w) = (None, app', w')"
  shows "(case t of TaskReply r \<Rightarrow> w' = snd (write_rpc_message wr r w) | TaskDispatch m \<Rightarrow> task_calls t = [] \<and> w' = w)"
proof (cases t)
  case (TaskDispatch m)
  with assms answers [of m "Some p" app] refuses [of m "Some p" app] show ?thesis
    by (cases "is_call m") (auto simp: message_task_step_def task_calls_def simp del: is_call.simps)
qed (use assms in \<open>auto simp: message_task_step_def split: prod.splits\<close>)

lemma answered_next:
  assumes "answered c" "j < length (cn_tasks c)"
    and "message_task_step handle wr (cn_peer c) (cn_tasks c ! j) (app, cn_writer c) = (Some t, app', w)"
  shows "answered (conn_task_next j t w c)"
  using assms(1) concat_update [OF assms(2), of task_calls t] task_Some [OF assms(3)]
  by (simp add: answered_def conn_task_next_def)

lemma answered_end:
  assumes "answered c" "j < length (cn_tasks c)"
    and "message_task_step handle wr (cn_peer c) (cn_tasks c ! j) (app, cn_writer c) = (None, app', w)"
  shows "answered (conn_task_end j w c)"
  using assms(1) concat_drop_nth [OF assms(2), of task_calls] task_None [OF assms(3)]
  by (cases "cn_tasks c ! j") (simp_all add: answered_def conn_task_end_def task_calls_def)

lemma answered_all:
  assumes "(tcp_step handle wr sem)\<^sup>*\<^sup>* (tcp_bind sem config app) s"
  shows "\<forall>c\<in>set (ts_conns s). answered c"
  using assms
proof (induction rule: rtranclp_induct)
  case base
  show ?case by (simp add: tcp_bind_def)
next
  case (step s s')
  show ?case
    by (rule conns_invariant [OF step(2) _ _ _ _ step(3)])
       (simp_all add: answered_serve answered_next answered_end, simp add: answered_def connection_new_def)
qed

lemma answered_xids:
  assumes "answered c"
  shows "mset (map msg_xid (cn_replied c)) \<subseteq># mset (map msg_xid (filter is_call (cn_spawned c)))"
    and "cn_tasks c = [] \<Longrightarrow> mset (map msg_xid (cn_replied c)) = mset (map msg_xid (filter is_call (cn_spawned c)))"
  using assms unfolding answered_def by (metis mset_subset_eq_add_left, simp)

end

lemma wrote_serve: "wrote written c \<Longrightarrow> wrote written (snd (serve_connection_step sem (q, c)))"
  by (auto simp: wrote_def serve_connection_step_def conn_decode_def conn_spawn_def conn_read_def
      split: conn_pc.splits prod.splits sum.splits option.splits list.splits read_event.splits)

lemma wrote_all:
  assumes "(tcp_step handle wr sem)\<^sup>*\<^sup>* (tcp_bind sem config app) s" "reliable wr written"
  shows "\<forall>c\<in>set (ts_conns s). wrote written c"
  using assms(1)
proof (induction rule: rtranclp_induct)
  case base
  show ?case by (simp add: tcp_bind_def)
next
  case (step s s')
  show ?case
    by (rule conns_invariant [OF step(2) _ _ _ _ step(3)])
       (simp_all add: wrote_serve wrote_next wrote_end [OF assms(2)], simp add: wrote_def connection_new_def)
qed

interpretation sync_answering: answering "handle_message_with_peer_addr server" for server
  by unfold_locales
     (auto simp: handle_message_with_peer_addr_def resolve_dispatch_def Let_def
       split: message_body.splits option.splits prod.splits sum.splits dispatch_error.splits)

interpretation async_answering: answering "async_handle_message_with_peer_addr server" for server
  by unfold_locales
     (auto simp: async_handle_message_with_peer_addr_def async_resolve_dispatch_def Let_def
       split: message_body.splits option.splits prod.splits sum.splits dispatch_error.splits)

section \<open>Instances of the promises\<close>

text \<open>A counter as semaphore and a byte list as writer: they show that the promises can hold.\<close>

definition counting_semaphore :: "nat semaphore_api" where
  "counting_semaphore = \<lparr>sem_new = (\<lambda>n. n), sem_acquire = (\<lambda>q. case q of 0 \<Rightarrow> AcquirePending | Suc n \<Rightarrow> Acquired n), sem_release = Suc\<rparr>"

definition list_writer :: "bytes writer_api" where
  "list_writer = \<lparr>wa_write_all = (\<lambda>bs w. (Inr (), w @ bs)), wa_flush = (\<lambda>w. (Inr (), w))\<rparr>"

lemma counting_semaphore_ok: "semaphore_ok counting_semaphore (\<lambda>n. n)"
  by (auto simp: semaphore_ok_def counting_semaphore_def split: nat.splits)

lemma list_writer_reliable: "reliable list_writer (\<lambda>w. w)"
  by (auto simp: reliable_def writer_ok_def list_writer_def)

text \<open>A connection that receives one null call and serves it to the end.\<close>

abbreviation null_record :: bytes where
  "null_record \<equiv> framed [message_wire null_call]"

definition null_conn :: "read_event list \<Rightarrow> bytes \<Rightarrow> conn_pc \<Rightarrow> task list \<Rightarrow> rpc_message list \<Rightarrow> bytes connection" where
  "null_conn input received pc tasks spawned =
     \<lparr>cn_peer = SocketV4 [127, 0, 0, 1] 700, cn_input = input, cn_writer = [], cn_buffer = [], cn_pc = pc, cn_tasks = tasks,
      cn_opened = [], cn_received = received, cn_spawned = spawned, cn_replied = []\<rparr>"

lemma null_record_ok: "frames_ok [message_wire null_call]"
  by (simp add: frames_ok_def fragment_fits_def null_length MAX_FRAGMENT_LEN_def)

lemma null_decode: "try_decode_message_from_buffer null_record = (Inr (Inr (Some null_call)), [])"
  using try_take_framed [OF null_record_ok, of "[]"] null_call_decodes
  by (simp add: try_decode_message_from_buffer_def)

lemma empty_decode: "try_decode_message_from_buffer [] = (Inr (Inr None), [])"
  by (simp add: try_decode_message_from_buffer_def try_take_record_from_buffer_def scan_record.simps)

lemma null_run:
  assumes "sys = (\<lambda>workers c. \<lparr>ts_workers = workers, ts_app = (), ts_conns = [c]\<rparr>)"
    and "step = sync_tcp_step (server_build server_config_default) list_writer counting_semaphore"
  shows "step\<^sup>*\<^sup>* (tcp_bind counting_semaphore server_config_default ())
           (sys 0 (null_conn [] null_record ConnRead [TaskDispatch null_call] [null_call]))"
proof -
  let ?in = "[Data null_record]"
  have ne: "null_record \<noteq> []" by simp
  have serve: "step (sys q c) (sys q' c')" if "serve_connection_step counting_semaphore (q, c) = (q', c')" for q q' c c'
    using tcp_step.serve [where i = 0 and s = "sys q c" and sem = counting_semaphore] that by (simp add: assms tcp_serve_def)
  have "step\<^sup>*\<^sup>* (tcp_bind counting_semaphore server_config_default ()) (sys 1 (null_conn ?in [] ConnDrain [] []))"
    using tcp_step.accept [of _ _ _ "tcp_bind counting_semaphore server_config_default ()" "SocketV4 [127, 0, 0, 1] 700" ?in "[]"]
    by (intro r_into_rtranclp) (simp add: assms tcp_bind_def counting_semaphore_def worker_threads_permits_def server_config_default_def
        null_conn_def connection_new_def)
  also have "step (sys 1 (null_conn ?in [] ConnDrain [] [])) (sys 1 (null_conn ?in [] ConnRead [] []))"
    by (rule serve) (simp add: serve_connection_step_def conn_decode_def null_conn_def empty_decode)
  also (rtranclp.rtrancl_into_rtrancl) have "step (sys 1 (null_conn ?in [] ConnRead [] [])) (sys 1 (null_conn [] null_record ConnDrain [] [] \<lparr>cn_buffer := null_record\<rparr>))"
    by (rule serve) (simp add: serve_connection_step_def conn_read_def null_conn_def ne del: framed.simps)
  also (rtranclp.rtrancl_into_rtrancl) have "step (sys 1 (null_conn [] null_record ConnDrain [] [] \<lparr>cn_buffer := null_record\<rparr>))
      (sys 1 (null_conn [] null_record (ConnAcquire null_call) [] []))"
    by (rule serve) (simp add: serve_connection_step_def conn_decode_def null_conn_def null_decode del: framed.simps)
  also (rtranclp.rtrancl_into_rtrancl) have "step (sys 1 (null_conn [] null_record (ConnAcquire null_call) [] []))
      (sys 0 (null_conn [] null_record ConnDrain [TaskDispatch null_call] [null_call]))"
    by (rule serve) (simp add: serve_connection_step_def conn_spawn_def null_conn_def acquire_worker_permit_def counting_semaphore_def del: framed.simps)
  also (rtranclp.rtrancl_into_rtrancl) have "step (sys 0 (null_conn [] null_record ConnDrain [TaskDispatch null_call] [null_call]))
      (sys 0 (null_conn [] null_record ConnRead [TaskDispatch null_call] [null_call]))"
    by (rule serve) (simp add: serve_connection_step_def conn_decode_def null_conn_def empty_decode del: framed.simps)
  finally (rtranclp.rtrancl_into_rtrancl) show ?thesis .
qed

lemma null_run_answered:
  assumes "sys = (\<lambda>workers c. \<lparr>ts_workers = workers, ts_app = (), ts_conns = [c]\<rparr>)"
    and "step = sync_tcp_step (server_build server_config_default) list_writer counting_semaphore"
  shows "\<exists>w. step\<^sup>*\<^sup>* (tcp_bind counting_semaphore server_config_default ())
           (sys 1 (null_conn [] null_record ConnRead [] [null_call] \<lparr>cn_writer := w, cn_replied := [null_reply]\<rparr>))"
proof -
  let ?c = "\<lambda>ts. null_conn [] null_record ConnRead ts [null_call]"
  let ?h = "handle_message_with_peer_addr (server_build server_config_default :: unit server)"
  have handled: "?h null_call (Some (SocketV4 [127, 0, 0, 1] 700)) () = (Inr null_reply, ())"
    by (simp add: handle_message_with_peer_addr_def resolve_dispatch_def null_call_def null_reply_def server_build_def
        program_unavailable_reply_def call_body_new_def Let_def)
  have "step\<^sup>*\<^sup>* (tcp_bind counting_semaphore server_config_default ()) (sys 0 (?c [TaskDispatch null_call]))"
    by (rule null_run [OF assms])
  also have "step (sys 0 (?c [TaskDispatch null_call])) (sys 0 (?c [TaskReply null_reply]))"
    using tcp_step.run_task [where i = 0 and j = 0 and s = "sys 0 (?c [TaskDispatch null_call])" and sem = counting_semaphore
        and handle = ?h and wr = list_writer] handled
    by (simp add: assms tcp_task_def message_task_step_def null_conn_def conn_task_next_def del: framed.simps)
  also (rtranclp.rtrancl_into_rtrancl) have "step (sys 0 (?c [TaskReply null_reply]))
      (sys 1 (?c [] \<lparr>cn_writer := snd (write_rpc_message list_writer null_reply []), cn_replied := [null_reply]\<rparr>))"
    using tcp_step.run_task [where i = 0 and j = 0 and s = "sys 0 (?c [TaskReply null_reply])" and sem = counting_semaphore
        and handle = ?h and wr = list_writer]
    by (simp add: assms tcp_task_def message_task_step_def null_conn_def conn_task_end_def drop_nth_def counting_semaphore_def
        split: prod.splits del: framed.simps)
  finally (rtranclp.rtrancl_into_rtrancl) show ?thesis by blast
qed


section \<open>Properties\<close>





text \<open>
  The permits bound the work: at every moment the free permits and the running message
  tasks of all connections add up to the configured number of workers, at least one, so no
  permit is lost or invented; over UDP the permit the loop holds while it waits counts too.
\<close>
theorem workers_bounded:
  assumes "(tcp_step handle wr sem)\<^sup>*\<^sup>* (tcp_bind sem config app) s" "(udp_step handle socket sem)\<^sup>*\<^sup>* (udp_bind sem config app u) s'"
    and "semaphore_ok sem available"
  shows "available (ts_workers s) + (\<Sum>c\<leftarrow>ts_conns s. length (cn_tasks c)) = max (sc_worker_threads config) 1 \<and>
    available (us_workers s') + length (us_tasks s') + (if us_pc s' = UdpRecv then 1 else 0) = max (sc_worker_threads config) 1"
proof -
  from assms(3) have "available (sem_new sem n) = n" for n by (simp add: semaphore_ok_def)
  with tcp_pool.conserved [OF assms(1,3)] udp_pool.conserved [OF assms(2,3)] show ?thesis
    by (simp add: tcp_bind_def udp_bind_def running_def udp_holders_def worker_threads_permits_def)
qed

theorem workers_bounded_witness:
  "(\<Sum>c\<leftarrow>[null_conn [] null_record ConnRead [TaskDispatch null_call] [null_call]]. length (cn_tasks c)) = 1"
  using workers_bounded [where u = "()", OF null_run [OF refl refl] rtranclp.rtrancl_refl counting_semaphore_ok]
  by (simp add: server_config_default_def)

text \<open>
  A datagram is answered on its own: when it decodes to a call, the dispatcher's reply,
  under the call's identifier, is sent in one datagram to the sender, unless the reply
  cannot be encoded, which is reported and sends nothing; when it does not decode, or is a
  reply, nothing is sent, no application code runs and the error says so.
\<close>
theorem udp_datagram_answer:
  "(case rpc_message_decode datagram of
      Inl e \<Rightarrow> handle_sync_udp_datagram socket server peer datagram (app, u) = (Inl (StWire e), app, u)
    | Inr m \<Rightarrow>
        if is_call m then \<exists>reply app'. handle_message_with_peer_addr server m (Some peer) app = (Inr reply, app') \<and> msg_xid reply = msg_xid m \<and>
          handle_sync_udp_datagram socket server peer datagram (app, u) =
            (case rpc_message_encode reply of
               Inl e \<Rightarrow> (Inl (StRuntime (WireFailure e)), app', u)
             | Inr payload \<Rightarrow> (case udp_send_to socket payload peer u of (r, u') \<Rightarrow> (map_err io_failure r, app', u')))
        else handle_sync_udp_datagram socket server peer datagram (app, u) = (Inl (StServer UnexpectedReplyMessage), app, u))"
proof (cases "rpc_message_decode datagram")
  case (Inl e)
  then show ?thesis
    by (simp add: handle_sync_udp_datagram_def handle_udp_datagram_def decode_rpc_message_datagram_def map_runtime_error_def)
next
  case (Inr m)
  then have step: "handle_sync_udp_datagram socket server peer datagram (app, u) =
      (case handle_message_with_peer_addr server m (Some peer) app of
            (Inl e, app') \<Rightarrow> (Inl (StServer e), app', u)
          | (Inr reply, app') \<Rightarrow> (case encode_rpc_message_datagram reply of
                Inl e \<Rightarrow> (Inl (StRuntime e), app', u)
              | Inr payload \<Rightarrow> (case udp_send_to socket payload peer u of
                    (Inl e, u') \<Rightarrow> (Inl (io_failure e), app', u')
                  | (Inr _, u') \<Rightarrow> (Inr (), app', u'))))"
    by (simp add: handle_sync_udp_datagram_def handle_udp_datagram_def decode_rpc_message_datagram_def)
  show ?thesis
  proof (cases "is_call m")
    case True
    from sync_answering.answers [OF this, of server "Some peer" app] obtain reply app' where
      "handle_message_with_peer_addr server m (Some peer) app = (Inr reply, app')" "msg_xid reply = msg_xid m" by blast
    with True Inr show ?thesis
      unfolding step by (auto simp: encode_rpc_message_datagram_def simp del: is_call.simps split: sum.splits prod.splits)
  next
    case False
    then obtain r where "msg_body m = Reply r" by (auto split: message_body.splits)
    with False Inr show ?thesis
      unfolding step by (simp add: handle_message_with_peer_addr_def resolve_dispatch_def)
  qed
qed

end
