(* ===== verification/Udp_Client.thy ===== *)
theory Udp_Client
  imports Rpc_Client
begin

text \<open>
  The UDP client of \<^verbatim>\<open>src/crates/onc-rpc-runtime/src/transport.rs\<close>: calls registered by
  transaction identifier in a shared map, and one reader task that delivers datagrams to them.

  A call is a number, which stands for the identity of its \<^verbatim>\<open>token\<close> and of its oneshot channel,
  both created by the call; a channel is its one-place mailbox. Every section under the map's
  lock is one step, and a step of a call is one poll of its future, with what the socket, the
  timers and the cancellation flags answer in that poll as inputs. The reader removes an
  entry under the lock and sends after releasing it, so these are two steps.
\<close>

section \<open>Addresses and sending\<close>

definition udp_unspecified_addr :: "socket_addr \<Rightarrow> socket_addr" where
  "udp_unspecified_addr remote_addr = (case remote_addr of
       SocketV4 _ _ \<Rightarrow> SocketV4 (replicate 4 0) 0
     | SocketV6 _ _ _ _ \<Rightarrow> SocketV6 (replicate 16 0) 0 0 0)"

definition udp_bind_addr :: "client_config \<Rightarrow> socket_addr" where
  "udp_bind_addr config = (case cc_local_addr config of
       Some addr \<Rightarrow> addr
     | None \<Rightarrow> udp_unspecified_addr (cc_remote_addr config))"

text \<open>A poll of the send: it is ready, or blocked with its timer elapsed or not.\<close>

datatype send_poll = SendReady "io_error + unit" | SendBlocked bool

definition send_udp_request :: "duration option \<Rightarrow> send_poll \<Rightarrow> (runtime_error + unit) option" where
  "send_udp_request write_timeout poll = (case poll of
       SendReady write_result \<Rightarrow> Some (map_err transport_error write_result)
     | SendBlocked elapsed \<Rightarrow> (case write_timeout of
           Some duration \<Rightarrow> if elapsed then Some (Inl (WriteTimeoutError duration)) else None
         | None \<Rightarrow> None))"

section \<open>State\<close>

datatype oneshot = ChanOpen | ChanSent "runtime_error + rpc_message" | ChanClosed

datatype udp_call =
    UcIdle
  | UcSending rpc_message call_options bytes
  | UcWaiting rpc_message call_options
  | UcReturned rpc_message "runtime_error + rpc_message"
  | UcDropped rpc_message

datatype udp_reader =
    ReaderLoop
  | ReaderSend nat rpc_message
  | ReaderFail runtime_error "nat list"
  | ReaderDone

text \<open>The last field records the datagrams received, for the statements below.\<close>

record udp_transport =
  ut_pending :: "(xid \<times> nat) list"
  ut_channel :: "nat \<Rightarrow> oneshot"
  ut_calls :: "nat \<Rightarrow> udp_call"
  ut_reader :: udp_reader
  ut_default_call_timeout :: "duration option"
  ut_write_timeout :: "duration option"
  ut_xids :: u32
  ut_datagrams :: "bytes list"

definition from_socket_with_timeouts :: "duration option \<Rightarrow> duration option \<Rightarrow> udp_transport" where
  "from_socket_with_timeouts default_call_timeout write_timeout =
     \<lparr>ut_pending = [], ut_channel = (\<lambda>_. ChanOpen), ut_calls = (\<lambda>_. UcIdle), ut_reader = ReaderLoop,
      ut_default_call_timeout = default_call_timeout, ut_write_timeout = write_timeout, ut_xids = xid_allocator_new,
      ut_datagrams = []\<rparr>"

definition map_remove :: "xid \<Rightarrow> (xid \<times> nat) list \<Rightarrow> (xid \<times> nat) list" where
  "map_remove xid entries = filter (\<lambda>e. fst e \<noteq> xid) entries"

section \<open>Calls\<close>

definition drop_udp_pending_call :: "xid \<Rightarrow> nat \<Rightarrow> (xid \<times> nat) list \<Rightarrow> (xid \<times> nat) list" where
  "drop_udp_pending_call xid token pending =
     (if map_of pending xid = Some token then map_remove xid pending else pending)"

definition udp_finish :: "nat \<Rightarrow> rpc_message \<Rightarrow> udp_call \<Rightarrow> udp_transport \<Rightarrow> udp_transport" where
  "udp_finish t request result s =
     s\<lparr>ut_calls := (ut_calls s)(t := result), ut_pending := drop_udp_pending_call (msg_xid request) t (ut_pending s)\<rparr>"

text \<open>The call up to its first suspension point.\<close>

definition udp_call_start :: "(nat \<Rightarrow> bool) \<Rightarrow> nat \<Rightarrow> rpc_message \<Rightarrow> call_options \<Rightarrow> udp_transport \<Rightarrow> udp_transport" where
  "udp_call_start flags t request options s =
     (let return_err = (\<lambda>e. s\<lparr>ut_calls := (ut_calls s)(t := UcReturned request (Inl e))\<rparr>)
      in if (case co_cancellation options of Some cancel \<Rightarrow> flags cancel | None \<Rightarrow> False) then return_err Cancelled
         else case encode_rpc_message_datagram request of
             Inl e \<Rightarrow> return_err e
           | Inr payload \<Rightarrow>
               if map_of (ut_pending s) (msg_xid request) \<noteq> None
               then return_err (Transport ''duplicate in-flight RPC XID'')
               else s\<lparr>ut_pending := (msg_xid request, t) # ut_pending s,
                      ut_calls := (ut_calls s)(t := UcSending request options payload)\<rparr>)"

text \<open>The receiver's side of the channel, then the deadline: a timer is looked at last.\<close>

definition udp_await_reply :: "nat \<Rightarrow> rpc_message \<Rightarrow> call_options \<Rightarrow> bool \<Rightarrow> udp_transport \<Rightarrow> udp_transport" where
  "udp_await_reply t request options elapsed s = (case ut_channel s t of
       ChanSent r \<Rightarrow> udp_finish t request (UcReturned request r) s
     | ChanClosed \<Rightarrow> udp_finish t request (UcReturned request (Inl ConnectionClosed)) s
     | ChanOpen \<Rightarrow> (case effective_timeout options (ut_default_call_timeout s) of
           Some duration \<Rightarrow>
             if elapsed then udp_finish t request (UcReturned request (Inl (CallTimeoutError duration))) s
             else s\<lparr>ut_calls := (ut_calls s)(t := UcWaiting request options)\<rparr>
         | None \<Rightarrow> s\<lparr>ut_calls := (ut_calls s)(t := UcWaiting request options)\<rparr>))"

definition udp_call_poll :: "(nat \<Rightarrow> bool) \<Rightarrow> nat \<Rightarrow> send_poll \<Rightarrow> bool \<Rightarrow> udp_transport \<Rightarrow> udp_transport" where
  "udp_call_poll flags t sent elapsed s = (case ut_calls s t of
       UcSending request options payload \<Rightarrow>
         if (case co_cancellation options of Some cancel \<Rightarrow> flags cancel | None \<Rightarrow> False)
         then udp_finish t request (UcReturned request (Inl Cancelled)) s
         else (case send_udp_request (ut_write_timeout s) sent of
             Some (Inr _) \<Rightarrow> udp_await_reply t request options elapsed s
           | Some (Inl e) \<Rightarrow> udp_finish t request (UcReturned request (Inl e)) s
           | None \<Rightarrow> (case effective_timeout options (ut_default_call_timeout s) of
                 Some duration \<Rightarrow>
                   if elapsed then udp_finish t request (UcReturned request (Inl (CallTimeoutError duration))) s else s
               | None \<Rightarrow> s))
     | UcWaiting request options \<Rightarrow>
         if (case co_cancellation options of Some cancel \<Rightarrow> flags cancel | None \<Rightarrow> False)
         then udp_finish t request (UcReturned request (Inl Cancelled)) s
         else udp_await_reply t request options elapsed s
     | _ \<Rightarrow> s)"

definition udp_call_drop :: "nat \<Rightarrow> udp_transport \<Rightarrow> udp_transport" where
  "udp_call_drop t s = (case ut_calls s t of
       UcSending request options payload \<Rightarrow> udp_finish t request (UcDropped request) s
     | UcWaiting request options \<Rightarrow> udp_finish t request (UcDropped request) s
     | _ \<Rightarrow> s)"

section \<open>The reader\<close>

datatype recv_event = RecvBytes bytes | RecvError io_error

definition udp_reader_loop :: "recv_event \<Rightarrow> udp_transport \<Rightarrow> (runtime_error + unit) option \<times> udp_transport" where
  "udp_reader_loop event s = (case event of
       RecvError e \<Rightarrow> (Some (Inl (transport_error e)), s)
     | RecvBytes d \<Rightarrow>
         (let buffer = take 65536 d; s = s\<lparr>ut_datagrams := ut_datagrams s @ [buffer]\<rparr>
          in if buffer = [] then (None, s)
             else case decode_rpc_message_datagram buffer of
                 Inl (WireFailure _) \<Rightarrow> (None, s)
               | Inl error \<Rightarrow> (Some (Inl error), s)
               | Inr message \<Rightarrow>
                   (let entry = map_of (ut_pending s) (msg_xid message);
                        s = s\<lparr>ut_pending := map_remove (msg_xid message) (ut_pending s)\<rparr>
                    in case entry of
                         Some t \<Rightarrow> (None, s\<lparr>ut_reader := ReaderSend t message\<rparr>)
                       | None \<Rightarrow> (None, s))))"

definition fail_pending :: "runtime_error \<Rightarrow> udp_transport \<Rightarrow> udp_transport" where
  "fail_pending error s = s\<lparr>ut_reader := ReaderFail error (map snd (ut_pending s)), ut_pending := []\<rparr>"

definition udp_reader_task :: "recv_event \<Rightarrow> udp_transport \<Rightarrow> udp_transport" where
  "udp_reader_task event s = (case ut_reader s of
       ReaderLoop \<Rightarrow> (case udp_reader_loop event s of
           (Some (Inl error), s') \<Rightarrow> fail_pending error s'
         | (Some (Inr _), s') \<Rightarrow> s'\<lparr>ut_reader := ReaderDone\<rparr>
         | (None, s') \<Rightarrow> s')
     | ReaderSend t message \<Rightarrow>
         s\<lparr>ut_channel := (ut_channel s)(t := ChanSent (Inr message)), ut_reader := ReaderLoop\<rparr>
     | ReaderFail error [] \<Rightarrow> s\<lparr>ut_reader := ReaderDone\<rparr>
     | ReaderFail error (t # ts) \<Rightarrow>
         s\<lparr>ut_channel := (ut_channel s)(t := ChanSent (Inl error)), ut_reader := ReaderFail error ts\<rparr>
     | ReaderDone \<Rightarrow> s)"

section \<open>Interleavings\<close>

inductive udp_client_step :: "udp_transport \<Rightarrow> udp_transport \<Rightarrow> bool" where
  start: "ut_calls s t = UcIdle \<Longrightarrow> udp_client_step s (udp_call_start flags t request options s)"
| poll: "udp_client_step s (udp_call_poll flags t sent elapsed s)"
| abandon: "udp_client_step s (udp_call_drop t s)"
| reader: "udp_client_step s (udp_reader_task event s)"

inductive_cases udp_client_stepE: "udp_client_step s s'"

section \<open>The invariant\<close>

fun call_request_of :: "udp_call \<Rightarrow> rpc_message option" where
  "call_request_of UcIdle = None"
| "call_request_of (UcSending r _ _) = Some r"
| "call_request_of (UcWaiting r _) = Some r"
| "call_request_of (UcReturned r _) = Some r"
| "call_request_of (UcDropped r) = Some r"

fun in_flight :: "udp_call \<Rightarrow> bool" where
  "in_flight (UcSending _ _ _) = True"
| "in_flight (UcWaiting _ _) = True"
| "in_flight _ = False"

fun held :: "udp_reader \<Rightarrow> nat set" where
  "held (ReaderSend t _) = {t}"
| "held (ReaderFail _ ts) = set ts"
| "held _ = {}"

text \<open>\<open>m\<close> arrived in a datagram and answers the call \<open>c\<close>.\<close>

definition answer_for :: "bytes list \<Rightarrow> udp_call \<Rightarrow> rpc_message \<Rightarrow> bool" where
  "answer_for datagrams c m \<longleftrightarrow> (\<exists>r. call_request_of c = Some r \<and> msg_xid r = msg_xid m) \<and>
     (\<exists>d\<in>set datagrams. rpc_message_decode d = Inr m)"

definition udp_inv :: "udp_transport \<Rightarrow> bool" where
  "udp_inv s \<longleftrightarrow> distinct (map fst (ut_pending s)) \<and>
     (\<forall>(x, t) \<in> set (ut_pending s). in_flight (ut_calls s t) \<and> map_option msg_xid (call_request_of (ut_calls s t)) = Some x \<and>
        ut_channel s t = ChanOpen \<and> t \<notin> held (ut_reader s)) \<and>
     (\<forall>t. in_flight (ut_calls s t) \<and> ut_channel s t = ChanOpen \<longrightarrow>
        t \<in> snd ` set (ut_pending s) \<or> t \<in> held (ut_reader s)) \<and>
     (\<forall>t m. ut_reader s = ReaderSend t m \<longrightarrow> answer_for (ut_datagrams s) (ut_calls s t) m) \<and>
     (\<forall>t m. ut_channel s t = ChanSent (Inr m) \<longrightarrow> answer_for (ut_datagrams s) (ut_calls s t) m) \<and>
     (\<forall>t r m. ut_calls s t = UcReturned r (Inr m) \<longrightarrow> answer_for (ut_datagrams s) (ut_calls s t) m) \<and>
     (\<forall>t. ut_channel s t \<noteq> ChanOpen \<or> t \<in> held (ut_reader s) \<longrightarrow> ut_calls s t \<noteq> UcIdle)"

lemma udp_inv_new: "udp_inv (from_socket_with_timeouts call_timeout write_timeout)"
  by (simp add: udp_inv_def from_socket_with_timeouts_def)

lemma map_of_None_fst: "map_of ps x = None \<Longrightarrow> x \<notin> fst ` set ps"
  by (simp add: map_of_eq_None_iff)

lemma udp_inv_start:
  assumes "udp_inv s" "ut_calls s t = UcIdle"
  shows "udp_inv (udp_call_start flags t request options s)"
proof -
  have fail: "udp_inv (s\<lparr>ut_calls := (ut_calls s)(t := UcReturned request (Inl e))\<rparr>)" for e
    using assms by (fastforce simp: udp_inv_def answer_for_def)
  have fresh: "\<And>x. (x, t) \<notin> set (ut_pending s)" "ut_channel s t = ChanOpen" "t \<notin> held (ut_reader s)"
    using assms by (fastforce simp: udp_inv_def)+
  have "udp_inv (s\<lparr>ut_pending := (msg_xid request, t) # ut_pending s, ut_calls := (ut_calls s)(t := UcSending request options payload)\<rparr>)"
    if "map_of (ut_pending s) (msg_xid request) = None" for payload
    using assms fresh map_of_None_fst [OF that] by (fastforce simp: udp_inv_def answer_for_def image_iff)
  with fail show ?thesis
    by (auto simp: udp_call_start_def Let_def split: sum.splits)
qed

lemma set_drop_pending:
  "distinct (map fst pending) \<Longrightarrow> set (drop_udp_pending_call x t pending) = set pending - {(x, t)}"
  by (auto simp: drop_udp_pending_call_def map_remove_def dest: map_of_SomeD)
     (metis eq_key_imp_eq_value)

lemma distinct_drop_pending: "distinct (map fst pending) \<Longrightarrow> distinct (map fst (drop_udp_pending_call x t pending))"
  by (simp add: drop_udp_pending_call_def map_remove_def distinct_map_filter)

lemma udp_inv_finish:
  assumes "udp_inv s" "in_flight (ut_calls s t)" "call_request_of (ut_calls s t) = Some request"
    and "\<not> in_flight c" "call_request_of c = Some request" "\<And>r m. c = UcReturned r (Inr m) \<Longrightarrow> ut_channel s t = ChanSent (Inr m)"
  shows "udp_inv (udp_finish t request c s)"
proof -
  have d: "distinct (map fst (ut_pending s))" using assms(1) by (simp add: udp_inv_def)
  from assms(4,5) have ne: "c \<noteq> UcIdle" by auto
  let ?s = "udp_finish t request c s"
  have pend: "set (ut_pending ?s) = set (ut_pending s) - {(msg_xid request, t)}"
    using set_drop_pending [OF d] by (simp add: udp_finish_def)
  note inv = assms(1) [unfolded udp_inv_def]
  have own: "(x, t) \<in> set (ut_pending s) \<Longrightarrow> x = msg_xid request" for x
    using inv assms(3) by fastforce
  have same: "ut_channel ?s = ut_channel s" "ut_reader ?s = ut_reader s" "ut_datagrams ?s = ut_datagrams s"
    "ut_calls ?s = (ut_calls s)(t := c)" by (simp_all add: udp_finish_def)
  have ans: "answer_for ds (((ut_calls s)(t := c)) u) m" if "answer_for ds (ut_calls s u) m" for ds u m
    using that assms(3,5) by (auto simp: answer_for_def)
  show ?thesis
    unfolding udp_inv_def same
  proof (intro conjI, goal_cases)
    case 1
    show ?case using distinct_drop_pending [OF d] by (simp add: udp_finish_def)
  next
    case 2
    show ?case using inv own by (auto simp: pend)
  next
    case 3
    show ?case
    proof (intro allI impI, elim conjE)
      fix u
      assume u: "in_flight (((ut_calls s)(t := c)) u)" "ut_channel s u = ChanOpen"
      with assms(4) have "u \<noteq> t" by auto
      with u inv have "u \<in> snd ` set (ut_pending s) \<or> u \<in> held (ut_reader s)" by simp
      with \<open>u \<noteq> t\<close> show "u \<in> snd ` set (ut_pending ?s) \<or> u \<in> held (ut_reader s)" by (auto simp: pend)
    qed
  next
    case 4
    show ?case using inv ans by blast
  next
    case 5
    show ?case using inv ans by blast
  next
    case 6
    show ?case
    proof (intro allI impI)
      fix u r m
      assume ret: "((ut_calls s)(t := c)) u = UcReturned r (Inr m)"
      have "answer_for (ut_datagrams s) (ut_calls s u) m"
        using inv assms(6) ret by (cases "u = t") auto
      then show "answer_for (ut_datagrams s) (((ut_calls s)(t := c)) u) m" by (rule ans)
    qed
  next
    case 7
    show ?case using inv ne by auto
  qed
qed

lemma udp_inv_wait:
  assumes "udp_inv s" "in_flight (ut_calls s t)" "call_request_of (ut_calls s t) = Some request"
  shows "udp_inv (s\<lparr>ut_calls := (ut_calls s)(t := UcWaiting request options)\<rparr>)"
proof -
  note inv = assms(1) [unfolded udp_inv_def]
  have ans: "answer_for ds (((ut_calls s)(t := UcWaiting request options)) u) m" if "answer_for ds (ut_calls s u) m" for ds u m
    using that assms(3) by (auto simp: answer_for_def)
  show ?thesis
    unfolding udp_inv_def
    using inv ans assms(2,3) by (intro conjI) (auto split: if_splits)
qed

lemma udp_inv_end:
  assumes "udp_inv s" "in_flight (ut_calls s t)" "call_request_of (ut_calls s t) = Some request"
  shows "udp_inv (udp_finish t request (UcReturned request (Inl e)) s)" "udp_inv (udp_finish t request (UcDropped request) s)"
    and "ut_channel s t = ChanSent r \<Longrightarrow> udp_inv (udp_finish t request (UcReturned request r) s)"
  by (rule udp_inv_finish [OF assms]; simp)+

lemma udp_inv_await:
  assumes "udp_inv s" "in_flight (ut_calls s t)" "call_request_of (ut_calls s t) = Some request"
  shows "udp_inv (udp_await_reply t request options elapsed s)"
  using udp_inv_end [OF assms] udp_inv_wait [OF assms]
  by (simp add: udp_await_reply_def split: oneshot.splits option.splits)

lemma udp_inv_poll: "udp_inv s \<Longrightarrow> udp_inv (udp_call_poll flags t sent elapsed s)"
  by (auto simp: udp_call_poll_def udp_inv_await udp_inv_end
      split: udp_call.splits option.splits sum.splits)

lemma udp_inv_drop: "udp_inv s \<Longrightarrow> udp_inv (udp_call_drop t s)"
  by (auto simp: udp_call_drop_def udp_inv_end split: udp_call.splits)

lemma set_map_remove: "set (map_remove x ps) = {e \<in> set ps. fst e \<noteq> x}"
  by (simp add: map_remove_def)

lemma udp_inv_datagram: "udp_inv s \<Longrightarrow> udp_inv (s\<lparr>ut_datagrams := ut_datagrams s @ [d]\<rparr>)"
  unfolding udp_inv_def answer_for_def by (intro conjI) auto

lemma udp_inv_deliver:
  assumes "udp_inv s" "ut_reader s = ReaderLoop" "d \<in> set (ut_datagrams s)" "rpc_message_decode d = Inr m"
  shows "map_of (ut_pending s) (msg_xid m) = Some t \<Longrightarrow>
      udp_inv (s\<lparr>ut_pending := map_remove (msg_xid m) (ut_pending s), ut_reader := ReaderSend t m\<rparr>)"
    and "map_of (ut_pending s) (msg_xid m) = None \<Longrightarrow> udp_inv (s\<lparr>ut_pending := map_remove (msg_xid m) (ut_pending s)\<rparr>)"
proof -
  note inv = assms(1) [unfolded udp_inv_def]
  assume "map_of (ut_pending s) (msg_xid m) = Some t"
  then have t: "(msg_xid m, t) \<in> set (ut_pending s)" by (rule map_of_SomeD)
  then have ans: "answer_for (ut_datagrams s) (ut_calls s t) m" "ut_calls s t \<noteq> UcIdle"
    using inv assms(3,4) by (auto simp: answer_for_def)
  from inv have entry: "(x, u) \<in> set (ut_pending s) \<Longrightarrow> map_option msg_xid (call_request_of (ut_calls s u)) = Some x" for x u
    by blast
  from entry [OF t] entry [of _ t] have own: "(x, t) \<in> set (ut_pending s) \<Longrightarrow> x = msg_xid m" for x by simp
  from inv have "distinct (map fst (ut_pending s))" by blast
  from eq_key_imp_eq_value [OF this _ t] have key: "(msg_xid m, u) \<in> set (ut_pending s) \<Longrightarrow> u = t" for u .
  let ?s = "s\<lparr>ut_pending := map_remove (msg_xid m) (ut_pending s), ut_reader := ReaderSend t m\<rparr>"
  have sel: "ut_pending ?s = map_remove (msg_xid m) (ut_pending s)" "held (ut_reader ?s) = {t}" "ut_channel ?s = ut_channel s"
    "ut_calls ?s = ut_calls s" "ut_datagrams ?s = ut_datagrams s" by simp_all
  show "udp_inv ?s"
    unfolding udp_inv_def sel
  proof (intro conjI, goal_cases)
    case 1
    show ?case using inv by (simp add: map_remove_def distinct_map_filter)
  next
    case 2
    show ?case using inv own by (auto simp: set_map_remove)
  next
    case 3
    have "u \<in> snd ` set (map_remove (msg_xid m) (ut_pending s)) \<or> u \<in> {t}" if "u \<in> snd ` set (ut_pending s)" for u
      using that key by (force simp: set_map_remove)
    with inv assms(2) show ?case by simp
  next
    case 4
    show ?case using ans by simp
  next
    case 5
    show ?case using inv by blast
  next
    case 6
    show ?case using inv by blast
  next
    case 7
    show ?case using inv ans by auto
  qed
next
  assume "map_of (ut_pending s) (msg_xid m) = None"
  then have "map_remove (msg_xid m) (ut_pending s) = ut_pending s"
    by (force simp: map_remove_def map_of_eq_None_iff filter_id_conv)
  with assms(1) show "udp_inv (s\<lparr>ut_pending := map_remove (msg_xid m) (ut_pending s)\<rparr>)" by simp
qed

lemma udp_inv_fail:
  assumes "udp_inv s" "ut_reader s = ReaderLoop"
  shows "udp_inv (fail_pending e s)"
  using assms unfolding udp_inv_def fail_pending_def by (intro conjI) (auto simp: image_iff)

lemma udp_inv_reader_loop:
  assumes "udp_inv s" "ut_reader s = ReaderLoop" "udp_reader_loop event s = (r, s')"
  shows "udp_inv s'" "r \<noteq> None \<Longrightarrow> ut_reader s' = ReaderLoop"
proof -
  have "udp_inv s' \<and> (r \<noteq> None \<longrightarrow> ut_reader s' = ReaderLoop)"
  proof (cases event)
    case (RecvBytes d)
    let ?d = "take 65536 d" and ?s = "s\<lparr>ut_datagrams := ut_datagrams s @ [take 65536 d]\<rparr>"
    have inv: "udp_inv ?s" by (rule udp_inv_datagram [OF assms(1)])
    show ?thesis
    proof (cases "rpc_message_decode ?d")
      case (Inl e)
      with assms RecvBytes inv show ?thesis
        by (auto simp: udp_reader_loop_def decode_rpc_message_datagram_def Let_def split: if_splits)
    next
      case (Inr m)
      with inv assms(2) have deliver:
        "map_of (ut_pending s) (msg_xid m) = Some t \<Longrightarrow>
           udp_inv (?s\<lparr>ut_pending := map_remove (msg_xid m) (ut_pending s), ut_reader := ReaderSend t m\<rparr>)"
        "map_of (ut_pending s) (msg_xid m) = None \<Longrightarrow> udp_inv (?s\<lparr>ut_pending := map_remove (msg_xid m) (ut_pending s)\<rparr>)" for t
        using udp_inv_deliver [of ?s ?d m] by simp_all
      with assms RecvBytes Inr inv show ?thesis
        by (auto simp: udp_reader_loop_def decode_rpc_message_datagram_def Let_def split: if_splits option.splits)
    qed
  qed (use assms in \<open>auto simp: udp_reader_loop_def\<close>)
  then show "udp_inv s'" "r \<noteq> None \<Longrightarrow> ut_reader s' = ReaderLoop" by auto
qed

lemma udp_inv_sent:
  assumes "udp_inv s" "t \<in> held (ut_reader s)" "held (ut_reader s) \<subseteq> insert t (held rd)" "held rd \<subseteq> held (ut_reader s)"
    and "\<And>m. v = Inr m \<Longrightarrow> ut_reader s = ReaderSend t m" "\<And>u m. rd \<noteq> ReaderSend u m"
  shows "udp_inv (s\<lparr>ut_channel := (ut_channel s)(t := ChanSent v), ut_reader := rd\<rparr>)"
proof -
  note inv = assms(1) [unfolded udp_inv_def]
  have not_t: "(x, t) \<notin> set (ut_pending s)" for x using inv assms(2) by auto
  show ?thesis
    unfolding udp_inv_def
  proof (intro conjI, goal_cases)
    case 2
    show ?case using inv not_t assms(4) by auto
  next
    case 3
    show ?case using inv assms(3) by auto
  next
    case 5
    show ?case using inv assms(5) by auto
  next
    case 7
    show ?case using inv assms(2,4) by auto
  qed (use inv assms(6) in auto)
qed

lemma udp_inv_reader:
  assumes "udp_inv s"
  shows "udp_inv (udp_reader_task event s)"
proof (cases "ut_reader s")
  case ReaderLoop
  obtain r s' where rs: "udp_reader_loop event s = (r, s')" by fastforce
  note inv = udp_inv_reader_loop [OF assms ReaderLoop rs]
  have "udp_inv (s'\<lparr>ut_reader := ReaderDone\<rparr>)" if "ut_reader s' = ReaderLoop"
    using inv(1) that unfolding udp_inv_def by (intro conjI) auto
  with inv ReaderLoop rs udp_inv_fail show ?thesis
    by (auto simp: udp_reader_task_def split: option.splits sum.splits)
next
  case (ReaderSend t m)
  with assms show ?thesis by (auto simp: udp_reader_task_def intro!: udp_inv_sent)
next
  case (ReaderFail e ts)
  show ?thesis
  proof (cases ts)
    case Nil
    with assms ReaderFail show ?thesis
      unfolding udp_inv_def by (intro conjI) (auto simp: udp_reader_task_def)
  next
    case (Cons t us)
    with assms ReaderFail show ?thesis by (auto simp: udp_reader_task_def intro!: udp_inv_sent)
  qed
qed (use assms in \<open>simp add: udp_reader_task_def\<close>)

lemma udp_inv_step: "udp_client_step s s' \<Longrightarrow> udp_inv s \<Longrightarrow> udp_inv s'"
  by (induction rule: udp_client_step.induct) (auto intro: udp_inv_start udp_inv_poll udp_inv_drop udp_inv_reader)

lemma udp_inv_steps:
  "udp_client_step\<^sup>*\<^sup>* (from_socket_with_timeouts call_timeout write_timeout) s \<Longrightarrow> udp_inv s"
  by (induction rule: rtranclp_induct) (auto intro: udp_inv_new udp_inv_step)

section \<open>A stopped reader\<close>

lemma finish_keeps:
  "u \<noteq> t \<Longrightarrow> ut_calls (udp_finish t request c s) u = ut_calls s u" "ut_reader (udp_finish t request c s) = ut_reader s"
  "ut_channel (udp_finish t request c s) = ut_channel s" "ut_calls (udp_finish t request c s) t = c"
  by (simp_all add: udp_finish_def)

text \<open>Once the reader task has ended nothing is put into a channel any more.\<close>

definition orphaned :: "nat \<Rightarrow> udp_transport \<Rightarrow> bool" where
  "orphaned t s \<longleftrightarrow> ut_reader s = ReaderDone \<and> ut_channel s t = ChanOpen \<and> (\<forall>r m. ut_calls s t \<noteq> UcReturned r (Inr m))"

lemma orphaned_await: "orphaned t s \<Longrightarrow> orphaned t (udp_await_reply u request options elapsed s)"
  by (cases "u = t") (auto simp: orphaned_def udp_await_reply_def finish_keeps split: oneshot.splits option.splits)

lemma orphaned_finish: "orphaned t s \<Longrightarrow> (\<And>r m. c \<noteq> UcReturned r (Inr m)) \<Longrightarrow> orphaned t (udp_finish u request c s)"
  by (cases "u = t") (auto simp: orphaned_def finish_keeps)

lemma orphaned_step: "udp_client_step s s' \<Longrightarrow> orphaned t s \<Longrightarrow> orphaned t s'"
proof (induction rule: udp_client_step.induct)
  case (start s u flags request options)
  then show ?case
    by (cases "u = t") (auto simp: udp_call_start_def Let_def orphaned_def split: sum.splits)
next
  case (poll s flags u sent elapsed)
  then show ?case
    by (auto simp: udp_call_poll_def orphaned_await orphaned_finish split: udp_call.splits option.splits sum.splits)
next
  case (abandon s u)
  then show ?case by (auto simp: udp_call_drop_def orphaned_finish split: udp_call.splits)
next
  case (reader s event)
  then show ?case by (simp add: udp_reader_task_def orphaned_def)
qed

lemma orphaned_steps: "udp_client_step\<^sup>*\<^sup>* s s' \<Longrightarrow> orphaned t s \<Longrightarrow> orphaned t s'"
  by (induction rule: rtranclp_induct) (auto intro: orphaned_step)

text \<open>A waiting call without deadline or cancellation, polled after the reader has ended.\<close>

lemma orphaned_waits:
  assumes "orphaned t s" "ut_calls s t = UcWaiting request options" "co_cancellation options = None"
    and "effective_timeout options (ut_default_call_timeout s) = None"
  shows "udp_call_poll flags t sent elapsed s = s"
  using assms by (simp add: udp_call_poll_def orphaned_def udp_await_reply_def fun_upd_idem)

text \<open>Sample runs: a call that is answered, and a reader that fails before a call starts.\<close>

abbreviation fresh_udp :: udp_transport where
  "fresh_udp \<equiv> from_socket_with_timeouts None None"

definition answered_run :: udp_transport where
  "answered_run = udp_call_poll (\<lambda>_. False) 0 (SendReady (Inr ())) False (udp_reader_task (RecvBytes [])
     (udp_reader_task (RecvBytes (message_wire null_reply)) (udp_call_start (\<lambda>_. False) 0 null_call call_options_new fresh_udp)))"

definition failed_reader :: udp_transport where
  "failed_reader = udp_reader_task (RecvBytes []) (udp_reader_task (RecvError (OtherKind ''refused'')) fresh_udp)"

definition orphan_run :: udp_transport where
  "orphan_run = udp_call_poll (\<lambda>_. False) 0 (SendReady (Inr ())) False (udp_call_start (\<lambda>_. False) 0 null_call call_options_new failed_reader)"

lemmas udp_run_simps = udp_call_poll_def udp_reader_task_def udp_call_start_def udp_reader_loop_def fail_pending_def
  from_socket_with_timeouts_def call_options_new_def encode_rpc_message_datagram_def decode_rpc_message_datagram_def
  send_udp_request_def udp_await_reply_def udp_finish_def effective_timeout_def null_encodes null_reply_decodes null_length

lemma answered_run_calls: "ut_calls answered_run 0 = UcReturned null_call (Inr null_reply)"
proof -
  have "take 65536 (message_wire null_reply) = message_wire null_reply" "message_wire null_reply \<noteq> []"
    using null_length by (simp_all flip: length_0_conv)
  moreover have "msg_xid null_reply = msg_xid null_call" by (simp add: null_call_def null_reply_def)
  ultimately show ?thesis by (simp add: answered_run_def udp_run_simps Let_def)
qed

lemma failed_reader_state: "ut_reader failed_reader = ReaderDone" "ut_calls failed_reader 0 = UcIdle"
  by (simp_all add: failed_reader_def udp_run_simps)

lemma orphan_run_calls: "ut_calls orphan_run 0 = UcWaiting null_call call_options_new" "ut_default_call_timeout orphan_run = None"
  by (simp_all add: orphan_run_def failed_reader_def udp_run_simps Let_def)

lemma udp_extend:
  "udp_client_step\<^sup>*\<^sup>* a s \<Longrightarrow> udp_client_step\<^sup>*\<^sup>* a (udp_reader_task event s)"
  "udp_client_step\<^sup>*\<^sup>* a s \<Longrightarrow> udp_client_step\<^sup>*\<^sup>* a (udp_call_poll flags t sent elapsed s)"
  "udp_client_step\<^sup>*\<^sup>* a s \<Longrightarrow> ut_calls s t = UcIdle \<Longrightarrow> udp_client_step\<^sup>*\<^sup>* a (udp_call_start flags t request options s)"
  by (erule rtranclp.rtrancl_into_rtrancl, rule udp_client_step.intros, assumption?)+

lemma udp_runs:
  "udp_client_step\<^sup>*\<^sup>* fresh_udp answered_run" "udp_client_step\<^sup>*\<^sup>* fresh_udp failed_reader" "udp_client_step\<^sup>*\<^sup>* failed_reader orphan_run"
  unfolding answered_run_def failed_reader_def orphan_run_def
  by (intro udp_extend rtranclp.rtrancl_refl; simp add: udp_run_simps)+

section \<open>Properties\<close>

text \<open>
  C17. Under every interleaving of calls, cancellations, timeouts, dropped futures and
  datagrams, a call that returns a message returns one that carries its own transaction
  identifier and that arrived in a datagram of this socket.
\<close>
theorem udp_reply_matches:
  assumes "udp_client_step\<^sup>*\<^sup>* (from_socket_with_timeouts call_timeout write_timeout) s"
    and "ut_calls s t = UcReturned request (Inr m)"
  shows "msg_xid m = msg_xid request \<and> (\<exists>d\<in>set (ut_datagrams s). decode_rpc_message_datagram d = Inr m)"
proof -
  have "answer_for (ut_datagrams s) (ut_calls s t) m"
    using udp_inv_steps [OF assms(1)] assms(2) unfolding udp_inv_def by blast
  with assms(2) show ?thesis by (auto simp: answer_for_def decode_rpc_message_datagram_def intro!: bexI)
qed

theorem udp_reply_matches_witness:
  "msg_xid null_reply = msg_xid null_call \<and> (\<exists>d\<in>set (ut_datagrams answered_run). decode_rpc_message_datagram d = Inr null_reply)"
  using udp_reply_matches [OF udp_runs(1) answered_run_calls] .

text \<open>
  C18. The map of pending calls neither leaks nor loses a call: its entries are calls still in
  flight, each under its own identifier and none twice, and a call in flight that has not
  been sent its answer is in the map or about to be answered by the reader. When no call is
  in flight the map is empty.
\<close>
theorem udp_pending_exact:
  assumes "udp_client_step\<^sup>*\<^sup>* (from_socket_with_timeouts call_timeout write_timeout) s"
  shows "distinct (map fst (ut_pending s)) \<and>
    (\<forall>(x, t) \<in> set (ut_pending s). in_flight (ut_calls s t) \<and> map_option msg_xid (call_request_of (ut_calls s t)) = Some x) \<and>
    (\<forall>t. in_flight (ut_calls s t) \<and> ut_channel s t = ChanOpen \<longrightarrow> t \<in> snd ` set (ut_pending s) \<or> t \<in> held (ut_reader s)) \<and>
    ((\<forall>t. \<not> in_flight (ut_calls s t)) \<longrightarrow> ut_pending s = [])"
proof -
  note inv = udp_inv_steps [OF assms, unfolded udp_inv_def]
  then have entries: "\<forall>(x, t) \<in> set (ut_pending s). in_flight (ut_calls s t) \<and> map_option msg_xid (call_request_of (ut_calls s t)) = Some x"
    by blast
  then have "(\<forall>t. \<not> in_flight (ut_calls s t)) \<longrightarrow> ut_pending s = []" by (cases "ut_pending s") auto
  with inv entries show ?thesis by blast
qed

theorem udp_pending_exact_witness: "ut_pending answered_run = []"
proof -
  have "\<not> in_flight (ut_calls answered_run t)" for t
    by (cases "t = 0") (simp_all add: answered_run_calls, simp add: answered_run_def udp_run_simps Let_def split: option.splits)
  with udp_pending_exact [OF udp_runs(1)] show ?thesis by blast
qed



end
