(* ===== verification/Text_Base.thy ===== *)
theory Text_Base
  imports Onc_Prelude
begin

text \<open>
  Text as the generator and the address formats read and write it: character classes, digits in a
  radix, decimal numbers and separators, after the standard library's \<^verbatim>\<open>char\<close> and \<^verbatim>\<open>fmt\<close>.
\<close>

section \<open>Characters and digits\<close>

definition in_range :: "nat \<Rightarrow> nat \<Rightarrow> char \<Rightarrow> bool" where
  "in_range lo hi c \<longleftrightarrow> lo \<le> of_char c \<and> of_char c \<le> hi"

definition is_ascii_digit :: "char \<Rightarrow> bool" where
  "is_ascii_digit c \<longleftrightarrow> in_range 48 57 c"

definition is_ascii_alphabetic :: "char \<Rightarrow> bool" where
  "is_ascii_alphabetic c \<longleftrightarrow> in_range 65 90 c \<or> in_range 97 122 c"

text \<open>\<^verbatim>\<open>char::to_digit\<close>, and the value of a run of digits.\<close>

definition to_digit :: "nat \<Rightarrow> char \<Rightarrow> nat option" where
  "to_digit radix c =
     (let d = (if is_ascii_digit c then of_char c - 48
               else if in_range 97 122 c then of_char c - 87
               else if in_range 65 90 c then of_char c - 55 else radix)
      in if d < radix then Some d else None)"

fun digits_value :: "nat \<Rightarrow> nat \<Rightarrow> string \<Rightarrow> nat option" where
  "digits_value radix acc [] = Some acc"
| "digits_value radix acc (c # cs) = (case to_digit radix c of
       Some d \<Rightarrow> digits_value radix (acc * radix + d) cs
     | None \<Rightarrow> None)"

text \<open>The pieces of a list with a separator between them, as the loops with an index test write them.\<close>

fun join_with :: "string \<Rightarrow> string list \<Rightarrow> string" where
  "join_with sep [] = ''''"
| "join_with sep [x] = x"
| "join_with sep (x # xs) = x @ sep @ join_with sep xs"

section \<open>Decimal numbers\<close>

lemma digit_char_simps:
  assumes "d < 10"
  shows "is_ascii_digit (digit_char d)" "to_digit 10 (digit_char d) = Some d" "digit_char d = CHR ''0'' \<longleftrightarrow> d = 0"
    "digit_char d \<noteq> CHR ''-''" "digit_char d \<noteq> CHR ''+''"
proof -
  have oc: "of_char (digit_char d) = 48 + d" using assms by (simp add: digit_char_def)
  then show dig: "is_ascii_digit (digit_char d)" using assms by (simp add: is_ascii_digit_def in_range_def)
  then show "to_digit 10 (digit_char d) = Some d" using assms oc by (simp add: to_digit_def)
  show "digit_char d = CHR ''0'' \<longleftrightarrow> d = 0" using oc by (simp flip: of_char_eq_iff [where ?'a = nat])
  show "digit_char d \<noteq> CHR ''-''" "digit_char d \<noteq> CHR ''+''" using oc by auto
qed

lemma digits_value_append: "digits_value r a (xs @ ys) = Option.bind (digits_value r a xs) (\<lambda>b. digits_value r b ys)"
  by (induction xs arbitrary: a) (auto split: option.splits)

lemma digits_value_show: "digits_value 10 0 (show_nat n) = Some n"
proof (induction n rule: show_nat.induct)
  case (1 n)
  show ?case
    by (subst show_nat.simps) (use 1 in \<open>simp add: digits_value_append digit_char_simps\<close>)
qed

lemma show_nat_digits: "show_nat n \<noteq> [] \<and> list_all is_ascii_digit (show_nat n) \<and> (hd (show_nat n) = CHR ''0'' \<longrightarrow> length (show_nat n) = 1)"
proof (induction n rule: show_nat.induct)
  case (1 n)
  show ?case
  proof (cases "n < 10")
    case True
    then show ?thesis by (simp add: show_nat.simps [of n] show_nat.simps [of 0] digit_char_simps)
  next
    case False
    have "show_nat (n div 10) = [CHR ''0''] \<Longrightarrow> n div 10 = 0"
      using digits_value_show [of "n div 10"] by (simp add: to_digit_def is_ascii_digit_def in_range_def)
    with False 1 show ?thesis
      by (cases "show_nat (n div 10)") (auto simp: show_nat.simps [of n] digit_char_simps)
  qed
qed

end
