(* ===== verification/X_Ast.thy ===== *)
theory X_Ast
  imports Text_Base
begin

text \<open>
  The module \<^verbatim>\<open>src/crates/onc-rpc-gen/src/ast.rs\<close>: the syntax tree of an XDR source and its textual
  snapshot. An \<^verbatim>\<open>i64\<close> is an \<open>int\<close>; its range is checked where a literal is read. A Rust string is
  the list of its characters.
\<close>

section \<open>Syntax\<close>

datatype value_expr = ValueNumber int | ValueIdentifier string

datatype declarator_modifier =
    FixedArray value_expr
  | VariableArray "value_expr option"
  | OptionalMod

datatype declarator = Declarator (dr_name: string) (dr_modifier: "declarator_modifier option")

datatype enum_variant = EnumVariant (ev_name: string) (ev_value: value_expr)

datatype union_case_label = CaseLabel value_expr | DefaultLabel

datatype type_spec =
    TsVoid
  | TsBool
  | TsInt
  | TsUnsignedInt
  | TsHyper
  | TsUnsignedHyper
  | TsFloat
  | TsDouble
  | TsQuadruple
  | TsOpaque
  | TsString
  | TsIdentifier string
  | TsEnum "enum_variant list"
  | TsStruct "xdr_declaration list"
  | TsUnion xdr_declaration "union_arm list"
and xdr_declaration = Declaration (dn_type_spec: type_spec) (dn_declarator: declarator)
and union_arm = UnionArm (ua_labels: "union_case_label list") (ua_declaration: xdr_declaration)

datatype procedure_decl =
  ProcedureDecl (pd_return_type: type_spec) (pd_name: string) (pd_argument_type: type_spec) (pd_number: nat)

datatype version_decl = VersionDecl (vd_name: string) (vd_procedures: "procedure_decl list") (vd_number: nat)

datatype program_decl = ProgramDecl (pg_name: string) (pg_versions: "version_decl list") (pg_number: nat)

datatype item =
    ItemConst string value_expr
  | ItemTypedef type_spec declarator
  | ItemStruct string "xdr_declaration list"
  | ItemEnum string "enum_variant list"
  | ItemUnion string xdr_declaration "union_arm list"
  | ItemProgram program_decl

type_synonym schema = "item list"

section \<open>Rendering\<close>

definition show_int :: "int \<Rightarrow> string" where
  "show_int n = (if n < 0 then CHR ''-'' # show_nat (nat (- n)) else show_nat (nat n))"

fun render_value :: "value_expr \<Rightarrow> string" where
  "render_value (ValueNumber n) = show_int n"
| "render_value (ValueIdentifier name) = name"

fun render_declarator :: "declarator \<Rightarrow> string" where
  "render_declarator (Declarator name modifier) =
     (if modifier = Some OptionalMod then ''*'' else '''') @ name @
     (case modifier of
        Some (FixedArray bound) \<Rightarrow> ''['' @ render_value bound @ '']''
      | Some (VariableArray (Some bound)) \<Rightarrow> ''<'' @ render_value bound @ ''>''
      | Some (VariableArray None) \<Rightarrow> ''<>''
      | Some OptionalMod \<Rightarrow> ''''
      | None \<Rightarrow> '''')"

fun render_variant :: "enum_variant \<Rightarrow> string" where
  "render_variant (EnumVariant name value) = name @ '' = '' @ render_value value"

definition render_inline_enum :: "enum_variant list \<Rightarrow> string" where
  "render_inline_enum variants = ''enum { '' @ join_with '', '' (map render_variant variants) @ '' }''"

fun render_label :: "union_case_label \<Rightarrow> string" where
  "render_label (CaseLabel value) = ''case '' @ render_value value @ '': ''"
| "render_label DefaultLabel = ''default: ''"

fun render_type_spec :: "type_spec \<Rightarrow> string"
  and render_inline_declaration :: "xdr_declaration \<Rightarrow> string"
  and render_inline_arm :: "union_arm \<Rightarrow> string" where
  "render_type_spec TsVoid = ''void''"
| "render_type_spec TsBool = ''bool''"
| "render_type_spec TsInt = ''int''"
| "render_type_spec TsUnsignedInt = ''unsigned int''"
| "render_type_spec TsHyper = ''hyper''"
| "render_type_spec TsUnsignedHyper = ''unsigned hyper''"
| "render_type_spec TsFloat = ''float''"
| "render_type_spec TsDouble = ''double''"
| "render_type_spec TsQuadruple = ''quadruple''"
| "render_type_spec TsOpaque = ''opaque''"
| "render_type_spec TsString = ''string''"
| "render_type_spec (TsIdentifier name) = name"
| "render_type_spec (TsEnum variants) = render_inline_enum variants"
| "render_type_spec (TsStruct declarations) =
     ''struct { '' @ join_with ''; '' (map render_inline_declaration declarations) @
     (if declarations = [] then '''' else '';'') @ '' }''"
| "render_type_spec (TsUnion discriminant arms) =
     ''union switch ('' @ render_inline_declaration discriminant @ '') { '' @
     join_with '' '' (map render_inline_arm arms) @ ''}''"
| "render_inline_declaration (Declaration type_spec declarator) = render_type_spec type_spec @ '' '' @ render_declarator declarator"
| "render_inline_arm (UnionArm labels declaration) =
     concat (map render_label labels) @ render_inline_declaration declaration @ ''; ''"

section \<open>The snapshot\<close>

definition writeln_indented :: "nat \<Rightarrow> string \<Rightarrow> string" where
  "writeln_indented indent line = replicate indent (CHR '' '') @ line @ [CHR 0x0A]"

definition render_struct_body :: "xdr_declaration list \<Rightarrow> nat \<Rightarrow> string" where
  "render_struct_body declarations indent = concat (map (\<lambda>d. writeln_indented indent (render_inline_declaration d)) declarations)"

definition render_enum_body :: "enum_variant list \<Rightarrow> nat \<Rightarrow> string" where
  "render_enum_body variants indent = concat (map (\<lambda>v. writeln_indented indent (render_variant v)) variants)"

fun render_body_label :: "nat \<Rightarrow> union_case_label \<Rightarrow> string" where
  "render_body_label indent (CaseLabel value) = writeln_indented indent (''case '' @ render_value value)"
| "render_body_label indent DefaultLabel = writeln_indented indent ''default''"

definition render_union_body :: "xdr_declaration \<Rightarrow> union_arm list \<Rightarrow> nat \<Rightarrow> string" where
  "render_union_body discriminant arms indent =
     writeln_indented indent (''switch '' @ render_inline_declaration discriminant) @
     concat (map (\<lambda>arm. concat (map (render_body_label (indent + 2)) (ua_labels arm)) @
       writeln_indented (indent + 4) (render_inline_declaration (ua_declaration arm))) arms)"

fun render_procedure :: "procedure_decl \<Rightarrow> string" where
  "render_procedure (ProcedureDecl return_type name argument_type number) =
     writeln_indented 4 (render_type_spec return_type @ '' '' @ name @ ''('' @ render_type_spec argument_type @ '') = '' @ show_nat number)"

fun render_version :: "version_decl \<Rightarrow> string" where
  "render_version (VersionDecl name procedures number) =
     writeln_indented 2 (''version '' @ name @ '' = '' @ show_nat number) @ concat (map render_procedure procedures)"

fun render_item :: "item \<Rightarrow> string" where
  "render_item (ItemConst name value) = writeln_indented 0 (''const '' @ name @ '' = '' @ render_value value)"
| "render_item (ItemTypedef target declarator) =
     writeln_indented 0 (''typedef '' @ render_type_spec target @ '' '' @ render_declarator declarator)"
| "render_item (ItemStruct name declarations) = writeln_indented 0 (''struct '' @ name) @ render_struct_body declarations 2"
| "render_item (ItemEnum name variants) = writeln_indented 0 (''enum '' @ name) @ render_enum_body variants 2"
| "render_item (ItemUnion name discriminant arms) = writeln_indented 0 (''union '' @ name) @ render_union_body discriminant arms 2"
| "render_item (ItemProgram program) =
     writeln_indented 0 (''program '' @ pg_name program @ '' = '' @ show_nat (pg_number program)) @
     concat (map render_version (pg_versions program))"

definition render_snapshot :: "schema \<Rightarrow> string" where
  "render_snapshot items = concat (map render_item items)"

end
