(* ===== verification/X_Parser.thy ===== *)
theory X_Parser
  imports X_Ast Rpc_Wire
begin

text \<open>
  The module \<^verbatim>\<open>src/crates/onc-rpc-gen/src/parser.rs\<close>: comments, lines, tokens and the recursive
  descent parser. The input is the list of its UTF-8 bytes as characters; the code copies
  every byte outside a comment as one character, so that the cleaned text is a list of
  characters below 256, which is the type \<open>char\<close>.

  The parser's state is the list of tokens from its index on. An index out of bounds, which
  would panic, is the error \<open>IndexPanic\<close>; the other errors are the code's messages, with
  what they are about.
\<close>

section \<open>Tokens\<close>

datatype keyword =
    KwBool | KwCase | KwConst | KwDefault | KwDouble | KwEnum | KwFloat | KwHyper | KwInt | KwOpaque
  | KwProgram | KwQuadruple | KwString | KwStruct | KwSwitch | KwTypedef | KwUnion | KwUnsigned | KwVersion | KwVoid

datatype token =
    TKeyword keyword
  | TIdentifier string
  | TNumber int
  | TSymbol char
  | TEof

datatype parse_error =
    UnterminatedComment
  | UnsupportedCharacter char
  | InvalidInteger string
  | UnexpectedTopLevel token
  | ExpectedIntOrHyper token
  | UnsupportedTypeKeyword keyword
  | UnexpectedTypeToken token
  | UnexpectedValueToken token
  | ExpectedKeyword keyword token
  | ExpectedIdentifier token
  | ExpectedSymbol char token
  | ExpectedU32 token
  | ExpectedLabel
  | IndexPanic

section \<open>Comments and lines\<close>

text \<open>Inside a comment: skip to behind its end; the last byte alone cannot close it.\<close>

fun skip_comment :: "string \<Rightarrow> string option" where
  "skip_comment (a # b # cs) = (if a = CHR ''*'' \<and> b = CHR ''/'' then Some cs else skip_comment (b # cs))"
| "skip_comment _ = None"

lemma skip_comment_length: "skip_comment cs = Some ds \<Longrightarrow> length ds < length cs"
  by (induction cs rule: skip_comment.induct) (auto split: if_splits)

function strip_block_comments :: "string \<Rightarrow> parse_error + string" where
  "strip_block_comments [] = Inr []"
| "strip_block_comments (a # cs) =
     (case cs of
        b # ds \<Rightarrow>
          if a = CHR ''/'' \<and> b = CHR ''*'' then
            (case skip_comment ds of
               Some rest \<Rightarrow> strip_block_comments rest
             | None \<Rightarrow> Inl UnterminatedComment)
          else result_bind (strip_block_comments cs) (\<lambda>out. Inr (a # out))
      | [] \<Rightarrow> result_bind (strip_block_comments cs) (\<lambda>out. Inr (a # out)))"
  by pat_completeness auto
termination
  by (relation "measure length") (auto dest: skip_comment_length)

declare strip_block_comments.simps(2) [simp del]

text \<open>\<^verbatim>\<open>char::is_whitespace\<close> below 256, and \<^verbatim>\<open>str::lines\<close>.\<close>

definition is_whitespace :: "char \<Rightarrow> bool" where
  "is_whitespace c \<longleftrightarrow> c \<in> {CHR 0x09, CHR 0x0A, CHR 0x0B, CHR 0x0C, CHR 0x0D, CHR '' '', CHR 0x85, CHR 0xA0}"

function str_lines :: "string \<Rightarrow> string list" where
  "str_lines s =
     (if s = [] then []
      else let line = takeWhile (\<lambda>c. c \<noteq> CHR 0x0A) s; rest = dropWhile (\<lambda>c. c \<noteq> CHR 0x0A) s
           in case rest of
                [] \<Rightarrow> [line]
              | _ # rest' \<Rightarrow> (if line \<noteq> [] \<and> last line = CHR 0x0D then butlast line else line) # str_lines rest')"
  by pat_completeness auto
termination
proof (relation "measure length", goal_cases)
  case (2 s line rest c rest')
  from 2(4) have "Suc (length rest') = length (dropWhile (\<lambda>c. c \<noteq> CHR 0x0A) s)"
    by (metis 2(3) length_Cons)
  with length_dropWhile_le [of "\<lambda>c. c \<noteq> CHR 0x0A" s] show ?case by simp
qed simp

declare str_lines.simps [simp del]

definition strip_unsupported_lines :: "string \<Rightarrow> string" where
  "strip_unsupported_lines input =
     join_with [CHR 0x0A] (filter (\<lambda>line. \<not> (case dropWhile is_whitespace line of c # _ \<Rightarrow> c = CHR ''%'' | [] \<Rightarrow> False)) (str_lines input))"

section \<open>Literals and words\<close>

definition is_word_char :: "char \<Rightarrow> bool" where
  "is_word_char c \<longleftrightarrow> is_ascii_alphabetic c \<or> is_ascii_digit c \<or> c = CHR ''_''"

text \<open>\<^verbatim>\<open>i64::from_str_radix\<close>: an optional sign, at least one digit, and a value in range.\<close>

definition i64_from_str_radix :: "string \<Rightarrow> nat \<Rightarrow> int option" where
  "i64_from_str_radix src radix =
     (let (negative, digits) = (case src of
            c # cs \<Rightarrow> if c = CHR ''-'' then (True, cs) else if c = CHR ''+'' then (False, cs) else (False, src)
          | [] \<Rightarrow> (False, src))
      in if digits = [] then None
         else case digits_value radix 0 digits of
             None \<Rightarrow> None
           | Some n \<Rightarrow>
               let value = (if negative then - int n else int n)
               in if - (2 ^ 63) \<le> value \<and> value < 2 ^ 63 then Some value else None)"

definition parse_number :: "string \<Rightarrow> parse_error + int" where
  "parse_number text =
     (let (negative, digits) = (case text of c # rest \<Rightarrow> if c = CHR ''-'' then (True, rest) else (False, text) | [] \<Rightarrow> (False, text));
          (radix, body) =
            (if take 2 digits = ''0x'' \<or> take 2 digits = ''0X'' then (16, drop 2 digits)
             else if length digits > 1 \<and> hd digits = CHR ''0'' then (8, drop 1 digits)
             else (10, digits))
      in case i64_from_str_radix body radix of
           None \<Rightarrow> Inl (InvalidInteger text)
         | Some value \<Rightarrow> Inr (if negative then - value else value))"

definition keyword_table :: "(string \<times> keyword) list" where
  "keyword_table =
     [(''bool'', KwBool), (''case'', KwCase), (''const'', KwConst), (''default'', KwDefault), (''double'', KwDouble),
      (''enum'', KwEnum), (''float'', KwFloat), (''hyper'', KwHyper), (''int'', KwInt), (''opaque'', KwOpaque),
      (''program'', KwProgram), (''quadruple'', KwQuadruple), (''string'', KwString), (''struct'', KwStruct),
      (''switch'', KwSwitch), (''typedef'', KwTypedef), (''union'', KwUnion), (''unsigned'', KwUnsigned),
      (''version'', KwVersion), (''void'', KwVoid)]"

definition keyword_of :: "string \<Rightarrow> keyword option" where
  "keyword_of text = map_of keyword_table text"

definition word_token :: "string \<Rightarrow> token" where
  "word_token ident = (case keyword_of ident of Some keyword \<Rightarrow> TKeyword keyword | None \<Rightarrow> TIdentifier ident)"

definition symbols :: string where
  "symbols = ''{}()<>[];,=:*''"

function tokenize :: "string \<Rightarrow> parse_error + token list" where
  "tokenize [] = Inr [TEof]"
| "tokenize (ch # cs) =
     (if is_whitespace ch then tokenize cs
      else if is_ascii_alphabetic ch \<or> ch = CHR ''_'' then
        result_bind (tokenize (dropWhile is_word_char cs)) (\<lambda>tokens.
        Inr (word_token (ch # takeWhile is_word_char cs) # tokens))
      else if is_ascii_digit ch \<or> ch = CHR ''-'' then
        result_bind (parse_number (ch # takeWhile is_word_char cs)) (\<lambda>n.
        result_bind (tokenize (dropWhile is_word_char cs)) (\<lambda>tokens.
        Inr (TNumber n # tokens)))
      else if ch \<in> set symbols then
        result_bind (tokenize cs) (\<lambda>tokens. Inr (TSymbol ch # tokens))
      else Inl (UnsupportedCharacter ch))"
  by pat_completeness auto
termination
  by (relation "measure length") (auto simp: le_imp_less_Suc length_dropWhile_le)

declare tokenize.simps(2) [simp del]

section \<open>Reading tokens\<close>

text \<open>A continuation is only entered with what its action returned.\<close>

lemma and_then_cong [fundef_cong]:
  "s = s' \<Longrightarrow> m s' = m' s' \<Longrightarrow> (\<And>x t. m' s' = (Inr x, t) \<Longrightarrow> f x t = f' x t) \<Longrightarrow> and_then m f s = and_then m' f' s'"
  by (simp add: and_then_def split: prod.split sum.split)

type_synonym 'a token_parser = "(token list, parse_error, 'a) action"

fun peek :: "token token_parser" where
  "peek (t # ts) = (Inr t, t # ts)"
| "peek [] = (Inl IndexPanic, [])"

fun peek_n :: "nat \<Rightarrow> token token_parser" where
  "peek_n offset ts = (if offset < length ts then (Inr (ts ! offset), ts) else (Inl IndexPanic, ts))"

fun next_token :: "token token_parser" where
  "next_token (t # ts) = (Inr t, ts)"
| "next_token [] = (Inl IndexPanic, [])"

definition expect_keyword :: "keyword \<Rightarrow> unit token_parser" where
  "expect_keyword keyword = and_then next_token (\<lambda>t. if t = TKeyword keyword then ok () else err (ExpectedKeyword keyword t))"

definition expect_identifier :: "string token_parser" where
  "expect_identifier = and_then next_token (\<lambda>t. case t of TIdentifier name \<Rightarrow> ok name | _ \<Rightarrow> err (ExpectedIdentifier t))"

definition expect_symbol :: "char \<Rightarrow> unit token_parser" where
  "expect_symbol symbol = and_then next_token (\<lambda>t. if t = TSymbol symbol then ok () else err (ExpectedSymbol symbol t))"

definition expect_u32 :: "nat token_parser" where
  "expect_u32 = and_then next_token (\<lambda>t. case t of
       TNumber value \<Rightarrow> if 0 \<le> value \<and> value \<le> int u32_max then ok (nat value) else err (ExpectedU32 t)
     | _ \<Rightarrow> err (ExpectedU32 t))"

definition consume_symbol :: "char \<Rightarrow> bool token_parser" where
  "consume_symbol symbol = and_then peek (\<lambda>t. if t = TSymbol symbol then and_then next_token (\<lambda>_. ok True) else ok False)"

definition parse_value_expr :: "value_expr token_parser" where
  "parse_value_expr = and_then next_token (\<lambda>t. case t of
       TNumber value \<Rightarrow> ok (ValueNumber value)
     | TIdentifier name \<Rightarrow> ok (ValueIdentifier name)
     | _ \<Rightarrow> err (UnexpectedValueToken t))"

definition parse_declarator :: "declarator token_parser" where
  "parse_declarator =
     and_then (consume_symbol (CHR ''*'')) (\<lambda>optional.
     and_then expect_identifier (\<lambda>name.
     and_then (consume_symbol (CHR ''['')) (\<lambda>fixed.
     if fixed then
       and_then parse_value_expr (\<lambda>bound.
       and_then (expect_symbol (CHR '']'')) (\<lambda>_.
       ok (Declarator name (Some (FixedArray bound)))))
     else
       and_then (consume_symbol (CHR ''<'')) (\<lambda>variable.
       if variable then
         and_then (consume_symbol (CHR ''>'')) (\<lambda>unbounded.
         if unbounded then ok (Declarator name (Some (VariableArray None)))
         else and_then parse_value_expr (\<lambda>bound.
              and_then (expect_symbol (CHR ''>'')) (\<lambda>_.
              ok (Declarator name (Some (VariableArray (Some bound)))))))
       else if optional then ok (Declarator name (Some OptionalMod))
       else ok (Declarator name None)))))"

section \<open>What the readers accept\<close>

named_theorems token_iffs

lemma next_token_Inr [token_iffs]: "next_token ts = (Inr t, ts') \<longleftrightarrow> ts = t # ts'"
  by (cases ts) auto

lemma peek_Inr [token_iffs]: "peek ts = (Inr t, ts') \<longleftrightarrow> ts' = ts \<and> (\<exists>us. ts = t # us)"
  by (cases ts) auto

lemma expect_keyword_Inr [token_iffs]: "expect_keyword k ts = (Inr u, ts') \<longleftrightarrow> ts = TKeyword k # ts'"
  by (cases ts) (auto simp: expect_keyword_def)

lemma expect_symbol_Inr [token_iffs]: "expect_symbol s ts = (Inr u, ts') \<longleftrightarrow> ts = TSymbol s # ts'"
  by (cases ts) (auto simp: expect_symbol_def)

lemma expect_identifier_Inr [token_iffs]: "expect_identifier ts = (Inr name, ts') \<longleftrightarrow> ts = TIdentifier name # ts'"
  by (cases ts) (auto simp: expect_identifier_def split: token.splits)

lemma expect_u32_Inr [token_iffs]: "expect_u32 ts = (Inr n, ts') \<longleftrightarrow> n \<le> u32_max \<and> ts = TNumber (int n) # ts'"
  by (cases ts) (auto simp: expect_u32_def split: token.splits if_splits)

lemma consume_symbol_Inr [token_iffs]:
  "consume_symbol s ts = (Inr b, ts') \<longleftrightarrow>
     (if b then ts = TSymbol s # ts' else ts' = ts \<and> (\<exists>t us. ts = t # us \<and> t \<noteq> TSymbol s))"
  by (cases ts) (auto simp: consume_symbol_def)

lemma parse_value_expr_Inr [token_iffs]:
  "parse_value_expr ts = (Inr v, ts') \<longleftrightarrow>
     ts = (case v of ValueNumber n \<Rightarrow> TNumber n | ValueIdentifier name \<Rightarrow> TIdentifier name) # ts'"
  by (cases ts) (auto simp: parse_value_expr_def split: token.splits value_expr.splits)

lemma parse_declarator_shorter: "parse_declarator ts = (Inr d, ts') \<Longrightarrow> length ts' < length ts"
  by (auto simp: parse_declarator_def and_then_Inr_iff token_iffs split: if_splits)

section \<open>Enumerations and labels\<close>

function parse_enum_variants :: "enum_variant list token_parser" where
  "parse_enum_variants ts =
     and_then (consume_symbol (CHR ''}'')) (\<lambda>closed ts.
     if closed then ok [] ts else
       and_then expect_identifier (\<lambda>name.
       and_then (expect_symbol (CHR ''='')) (\<lambda>_.
       and_then parse_value_expr (\<lambda>value.
       and_then (consume_symbol (CHR '','')) (\<lambda>_.
       and_then parse_enum_variants (\<lambda>variants.
       ok (EnumVariant name value # variants)))))) ts) ts"
  by pat_completeness auto
termination
  by (relation "measure length") (auto simp: token_iffs split: if_splits)

declare parse_enum_variants.simps [simp del]

definition parse_enum_body :: "enum_variant list token_parser" where
  "parse_enum_body = and_then (expect_symbol (CHR ''{'')) (\<lambda>_. parse_enum_variants)"

function parse_labels :: "union_case_label list token_parser" where
  "parse_labels ts =
     and_then peek (\<lambda>t ts.
     if t = TKeyword KwCase then
       and_then next_token (\<lambda>_.
       and_then parse_value_expr (\<lambda>value.
       and_then (expect_symbol (CHR '':'')) (\<lambda>_.
       and_then parse_labels (\<lambda>labels.
       ok (CaseLabel value # labels))))) ts
     else if t = TKeyword KwDefault then
       and_then next_token (\<lambda>_.
       and_then (expect_symbol (CHR '':'')) (\<lambda>_.
       and_then parse_labels (\<lambda>labels.
       ok (DefaultLabel # labels)))) ts
     else ok [] ts) ts"
  by pat_completeness auto
termination
  by (relation "measure length") (auto simp: token_iffs split: if_splits)

declare parse_labels.simps [simp del]

lemma parse_enum_variants_shorter: "parse_enum_variants ts = (Inr vs, ts') \<Longrightarrow> length ts' < length ts"
proof (induction "length ts" arbitrary: ts vs rule: less_induct)
  case less
  show ?case
    using less(2) [unfolded parse_enum_variants.simps [of ts]]
    by (auto simp: and_then_Inr_iff token_iffs split: if_splits dest!: less(1) [rotated])
qed

lemma parse_labels_shorter: "parse_labels ts = (Inr ls, ts') \<Longrightarrow> length ts' \<le> length ts \<and> (ls \<noteq> [] \<longrightarrow> length ts' < length ts)"
proof (induction "length ts" arbitrary: ts ls rule: less_induct)
  case less
  show ?case
    using less(2) [unfolded parse_labels.simps [of ts]]
    by (auto simp: and_then_Inr_iff token_iffs split: if_splits dest!: less(1) [rotated])
qed

section \<open>Types and declarations\<close>

text \<open>
  After \<^verbatim>\<open>enum\<close>, \<^verbatim>\<open>struct\<close> or \<^verbatim>\<open>union\<close> in a type position: an identifier that is not followed by the
  token that opens a body is consumed as the name of a type defined elsewhere.
\<close>

definition reference_name :: "token \<Rightarrow> string option token_parser" where
  "reference_name opening = and_then peek (\<lambda>t. case t of
       TIdentifier name \<Rightarrow> and_then (peek_n 1) (\<lambda>u.
         if u \<noteq> opening then and_then next_token (\<lambda>_. ok (Some name)) else ok None)
     | _ \<Rightarrow> ok None)"

definition parse_unsigned :: "type_spec token_parser" where
  "parse_unsigned = and_then next_token (\<lambda>t.
     if t = TKeyword KwInt then ok TsUnsignedInt
     else if t = TKeyword KwHyper then ok TsUnsignedHyper
     else err (ExpectedIntOrHyper t))"

fun keyword_type :: "keyword \<Rightarrow> type_spec option" where
  "keyword_type KwVoid = Some TsVoid"
| "keyword_type KwBool = Some TsBool"
| "keyword_type KwInt = Some TsInt"
| "keyword_type KwHyper = Some TsHyper"
| "keyword_type KwFloat = Some TsFloat"
| "keyword_type KwDouble = Some TsDouble"
| "keyword_type KwQuadruple = Some TsQuadruple"
| "keyword_type KwOpaque = Some TsOpaque"
| "keyword_type KwString = Some TsString"
| "keyword_type _ = None"

text \<open>What is left after a success is shorter, by \<open>k\<close> tokens at least.\<close>

definition uses :: "nat \<Rightarrow> 'a token_parser \<Rightarrow> token list \<Rightarrow> bool" where
  "uses k p ts \<longleftrightarrow> (\<forall>x ts'. p ts = (Inr x, ts') \<longrightarrow> length ts' + k \<le> length ts)"

lemma uses_and_then:
  "uses m p ts \<Longrightarrow> (\<And>x t. p ts = (Inr x, t) \<Longrightarrow> uses (k - m) (f x) t) \<Longrightarrow> uses k (and_then p f) ts"
  unfolding uses_def by (fastforce simp: and_then_Inr_iff)

lemma uses_ok: "uses 0 (ok x) ts"
  by (simp add: uses_def)

lemma uses_err: "uses k (err e) ts"
  by (simp add: uses_def)

lemma uses_0: "uses 1 p ts \<Longrightarrow> uses 0 p ts"
  by (force simp: uses_def)

lemma uses_if: "(b \<Longrightarrow> uses k p ts) \<Longrightarrow> (\<not> b \<Longrightarrow> uses k q ts) \<Longrightarrow> uses k (if b then p else q) ts"
  by simp

lemma uses_weaken: "uses k p ts \<Longrightarrow> j \<le> k \<Longrightarrow> uses j p ts"
  by (force simp: uses_def)

lemma uses_wrap: "uses 1 p ts \<Longrightarrow> uses 0 (and_then p (\<lambda>x. ok (f x))) ts"
  by (rule uses_and_then [OF uses_0]) (simp_all add: uses_ok)

lemma reference_name_Inr:
  "reference_name opening ts = (Inr r, ts') \<longleftrightarrow> (\<exists>t us. ts = t # us \<and>
     (case r of
        Some name \<Rightarrow> t = TIdentifier name \<and> ts' = us \<and> (\<exists>u vs. us = u # vs \<and> u \<noteq> opening)
      | None \<Rightarrow> ts' = ts \<and> (\<forall>name. t = TIdentifier name \<longrightarrow> (\<exists>vs. us = opening # vs))))"
  by (cases ts; cases "tl ts")
     (auto simp: reference_name_def and_then_Inr_iff token_iffs split: token.splits if_splits option.splits)

lemma uses_readers:
  "uses 1 next_token ts" "uses 0 peek ts" "uses 1 (expect_keyword kw) ts" "uses 1 (expect_symbol s) ts"
  by (auto simp: uses_def token_iffs)

lemma uses_declarator: "uses 1 parse_declarator ts"
  unfolding uses_def by (simp add: Suc_le_eq parse_declarator_shorter)

lemma uses_enum_body: "uses 1 parse_enum_body ts"
  unfolding parse_enum_body_def
  by (rule uses_and_then [of 1 "expect_symbol _"], rule uses_readers) (auto simp: uses_def dest: parse_enum_variants_shorter)

lemma uses_reference: "uses 0 (reference_name t) ts"
  unfolding reference_name_def
  by (rule uses_and_then [of 0 peek], rule uses_readers, rename_tac x u, case_tac x)
     (auto simp: uses_ok uses_def and_then_Inr_iff token_iffs split: if_splits)

lemma uses_unsigned: "uses 1 parse_unsigned ts"
  unfolding parse_unsigned_def by (rule uses_and_then [of 1 next_token], rule uses_readers) (simp add: uses_ok uses_err)

lemmas uses_parsers = uses_declarator uses_enum_body uses_reference uses_unsigned

text \<open>The loops: an iteration that does not see the closing brace.\<close>

lemma uses_closing:
  assumes "\<And>t. consume_symbol s ts = (Inr False, t) \<Longrightarrow> uses 1 q ts"
  shows "uses 1 (and_then (consume_symbol s) (\<lambda>closed ts. if closed then ok xs ts else q ts)) ts"
  using assms by (auto simp: uses_def and_then_Inr_iff token_iffs split: if_splits)

lemma consume_False: "consume_symbol s ts = (Inr False, t) \<Longrightarrow> t = ts"
  by (simp add: token_iffs)

lemma uses_eq: "p ts = and_then m f ts \<Longrightarrow> uses k (and_then m f) ts \<Longrightarrow> uses k p ts"
  by (simp add: uses_def)

text \<open>
  The bodies of the recursive functions below, over arbitrary parsers in place of the recursive calls: each
  consumes a token when the calls it makes do.
\<close>

lemma uses_referenced:
  assumes "\<And>vs. reference_name opening us = (Inr None, vs) \<Longrightarrow> uses 1 p vs"
  shows "uses 0 (and_then (reference_name opening) (\<lambda>name ts. case name of
     Some n \<Rightarrow> ok (TsIdentifier n) ts | None \<Rightarrow> and_then p (\<lambda>body. ok (f body)) ts)) us"
proof (rule uses_and_then [OF uses_reference])
  fix r vs
  assume "reference_name opening us = (Inr r, vs)"
  with assms show "uses (0 - 0) (\<lambda>ts. case r of Some n \<Rightarrow> ok (TsIdentifier n) ts | None \<Rightarrow> and_then p (\<lambda>body. ok (f body)) ts) vs"
    by (cases r) (simp_all add: uses_wrap del: One_nat_def, simp add: uses_def)
qed

lemma uses_type_body:
  assumes struct: "\<And>us vs. ts = TKeyword KwStruct # us \<Longrightarrow> reference_name (TSymbol (CHR ''{'')) us = (Inr None, vs) \<Longrightarrow> uses 1 sb vs"
    and union: "\<And>us vs. ts = TKeyword KwUnion # us \<Longrightarrow> reference_name (TKeyword KwSwitch) us = (Inr None, vs) \<Longrightarrow> uses 1 ub vs"
  shows "uses 1 (and_then next_token (\<lambda>t ts. case t of
       TIdentifier name \<Rightarrow> ok (TsIdentifier name) ts
     | TKeyword kw \<Rightarrow>
         (if kw = KwUnsigned then parse_unsigned ts
          else if kw = KwEnum then
            and_then (reference_name (TSymbol (CHR ''{''))) (\<lambda>name. case name of
                Some n \<Rightarrow> ok (TsIdentifier n)
              | None \<Rightarrow> and_then parse_enum_body (\<lambda>body. ok (TsEnum body))) ts
          else if kw = KwStruct then
            and_then (reference_name (TSymbol (CHR ''{''))) (\<lambda>name ts. case name of
                Some n \<Rightarrow> ok (TsIdentifier n) ts
              | None \<Rightarrow> and_then sb (\<lambda>body. ok (TsStruct body)) ts) ts
          else if kw = KwUnion then
            and_then (reference_name (TKeyword KwSwitch)) (\<lambda>name ts. case name of
                Some n \<Rightarrow> ok (TsIdentifier n) ts
              | None \<Rightarrow> and_then ub (\<lambda>body. ok (TsUnion (fst body) (snd body))) ts) ts
          else case keyword_type kw of
              Some type_spec \<Rightarrow> ok type_spec ts
            | None \<Rightarrow> err (UnsupportedTypeKeyword kw) ts)
     | other \<Rightarrow> err (UnexpectedTypeToken other) ts)) ts"
    (is "uses 1 (and_then next_token ?rest) ts")
proof (rule uses_and_then [OF uses_readers(1)])
  fix t us
  assume t: "next_token ts = (Inr t, us)"
  have "uses 0 (?rest t) us"
  proof (cases t)
    case (TKeyword kw)
    have "uses 0 (and_then (reference_name (TSymbol (CHR ''{''))) (\<lambda>name. case name of
        Some n \<Rightarrow> ok (TsIdentifier n) | None \<Rightarrow> and_then parse_enum_body (\<lambda>body. ok (TsEnum body)))) us"
      by (rule uses_and_then [OF uses_reference]) (simp add: uses_ok uses_wrap uses_enum_body split: option.split del: One_nat_def)
    moreover have "uses 0 (and_then (reference_name (TSymbol (CHR ''{''))) (\<lambda>name ts. case name of
        Some n \<Rightarrow> ok (TsIdentifier n) ts | None \<Rightarrow> and_then sb (\<lambda>body. ok (TsStruct body)) ts)) us" if "kw = KwStruct"
      using t TKeyword that by (intro uses_referenced struct) (simp_all add: token_iffs)
    moreover have "uses 0 (and_then (reference_name (TKeyword KwSwitch)) (\<lambda>name ts. case name of
        Some n \<Rightarrow> ok (TsIdentifier n) ts | None \<Rightarrow> and_then ub (\<lambda>body. ok (TsUnion (fst body) (snd body))) ts)) us" if "kw = KwUnion"
      using t TKeyword that by (intro uses_referenced union) (simp_all add: token_iffs)
    ultimately show ?thesis
      using TKeyword uses_0 [OF uses_unsigned, of us] by (simp add: uses_def split: option.split)
  qed (simp_all add: uses_def)
  then show "uses (1 - 1) (?rest t) us" by simp
qed

lemma uses_struct_body:
  assumes "consume_symbol (CHR ''}'') ts = (Inr False, ts) \<Longrightarrow> uses 1 decl ts"
    and "\<And>d t u. consume_symbol (CHR ''}'') ts = (Inr False, ts) \<Longrightarrow> decl ts = (Inr d, t) \<Longrightarrow>
      expect_symbol (CHR '';'') t = (Inr (), u) \<Longrightarrow> uses 1 loop u"
  shows "uses 1 (and_then (consume_symbol (CHR ''}'')) (\<lambda>closed ts. if closed then ok [] ts else
       and_then decl (\<lambda>d. and_then (expect_symbol (CHR '';'')) (\<lambda>_. and_then loop (\<lambda>ds. ok (d # ds)))) ts)) ts"
proof (rule uses_closing)
  fix t
  assume "consume_symbol (CHR ''}'') ts = (Inr False, t)"
  then have c: "consume_symbol (CHR ''}'') ts = (Inr False, ts)" using consume_False by metis
  show "uses 1 (and_then decl (\<lambda>d. and_then (expect_symbol (CHR '';'')) (\<lambda>_. and_then loop (\<lambda>ds. ok (d # ds))))) ts"
    by (intro uses_and_then [of 1 decl] uses_and_then [of 1 "expect_symbol _"] uses_readers uses_weaken [OF uses_wrap] assms(2) [OF c] assms(1) [OF c]) simp_all
qed

lemma uses_union_arms_body:
  assumes "\<And>labels t. consume_symbol (CHR ''}'') ts = (Inr False, ts) \<Longrightarrow> parse_labels ts = (Inr labels, t) \<Longrightarrow> labels \<noteq> [] \<Longrightarrow> uses 1 decl t"
    and "\<And>labels t d u v. consume_symbol (CHR ''}'') ts = (Inr False, ts) \<Longrightarrow> parse_labels ts = (Inr labels, t) \<Longrightarrow> labels \<noteq> [] \<Longrightarrow>
      decl t = (Inr d, u) \<Longrightarrow> expect_symbol (CHR '';'') u = (Inr (), v) \<Longrightarrow> uses 1 loop v"
  shows "uses 1 (and_then (consume_symbol (CHR ''}'')) (\<lambda>closed ts. if closed then ok [] ts else
       and_then parse_labels (\<lambda>labels ts. if labels = [] then err ExpectedLabel ts else
         and_then decl (\<lambda>d. and_then (expect_symbol (CHR '';'')) (\<lambda>_. and_then loop (\<lambda>arms. ok (UnionArm labels d # arms)))) ts) ts)) ts"
proof (rule uses_closing)
  fix t
  assume "consume_symbol (CHR ''}'') ts = (Inr False, t)"
  then have c: "consume_symbol (CHR ''}'') ts = (Inr False, ts)" using consume_False by metis
  have arm: "uses 1 (and_then decl (\<lambda>d. and_then (expect_symbol (CHR '';'')) (\<lambda>_. and_then loop (\<lambda>arms. ok (UnionArm labels d # arms))))) u"
    if "parse_labels ts = (Inr labels, u)" "labels \<noteq> []" for labels u
    by (intro uses_and_then [of 1 decl] uses_and_then [of 1 "expect_symbol _"] uses_readers uses_weaken [OF uses_wrap]
      assms(2) [OF c that] assms(1) [OF c that]) simp_all
  have "uses 1 (\<lambda>ts. if labels = [] then err ExpectedLabel ts else
      and_then decl (\<lambda>d. and_then (expect_symbol (CHR '';'')) (\<lambda>_. and_then loop (\<lambda>arms. ok (UnionArm labels d # arms)))) ts) u"
    if "parse_labels ts = (Inr labels, u)" for labels u
    using arm [OF that] by (cases "labels = []") (simp_all add: uses_def)
  moreover have "uses 0 parse_labels ts" by (simp add: uses_def parse_labels_shorter)
  ultimately show "uses 1 (and_then parse_labels (\<lambda>labels ts. if labels = [] then err ExpectedLabel ts else
      and_then decl (\<lambda>d. and_then (expect_symbol (CHR '';'')) (\<lambda>_. and_then loop (\<lambda>arms. ok (UnionArm labels d # arms)))) ts)) ts"
    by (intro uses_and_then [of 0 parse_labels]) simp_all
qed

lemma uses_union_body:
  assumes "\<And>i j t u. expect_keyword KwSwitch ts = (Inr i, t) \<Longrightarrow> expect_symbol (CHR ''('') t = (Inr j, u) \<Longrightarrow> uses 1 decl u"
    and "\<And>i j k l t u d v w x. expect_keyword KwSwitch ts = (Inr i, t) \<Longrightarrow> expect_symbol (CHR ''('') t = (Inr j, u) \<Longrightarrow> decl u = (Inr d, v) \<Longrightarrow>
      expect_symbol (CHR '')'') v = (Inr k, w) \<Longrightarrow> expect_symbol (CHR ''{'') w = (Inr l, x) \<Longrightarrow> uses 1 arms x"
  shows "uses 1 (and_then (expect_keyword KwSwitch) (\<lambda>_. and_then (expect_symbol (CHR ''('')) (\<lambda>_.
     and_then decl (\<lambda>discriminant. and_then (expect_symbol (CHR '')'')) (\<lambda>_.
     and_then (expect_symbol (CHR ''{'')) (\<lambda>_. and_then arms (\<lambda>arms. ok (discriminant, arms)))))))) ts"
  by (intro uses_and_then [of 1 "expect_keyword _"] uses_and_then [of 1 "expect_symbol _"] uses_and_then [of 0 decl]
      uses_weaken [OF uses_wrap] uses_readers uses_0) ((rule assms; assumption) | simp)+

lemma uses_declaration_body:
  assumes "uses 1 type_parser ts"
  shows "uses 1 (and_then type_parser (\<lambda>type_spec. and_then peek (\<lambda>t.
     if type_spec = TsVoid \<and> (t = TSymbol (CHR '';'') \<or> t = TSymbol (CHR '')''))
     then ok (Declaration type_spec (Declarator '''' None))
     else and_then parse_declarator (\<lambda>declarator. ok (Declaration type_spec declarator))))) ts"
  by (intro uses_and_then [OF assms] uses_and_then [of 0 peek] uses_if uses_readers) (simp_all add: uses_ok uses_wrap uses_declarator del: One_nat_def)

function parse_type_spec :: "type_spec token_parser"
  and parse_struct_declarations :: "xdr_declaration list token_parser"
  and parse_struct_body :: "xdr_declaration list token_parser"
  and parse_union_arms :: "union_arm list token_parser"
  and parse_union_body :: "(xdr_declaration \<times> union_arm list) token_parser"
  and parse_declaration :: "xdr_declaration token_parser" where
  "parse_type_spec ts =
     and_then next_token (\<lambda>t ts. case t of
       TIdentifier name \<Rightarrow> ok (TsIdentifier name) ts
     | TKeyword kw \<Rightarrow>
         (if kw = KwUnsigned then parse_unsigned ts
          else if kw = KwEnum then
            and_then (reference_name (TSymbol (CHR ''{''))) (\<lambda>name. case name of
                Some n \<Rightarrow> ok (TsIdentifier n)
              | None \<Rightarrow> and_then parse_enum_body (\<lambda>body. ok (TsEnum body))) ts
          else if kw = KwStruct then
            and_then (reference_name (TSymbol (CHR ''{''))) (\<lambda>name ts. case name of
                Some n \<Rightarrow> ok (TsIdentifier n) ts
              | None \<Rightarrow> and_then parse_struct_body (\<lambda>body. ok (TsStruct body)) ts) ts
          else if kw = KwUnion then
            and_then (reference_name (TKeyword KwSwitch)) (\<lambda>name ts. case name of
                Some n \<Rightarrow> ok (TsIdentifier n) ts
              | None \<Rightarrow> and_then parse_union_body (\<lambda>body. ok (TsUnion (fst body) (snd body))) ts) ts
          else case keyword_type kw of
              Some type_spec \<Rightarrow> ok type_spec ts
            | None \<Rightarrow> err (UnsupportedTypeKeyword kw) ts)
     | other \<Rightarrow> err (UnexpectedTypeToken other) ts) ts"
| "parse_struct_declarations ts =
     and_then (consume_symbol (CHR ''}'')) (\<lambda>closed ts.
     if closed then ok [] ts else
       and_then parse_declaration (\<lambda>d.
       and_then (expect_symbol (CHR '';'')) (\<lambda>_.
       and_then parse_struct_declarations (\<lambda>ds.
       ok (d # ds)))) ts) ts"
| "parse_struct_body ts = and_then (expect_symbol (CHR ''{'')) (\<lambda>_. parse_struct_declarations) ts"
| "parse_union_arms ts =
     and_then (consume_symbol (CHR ''}'')) (\<lambda>closed ts.
     if closed then ok [] ts else
       and_then parse_labels (\<lambda>labels ts.
       if labels = [] then err ExpectedLabel ts else
         and_then parse_declaration (\<lambda>d.
         and_then (expect_symbol (CHR '';'')) (\<lambda>_.
         and_then parse_union_arms (\<lambda>arms.
         ok (UnionArm labels d # arms)))) ts) ts) ts"
| "parse_union_body ts =
     and_then (expect_keyword KwSwitch) (\<lambda>_.
     and_then (expect_symbol (CHR ''('')) (\<lambda>_.
     and_then parse_declaration (\<lambda>discriminant.
     and_then (expect_symbol (CHR '')'')) (\<lambda>_.
     and_then (expect_symbol (CHR ''{'')) (\<lambda>_.
     and_then parse_union_arms (\<lambda>arms.
     ok (discriminant, arms))))))) ts"
| "parse_declaration ts =
     and_then parse_type_spec (\<lambda>type_spec.
     and_then peek (\<lambda>t.
     if type_spec = TsVoid \<and> (t = TSymbol (CHR '';'') \<or> t = TSymbol (CHR '')''))
     then ok (Declaration type_spec (Declarator '''' None))
     else and_then parse_declarator (\<lambda>declarator. ok (Declaration type_spec declarator)))) ts"
  by pat_completeness auto

termination
proof -
  let ?dom = "parse_type_spec_parse_struct_declarations_parse_struct_body_parse_union_arms_parse_union_body_parse_declaration_dom"
  have uses: "?dom (Inl (Inl ts1)) \<Longrightarrow> uses 1 parse_type_spec ts1"
    "?dom (Inl (Inr (Inl ts2))) \<Longrightarrow> uses 1 parse_struct_declarations ts2"
    "?dom (Inl (Inr (Inr ts3))) \<Longrightarrow> uses 1 parse_struct_body ts3"
    "?dom (Inr (Inl ts4)) \<Longrightarrow> uses 1 parse_union_arms ts4"
    "?dom (Inr (Inr (Inl ts5))) \<Longrightarrow> uses 1 parse_union_body ts5"
    "?dom (Inr (Inr (Inr ts6))) \<Longrightarrow> uses 1 parse_declaration ts6" for ts1 ts2 ts3 ts4 ts5 ts6
  proof (induction ts1 and ts2 and ts3 and ts4 and ts5 and ts6
      rule: parse_type_spec_parse_struct_declarations_parse_struct_body_parse_union_arms_parse_union_body_parse_declaration.pinduct)
    case (1 ts)
    show ?case
      by (rule uses_eq [of parse_type_spec ts, OF parse_type_spec.psimps [OF 1(1)]], rule uses_type_body)
         (rule 1(2) [OF _ refl _ _ refl _ refl] 1(3) [OF _ refl _ _ _ refl _ refl]; (assumption | simp))+
  next
    case (2 ts)
    show ?case
      by (rule uses_eq [of parse_struct_declarations ts, OF parse_struct_declarations.psimps [OF 2(1)]], rule uses_struct_body) ((rule 2(2), assumption, simp) | (rule 2(3), assumption, simp, assumption+))+
  next
    case (3 ts)
    have "uses 1 (and_then (expect_symbol (CHR ''{'')) (\<lambda>_. parse_struct_declarations)) ts"
      by (intro uses_and_then [of 1 "expect_symbol _"] uses_readers) (use 3(2) in \<open>auto intro: uses_0\<close>)
    then show ?case by (rule uses_eq [of parse_struct_body ts, OF parse_struct_body.psimps [OF 3(1)]])
  next
    case (4 ts)
    show ?case
      by (rule uses_eq [of parse_union_arms ts, OF parse_union_arms.psimps [OF 4(1)]], rule uses_union_arms_body) (rule 4(2,3), assumption, simp, assumption+)+
  next
    case (5 ts)
    show ?case
      by (rule uses_eq [of parse_union_body ts, OF parse_union_body.psimps [OF 5(1)]], rule uses_union_body) (rule 5(2,3), assumption+)+
  next
    case (6 ts)
    show ?case
      by (rule uses_eq [of parse_declaration ts, OF parse_declaration.psimps [OF 6(1)]], rule uses_declaration_body, rule 6(2))
  qed
  have shorter: "?dom (Inr (Inr (Inr ts))) \<Longrightarrow> parse_declaration ts = (Inr d, ts') \<Longrightarrow> length ts' < length ts" for ts d ts'
    using uses(6) by (fastforce simp: uses_def)
  show ?thesis
    by (relation "measure (\<lambda>x. case x of Inl (Inl ts) \<Rightarrow> 4 * length ts + 1 | Inl (Inr (Inl ts)) \<Rightarrow> 4 * length ts + 3
         | Inl (Inr (Inr ts)) \<Rightarrow> 4 * length ts + 4 | Inr (Inl ts) \<Rightarrow> 4 * length ts + 3 | Inr (Inr (Inl ts)) \<Rightarrow> 4 * length ts + 4
         | Inr (Inr (Inr ts)) \<Rightarrow> 4 * length ts + 2)")
       (auto simp: token_iffs reference_name_Inr dest!: shorter parse_labels_shorter)
qed

declare parse_type_spec.simps [simp del] parse_struct_declarations.simps [simp del] parse_struct_body.simps [simp del]
  parse_union_arms.simps [simp del] parse_union_body.simps [simp del] parse_declaration.simps [simp del]

lemma parse_uses:
  "uses 1 parse_type_spec ts1" "uses 1 parse_struct_declarations ts2" "uses 1 parse_struct_body ts3"
  "uses 1 parse_union_arms ts4" "uses 1 parse_union_body ts5" "uses 1 parse_declaration ts6"
proof (induction ts1 and ts2 and ts3 and ts4 and ts5 and ts6
    rule: parse_type_spec_parse_struct_declarations_parse_struct_body_parse_union_arms_parse_union_body_parse_declaration.induct)
  case (1 ts)
  show ?case
    by (rule uses_eq [OF parse_type_spec.simps], rule uses_type_body) (rule 1(1) [OF _ refl _ _ refl _ refl] 1(2) [OF _ refl _ _ _ refl _ refl]; (assumption | simp))+
next
  case (2 ts)
  show ?case
    by (rule uses_eq [OF parse_struct_declarations.simps], rule uses_struct_body) ((rule 2(1), assumption, simp) | (rule 2(2), assumption, simp, assumption+))+
next
  case (3 ts)
  have "uses 1 (and_then (expect_symbol (CHR ''{'')) (\<lambda>_. parse_struct_declarations)) ts"
    by (intro uses_and_then [of 1 "expect_symbol _"] uses_readers) (use 3 in \<open>auto intro: uses_0\<close>)
  then show ?case by (rule uses_eq [OF parse_struct_body.simps])
next
  case (4 ts)
  show ?case
    by (rule uses_eq [OF parse_union_arms.simps], rule uses_union_arms_body) (rule 4, assumption, simp, assumption+)+
next
  case (5 ts)
  show ?case
    by (rule uses_eq [OF parse_union_body.simps], rule uses_union_body) (rule 5, assumption+)+
next
  case (6 ts)
  show ?case
    by (rule uses_eq [OF parse_declaration.simps], rule uses_declaration_body, rule 6)
qed

section \<open>Definitions\<close>

definition parse_const :: "item token_parser" where
  "parse_const =
     and_then (expect_keyword KwConst) (\<lambda>_.
     and_then expect_identifier (\<lambda>name.
     and_then (expect_symbol (CHR ''='')) (\<lambda>_.
     and_then parse_value_expr (\<lambda>value.
     and_then (expect_symbol (CHR '';'')) (\<lambda>_.
     ok (ItemConst name value))))))"

definition parse_typedef :: "item token_parser" where
  "parse_typedef =
     and_then (expect_keyword KwTypedef) (\<lambda>_.
     and_then parse_type_spec (\<lambda>target.
     and_then parse_declarator (\<lambda>declarator.
     and_then (expect_symbol (CHR '';'')) (\<lambda>_.
     ok (ItemTypedef target declarator)))))"

definition parse_named_struct :: "item token_parser" where
  "parse_named_struct =
     and_then (expect_keyword KwStruct) (\<lambda>_.
     and_then expect_identifier (\<lambda>name.
     and_then parse_struct_body (\<lambda>body.
     and_then (expect_symbol (CHR '';'')) (\<lambda>_.
     ok (ItemStruct name body)))))"

definition parse_named_enum :: "item token_parser" where
  "parse_named_enum =
     and_then (expect_keyword KwEnum) (\<lambda>_.
     and_then expect_identifier (\<lambda>name.
     and_then parse_enum_body (\<lambda>body.
     and_then (expect_symbol (CHR '';'')) (\<lambda>_.
     ok (ItemEnum name body)))))"

definition parse_named_union :: "item token_parser" where
  "parse_named_union =
     and_then (expect_keyword KwUnion) (\<lambda>_.
     and_then expect_identifier (\<lambda>name.
     and_then parse_union_body (\<lambda>body.
     and_then (expect_symbol (CHR '';'')) (\<lambda>_.
     ok (ItemUnion name (fst body) (snd body))))))"

section \<open>Programs\<close>

definition parse_procedure_argument_type :: "type_spec token_parser" where
  "parse_procedure_argument_type =
     and_then peek (\<lambda>t.
     if t = TKeyword KwVoid then and_then next_token (\<lambda>_. ok TsVoid)
     else
       and_then parse_type_spec (\<lambda>argument_type.
       and_then peek (\<lambda>u.
       if u \<noteq> TSymbol (CHR '')'') then and_then parse_declarator (\<lambda>_. ok argument_type) else ok argument_type)))"

definition parse_procedure :: "procedure_decl token_parser" where
  "parse_procedure =
     and_then parse_type_spec (\<lambda>return_type.
     and_then expect_identifier (\<lambda>name.
     and_then (expect_symbol (CHR ''('')) (\<lambda>_.
     and_then parse_procedure_argument_type (\<lambda>argument_type.
     and_then (expect_symbol (CHR '')'')) (\<lambda>_.
     and_then (expect_symbol (CHR ''='')) (\<lambda>_.
     and_then expect_u32 (\<lambda>number.
     and_then (expect_symbol (CHR '';'')) (\<lambda>_.
     ok (ProcedureDecl return_type name argument_type number)))))))))"

lemma uses_readers_more:
  "uses 1 expect_identifier ts" "uses 1 expect_u32 ts" "uses 1 parse_value_expr ts"
  by (auto simp: uses_def token_iffs)

lemma uses_argument: "uses 1 parse_procedure_argument_type ts"
  unfolding parse_procedure_argument_type_def
  by (intro uses_and_then [of 0 peek] uses_readers uses_if uses_and_then [of 1 next_token] uses_and_then [of 1 parse_type_spec] parse_uses)
     (simp_all add: uses_ok uses_wrap uses_declarator del: One_nat_def)

lemma uses_procedure: "uses 1 parse_procedure ts"
  unfolding parse_procedure_def
  by (rule uses_and_then [OF parse_uses(1)])
     (auto simp: uses_def and_then_Inr_iff token_iffs dest!: uses_argument [unfolded uses_def, rule_format])

function parse_procedures :: "procedure_decl list token_parser" where
  "parse_procedures ts =
     and_then (consume_symbol (CHR ''}'')) (\<lambda>closed ts.
     if closed then ok [] ts else
       and_then parse_procedure (\<lambda>p.
       and_then parse_procedures (\<lambda>ps.
       ok (p # ps))) ts) ts"
  by pat_completeness auto
termination
  by (relation "measure length") (auto dest!: consume_False uses_procedure [unfolded uses_def, rule_format])

declare parse_procedures.simps [simp del]

lemma uses_loop:
  assumes "\<And>ts. loop ts = and_then (consume_symbol (CHR ''}'')) (\<lambda>closed ts. if closed then ok [] ts else
      and_then p (\<lambda>x. and_then loop (\<lambda>xs. ok (x # xs))) ts) ts" and "\<And>ts. uses 1 p ts"
  shows "uses 1 loop ts"
proof (induction "length ts" arbitrary: ts rule: less_induct)
  case less
  have "uses 0 (and_then loop (\<lambda>xs. ok (x # xs))) u" if "p ts = (Inr x, u)" for x u
    using assms(2) [unfolded uses_def, rule_format, OF that] by (intro uses_wrap less) simp
  then have "uses 1 (and_then p (\<lambda>x. and_then loop (\<lambda>xs. ok (x # xs)))) ts"
    by (intro uses_and_then [OF assms(2)]) simp
  then have "uses 1 (and_then (consume_symbol (CHR ''}'')) (\<lambda>closed ts. if closed then ok [] ts else
      and_then p (\<lambda>x. and_then loop (\<lambda>xs. ok (x # xs))) ts)) ts"
    by (intro uses_closing) (simp add: uses_def)
  then show ?case unfolding uses_def assms(1) [of ts] .
qed

definition parse_version :: "version_decl token_parser" where
  "parse_version =
     and_then (expect_keyword KwVersion) (\<lambda>_.
     and_then expect_identifier (\<lambda>name.
     and_then (expect_symbol (CHR ''{'')) (\<lambda>_.
     and_then parse_procedures (\<lambda>procedures.
     and_then (expect_symbol (CHR ''='')) (\<lambda>_.
     and_then expect_u32 (\<lambda>number.
     and_then (expect_symbol (CHR '';'')) (\<lambda>_.
     ok (VersionDecl name procedures number))))))))"

lemma uses_version: "uses 1 parse_version ts"
  by (auto simp: parse_version_def uses_def and_then_Inr_iff token_iffs
      dest!: uses_loop [OF parse_procedures.simps uses_procedure, unfolded uses_def, rule_format])

function parse_versions :: "version_decl list token_parser" where
  "parse_versions ts =
     and_then (consume_symbol (CHR ''}'')) (\<lambda>closed ts.
     if closed then ok [] ts else
       and_then parse_version (\<lambda>v.
       and_then parse_versions (\<lambda>vs.
       ok (v # vs))) ts) ts"
  by pat_completeness auto
termination
  by (relation "measure length") (auto dest!: consume_False uses_version [unfolded uses_def, rule_format])

declare parse_versions.simps [simp del]

definition parse_program :: "item token_parser" where
  "parse_program =
     and_then (expect_keyword KwProgram) (\<lambda>_.
     and_then expect_identifier (\<lambda>name.
     and_then (expect_symbol (CHR ''{'')) (\<lambda>_.
     and_then parse_versions (\<lambda>versions.
     and_then (expect_symbol (CHR ''='')) (\<lambda>_.
     and_then expect_u32 (\<lambda>number.
     and_then (expect_symbol (CHR '';'')) (\<lambda>_.
     ok (ItemProgram (ProgramDecl name versions number)))))))))"

section \<open>Sources\<close>

definition parse_item :: "item token_parser" where
  "parse_item = and_then peek (\<lambda>t. case t of
       TKeyword KwConst \<Rightarrow> parse_const
     | TKeyword KwTypedef \<Rightarrow> parse_typedef
     | TKeyword KwStruct \<Rightarrow> parse_named_struct
     | TKeyword KwEnum \<Rightarrow> parse_named_enum
     | TKeyword KwUnion \<Rightarrow> parse_named_union
     | TKeyword KwProgram \<Rightarrow> parse_program
     | other \<Rightarrow> err (UnexpectedTopLevel other))"

lemma uses_items:
  "uses 1 parse_const ts" "uses 1 parse_typedef ts" "uses 1 parse_named_struct ts" "uses 1 parse_named_enum ts"
  "uses 1 parse_named_union ts" "uses 1 parse_program ts"
  unfolding parse_const_def parse_typedef_def parse_named_struct_def parse_named_enum_def parse_named_union_def parse_program_def
  by (rule uses_and_then [OF uses_readers(3)],
      auto simp: uses_def and_then_Inr_iff token_iffs
        dest!: parse_declarator_shorter parse_uses [unfolded uses_def, rule_format] uses_enum_body [unfolded uses_def, rule_format]
          uses_loop [OF parse_versions.simps uses_version, unfolded uses_def, rule_format])+

lemma uses_item: "uses 1 parse_item ts"
  unfolding parse_item_def
  by (rule uses_and_then [OF uses_readers(2)]) (auto simp: uses_items uses_err split: token.split keyword.split simp del: One_nat_def)

function parse_schema :: "schema token_parser" where
  "parse_schema ts =
     and_then peek (\<lambda>t ts.
     if t = TEof then ok [] ts else
       and_then parse_item (\<lambda>item.
       and_then parse_schema (\<lambda>items.
       ok (item # items))) ts) ts"
  by pat_completeness auto
termination
  by (relation "measure length") (auto simp: peek_Inr dest!: uses_item [unfolded uses_def, rule_format])

declare parse_schema.simps [simp del]

definition parse_x_source :: "string \<Rightarrow> parse_error + schema" where
  "parse_x_source input =
     result_bind (strip_block_comments input) (\<lambda>cleaned.
     result_bind (tokenize (strip_unsupported_lines cleaned)) (\<lambda>tokens.
     fst (parse_schema tokens)))"

end
