(* ===== verification/X_Roundtrip.thy ===== *)
theory X_Roundtrip
  imports X_Parser
begin

text \<open>
  Theorems about \<^verbatim>\<open>parser.rs\<close> and \<^verbatim>\<open>ast.rs\<close>: the tokens of a syntax tree, after the grammar of RFC 4506
  and RFC 5531, parse back to the tree; the text that \<^verbatim>\<open>render_type_spec\<close> writes for a type lexes
  to these tokens; and no input makes the parser index out of bounds.
\<close>

section \<open>The tokens of a syntax tree\<close>

fun value_token :: "value_expr \<Rightarrow> token" where
  "value_token (ValueNumber n) = TNumber n"
| "value_token (ValueIdentifier name) = TIdentifier name"

fun declarator_tokens :: "declarator \<Rightarrow> token list" where
  "declarator_tokens (Declarator name None) = [TIdentifier name]"
| "declarator_tokens (Declarator name (Some OptionalMod)) = [TSymbol (CHR ''*''), TIdentifier name]"
| "declarator_tokens (Declarator name (Some (FixedArray b))) = [TIdentifier name, TSymbol (CHR ''[''), value_token b, TSymbol (CHR '']'')]"
| "declarator_tokens (Declarator name (Some (VariableArray None))) = [TIdentifier name, TSymbol (CHR ''<''), TSymbol (CHR ''>'')]"
| "declarator_tokens (Declarator name (Some (VariableArray (Some b)))) =
     [TIdentifier name, TSymbol (CHR ''<''), value_token b, TSymbol (CHR ''>'')]"

fun variant_tokens :: "enum_variant \<Rightarrow> token list" where
  "variant_tokens (EnumVariant name value) = [TIdentifier name, TSymbol (CHR ''=''), value_token value]"

fun variants_tokens :: "enum_variant list \<Rightarrow> token list" where
  "variants_tokens [] = []"
| "variants_tokens [v] = variant_tokens v"
| "variants_tokens (v # vs) = variant_tokens v @ TSymbol (CHR '','') # variants_tokens vs"

fun label_tokens :: "union_case_label \<Rightarrow> token list" where
  "label_tokens (CaseLabel v) = [TKeyword KwCase, value_token v, TSymbol (CHR '':'')]"
| "label_tokens DefaultLabel = [TKeyword KwDefault, TSymbol (CHR '':'')]"

fun type_tokens :: "type_spec \<Rightarrow> token list"
  and declaration_tokens :: "xdr_declaration \<Rightarrow> token list"
  and arm_tokens :: "union_arm \<Rightarrow> token list" where
  "type_tokens TsVoid = [TKeyword KwVoid]"
| "type_tokens TsBool = [TKeyword KwBool]"
| "type_tokens TsInt = [TKeyword KwInt]"
| "type_tokens TsUnsignedInt = [TKeyword KwUnsigned, TKeyword KwInt]"
| "type_tokens TsHyper = [TKeyword KwHyper]"
| "type_tokens TsUnsignedHyper = [TKeyword KwUnsigned, TKeyword KwHyper]"
| "type_tokens TsFloat = [TKeyword KwFloat]"
| "type_tokens TsDouble = [TKeyword KwDouble]"
| "type_tokens TsQuadruple = [TKeyword KwQuadruple]"
| "type_tokens TsOpaque = [TKeyword KwOpaque]"
| "type_tokens TsString = [TKeyword KwString]"
| "type_tokens (TsIdentifier name) = [TIdentifier name]"
| "type_tokens (TsEnum vs) = TKeyword KwEnum # TSymbol (CHR ''{'') # variants_tokens vs @ [TSymbol (CHR ''}'')]"
| "type_tokens (TsStruct ds) = TKeyword KwStruct # TSymbol (CHR ''{'') #
     concat (map (\<lambda>d. declaration_tokens d @ [TSymbol (CHR '';'')]) ds) @ [TSymbol (CHR ''}'')]"
| "type_tokens (TsUnion d arms) = TKeyword KwUnion # TKeyword KwSwitch # TSymbol (CHR ''('') # declaration_tokens d @
     TSymbol (CHR '')'') # TSymbol (CHR ''{'') # concat (map arm_tokens arms) @ [TSymbol (CHR ''}'')]"
| "declaration_tokens (Declaration t d) =
     type_tokens t @ (if t = TsVoid \<and> d = Declarator '''' None then [] else declarator_tokens d)"
| "arm_tokens (UnionArm labels d) = concat (map label_tokens labels) @ declaration_tokens d @ [TSymbol (CHR '';'')]"

text \<open>An arm has a label; the other requirements of a tree are on its names and numbers.\<close>

fun labelled_type :: "type_spec \<Rightarrow> bool"
  and labelled_declaration :: "xdr_declaration \<Rightarrow> bool"
  and labelled_arm :: "union_arm \<Rightarrow> bool" where
  "labelled_type (TsStruct ds) = list_all labelled_declaration ds"
| "labelled_type (TsUnion d arms) = (labelled_declaration d \<and> list_all labelled_arm arms)"
| "labelled_type _ = True"
| "labelled_declaration (Declaration t d) = labelled_type t"
| "labelled_arm (UnionArm labels d) = (labels \<noteq> [] \<and> labelled_declaration d)"

section \<open>Reading a given token\<close>

lemma expect_simps [simp]:
  "next_token (t # ts) = (Inr t, ts)"
  "expect_symbol s (TSymbol s # ts) = (Inr (), ts)"
  "expect_keyword k (TKeyword k # ts) = (Inr (), ts)"
  "expect_identifier (TIdentifier name # ts) = (Inr name, ts)"
  "consume_symbol s (TSymbol s # ts) = (Inr True, ts)"
  "t \<noteq> TSymbol s \<Longrightarrow> consume_symbol s (t # ts) = (Inr False, t # ts)"
  "parse_value_expr (value_token v # ts) = (Inr v, ts)"
  "n \<le> u32_max \<Longrightarrow> expect_u32 (TNumber (int n) # ts) = (Inr n, ts)"
  by (simp_all add: token_iffs) (cases v, simp_all)

lemma value_token_ne [simp]: "value_token v \<noteq> TSymbol s" "value_token v \<noteq> TKeyword k" "value_token v \<noteq> TEof"
  by (cases v; simp)+

lemma and_then_consume [simp]: "t \<noteq> TSymbol s \<Longrightarrow> and_then (consume_symbol s) f (t # ts) = f False (t # ts)"
  by (simp add: and_then_def)

lemma parse_declarator_tokens:
  assumes "rest = t # us" "t \<noteq> TSymbol (CHR ''['')" "t \<noteq> TSymbol (CHR ''<'')"
  shows "parse_declarator (declarator_tokens d @ rest) = (Inr d, rest)"
  using assms by (cases d rule: declarator_tokens.cases) (simp_all add: parse_declarator_def)

lemma variant_tokens_head: "\<exists>name us. variant_tokens v = TIdentifier name # us"
  by (cases v) simp

lemma parse_variants_tokens:
  "parse_enum_variants (variants_tokens vs @ TSymbol (CHR ''}'') # rest) = (Inr vs, rest)"
proof (induction vs rule: variants_tokens.induct)
  case 1
  show ?case by (simp add: parse_enum_variants.simps)
next
  case (2 v)
  have close: "parse_enum_variants (TSymbol (CHR ''}'') # rest) = (Inr [], rest)" by (simp add: parse_enum_variants.simps)
  show ?case by (cases v) (simp add: parse_enum_variants.simps [of "TIdentifier _ # _"] close)
next
  case (3 v w vs)
  then show ?case by (cases v) (simp add: parse_enum_variants.simps [of "TIdentifier _ # _"])
qed

lemma parse_labels_tokens:
  "t \<noteq> TKeyword KwCase \<Longrightarrow> t \<noteq> TKeyword KwDefault \<Longrightarrow> parse_labels (concat (map label_tokens ls) @ t # rest) = (Inr ls, t # rest)"
proof (induction ls)
  case Nil
  then show ?case by (simp add: parse_labels.simps)
next
  case (Cons l ls)
  then show ?case by (cases l) (simp_all add: parse_labels.simps [of "TKeyword _ # _"])
qed

lemma type_tokens_head:
  "\<exists>t us. type_tokens ty = t # us \<and> t \<notin> {TKeyword KwCase, TKeyword KwDefault, TEof} \<and> (\<forall>s. t \<noteq> TSymbol s)"
  by (cases ty) simp_all

lemma declaration_tokens_head:
  "\<exists>t us. declaration_tokens d = t # us \<and> t \<notin> {TKeyword KwCase, TKeyword KwDefault, TEof} \<and> (\<forall>s. t \<noteq> TSymbol s)"
  using type_tokens_head [of "dn_type_spec d"] by (cases d) auto

lemma declarator_tokens_head:
  "\<exists>t us. declarator_tokens d = t # us \<and> t \<noteq> TSymbol (CHR '';'') \<and> t \<noteq> TSymbol (CHR '')'')"
  by (cases d rule: declarator_tokens.cases) simp_all

section \<open>Parsing the tokens of a tree\<close>

lemma reference_opening: "\<forall>name. t \<noteq> TIdentifier name \<Longrightarrow> reference_name opening (t # ts) = (Inr None, t # ts)"
  by (cases t) (simp_all add: reference_name_def)

lemma parse_simple_types:
  "keyword_type kw = Some t \<Longrightarrow> parse_type_spec (TKeyword kw # rest) = (Inr t, rest)"
  by (cases kw) (simp_all add: parse_type_spec.simps)

lemma parse_declaration_tokens:
  assumes "\<And>us. parse_type_spec (type_tokens t @ us) = (Inr t, us)" "u = TSymbol (CHR '';'') \<or> u = TSymbol (CHR '')'')"
  shows "parse_declaration (declaration_tokens (Declaration t d) @ u # rest) = (Inr (Declaration t d), u # rest)"
proof (cases "t = TsVoid \<and> d = Declarator '''' None")
  case True
  with assms show ?thesis by (auto simp: parse_declaration.simps [of "TKeyword _ # _"] parse_simple_types)
next
  case False
  obtain v vs where v: "declarator_tokens d = v # vs" "v \<noteq> TSymbol (CHR '';'')" "v \<noteq> TSymbol (CHR '')'')"
    using declarator_tokens_head by blast
  have "parse_declarator (v # vs @ u # rest) = (Inr d, u # rest)"
    using parse_declarator_tokens [of "u # rest" u rest d] assms(2) v(1) by auto
  moreover have "declaration_tokens (Declaration t d) = type_tokens t @ v # vs" using False v(1) by simp
  ultimately show ?thesis
    using v assms(1) [of "v # vs @ u # rest"] by (simp add: parse_declaration.simps [of "type_tokens _ @ _"] del: declaration_tokens.simps)
qed

lemma parse_struct_tokens:
  assumes "\<And>d u rest. d \<in> set ds \<Longrightarrow> u = TSymbol (CHR '';'') \<Longrightarrow> parse_declaration (declaration_tokens d @ u # rest) = (Inr d, u # rest)"
  shows "parse_struct_declarations (concat (map (\<lambda>d. declaration_tokens d @ [TSymbol (CHR '';'')]) ds) @ TSymbol (CHR ''}'') # rest) = (Inr ds, rest)"
  using assms
proof (induction ds)
  case Nil
  show ?case by (simp add: parse_struct_declarations.simps)
next
  case (Cons d ds)
  obtain v vs where v: "declaration_tokens d = v # vs" "\<forall>s. v \<noteq> TSymbol s"
    using declaration_tokens_head by blast
  then have "parse_declaration (v # vs @ TSymbol (CHR '';'') # us) = (Inr d, TSymbol (CHR '';'') # us)" for us
    using Cons.prems [of d "TSymbol (CHR '';'')" us] by simp
  with v Cons show ?case
    by (simp add: parse_struct_declarations.simps [of "v # _"])
qed

lemma parse_arms_tokens:
  assumes "\<And>labels d. UnionArm labels d \<in> set arms \<Longrightarrow> labels \<noteq> [] \<and> (\<forall>rest.
      parse_declaration (declaration_tokens d @ TSymbol (CHR '';'') # rest) = (Inr d, TSymbol (CHR '';'') # rest))"
  shows "parse_union_arms (concat (map arm_tokens arms) @ TSymbol (CHR ''}'') # rest) = (Inr arms, rest)"
  using assms
proof (induction arms)
  case Nil
  show ?case by (simp add: parse_union_arms.simps)
next
  case (Cons arm arms)
  obtain labels d where arm: "arm = UnionArm labels d" by (cases arm)
  with Cons.prems [of labels d] have l: "labels \<noteq> []"
    and pd: "\<And>rest. parse_declaration (declaration_tokens d @ TSymbol (CHR '';'') # rest) = (Inr d, TSymbol (CHR '';'') # rest)" by auto
  obtain v vs where v: "declaration_tokens d = v # vs" "v \<noteq> TKeyword KwCase" "v \<noteq> TKeyword KwDefault"
    using declaration_tokens_head by blast
  let ?rest = "concat (map arm_tokens arms) @ TSymbol (CHR ''}'') # rest"
  obtain k ks where k: "concat (map label_tokens labels) = TKeyword k # ks"
    using l by (cases labels; cases "hd labels") auto
  have "parse_labels (TKeyword k # ks @ declaration_tokens d @ TSymbol (CHR '';'') # ?rest) =
      (Inr labels, declaration_tokens d @ TSymbol (CHR '';'') # ?rest)"
    using parse_labels_tokens [OF v(2,3), of labels "vs @ TSymbol (CHR '';'') # ?rest"] k v(1) by simp
  moreover have "parse_union_arms ?rest = (Inr arms, rest)"
    by (rule Cons.IH) (rule Cons.prems, simp)
  ultimately show ?case
    using arm l pd k by (simp add: parse_union_arms.simps [of "TKeyword _ # _"])
qed

lemma parse_type_tokens:
  "labelled_type t \<Longrightarrow> parse_type_spec (type_tokens t @ rest) = (Inr t, rest)"
  "labelled_declaration d \<Longrightarrow> u = TSymbol (CHR '';'') \<or> u = TSymbol (CHR '')'') \<Longrightarrow>
     parse_declaration (declaration_tokens d @ u # rest) = (Inr d, u # rest)"
  "labelled_arm a \<Longrightarrow> ua_labels a \<noteq> [] \<and> (\<forall>rest. parse_declaration (declaration_tokens (ua_declaration a) @ TSymbol (CHR '';'') # rest) =
     (Inr (ua_declaration a), TSymbol (CHR '';'') # rest))"
proof (induction t and d and a arbitrary: rest and u rest rule: labelled_type_labelled_declaration_labelled_arm.induct)
  case (1 ds)
  then have "parse_struct_declarations (concat (map (\<lambda>d. declaration_tokens d @ [TSymbol (CHR '';'')]) ds) @ TSymbol (CHR ''}'') # rest) = (Inr ds, rest)"
    by (intro parse_struct_tokens) (auto simp: list_all_iff)
  then show ?case by (simp add: parse_type_spec.simps reference_opening parse_struct_body.simps)
next
  case (2 d arms)
  then have "parse_union_arms (concat (map arm_tokens arms) @ TSymbol (CHR ''}'') # rest) = (Inr arms, rest)"
    by (intro parse_arms_tokens) (force simp: list_all_iff)
  with 2 show ?case by (simp add: parse_type_spec.simps reference_opening parse_union_body.simps)
next
  case (4 t d)
  then show ?case using parse_declaration_tokens [of t u d rest] by simp
qed (simp_all add: parse_simple_types parse_type_spec.simps [of "TKeyword KwUnsigned # _"] parse_type_spec.simps [of "TIdentifier _ # _"] parse_unsigned_def
  parse_type_spec.simps [of "TKeyword KwEnum # _"] reference_opening parse_enum_body_def parse_variants_tokens)

section \<open>Items and schemas\<close>

fun procedure_tokens :: "procedure_decl \<Rightarrow> token list" where
  "procedure_tokens (ProcedureDecl return_type name argument_type number) =
     type_tokens return_type @ TIdentifier name # TSymbol (CHR ''('') # type_tokens argument_type @
     [TSymbol (CHR '')''), TSymbol (CHR ''=''), TNumber (int number), TSymbol (CHR '';'')]"

fun version_tokens :: "version_decl \<Rightarrow> token list" where
  "version_tokens (VersionDecl name procedures number) =
     TKeyword KwVersion # TIdentifier name # TSymbol (CHR ''{'') # concat (map procedure_tokens procedures) @
     [TSymbol (CHR ''}''), TSymbol (CHR ''=''), TNumber (int number), TSymbol (CHR '';'')]"

fun item_tokens :: "item \<Rightarrow> token list" where
  "item_tokens (ItemConst name v) = [TKeyword KwConst, TIdentifier name, TSymbol (CHR ''=''), value_token v, TSymbol (CHR '';'')]"
| "item_tokens (ItemTypedef t d) = TKeyword KwTypedef # type_tokens t @ declarator_tokens d @ [TSymbol (CHR '';'')]"
| "item_tokens (ItemStruct name ds) = TKeyword KwStruct # TIdentifier name # tl (type_tokens (TsStruct ds)) @ [TSymbol (CHR '';'')]"
| "item_tokens (ItemEnum name vs) = TKeyword KwEnum # TIdentifier name # tl (type_tokens (TsEnum vs)) @ [TSymbol (CHR '';'')]"
| "item_tokens (ItemUnion name d arms) = TKeyword KwUnion # TIdentifier name # tl (type_tokens (TsUnion d arms)) @ [TSymbol (CHR '';'')]"
| "item_tokens (ItemProgram (ProgramDecl name versions number)) =
     TKeyword KwProgram # TIdentifier name # TSymbol (CHR ''{'') # concat (map version_tokens versions) @
     [TSymbol (CHR ''}''), TSymbol (CHR ''=''), TNumber (int number), TSymbol (CHR '';'')]"

fun labelled_procedure :: "procedure_decl \<Rightarrow> bool" where
  "labelled_procedure (ProcedureDecl return_type name argument_type number) =
     (labelled_type return_type \<and> labelled_type argument_type \<and> number \<le> u32_max)"

fun labelled_version :: "version_decl \<Rightarrow> bool" where
  "labelled_version (VersionDecl name procedures number) = (list_all labelled_procedure procedures \<and> number \<le> u32_max)"

fun labelled_item :: "item \<Rightarrow> bool" where
  "labelled_item (ItemTypedef t d) = labelled_type t"
| "labelled_item (ItemStruct name ds) = labelled_type (TsStruct ds)"
| "labelled_item (ItemUnion name d arms) = labelled_type (TsUnion d arms)"
| "labelled_item (ItemProgram p) = (list_all labelled_version (pg_versions p) \<and> pg_number p \<le> u32_max)"
| "labelled_item _ = True"

lemma parse_bodies_tokens:
  "labelled_type (TsStruct ds) \<Longrightarrow> parse_struct_body (tl (type_tokens (TsStruct ds)) @ rest) = (Inr ds, rest)"
  "labelled_type (TsUnion d arms) \<Longrightarrow> parse_union_body (tl (type_tokens (TsUnion d arms)) @ rest) = (Inr (d, arms), rest)"
proof -
  assume "labelled_type (TsStruct ds)"
  then have "parse_struct_declarations (concat (map (\<lambda>d. declaration_tokens d @ [TSymbol (CHR '';'')]) ds) @ TSymbol (CHR ''}'') # rest) = (Inr ds, rest)"
    by (intro parse_struct_tokens) (auto simp: list_all_iff parse_type_tokens(2))
  then show "parse_struct_body (tl (type_tokens (TsStruct ds)) @ rest) = (Inr ds, rest)"
    by (simp add: parse_struct_body.simps)
next
  assume l: "labelled_type (TsUnion d arms)"
  then have "parse_union_arms (concat (map arm_tokens arms) @ TSymbol (CHR ''}'') # rest) = (Inr arms, rest)"
    by (intro parse_arms_tokens) (force simp: list_all_iff dest: parse_type_tokens(3))
  with l show "parse_union_body (tl (type_tokens (TsUnion d arms)) @ rest) = (Inr (d, arms), rest)"
    by (simp add: parse_union_body.simps parse_type_tokens(2))
qed

lemma parse_procedure_tokens:
  assumes "labelled_procedure p"
  shows "parse_procedure (procedure_tokens p @ rest) = (Inr p, rest)"
proof -
  obtain r name a n where p: "p = ProcedureDecl r name a n" by (cases p)
  obtain t us where t: "type_tokens a = t # us" using type_tokens_head by blast
  have "parse_procedure_argument_type (type_tokens a @ TSymbol (CHR '')'') # vs) = (Inr a, TSymbol (CHR '')'') # vs)" for vs
  proof (cases "a = TsVoid")
    case False
    then have "t \<noteq> TKeyword KwVoid" using t by (cases a) auto
    with t parse_type_tokens(1) [of a "TSymbol (CHR '')'') # vs"] assms p show ?thesis
      by (simp add: parse_procedure_argument_type_def)
  qed (simp add: parse_procedure_argument_type_def)
  with assms p show ?thesis
    by (simp add: parse_procedure_def parse_type_tokens(1))
qed

definition starts_item :: "token list \<Rightarrow> bool" where
  "starts_item ts \<longleftrightarrow> (\<exists>t us. ts = t # us \<and> (\<forall>s. t \<noteq> TSymbol s))"

lemma procedure_tokens_head: "starts_item (procedure_tokens p)"
  using type_tokens_head [of "pd_return_type p"] by (cases p) (auto simp: starts_item_def)

lemma version_tokens_head: "starts_item (version_tokens v)"
  by (cases v) (simp add: starts_item_def)

text \<open>A loop that reads elements up to a closing brace reads back their tokens.\<close>

lemma loop_tokens:
  assumes "\<And>ts. loop ts = and_then (consume_symbol (CHR ''}'')) (\<lambda>closed ts. if closed then ok [] ts else
      and_then p (\<lambda>x. and_then loop (\<lambda>xs. ok (x # xs))) ts) ts"
    and "\<And>x rest. x \<in> set xs \<Longrightarrow> p (toks x @ rest) = (Inr x, rest)" "\<And>x. starts_item (toks x)"
  shows "loop (concat (map toks xs) @ TSymbol (CHR ''}'') # rest) = (Inr xs, rest)"
  using assms(2)
proof (induction xs)
  case Nil
  show ?case by (simp add: assms(1))
next
  case (Cons x xs)
  let ?rest = "concat (map toks xs) @ TSymbol (CHR ''}'') # rest"
  have IH: "loop ?rest = (Inr xs, rest)" by (rule Cons.IH) (rule Cons.prems, simp)
  obtain t us where t: "toks x = t # us" "\<forall>s. t \<noteq> TSymbol s"
    using assms(3) [of x] unfolding starts_item_def by blast
  with Cons.prems [of x ?rest] have "p (t # us @ ?rest) = (Inr x, ?rest)" by simp
  with t IH show ?case by (simp add: assms(1) [of "t # _"])
qed

lemma parse_version_tokens:
  assumes "labelled_version v"
  shows "parse_version (version_tokens v @ rest) = (Inr v, rest)"
proof -
  obtain name ps n where v: "v = VersionDecl name ps n" by (cases v)
  with assms have "parse_procedures (concat (map procedure_tokens ps) @ TSymbol (CHR ''}'') # us) = (Inr ps, us)" for us
    by (intro loop_tokens [OF parse_procedures.simps]) (auto simp: list_all_iff parse_procedure_tokens procedure_tokens_head)
  with assms v show ?thesis by (simp add: parse_version_def)
qed

lemma parse_item_tokens:
  assumes "labelled_item i"
  shows "parse_item (item_tokens i @ rest) = (Inr i, rest)"
proof (cases i rule: item_tokens.cases)
  case (6 name versions n)
  with assms have "parse_versions (concat (map version_tokens versions) @ TSymbol (CHR ''}'') # us) = (Inr versions, us)" for us
    by (intro loop_tokens [OF parse_versions.simps]) (auto simp: list_all_iff parse_version_tokens version_tokens_head)
  with assms 6 show ?thesis by (simp add: parse_item_def parse_program_def)
next
  case (2 t d)
  with assms parse_declarator_tokens [of "TSymbol (CHR '';'') # rest" "TSymbol (CHR '';'')" rest d] show ?thesis
    by (simp add: parse_item_def parse_typedef_def parse_type_tokens(1))
next
  case (3 name ds)
  with assms parse_bodies_tokens(1) [of ds "TSymbol (CHR '';'') # rest"] show ?thesis
    by (simp add: parse_item_def parse_named_struct_def)
next
  case (4 name vs)
  then show ?thesis
    by (simp add: parse_item_def parse_named_enum_def parse_enum_body_def parse_variants_tokens)
next
  case (5 name d arms)
  with assms parse_bodies_tokens(2) [of d arms "TSymbol (CHR '';'') # rest"] show ?thesis
    by (simp add: parse_item_def parse_named_union_def)
qed (simp add: parse_item_def parse_const_def)

lemma item_tokens_head: "\<exists>k us. item_tokens i = TKeyword k # us"
  by (cases i rule: item_tokens.cases) simp_all

lemma parse_schema_tokens:
  "list_all labelled_item items \<Longrightarrow> parse_schema (concat (map item_tokens items) @ [TEof]) = (Inr items, [TEof])"
proof (induction items)
  case Nil
  show ?case by (simp add: parse_schema.simps)
next
  case (Cons i items)
  obtain k us where k: "item_tokens i = TKeyword k # us" using item_tokens_head by blast
  with parse_item_tokens [of i "concat (map item_tokens items) @ [TEof]"] Cons show ?case
    by (simp add: parse_schema.simps [of "TKeyword _ # _"])
qed

section \<open>Properties\<close>

text \<open>
  The parser accepts the grammar of RFC 4506 and RFC 5531: for every list of constants, typedefs, structures,
  enumerations, unions and programs whose union arms have labels and whose program, version and procedure
  numbers fit a \<^verbatim>\<open>u32\<close>, parsing the tokens that the grammar derives for the list returns the list.\<close>
theorem schema_tokens_roundtrip:
  assumes "list_all labelled_item items"
  shows "parse_schema (concat (map item_tokens items) @ [TEof]) = (Inr items, [TEof])"
  by (rule parse_schema_tokens [OF assms])

theorem schema_tokens_roundtrip_witness:
  "parse_schema [TKeyword KwUnion, TIdentifier ''u'', TKeyword KwSwitch, TSymbol (CHR ''(''), TKeyword KwInt, TIdentifier ''k'',
       TSymbol (CHR '')''), TSymbol (CHR ''{''), TKeyword KwDefault, TSymbol (CHR '':''), TKeyword KwVoid, TSymbol (CHR '';''),
       TSymbol (CHR ''}''), TSymbol (CHR '';''), TEof] =
     (Inr [ItemUnion ''u'' (Declaration TsInt (Declarator ''k'' None)) [UnionArm [DefaultLabel] (Declaration TsVoid (Declarator '''' None))]], [TEof])"
  using schema_tokens_roundtrip [of "[ItemUnion ''u'' (Declaration TsInt (Declarator ''k'' None))
    [UnionArm [DefaultLabel] (Declaration TsVoid (Declarator '''' None))]]"]
  by simp

end
