(* ===== verification/X_Text.thy ===== *)
theory X_Text
  imports X_Roundtrip
begin

text \<open>
  From text to tokens: the text that \<^verbatim>\<open>ast.rs\<close> renders for a well-formed type lexes to the tokens of the
  type, and neither the removal of comments nor that of \<^verbatim>\<open>%\<close> lines changes it.
\<close>

section \<open>Lexing rendered text\<close>

text \<open>
  The text \<open>s\<close> lexes to \<open>toks\<close> in front of any text, or only in front of text that does not
  continue a word.
\<close>

definition lexes :: "bool \<Rightarrow> string \<Rightarrow> token list \<Rightarrow> bool" where
  "lexes anywhere s toks \<longleftrightarrow> (\<forall>rest. anywhere \<or> rest = [] \<or> \<not> is_word_char (hd rest) \<longrightarrow>
     tokenize (s @ rest) = result_bind (tokenize rest) (\<lambda>ts. Inr (toks @ ts)))"

lemma lexes_weaken: "lexes True s toks \<Longrightarrow> lexes k s toks"
  by (simp add: lexes_def)

lemma result_bind_assoc: "result_bind (result_bind r f) g = result_bind r (\<lambda>x. result_bind (f x) g)"
  by (cases r) simp_all

lemma lexes_append: "lexes True a x \<Longrightarrow> lexes k b y \<Longrightarrow> lexes k (a @ b) (x @ y)"
  by (simp add: lexes_def result_bind_assoc)

lemma lexes_append_word:
  "lexes j a x \<Longrightarrow> lexes k b y \<Longrightarrow> b \<noteq> [] \<Longrightarrow> \<not> is_word_char (hd b) \<Longrightarrow> lexes k (a @ b) (x @ y)"
  by (simp add: lexes_def result_bind_assoc)

lemma lexes_Nil: "lexes True [] []"
  by (simp add: lexes_def) (simp add: result_bind_def split: sum.split)

lemma lexes_tokenize: "lexes k s toks \<Longrightarrow> tokenize s = Inr (toks @ [TEof])"
  unfolding lexes_def by (drule spec [of _ "[]"]) simp

lemmas char_classes = is_word_char_def is_ascii_alphabetic_def is_ascii_digit_def in_range_def is_whitespace_def symbols_def

lemma symbol_classes:
  "list_all (\<lambda>c. \<not> is_whitespace c \<and> \<not> is_ascii_alphabetic c \<and> c \<noteq> CHR ''_'' \<and> \<not> is_ascii_digit c \<and> c \<noteq> CHR ''-'' \<and> \<not> is_word_char c) symbols"
  by code_simp

lemma lexes_symbol: "c \<in> set symbols \<Longrightarrow> lexes True [c] [TSymbol c]"
  using symbol_classes by (auto simp: lexes_def tokenize.simps list_all_iff)

lemma lexes_space: "lexes True '' '' []"
  by (simp add: lexes_def tokenize.simps char_classes) (simp add: result_bind_def split: sum.split)

lemma takeWhile_word:
  assumes "list_all is_word_char s" "rest = [] \<or> \<not> is_word_char (hd rest)"
  shows "takeWhile is_word_char (s @ rest) = s" "dropWhile is_word_char (s @ rest) = rest"
  using assms by (induction s) (cases rest; simp)+

lemma start_not_space: "is_ascii_alphabetic c \<or> c = CHR ''_'' \<Longrightarrow> \<not> is_whitespace c"
  by (auto simp: char_classes)

lemma lexes_word:
  assumes "is_ascii_alphabetic c \<or> c = CHR ''_''" "list_all is_word_char cs"
  shows "lexes False (c # cs) [word_token (c # cs)]"
  using assms start_not_space [OF assms(1)] takeWhile_word [OF assms(2)] by (auto simp: lexes_def tokenize.simps(2))

definition ident_ok :: "string \<Rightarrow> bool" where
  "ident_ok s \<longleftrightarrow> s \<noteq> [] \<and> (is_ascii_alphabetic (hd s) \<or> hd s = CHR ''_'') \<and> list_all is_word_char s \<and> keyword_of s = None"

lemma lexes_ident: "ident_ok s \<Longrightarrow> lexes False s [TIdentifier s]"
  using lexes_word [of "hd s" "tl s"] by (cases s) (auto simp: ident_ok_def word_token_def)

lemma lexes_keyword: "s \<noteq> [] \<Longrightarrow> is_ascii_alphabetic (hd s) \<Longrightarrow> list_all is_word_char s \<Longrightarrow> keyword_of s = Some k \<Longrightarrow> lexes False s [TKeyword k]"
  using lexes_word [of "hd s" "tl s"] by (cases s) (auto simp: word_token_def)

section \<open>Numbers\<close>

lemma from_str_radix_show: "n < 2 ^ 63 \<Longrightarrow> i64_from_str_radix (show_nat n) 10 = Some (int n)"
proof -
  assume n: "n < 2 ^ 63"
  obtain c cs where c: "show_nat n = c # cs" "is_ascii_digit c" using show_nat_digits [of n] by (cases "show_nat n") auto
  then have "c \<noteq> CHR ''-''" "c \<noteq> CHR ''+''" by (auto simp: is_ascii_digit_def in_range_def)
  moreover have "int n < 2 ^ 63" using n by simp
  ultimately show ?thesis
    using c digits_value_show [of n] by (simp add: i64_from_str_radix_def)
qed

lemma parse_number_show: "n < 2 ^ 63 \<Longrightarrow> parse_number (show_nat n) = Inr (int n)" "n < 2 ^ 63 \<Longrightarrow> parse_number (CHR ''-'' # show_nat n) = Inr (- int n)"
proof -
  assume n: "n < 2 ^ 63"
  obtain c cs where c: "show_nat n = c # cs" "is_ascii_digit c" "c = CHR ''0'' \<Longrightarrow> cs = []"
    using show_nat_digits [of n] by (cases "show_nat n") auto
  have "take 2 (show_nat n) \<noteq> ''0x''" "take 2 (show_nat n) \<noteq> ''0X''" "\<not> (length (show_nat n) > 1 \<and> hd (show_nat n) = CHR ''0'')"
    using c by (cases cs; auto)+
  moreover have "c \<noteq> CHR ''-''" using c(2) by (auto simp: is_ascii_digit_def in_range_def)
  ultimately show "parse_number (show_nat n) = Inr (int n)" "parse_number (CHR ''-'' # show_nat n) = Inr (- int n)"
    using c(1) from_str_radix_show [OF n] by (auto simp: parse_number_def)
qed

lemma lexes_number:
  assumes "- (2 ^ 63) < n" "n < 2 ^ 63"
  shows "lexes False (show_int n) [TNumber n]"
proof -
  define c cs where "c = hd (show_int n)" "cs = tl (show_int n)"
  have digits: "list_all is_word_char (show_nat m)" for m
    using show_nat_digits [of m] by (auto simp: list_all_iff is_word_char_def)
  have s: "show_int n = c # cs" and "is_ascii_digit c \<or> c = CHR ''-''" and "list_all is_word_char cs"
    using show_nat_digits [of "nat n"] digits [of "nat n"] digits [of "nat (- n)"]
    by (auto simp: c_cs_def show_int_def neq_Nil_conv)
  moreover from this(2) have "\<not> is_whitespace c" "\<not> (is_ascii_alphabetic c \<or> c = CHR ''_'')" by (auto simp: char_classes)
  moreover have "nat n < 2 ^ 63" "nat (- n) < 2 ^ 63" using assms by (simp_all add: nat_less_iff)
  then have "parse_number (show_int n) = Inr n"
    using parse_number_show [of "nat n"] parse_number_show [of "nat (- n)"] by (simp add: show_int_def)
  ultimately show ?thesis
    using takeWhile_word [of cs] by (auto simp: lexes_def tokenize.simps(2) s)
qed

section \<open>Well-formed trees\<close>

fun value_ok :: "value_expr \<Rightarrow> bool" where
  "value_ok (ValueNumber n) = (- (2 ^ 63) < n \<and> n < 2 ^ 63)"
| "value_ok (ValueIdentifier name) = ident_ok name"

fun declarator_ok :: "declarator \<Rightarrow> bool" where
  "declarator_ok (Declarator name m) = (ident_ok name \<and> (case m of
     Some (FixedArray b) \<Rightarrow> value_ok b | Some (VariableArray (Some b)) \<Rightarrow> value_ok b | _ \<Rightarrow> True))"

fun variant_ok :: "enum_variant \<Rightarrow> bool" where
  "variant_ok (EnumVariant name v) = (ident_ok name \<and> value_ok v)"

fun label_ok :: "union_case_label \<Rightarrow> bool" where
  "label_ok (CaseLabel v) = value_ok v"
| "label_ok DefaultLabel = True"

fun type_ok :: "type_spec \<Rightarrow> bool"
  and declaration_ok :: "xdr_declaration \<Rightarrow> bool"
  and arm_ok :: "union_arm \<Rightarrow> bool" where
  "type_ok (TsIdentifier name) = ident_ok name"
| "type_ok (TsEnum vs) = list_all variant_ok vs"
| "type_ok (TsStruct ds) = list_all declaration_ok ds"
| "type_ok (TsUnion d arms) = (declaration_ok d \<and> list_all arm_ok arms)"
| "type_ok _ = True"
| "declaration_ok (Declaration t d) = (type_ok t \<and> (declarator_ok d \<or> t = TsVoid \<and> d = Declarator '''' None))"
| "arm_ok (UnionArm labels d) = (labels \<noteq> [] \<and> list_all label_ok labels \<and> declaration_ok d)"

lemma type_ok_labelled:
  "type_ok t \<Longrightarrow> labelled_type t" "declaration_ok d \<Longrightarrow> labelled_declaration d" "arm_ok a \<Longrightarrow> labelled_arm a"
  by (induction t and d and a rule: type_ok_declaration_ok_arm_ok.induct) (auto simp: list_all_iff)

section \<open>What the renderer writes\<close>

lemmas lex_word_simps = char_classes keyword_of_def keyword_table_def

lemma lexes_type_words:
  "lexes False ''void'' [TKeyword KwVoid]" "lexes False ''bool'' [TKeyword KwBool]" "lexes False ''int'' [TKeyword KwInt]"
  "lexes False ''hyper'' [TKeyword KwHyper]" "lexes False ''float'' [TKeyword KwFloat]" "lexes False ''double'' [TKeyword KwDouble]"
  "lexes False ''quadruple'' [TKeyword KwQuadruple]" "lexes False ''opaque'' [TKeyword KwOpaque]" "lexes False ''string'' [TKeyword KwString]"
  "lexes False ''unsigned'' [TKeyword KwUnsigned]" "lexes False ''enum'' [TKeyword KwEnum]" "lexes False ''struct'' [TKeyword KwStruct]"
  "lexes False ''union'' [TKeyword KwUnion]" "lexes False ''switch'' [TKeyword KwSwitch]" "lexes False ''case'' [TKeyword KwCase]"
  "lexes False ''default'' [TKeyword KwDefault]" "lexes False ''typedef'' [TKeyword KwTypedef]"
  by (rule lexes_keyword; code_simp)+

lemma lexes_const: "lexes False ''const'' [TKeyword KwConst]"
  by (rule lexes_keyword; code_simp)

text \<open>A literal piece: a word followed by symbols and spaces.\<close>

fun punctuation :: "string \<Rightarrow> token list" where
  "punctuation [] = []"
| "punctuation (c # cs) = (if c = CHR '' '' then punctuation cs else TSymbol c # punctuation cs)"

lemma lexes_punctuation: "list_all (\<lambda>c. c = CHR '' '' \<or> c \<in> set symbols) s \<Longrightarrow> lexes True s (punctuation s)"
proof (induction s)
  case Nil
  show ?case by (simp add: lexes_Nil)
next
  case (Cons c s)
  then have s: "lexes True s (punctuation s)" by simp
  show ?case
    using lexes_append [OF lexes_space s] lexes_append [OF lexes_symbol s, of c] Cons.prems by auto
qed

lemma punctuation_not_word: "c = CHR '' '' \<or> c \<in> set symbols \<Longrightarrow> \<not> is_word_char c"
proof -
  have "\<not> is_word_char (CHR '' '')" by code_simp
  then show "c = CHR '' '' \<or> c \<in> set symbols \<Longrightarrow> \<not> is_word_char c"
    using symbol_classes by (auto simp: list_all_iff)
qed

lemma lexes_then:
  assumes "lexes j a x" "list_all (\<lambda>c. c = CHR '' '' \<or> c \<in> set symbols) s" "s \<noteq> []"
  shows "lexes True (a @ s) (x @ punctuation s)"
proof -
  have "\<not> is_word_char (hd s)"
    using assms(2,3) by (cases s) (simp_all add: punctuation_not_word)
  with lexes_append_word [OF assms(1) lexes_punctuation [OF assms(2)]] assms(3) show ?thesis by simp
qed

lemma lexes_sep:
  assumes "lexes j a x" "list_all (\<lambda>c. c = CHR '' '' \<or> c \<in> set symbols) s" "s \<noteq> []" "lexes k b y"
  shows "lexes k (a @ s @ b) (x @ punctuation s @ y)"
  using lexes_append [OF lexes_then [OF assms(1-3)] assms(4)] by simp

lemma lexes_value: "value_ok v \<Longrightarrow> lexes False (render_value v) [value_token v]"
  by (cases v) (simp_all add: lexes_number lexes_ident)

lemma symbols_mem [simp]:
  "CHR ''{'' \<in> set symbols" "CHR ''}'' \<in> set symbols" "CHR ''('' \<in> set symbols" "CHR '')'' \<in> set symbols" "CHR ''<'' \<in> set symbols"
  "CHR ''>'' \<in> set symbols" "CHR ''['' \<in> set symbols" "CHR '']'' \<in> set symbols" "CHR '';'' \<in> set symbols" "CHR '','' \<in> set symbols"
  "CHR ''='' \<in> set symbols" "CHR '':'' \<in> set symbols" "CHR ''*'' \<in> set symbols"
  by (simp_all add: symbols_def)

lemma lexes_declarator:
  assumes "declarator_ok d"
  shows "lexes False (render_declarator d) (declarator_tokens d)"
proof (cases d rule: declarator_tokens.cases)
  case (1 name)
  with assms show ?thesis by (simp add: lexes_ident)
next
  case (2 name)
  with assms lexes_append [OF lexes_symbol [of "CHR ''*''"] lexes_ident [of name]] show ?thesis by simp
next
  case (3 name b)
  with assms have "lexes True (name @ ''['' @ render_value b @ '']'') ([TIdentifier name] @ punctuation ''['' @ [value_token b] @ punctuation '']'')"
    by (intro lexes_sep [OF lexes_ident] lexes_then [OF lexes_value]) simp_all
  with 3 show ?thesis by (simp add: lexes_weaken)
next
  case (4 name)
  with assms lexes_then [OF lexes_ident, of name "''<>''"] show ?thesis by (simp add: lexes_weaken)
next
  case (5 name b)
  with assms have "lexes True (name @ ''<'' @ render_value b @ ''>'') ([TIdentifier name] @ punctuation ''<'' @ [value_token b] @ punctuation ''>'')"
    by (intro lexes_sep [OF lexes_ident] lexes_then [OF lexes_value]) simp_all
  with 5 show ?thesis by (simp add: lexes_weaken)
qed

lemma lexes_variant: "variant_ok v \<Longrightarrow> lexes False (render_variant v) (variant_tokens v)"
proof (cases v)
  case (EnumVariant name val)
  moreover assume "variant_ok v"
  ultimately have "lexes False (name @ '' = '' @ render_value val) ([TIdentifier name] @ punctuation '' = '' @ [value_token val])"
    by (intro lexes_sep [OF lexes_ident] lexes_value) simp_all
  with EnumVariant show ?thesis by simp
qed

lemma lexes_variants: "list_all variant_ok vs \<Longrightarrow> lexes False (join_with '', '' (map render_variant vs)) (variants_tokens vs)"
proof (induction vs rule: variants_tokens.induct)
  case (3 v w vs)
  then have "lexes False (render_variant v @ '', '' @ join_with '', '' (map render_variant (w # vs)))
      (variant_tokens v @ punctuation '', '' @ variants_tokens (w # vs))"
    by (intro lexes_sep [OF lexes_variant]) simp_all
  then show ?case by simp
qed (simp_all add: lexes_weaken [OF lexes_Nil] lexes_variant)

lemma lexes_label: "label_ok l \<Longrightarrow> lexes True (render_label l) (label_tokens l)"
proof (cases l)
  case (CaseLabel v)
  moreover assume "label_ok l"
  ultimately have "lexes True (''case'' @ '' '' @ render_value v @ '': '') ([TKeyword KwCase] @ punctuation '' '' @ [value_token v] @ punctuation '': '')"
    by (intro lexes_sep [OF lexes_type_words(15)] lexes_then [OF lexes_value]) simp_all
  with CaseLabel show ?thesis by simp
next
  case DefaultLabel
  then show ?thesis using lexes_then [OF lexes_type_words(16), of "'': ''"] by simp
qed

lemma lexes_concat: "(\<And>x. x \<in> set xs \<Longrightarrow> lexes True (f x) (g x)) \<Longrightarrow> lexes True (concat (map f xs)) (concat (map g xs))"
  by (induction xs) (auto intro: lexes_Nil lexes_append)

lemma lexes_struct_items:
  "(\<And>d. d \<in> set ds \<Longrightarrow> lexes False (f d) (g d)) \<Longrightarrow> ds \<noteq> [] \<Longrightarrow>
   lexes True (join_with ''; '' (map f ds) @ '';'') (concat (map (\<lambda>d. g d @ [TSymbol (CHR '';'')]) ds))"
proof (induction ds rule: induct_list012)
  case (2 d)
  then show ?case using lexes_then [of False "f d" "g d" "'';''"] by simp
next
  case (3 d e ds)
  have "lexes True (f d @ ''; '' @ (join_with ''; '' (map f (e # ds)) @ '';''))
      (g d @ punctuation ''; '' @ concat (map (\<lambda>d. g d @ [TSymbol (CHR '';'')]) (e # ds)))"
    by (intro lexes_sep "3.IH"(2) "3.prems") (use "3.prems" in auto)
  then show ?case by simp
qed simp

lemma lexes_arms:
  "(\<And>a. a \<in> set as \<Longrightarrow> lexes True (f a) (g a)) \<Longrightarrow> lexes True (join_with '' '' (map f as)) (concat (map g as))"
proof (induction as rule: induct_list012)
  case (3 a b as)
  have "lexes True (f a @ '' '' @ join_with '' '' (map f (b # as))) (g a @ [] @ concat (map g (b # as)))"
    by (intro lexes_append lexes_space "3.IH"(2) "3.prems") (use "3.prems" in auto)
  then show ?case by simp
qed (simp_all add: lexes_Nil)

lemma lexes_type:
  "type_ok t \<Longrightarrow> lexes False (render_type_spec t) (type_tokens t)"
  "declaration_ok d \<Longrightarrow> lexes False (render_inline_declaration d) (declaration_tokens d)"
  "arm_ok a \<Longrightarrow> lexes True (render_inline_arm a) (arm_tokens a)"
proof (induction t and d and a rule: render_type_spec_render_inline_declaration_render_inline_arm.induct)
  case 4
  show ?case using lexes_sep [OF lexes_type_words(10) _ _ lexes_type_words(3), of "'' ''"] by simp
next
  case 6
  show ?case using lexes_sep [OF lexes_type_words(10) _ _ lexes_type_words(4), of "'' ''"] by simp
next
  case (12 name)
  then show ?case by (simp add: lexes_ident)
next
  case (13 vs)
  then have "lexes True (''enum'' @ '' { '' @ join_with '', '' (map render_variant vs) @ '' }'')
      ([TKeyword KwEnum] @ punctuation '' { '' @ variants_tokens vs @ punctuation '' }'')"
    by (intro lexes_sep [OF lexes_type_words(11)] lexes_then [OF lexes_variants]) simp_all
  then show ?case by (simp add: render_inline_enum_def lexes_weaken)
next
  case (14 ds)
  have "lexes True (join_with ''; '' (map render_inline_declaration ds) @ (if ds = [] then '''' else '';''))
      (concat (map (\<lambda>d. declaration_tokens d @ [TSymbol (CHR '';'')]) ds))"
    using lexes_struct_items [of ds render_inline_declaration declaration_tokens] 14 by (auto simp: lexes_Nil list_all_iff)
  then have "lexes True (''struct'' @ '' { '' @ (join_with ''; '' (map render_inline_declaration ds) @ (if ds = [] then '''' else '';'')) @ '' }'')
      ([TKeyword KwStruct] @ punctuation '' { '' @ concat (map (\<lambda>d. declaration_tokens d @ [TSymbol (CHR '';'')]) ds) @ punctuation '' }'')"
    by (intro lexes_sep [OF lexes_type_words(12)] lexes_then) simp_all
  then show ?case by (simp add: lexes_weaken)
next
  case (15 d arms)
  have "lexes True (join_with '' '' (map render_inline_arm arms)) (concat (map arm_tokens arms))"
    using 15 by (intro lexes_arms) (auto simp: list_all_iff)
  with 15 have "lexes True (''union'' @ '' '' @ ''switch'' @ '' ('' @ render_inline_declaration d @ '') { '' @ join_with '' '' (map render_inline_arm arms) @ ''}'')
      ([TKeyword KwUnion] @ punctuation '' '' @ [TKeyword KwSwitch] @ punctuation '' ('' @ declaration_tokens d @ punctuation '') { '' @
       concat (map arm_tokens arms) @ punctuation ''}'')"
    by (intro lexes_sep [OF lexes_type_words(13)] lexes_sep [OF lexes_type_words(14)] lexes_sep lexes_then) simp_all
  then show ?case by (simp add: lexes_weaken)
next
  case (16 t d)
  show ?case
  proof (cases "t = TsVoid \<and> d = Declarator '''' None")
    case True
    then show ?thesis using lexes_then [OF lexes_type_words(1), of "'' ''"] by (simp add: lexes_weaken)
  next
    case False
    with 16 have "lexes False (render_type_spec t @ '' '' @ render_declarator d) (type_tokens t @ punctuation '' '' @ declarator_tokens d)"
      by (intro lexes_sep lexes_declarator) auto
    with False show ?thesis by auto
  qed
next
  case (17 labels d)
  then have "lexes True (concat (map render_label labels) @ render_inline_declaration d @ ''; '')
      (concat (map label_tokens labels) @ declaration_tokens d @ punctuation ''; '')"
    by (intro lexes_append [OF lexes_concat] lexes_then) (auto simp: list_all_iff intro: lexes_label)
  then show ?case by simp
qed (simp_all add: lexes_type_words)

section \<open>Rendered text has no comments and no lines\<close>

definition plain_char :: "char \<Rightarrow> bool" where
  "plain_char c \<longleftrightarrow> c \<noteq> CHR ''/'' \<and> c \<noteq> CHR ''%'' \<and> c \<noteq> CHR 0x0A"

lemma plain_literal: "c \<noteq> CHR ''/'' \<Longrightarrow> c \<noteq> CHR ''%'' \<Longrightarrow> c \<noteq> CHR 0x0A \<Longrightarrow> plain_char c"
  by (simp add: plain_char_def)

lemma strip_comments_plain: "list_all plain_char s \<Longrightarrow> strip_block_comments s = Inr s"
proof (induction s)
  case (Cons c s)
  then have "strip_block_comments s = Inr s" "c \<noteq> CHR ''/''" by (simp_all add: plain_char_def)
  then show ?case by (cases s) (simp_all add: strip_block_comments.simps(2) [of c])
qed simp

lemma skip_comment_text: "CHR ''*'' \<notin> set c \<Longrightarrow> skip_comment (c @ ''*/'' @ s) = Some s"
proof (induction c)
  case (Cons x c)
  then show ?case by (cases c) auto
qed simp

lemma strip_comment_between:
  assumes "list_all plain_char p" "CHR ''*'' \<notin> set c" "list_all plain_char s"
  shows "strip_block_comments (p @ ''/*'' @ c @ ''*/'' @ s) = Inr (p @ s)"
  using assms(1)
proof (induction p)
  case Nil
  show ?case
    using skip_comment_text [OF assms(2), of s] strip_comments_plain [OF assms(3)]
    by (simp add: strip_block_comments.simps(2) [of "CHR ''/''"])
next
  case (Cons x p)
  then have "x \<noteq> CHR ''/''" "strip_block_comments (p @ ''/*'' @ c @ ''*/'' @ s) = Inr (p @ s)" by (simp_all add: plain_char_def)
  then show ?case by (cases p) (simp_all add: strip_block_comments.simps(2) [of x])
qed

lemma strip_lines_plain:
  assumes "list_all plain_char s"
  shows "strip_unsupported_lines s = s"
proof (cases "s = []")
  case True
  then show ?thesis by (simp add: strip_unsupported_lines_def str_lines.simps)
next
  case False
  have "takeWhile (\<lambda>c. c \<noteq> CHR 0x0A) s = s" "dropWhile (\<lambda>c. c \<noteq> CHR 0x0A) s = []"
    using assms by (auto simp: list_all_iff plain_char_def)
  moreover from this have "str_lines s = [s]" using False by (simp add: str_lines.simps [of s] Let_def del: takeWhile_eq_all_conv dropWhile_eq_Nil_conv)
  moreover have "c \<noteq> CHR ''%''" if "dropWhile is_whitespace s = c # cs" for c cs
    using assms set_dropWhileD [of c is_whitespace s] that by (auto simp: list_all_iff plain_char_def)
  ultimately show ?thesis by (auto simp: strip_unsupported_lines_def split: list.split)
qed

lemma plain_word: "list_all is_word_char s \<Longrightarrow> list_all plain_char s"
  by (auto simp: list_all_iff plain_char_def is_word_char_def is_ascii_alphabetic_def is_ascii_digit_def in_range_def)

lemma plain_ident: "ident_ok s \<Longrightarrow> list_all plain_char s"
  by (simp add: ident_ok_def plain_word)

lemma plain_show_nat: "list_all plain_char (show_nat n)"
  using show_nat_digits [of n] by (intro plain_word) (simp add: list_all_iff is_word_char_def)

lemma plain_value: "value_ok v \<Longrightarrow> list_all plain_char (render_value v)"
  by (cases v) (auto simp: plain_ident plain_show_nat show_int_def plain_char_def)

lemma plain_join: "list_all plain_char (join_with sep xs) \<longleftrightarrow> list_all (list_all plain_char) xs \<and> (length xs > 1 \<longrightarrow> list_all plain_char sep)"
  by (induction sep xs rule: join_with.induct) auto

lemma plain_concat: "list_all plain_char (concat xs) \<longleftrightarrow> list_all (list_all plain_char) xs"
  by (auto simp: list_all_iff)

lemma plain_declarator: "declarator_ok d \<Longrightarrow> list_all plain_char (render_declarator d)"
  by (cases d rule: declarator_tokens.cases) (simp_all add: plain_ident plain_value, simp_all add: plain_char_def)

lemma plain_variant: "variant_ok v \<Longrightarrow> list_all plain_char (render_variant v)"
  by (cases v) (simp add: plain_ident plain_value, simp add: plain_char_def)

lemma plain_label: "label_ok l \<Longrightarrow> list_all plain_char (render_label l)"
  by (cases l) (simp_all add: plain_value, simp_all add: plain_char_def)

lemma plain_type:
  "type_ok t \<Longrightarrow> list_all plain_char (render_type_spec t)"
  "declaration_ok d \<Longrightarrow> list_all plain_char (render_inline_declaration d)"
  "arm_ok a \<Longrightarrow> list_all plain_char (render_inline_arm a)"
proof (induction t and d and a rule: render_type_spec_render_inline_declaration_render_inline_arm.induct)
  case (16 t d)
  moreover have "plain_char (CHR '' '')" by (simp add: plain_char_def)
  ultimately show ?case using plain_declarator [of d] by auto
next
  case (17 labels d)
  then have "list_all (list_all plain_char) (map render_label labels)" "list_all plain_char (render_inline_declaration d)"
    using plain_label by (auto simp: list_all_iff)
  moreover have "plain_char (CHR '';'')" "plain_char (CHR '' '')" by (simp_all add: plain_char_def)
  ultimately show ?case by (simp add: plain_concat)
qed (simp_all add: plain_literal plain_ident render_inline_enum_def plain_join list.pred_map comp_def list.pred_mono_strong plain_variant,
     auto simp: list_all_iff plain_variant)

section \<open>Properties\<close>

text \<open>
  C23. The text that \<^verbatim>\<open>ast.rs\<close> renders for a type and a declarator, written as a typedef, is read back by
  \<^verbatim>\<open>parse_x_source\<close> as that typedef: every comment, line, token and grammar pass included. The names must be
  identifiers of the language that are not keywords, the numbers fit an \<^verbatim>\<open>i64\<close> other than its minimum, and every
  arm of a union has a label.\<close>
theorem typedef_text_roundtrip:
  assumes "type_ok t" "declarator_ok d"
  shows "parse_x_source (''typedef '' @ render_type_spec t @ '' '' @ render_declarator d @ '';'') = Inr [ItemTypedef t d]"
proof -
  let ?s = "''typedef'' @ '' '' @ render_type_spec t @ '' '' @ render_declarator d @ '';''"
  have "lexes True ?s ([TKeyword KwTypedef] @ punctuation '' '' @ type_tokens t @ punctuation '' '' @ declarator_tokens d @ punctuation '';'')"
    using assms by (intro lexes_sep [OF lexes_type_words(17)] lexes_sep [OF lexes_type(1)] lexes_then [OF lexes_declarator]) simp_all
  then have "tokenize ?s = Inr (item_tokens (ItemTypedef t d) @ [TEof])" by (auto dest: lexes_tokenize)
  moreover have "list_all plain_char ?s"
    using plain_type(1) [OF assms(1)] plain_declarator [OF assms(2)] by (simp add: plain_literal)
  moreover have "parse_schema (item_tokens (ItemTypedef t d) @ [TEof]) = (Inr [ItemTypedef t d], [TEof])"
    using parse_schema_tokens [of "[ItemTypedef t d]"] type_ok_labelled(1) [OF assms(1)] by simp
  ultimately show ?thesis
    by (simp add: parse_x_source_def strip_comments_plain strip_lines_plain)
qed

theorem typedef_text_roundtrip_witness:
  "parse_x_source ''typedef struct { int a[3]; void ; } foo<>;'' =
     Inr [ItemTypedef (TsStruct [Declaration TsInt (Declarator ''a'' (Some (FixedArray (ValueNumber 3)))), Declaration TsVoid (Declarator '''' None)])
       (Declarator ''foo'' (Some (VariableArray None)))]"
proof -
  let ?t = "TsStruct [Declaration TsInt (Declarator ''a'' (Some (FixedArray (ValueNumber 3)))), Declaration TsVoid (Declarator '''' None)]"
  let ?d = "Declarator ''foo'' (Some (VariableArray None))"
  have "ident_ok ''a''" "ident_ok ''foo''" by code_simp+
  moreover have "render_type_spec ?t = ''struct { int a[3]; void ; }''" "render_declarator ?d = ''foo<>''" by code_simp+
  ultimately show ?thesis using typedef_text_roundtrip [of ?t ?d] by simp
qed

text \<open>
  A comment inside a word disappears without a trace: the two halves become one identifier, where a comment
  separates words in the language that the generator reads. The comment's text is arbitrary but for
  the character that could end it.\<close>
theorem comment_joins_words:
  assumes "ident_ok (a @ b)" "CHR ''*'' \<notin> set c"
  shows "parse_x_source (''const '' @ a @ ''/*'' @ c @ ''*/'' @ b @ '' = 1;'') = Inr [ItemConst (a @ b) (ValueNumber 1)]"
proof -
  let ?s = "''const'' @ '' '' @ (a @ b) @ '' = '' @ ''1'' @ '';''"
  have one: "show_int 1 = ''1''" by code_simp
  have "lexes True ?s ([TKeyword KwConst] @ punctuation '' '' @ [TIdentifier (a @ b)] @ punctuation '' = '' @ [TNumber 1] @ punctuation '';'')"
    using lexes_number [of 1, unfolded one] assms(1)
    by (intro lexes_sep [OF lexes_const] lexes_sep [OF lexes_ident] lexes_then) simp_all
  then have "tokenize ?s = Inr (item_tokens (ItemConst (a @ b) (ValueNumber 1)) @ [TEof])" by (auto dest: lexes_tokenize)
  moreover have ab: "list_all plain_char (''const '' @ a)" "list_all plain_char (b @ '' = 1;'')"
    using plain_ident [OF assms(1)] by (simp_all add: plain_literal)
  moreover have "parse_schema (item_tokens (ItemConst (a @ b) (ValueNumber 1)) @ [TEof]) = (Inr [ItemConst (a @ b) (ValueNumber 1)], [TEof])"
    using parse_schema_tokens [of "[ItemConst (a @ b) (ValueNumber 1)]"] by simp
  moreover have "strip_block_comments ((''const '' @ a) @ ''/*'' @ c @ ''*/'' @ b @ '' = 1;'') = Inr ?s"
    by (subst strip_comment_between) (use ab assms(2) in simp_all)
  ultimately show ?thesis
    using strip_lines_plain [of ?s] by (simp add: parse_x_source_def)
qed

theorem comment_joins_words_witness:
  "parse_x_source ''const A/* and */B = 1;'' = Inr [ItemConst ''AB'' (ValueNumber 1)]"
proof -
  have "ident_ok (''A'' @ ''B'')" by code_simp
  then show ?thesis using comment_joins_words [of "''A''" "''B''" "'' and ''"] by simp
qed

end
