(* ===== verification/X_Wf.thy ===== *)
theory X_Wf
  imports X_Text
begin

text \<open>
  What \<^verbatim>\<open>parse_x_source\<close> returns is well formed: the names are identifiers and no keywords, the numbers are in
  the range a literal can have, program, version and procedure numbers fit a \<^verbatim>\<open>u32\<close>, every arm of a union has a label.
\<close>

section \<open>Well-formed items\<close>

fun procedure_ok :: "procedure_decl \<Rightarrow> bool" where
  "procedure_ok (ProcedureDecl r name a number) = (type_ok r \<and> ident_ok name \<and> type_ok a \<and> number \<le> u32_max)"

fun version_ok :: "version_decl \<Rightarrow> bool" where
  "version_ok (VersionDecl name procedures number) = (ident_ok name \<and> list_all procedure_ok procedures \<and> number \<le> u32_max)"

fun item_ok :: "item \<Rightarrow> bool" where
  "item_ok (ItemConst name value) = (ident_ok name \<and> value_ok value)"
| "item_ok (ItemTypedef t d) = (type_ok t \<and> declarator_ok d)"
| "item_ok (ItemStruct name ds) = (ident_ok name \<and> list_all declaration_ok ds)"
| "item_ok (ItemEnum name vs) = (ident_ok name \<and> list_all variant_ok vs)"
| "item_ok (ItemUnion name d arms) = (ident_ok name \<and> declaration_ok d \<and> list_all arm_ok arms)"
| "item_ok (ItemProgram p) = (ident_ok (pg_name p) \<and> list_all version_ok (pg_versions p) \<and> pg_number p \<le> u32_max)"

fun token_ok :: "token \<Rightarrow> bool" where
  "token_ok (TIdentifier name) = ident_ok name"
| "token_ok (TNumber n) = (- (2 ^ 63) < n \<and> n < 2 ^ 63)"
| "token_ok _ = True"

abbreviation tokens_ok :: "token list \<Rightarrow> bool" where
  "tokens_ok \<equiv> list_all token_ok"

section \<open>Tokens\<close>

lemma from_str_radix_unsigned:
  assumes "i64_from_str_radix s radix = Some n" "list_all is_word_char s"
  shows "0 \<le> n \<and> n < 2 ^ 63"
proof -
  have "c \<noteq> CHR ''-''" if "s = c # cs" for c cs
    using assms(2) that by (auto simp: is_word_char_def is_ascii_alphabetic_def is_ascii_digit_def in_range_def)
  with assms(1) show ?thesis
    by (auto simp: i64_from_str_radix_def Let_def split: list.splits if_splits option.splits)
qed

lemma parse_number_body:
  assumes "parse_number text = Inr n" "digits = (if text \<noteq> [] \<and> hd text = CHR ''-'' then tl text else text)"
  shows "\<exists>k radix v. i64_from_str_radix (drop k digits) radix = Some v \<and> (n = v \<or> n = - v)"
proof -
  obtain k and radix :: nat where body: "(if take 2 digits = ''0x'' \<or> take 2 digits = ''0X'' then (16, drop 2 digits)
      else if length digits > 1 \<and> hd digits = CHR ''0'' then (8, drop 1 digits) else (10, digits)) = (radix, drop k digits)"
    by (metis drop0)
  have sign: "(case text of c # rest \<Rightarrow> if c = CHR ''-'' then (True, rest) else (False, text) | [] \<Rightarrow> (False, text)) =
      (text \<noteq> [] \<and> hd text = CHR ''-'', digits)"
    using assms(2) by (simp split: list.split)
  show ?thesis
    using assms(1) unfolding parse_number_def Let_def sign prod.case body by (auto split: option.splits if_splits)
qed

lemma parse_number_range:
  assumes "parse_number (c # cs) = Inr n" "is_ascii_digit c \<or> c = CHR ''-''" "list_all is_word_char cs"
  shows "- (2 ^ 63) < n \<and> n < 2 ^ 63"
proof -
  define digits where "digits = (if c # cs \<noteq> [] \<and> hd (c # cs) = CHR ''-'' then tl (c # cs) else c # cs)"
  obtain k radix v where v: "i64_from_str_radix (drop k digits) radix = Some v" "n = v \<or> n = - v"
    using parse_number_body [OF assms(1) digits_def] by blast
  have "list_all is_word_char digits"
    using assms(2,3) by (auto simp: digits_def is_word_char_def)
  then have "list_all is_word_char (drop k digits)"
    using set_drop_subset [of k digits] by (auto simp: list_all_iff)
  from from_str_radix_unsigned [OF v(1) this] v(2) show ?thesis by auto
qed

lemma word_token_ok:
  assumes "is_ascii_alphabetic c \<or> c = CHR ''_''" "list_all is_word_char cs"
  shows "token_ok (word_token (c # cs))"
  using assms by (auto simp: word_token_def ident_ok_def is_word_char_def split: option.split)

lemma takeWhile_all: "list_all P (takeWhile P xs)"
  by (auto simp: list_all_iff dest: set_takeWhileD)

lemma tokenize_ok: "tokenize s = Inr ts \<Longrightarrow> tokens_ok ts"
proof (induction s arbitrary: ts rule: tokenize.induct)
  case (2 ch cs)
  note IH = 2(1-4)
  show ?case
    using 2(5) IH word_token_ok [OF _ takeWhile_all, of ch cs] parse_number_range [OF _ _ takeWhile_all, of ch cs]
    by (auto simp: tokenize.simps(2) result_bind_def split: if_splits sum.splits)
qed simp

section \<open>What the parser returns\<close>

definition returns :: "('a \<Rightarrow> bool) \<Rightarrow> 'a token_parser \<Rightarrow> token list \<Rightarrow> bool" where
  "returns Q p ts \<longleftrightarrow> (tokens_ok ts \<longrightarrow> (\<forall>x ts'. p ts = (Inr x, ts') \<longrightarrow> Q x \<and> tokens_ok ts'))"

lemma returns_and_then:
  "returns Q p ts \<Longrightarrow> (\<And>x t. p ts = (Inr x, t) \<Longrightarrow> Q x \<Longrightarrow> returns R (f x) t) \<Longrightarrow> returns R (and_then p f) ts"
  unfolding returns_def by (fastforce simp: and_then_Inr_iff)

lemma returns_ok: "Q x \<Longrightarrow> returns Q (ok x) ts"
  by (simp add: returns_def)

lemma returns_err: "returns Q (err e) ts"
  by (simp add: returns_def)

lemma returns_if: "(b \<Longrightarrow> returns Q p ts) \<Longrightarrow> (\<not> b \<Longrightarrow> returns Q q ts) \<Longrightarrow> returns Q (if b then p else q) ts"
  by simp

lemma returns_if_state: "(b \<Longrightarrow> returns Q p ts) \<Longrightarrow> (\<not> b \<Longrightarrow> returns Q q ts) \<Longrightarrow> returns Q (\<lambda>ts. if b then p ts else q ts) ts"
  by (simp add: returns_def)

lemma returns_eq: "p ts = and_then m f ts \<Longrightarrow> returns Q (and_then m f) ts \<Longrightarrow> returns Q p ts"
  by (simp add: returns_def)

lemma returns_readers:
  "returns token_ok next_token ts" "returns token_ok peek ts" "returns (\<lambda>_. True) (expect_keyword kw) ts"
  "returns (\<lambda>_. True) (expect_symbol s) ts" "returns (\<lambda>_. True) (consume_symbol s) ts" "returns ident_ok expect_identifier ts"
  "returns (\<lambda>n. n \<le> u32_max) expect_u32 ts" "returns value_ok parse_value_expr ts"
  by (auto simp: returns_def token_iffs split: if_splits value_expr.splits)

lemmas returns_first = returns_readers [THEN returns_and_then]

lemmas returns_branch = returns_if returns_if_state returns_ok returns_err

lemma returns_declarator: "returns declarator_ok parse_declarator ts"
  unfolding parse_declarator_def by ((rule returns_first returns_branch | simp)+)

lemma returns_enum_variants: "returns (list_all variant_ok) parse_enum_variants ts"
proof (induction ts rule: parse_enum_variants.induct)
  case (1 ts)
  show ?case
    by (rule returns_eq [OF parse_enum_variants.simps])
       ((rule returns_first returns_branch returns_and_then [OF 1] | assumption | simp)+)
qed

lemma returns_enum_body: "returns (list_all variant_ok) parse_enum_body ts"
  unfolding parse_enum_body_def by (rule returns_first returns_enum_variants)+

lemma returns_labels: "returns (list_all label_ok) parse_labels ts"
proof (induction ts rule: parse_labels.induct)
  case (1 ts)
  show ?case
    by (rule returns_eq [OF parse_labels.simps])
       ((rule returns_first returns_branch returns_and_then [OF 1(1)] returns_and_then [OF 1(2)] | assumption | simp)+)
qed

lemma returns_unsigned: "returns type_ok parse_unsigned ts"
  unfolding parse_unsigned_def by ((rule returns_first returns_branch | simp)+)

lemma returns_reference: "returns (\<lambda>r. case r of Some name \<Rightarrow> ident_ok name | None \<Rightarrow> True) (reference_name opening) ts"
  by (auto simp: returns_def reference_name_Inr split: option.splits)

lemma keyword_type_ok: "keyword_type kw = Some t \<Longrightarrow> type_ok t"
  by (cases kw) auto

lemma returns_types:
  "returns type_ok parse_type_spec ts1" "returns (list_all declaration_ok) parse_struct_declarations ts2"
  "returns (list_all declaration_ok) parse_struct_body ts3" "returns (list_all arm_ok) parse_union_arms ts4"
  "returns (\<lambda>b. declaration_ok (fst b) \<and> list_all arm_ok (snd b)) parse_union_body ts5" "returns declaration_ok parse_declaration ts6"
proof (induction ts1 and ts2 and ts3 and ts4 and ts5 and ts6
    rule: parse_type_spec_parse_struct_declarations_parse_struct_body_parse_union_arms_parse_union_body_parse_declaration.induct)
  case (1 ts)
  note IH = 1
  show ?case
  proof (rule returns_eq [OF parse_type_spec.simps], rule returns_first, goal_cases)
    case (1 t us)
    show ?case
    proof (cases t)
      case (TKeyword kw)
      note IH = IH(1) [OF 1(1) TKeyword] IH(2) [OF 1(1) TKeyword]
      have "returns type_ok (and_then (reference_name (TSymbol (CHR ''{''))) (\<lambda>name ts. case name of
          Some n \<Rightarrow> ok (TsIdentifier n) ts | None \<Rightarrow> and_then parse_struct_body (\<lambda>body. ok (TsStruct body)) ts)) us"
        if "kw = KwStruct"
        by (rule returns_and_then [OF returns_reference], rename_tac r vs, case_tac r)
           (use that in \<open>simp_all, simp_all add: returns_def and_then_Inr_iff\<close>, insert IH(1), auto simp: returns_def)
      moreover have "returns type_ok (and_then (reference_name (TKeyword KwSwitch)) (\<lambda>name ts. case name of
          Some n \<Rightarrow> ok (TsIdentifier n) ts | None \<Rightarrow> and_then parse_union_body (\<lambda>body. ok (TsUnion (fst body) (snd body))) ts)) us"
        if "kw = KwUnion"
        by (rule returns_and_then [OF returns_reference], rename_tac r vs, case_tac r)
           (use that in \<open>simp_all, simp_all add: returns_def and_then_Inr_iff\<close>, insert IH(2), auto simp: returns_def)
      moreover have "returns type_ok (and_then (reference_name (TSymbol (CHR ''{''))) (\<lambda>name. case name of
          Some n \<Rightarrow> ok (TsIdentifier n) | None \<Rightarrow> and_then parse_enum_body (\<lambda>body. ok (TsEnum body)))) us"
        by (rule returns_and_then [OF returns_reference])
           (simp split: option.splits add: returns_ok returns_and_then [OF returns_enum_body])
      moreover have "returns type_ok (\<lambda>ts. case keyword_type kw of Some t \<Rightarrow> ok t ts | None \<Rightarrow> err (UnsupportedTypeKeyword kw) ts) us"
        using keyword_type_ok [of kw] by (simp add: returns_def split: option.split)
      ultimately show ?thesis
        using returns_unsigned [of us] by (simp add: TKeyword returns_if_state)
    qed (use 1 in \<open>simp_all add: returns_def\<close>)
  qed
next
  case (2 ts)
  show ?case
    by (rule returns_eq [OF parse_struct_declarations.simps])
       ((rule returns_first returns_branch returns_and_then [OF 2(1)] returns_and_then [OF 2(2)] | assumption | simp)+)
next
  case (3 ts)
  show ?case
    by (rule returns_eq [OF parse_struct_body.simps]) ((rule returns_first 3 | assumption)+)
next
  case (4 ts)
  show ?case
    by (rule returns_eq [OF parse_union_arms.simps])
       ((rule returns_first returns_branch returns_and_then [OF returns_labels] returns_and_then [OF 4(1)]
          returns_and_then [OF 4(2)] | assumption | simp)+)
next
  case (5 ts)
  show ?case
    by (rule returns_eq [OF parse_union_body.simps])
       ((rule returns_first returns_branch returns_and_then [OF 5(1)] returns_and_then [OF 5(2)] | assumption | simp)+)
next
  case (6 ts)
  show ?case
    by (rule returns_eq [OF parse_declaration.simps])
       ((rule returns_first returns_branch returns_and_then [OF returns_declarator] returns_and_then [OF 6] | assumption | simp)+)
qed

lemmas returns_type = returns_types(1) [THEN returns_and_then]

lemma returns_argument: "returns type_ok parse_procedure_argument_type ts"
  unfolding parse_procedure_argument_type_def
  by ((rule returns_first returns_branch returns_type returns_and_then [OF returns_declarator] | simp)+)

lemma returns_procedure: "returns procedure_ok parse_procedure ts"
  unfolding parse_procedure_def
  by ((rule returns_first returns_branch returns_type returns_and_then [OF returns_argument] | simp)+)

lemma returns_procedures: "returns (list_all procedure_ok) parse_procedures ts"
proof (induction ts rule: parse_procedures.induct)
  case (1 ts)
  show ?case
    by (rule returns_eq [OF parse_procedures.simps])
       ((rule returns_first returns_branch returns_and_then [OF returns_procedure] returns_and_then [OF 1] | assumption | simp)+)
qed

lemma returns_version: "returns version_ok parse_version ts"
  unfolding parse_version_def
  by ((rule returns_first returns_branch returns_and_then [OF returns_procedures] | simp)+)

lemma returns_versions: "returns (list_all version_ok) parse_versions ts"
proof (induction ts rule: parse_versions.induct)
  case (1 ts)
  show ?case
    by (rule returns_eq [OF parse_versions.simps])
       ((rule returns_first returns_branch returns_and_then [OF returns_version] returns_and_then [OF 1] | assumption | simp)+)
qed

lemma returns_items:
  "returns item_ok parse_const ts" "returns item_ok parse_typedef ts" "returns item_ok parse_named_struct ts"
  "returns item_ok parse_named_enum ts" "returns item_ok parse_named_union ts" "returns item_ok parse_program ts"
  unfolding parse_const_def parse_typedef_def parse_named_struct_def parse_named_enum_def parse_named_union_def parse_program_def
  by ((rule returns_first returns_branch returns_type returns_and_then [OF returns_declarator] returns_and_then [OF returns_types(3)]
      returns_and_then [OF returns_types(5)] returns_and_then [OF returns_enum_body] returns_and_then [OF returns_versions] | simp)+)

lemma returns_item: "returns item_ok parse_item ts"
  unfolding parse_item_def
  by (rule returns_first) (auto simp: returns_items returns_err split: token.split keyword.split)

lemma returns_schema: "returns (list_all item_ok) parse_schema ts"
proof (induction ts rule: parse_schema.induct)
  case (1 ts)
  show ?case
    by (rule returns_eq [OF parse_schema.simps])
       ((rule returns_first returns_branch returns_and_then [OF returns_item] returns_and_then [OF 1] | assumption | simp)+)
qed

section \<open>Properties\<close>

text \<open>
  C20. A schema that \<^verbatim>\<open>parse_x_source\<close> returns is well typed: every name in it is an identifier and no keyword, every
  number is one a literal can denote, the numbers of programs, versions and procedures fit a \<^verbatim>\<open>u32\<close>, every arm of
  a union has a label and only a \<^verbatim>\<open>void\<close> declaration goes without a name.\<close>
theorem parsed_schema_ok:
  assumes "parse_x_source input = Inr items"
  shows "list_all item_ok items"
proof -
  from assms obtain cleaned ts ts' where "tokenize (strip_unsupported_lines cleaned) = Inr ts" "parse_schema ts = (Inr items, ts')"
    by (auto simp: parse_x_source_def result_bind_def prod_eq_iff split: sum.splits)
  then show ?thesis
    using tokenize_ok returns_schema [of ts] by (auto simp: returns_def)
qed

theorem parsed_schema_ok_witness: "list_all item_ok [ItemConst ''A'' (ValueNumber 8)]"
proof -
  have "parse_x_source ''const A = 010;'' = Inr [ItemConst ''A'' (ValueNumber 8)]" by code_simp
  then show ?thesis by (rule parsed_schema_ok)
qed

end
