(* ===== verification/X_Total.thy ===== *)
theory X_Total
  imports X_Parser
begin

text \<open>
  The parser never indexes its token vector out of bounds: the tokens always end in \<open>TEof\<close>, and no
  action that succeeds has consumed the last token.
\<close>

section \<open>Safe actions\<close>

definition ends_eof :: "token list \<Rightarrow> bool" where
  "ends_eof ts \<longleftrightarrow> ts \<noteq> [] \<and> last ts = TEof"

definition safe :: "'a token_parser \<Rightarrow> token list \<Rightarrow> bool" where
  "safe p ts \<longleftrightarrow> (ends_eof ts \<longrightarrow>
     (case p ts of (Inr x, ts') \<Rightarrow> ends_eof ts' | (Inl e, ts') \<Rightarrow> e \<noteq> IndexPanic))"

lemma ends_eof_Cons: "ends_eof (t # ts) \<longleftrightarrow> (if ts = [] then t = TEof else ends_eof ts)"
  by (simp add: ends_eof_def)

lemma safe_ok: "safe (ok x) ts"
  by (simp add: safe_def)

lemma safe_err: "e \<noteq> IndexPanic \<Longrightarrow> safe (err e) ts"
  by (simp add: safe_def)

lemma safe_and_then:
  "safe p ts \<Longrightarrow> (\<And>x t. p ts = (Inr x, t) \<Longrightarrow> safe (f x) t) \<Longrightarrow> safe (and_then p f) ts"
  by (cases "p ts" rule: prod.exhaust; cases "fst (p ts)") (auto simp: safe_def and_then_def)

lemma safe_if: "(b \<Longrightarrow> safe p ts) \<Longrightarrow> (\<not> b \<Longrightarrow> safe q ts) \<Longrightarrow> safe (if b then p else q) ts"
  by simp

lemma safe_if_state: "(b \<Longrightarrow> safe p ts) \<Longrightarrow> (\<not> b \<Longrightarrow> safe q ts) \<Longrightarrow> safe (\<lambda>ts. if b then p ts else q ts) ts"
  by (simp add: safe_def)

lemma safe_eq: "p ts = and_then m f ts \<Longrightarrow> safe (and_then m f) ts \<Longrightarrow> safe p ts"
  by (simp add: safe_def)

text \<open>Taking a token: the last one may be taken only on the way to an error.\<close>

lemma safe_next:
  assumes "\<And>t us. ts = t # us \<Longrightarrow> t \<noteq> TEof \<Longrightarrow> safe (f t) us" "\<And>us. \<exists>e. f TEof us = (Inl e, us) \<and> e \<noteq> IndexPanic"
  shows "safe (and_then next_token f) ts"
proof (cases ts)
  case (Cons t us)
  show ?thesis
  proof (cases "t = TEof")
    case True
    with assms(2) [of us] Cons show ?thesis by (auto simp: safe_def and_then_def)
  next
    case False
    with assms(1) [OF Cons] Cons show ?thesis by (auto simp: safe_def and_then_def ends_eof_Cons)
  qed
qed (simp add: safe_def ends_eof_def)

lemma safe_next_known: "ts = t # us \<Longrightarrow> t \<noteq> TEof \<Longrightarrow> safe (f t) us \<Longrightarrow> safe (and_then next_token f) ts"
  by (auto simp: safe_def and_then_def ends_eof_Cons)

lemma safe_taken: "peek ts = (Inr t, us) \<Longrightarrow> t \<noteq> TEof \<Longrightarrow> safe next_token us"
  by (auto simp: safe_def peek_Inr ends_eof_Cons split: if_splits)

lemma safe_peek: "safe peek ts"
  by (cases ts) (simp_all add: safe_def ends_eof_def)

lemma safe_readers:
  "safe (expect_keyword kw) ts" "safe (expect_symbol s) ts" "safe expect_identifier ts" "safe expect_u32 ts" "safe parse_value_expr ts"
  unfolding expect_keyword_def expect_symbol_def expect_identifier_def expect_u32_def parse_value_expr_def
  by (rule safe_next; auto simp: safe_ok safe_err split: token.split)+

lemma safe_unsigned: "safe parse_unsigned ts"
  unfolding parse_unsigned_def by (rule safe_next) (auto simp: safe_ok safe_err)

lemma safe_consume: "safe (consume_symbol s) ts"
  by (cases ts) (auto simp: safe_def consume_symbol_def ends_eof_Cons, simp_all add: ends_eof_def)

lemmas safe_intros = safe_and_then safe_if safe_if_state safe_ok safe_readers safe_consume safe_peek

lemma safe_declarator: "safe parse_declarator ts"
  unfolding parse_declarator_def by (intro safe_intros)

lemma safe_reference: "safe (reference_name opening) ts"
proof (cases ts)
  case (Cons t us)
  then show ?thesis
    by (cases t; cases us) (auto simp: safe_def reference_name_def ends_eof_Cons)
qed (simp add: safe_def ends_eof_def)

text \<open>A loop whose recursive calls are on shorter token lists.\<close>

lemma safe_enum_variants: "safe parse_enum_variants ts"
proof (induction ts rule: parse_enum_variants.induct)
  case (1 ts)
  show ?case
    by (rule safe_eq [OF parse_enum_variants.simps], intro safe_intros 1) assumption+
qed

lemma safe_enum_body: "safe parse_enum_body ts"
  unfolding parse_enum_body_def by (intro safe_intros safe_enum_variants)

lemma safe_labels: "safe parse_labels ts"
proof (induction ts rule: parse_labels.induct)
  case (1 ts)
  show ?case
    by (rule safe_eq [OF parse_labels.simps], intro safe_intros)
       ((rule safe_taken, assumption, simp) | (rule 1(1); assumption) | (rule 1(2); assumption))+
qed

section \<open>Types\<close>

lemma safe_types:
  "safe parse_type_spec ts1" "safe parse_struct_declarations ts2" "safe parse_struct_body ts3"
  "safe parse_union_arms ts4" "safe parse_union_body ts5" "safe parse_declaration ts6"
proof (induction ts1 and ts2 and ts3 and ts4 and ts5 and ts6
    rule: parse_type_spec_parse_struct_declarations_parse_struct_body_parse_union_arms_parse_union_body_parse_declaration.induct)
  case (1 ts)
  note IH = 1
  show ?case
  proof (rule safe_eq [OF parse_type_spec.simps], rule safe_next, goal_cases)
    case (1 t us)
    then have t: "next_token ts = (Inr t, us)" by simp
    show ?case
    proof (cases t)
      case (TKeyword kw)
      note IH = IH(1) [OF t TKeyword] IH(2) [OF t TKeyword]
      have "safe (and_then (reference_name (TSymbol (CHR ''{''))) (\<lambda>name ts. case name of
          Some n \<Rightarrow> ok (TsIdentifier n) ts | None \<Rightarrow> and_then parse_struct_body (\<lambda>body. ok (TsStruct body)) ts)) us"
        if "kw = KwStruct"
        by (rule safe_and_then [OF safe_reference], rename_tac r vs, case_tac r)
           (use IH(1) that in \<open>simp_all add: safe_and_then safe_ok\<close>, simp add: safe_def)
      moreover have "safe (and_then (reference_name (TKeyword KwSwitch)) (\<lambda>name ts. case name of
          Some n \<Rightarrow> ok (TsIdentifier n) ts | None \<Rightarrow> and_then parse_union_body (\<lambda>body. ok (TsUnion (fst body) (snd body))) ts)) us"
        if "kw = KwUnion"
        by (rule safe_and_then [OF safe_reference], rename_tac r vs, case_tac r)
           (use IH(2) that in \<open>simp_all add: safe_and_then safe_ok\<close>, simp add: safe_def)
      moreover have "safe (and_then (reference_name (TSymbol (CHR ''{''))) (\<lambda>name. case name of
          Some n \<Rightarrow> ok (TsIdentifier n) | None \<Rightarrow> and_then parse_enum_body (\<lambda>body. ok (TsEnum body)))) us"
        by (rule safe_and_then [OF safe_reference]) (simp add: safe_and_then safe_ok safe_enum_body split: option.split)
      ultimately show ?thesis
        using TKeyword safe_unsigned [of us] by (auto simp: safe_ok safe_err safe_def split: option.split)
    qed (use 1 in \<open>simp_all add: safe_def\<close>)
  qed simp
next
  case (2 ts)
  show ?case
    by (rule safe_eq [OF parse_struct_declarations.simps], intro safe_intros 2) assumption+
next
  case (3 ts)
  show ?case
    by (rule safe_eq [OF parse_struct_body.simps], intro safe_intros 3) assumption+
next
  case (4 ts)
  show ?case
    by (rule safe_eq [OF parse_union_arms.simps], intro safe_intros safe_labels safe_err 4) (assumption | simp)+
next
  case (5 ts)
  show ?case
    by (rule safe_eq [OF parse_union_body.simps], intro safe_intros 5) assumption+
next
  case (6 ts)
  show ?case
    by (rule safe_eq [OF parse_declaration.simps], intro safe_intros safe_declarator 6)
qed

section \<open>Items and sources\<close>

lemma safe_argument: "safe parse_procedure_argument_type ts"
  unfolding parse_procedure_argument_type_def
  by (intro safe_intros safe_types safe_declarator) (rule safe_taken, assumption, simp)

lemma safe_procedure: "safe parse_procedure ts"
  unfolding parse_procedure_def by (intro safe_intros safe_types safe_argument)

lemma safe_procedures: "safe parse_procedures ts"
proof (induction ts rule: parse_procedures.induct)
  case (1 ts)
  show ?case
    by (rule safe_eq [OF parse_procedures.simps], intro safe_intros safe_procedure 1) assumption+
qed

lemma safe_version: "safe parse_version ts"
  unfolding parse_version_def by (intro safe_intros safe_procedures)

lemma safe_versions: "safe parse_versions ts"
proof (induction ts rule: parse_versions.induct)
  case (1 ts)
  show ?case
    by (rule safe_eq [OF parse_versions.simps], intro safe_intros safe_version 1) assumption+
qed

lemma safe_items:
  "safe parse_const ts" "safe parse_typedef ts" "safe parse_named_struct ts" "safe parse_named_enum ts"
  "safe parse_named_union ts" "safe parse_program ts"
  unfolding parse_const_def parse_typedef_def parse_named_struct_def parse_named_enum_def parse_named_union_def parse_program_def
  by (intro safe_intros safe_types safe_declarator safe_enum_body safe_versions)+

lemma safe_item: "safe parse_item ts"
  unfolding parse_item_def
  by (rule safe_and_then [OF safe_peek]) (auto simp: safe_items safe_err split: token.split keyword.split)

lemma safe_schema: "safe parse_schema ts"
proof (induction ts rule: parse_schema.induct)
  case (1 ts)
  show ?case
    by (rule safe_eq [OF parse_schema.simps], intro safe_intros safe_item 1) assumption+
qed

lemma tokenize_ends: "tokenize s = Inr ts \<Longrightarrow> ends_eof ts"
proof (induction s arbitrary: ts rule: tokenize.induct)
  case (2 ch cs)
  then show ?case
    by (auto simp: tokenize.simps(2) ends_eof_Cons result_bind_def split: if_splits sum.splits) (auto simp: ends_eof_def)
qed (simp add: ends_eof_def)

lemma result_bind_Inl_iff: "result_bind r f = Inl e \<longleftrightarrow> r = Inl e \<or> (\<exists>x. r = Inr x \<and> f x = Inl e)"
  by (cases r) auto

lemma strip_no_panic: "strip_block_comments s \<noteq> Inl IndexPanic"
proof (induction s rule: strip_block_comments.induct)
  case (2 a cs)
  show ?case
  proof (cases cs)
    case Nil
    then show ?thesis by (simp add: strip_block_comments.simps(2))
  next
    case (Cons b ds)
    with 2 show ?thesis
      by (simp add: strip_block_comments.simps(2) [of a] result_bind_Inl_iff split: option.split)
  qed
qed simp

lemma tokenize_no_panic: "tokenize s \<noteq> Inl IndexPanic"
proof (induction s rule: tokenize.induct)
  case (2 ch cs)
  have "parse_number t \<noteq> Inl IndexPanic" for t
    by (simp add: parse_number_def Let_def split: option.split prod.split)
  with 2 show ?case
    by (simp add: tokenize.simps(2) result_bind_Inl_iff)
qed simp

section \<open>Properties\<close>

text \<open>
  C31. Parsing is total: whatever the input, \<^verbatim>\<open>parse_x_source\<close> gives a schema or one of its own errors. No input makes
  the parser index its tokens out of bounds, and the two passes over the text and every loop of the
  recursive descent end.\<close>
theorem parse_x_source_never_panics: "parse_x_source input \<noteq> Inl IndexPanic"
proof -
  have "fst (parse_schema ts) \<noteq> Inl IndexPanic" if "ends_eof ts" for ts
    using safe_schema [of ts] that by (cases "parse_schema ts") (auto simp: safe_def split: sum.splits)
  then show ?thesis
    using strip_no_panic tokenize_no_panic tokenize_ends by (auto simp: parse_x_source_def result_bind_def split: sum.split)
qed

end
