(* ===== verification/Net_Addr.thy ===== *)
theory Net_Addr
  imports Text_Base Rpc_Client
begin

text \<open>
  Internet addresses as text: what the standard library's \<^verbatim>\<open>Display\<close> and \<^verbatim>\<open>FromStr\<close> do for \<^verbatim>\<open>IpAddr\<close> and \<^verbatim>\<open>u8\<close>, and the
  universal addresses of rpcbind in \<^verbatim>\<open>src/crates/onc-rpc-bind/src/lib.rs\<close>. A Rust string is the list of its bytes; the
  text routines work on the same bytes read as characters.
\<close>

section \<open>Text\<close>

definition text_bytes :: "string \<Rightarrow> bytes" where
  "text_bytes s = map of_char s"

definition bytes_text :: "bytes \<Rightarrow> string" where
  "bytes_text bs = map (\<lambda>b. char_of (unat b)) bs"

fun show_hex :: "nat \<Rightarrow> string" where
  "show_hex n = (let d = (\<lambda>d. char_of (if d < 10 then 48 + d else 87 + d))
     in if n < 16 then [d n] else show_hex (n div 16) @ [d (n mod 16)])"

declare show_hex.simps [simp del]

section \<open>Addresses\<close>

datatype ip_addr = IpV4 bytes | IpV6 bytes

fun addr_ip :: "socket_addr \<Rightarrow> ip_addr" where
  "addr_ip (SocketV4 ip port) = IpV4 ip"
| "addr_ip (SocketV6 ip port flowinfo scope_id) = IpV6 ip"

fun addr_port :: "socket_addr \<Rightarrow> u16" where
  "addr_port (SocketV4 ip port) = port"
| "addr_port (SocketV6 ip port flowinfo scope_id) = port"

fun socket_addr_new :: "ip_addr \<Rightarrow> u16 \<Rightarrow> socket_addr" where
  "socket_addr_new (IpV4 ip) port = SocketV4 ip port"
| "socket_addr_new (IpV6 ip) port = SocketV6 ip port 0 0"

fun ip_valid :: "ip_addr \<Rightarrow> bool" where
  "ip_valid (IpV4 ip) = (length ip = 4)"
| "ip_valid (IpV6 ip) = (length ip = 16)"

text \<open>\<^verbatim>\<open>Ipv6Addr::segments\<close>, and the bytes of segments.\<close>

fun segments :: "bytes \<Rightarrow> nat list" where
  "segments (h # l # bs) = (unat h * 256 + unat l) # segments bs"
| "segments _ = []"

definition segment_bytes :: "nat \<Rightarrow> bytes" where
  "segment_bytes g = [of_nat (g div 256), of_nat (g mod 256)]"

subsection \<open>Display\<close>

definition show_ipv4 :: "bytes \<Rightarrow> string" where
  "show_ipv4 ip = join_with ''.'' (map (\<lambda>b. show_nat (unat b)) ip)"

text \<open>The longest run of zero segments, the first of several: start and length.\<close>

fun longest_zeros :: "nat \<Rightarrow> nat \<times> nat \<Rightarrow> nat \<times> nat \<Rightarrow> nat list \<Rightarrow> nat \<times> nat" where
  "longest_zeros i current longest [] = longest"
| "longest_zeros i current longest (g # gs) =
     (if g = 0 then
        (let current = ((if snd current = 0 then i else fst current), snd current + 1)
         in longest_zeros (i + 1) current (if snd current > snd longest then current else longest) gs)
      else longest_zeros (i + 1) (0, 0) longest gs)"

definition fmt_subslice :: "nat list \<Rightarrow> string" where
  "fmt_subslice gs = join_with '':'' (map show_hex gs)"

definition is_ipv4_mapped :: "bytes \<Rightarrow> bool" where
  "is_ipv4_mapped ip \<longleftrightarrow> take 12 ip = replicate 10 0 @ [255, 255]"

definition show_ipv6 :: "bytes \<Rightarrow> string" where
  "show_ipv6 ip =
     (if is_ipv4_mapped ip then ''::ffff:'' @ show_ipv4 (drop 12 ip)
      else
        let gs = segments ip; (start, len) = longest_zeros 0 (0, 0) (0, 0) gs
        in if len > 1 then fmt_subslice (take start gs) @ ''::'' @ fmt_subslice (drop (start + len) gs)
           else fmt_subslice gs)"

fun show_ip :: "ip_addr \<Rightarrow> string" where
  "show_ip (IpV4 ip) = show_ipv4 ip"
| "show_ip (IpV6 ip) = show_ipv6 ip"

subsection \<open>FromStr\<close>

text \<open>The readers of \<^verbatim>\<open>core::net::parser\<close>: a value and the rest of the input, or nothing read.\<close>

type_synonym 'a reader = "string \<Rightarrow> ('a \<times> string) option"

definition read_number :: "nat \<Rightarrow> nat \<Rightarrow> bool \<Rightarrow> nat \<Rightarrow> nat reader" where
  "read_number radix max_digits allow_zero_prefix bound s =
     (let digits = takeWhile (\<lambda>c. to_digit radix c \<noteq> None) s
      in if length digits > max_digits \<or> digits = [] then None
         else if \<not> allow_zero_prefix \<and> hd s = CHR ''0'' \<and> length digits > 1 then None
         else case digits_value radix 0 digits of
             Some n \<Rightarrow> if n \<le> bound then Some (n, drop (length digits) s) else None
           | None \<Rightarrow> None)"

definition read_separator :: "char \<Rightarrow> nat \<Rightarrow> 'a reader \<Rightarrow> 'a reader" where
  "read_separator sep index inner s =
     (if index > 0 then (case s of c # cs \<Rightarrow> if c = sep then inner cs else None | [] \<Rightarrow> None) else inner s)"

definition read_ipv4_addr :: "bytes reader" where
  "read_ipv4_addr s =
     (let octet = (\<lambda>i. read_separator (CHR ''.'') i (read_number 10 3 False 255)) in
      Option.bind (octet 0 s) (\<lambda>(a, s).
      Option.bind (octet 1 s) (\<lambda>(b, s).
      Option.bind (octet 2 s) (\<lambda>(c, s).
      Option.bind (octet 3 s) (\<lambda>(d, s).
      Some (map of_nat [a, b, c, d], s))))))"

text \<open>At most \<open>limit - i\<close> groups, the last two of them possibly an embedded IPv4 address.\<close>

function read_groups :: "nat \<Rightarrow> nat \<Rightarrow> string \<Rightarrow> nat list \<times> bool \<times> string" where
  "read_groups limit i s =
     (if i \<ge> limit then ([], False, s)
      else case (if i + 1 < limit then read_separator (CHR '':'') i read_ipv4_addr s else None) of
          Some (v4_addr, s) \<Rightarrow> (segments v4_addr, True, s)
        | None \<Rightarrow>
            (case read_separator (CHR '':'') i (read_number 16 4 True 65535) s of
               Some (g, s) \<Rightarrow> (let (gs, ipv4, s) = read_groups limit (i + 1) s in (g # gs, ipv4, s))
             | None \<Rightarrow> ([], False, s)))"
  by pat_completeness auto
termination
  by (relation "measure (\<lambda>(limit, i, s). limit - i)") auto

declare read_groups.simps [simp del]

definition read_ipv6_addr :: "bytes reader" where
  "read_ipv6_addr s =
     (let (head, head_ipv4, s) = read_groups 8 0 s in
      if length head = 8 then Some (concat (map segment_bytes head), s)
      else if head_ipv4 then None
      else case s of
          a # b # s \<Rightarrow>
            if a = CHR '':'' \<and> b = CHR '':'' then
              let (tail, _, s) = read_groups (8 - (length head + 1)) 0 s
              in Some (concat (map segment_bytes (head @ replicate (8 - length head - length tail) 0 @ tail)), s)
            else None
        | _ \<Rightarrow> None)"

definition parse_ip_addr :: "string \<Rightarrow> ip_addr option" where
  "parse_ip_addr s =
     (case read_ipv4_addr s of
        Some (ip, s') \<Rightarrow> if s' = [] then Some (IpV4 ip) else None
      | None \<Rightarrow> (case read_ipv6_addr s of
            Some (ip, s') \<Rightarrow> if s' = [] then Some (IpV6 ip) else None
          | None \<Rightarrow> None))"

text \<open>\<^verbatim>\<open>u8::from_str\<close>: an optional plus sign and decimal digits.\<close>

definition parse_u8 :: "string \<Rightarrow> nat option" where
  "parse_u8 src =
     (let digits = (case src of c # cs \<Rightarrow> if c = CHR ''+'' then cs else src | [] \<Rightarrow> src)
      in if digits = [] then None
         else case digits_value 10 0 digits of Some n \<Rightarrow> if n \<le> 255 then Some n else None | None \<Rightarrow> None)"

section \<open>Universal addresses\<close>

definition RPCBIND_PORT :: u16 where
  "RPCBIND_PORT = 111"

definition rpcbind_addr_for_host :: "ip_addr \<Rightarrow> socket_addr" where
  "rpcbind_addr_for_host host = socket_addr_new host RPCBIND_PORT"

definition universal_addr :: "socket_addr \<Rightarrow> bytes" where
  "universal_addr addr =
     (case u16_to_be (addr_port addr) of
        [high, low] \<Rightarrow> text_bytes (show_ip (addr_ip addr) @ ''.'' @ show_nat (unat high) @ ''.'' @ show_nat (unat low))
      | _ \<Rightarrow> [])"

text \<open>\<^verbatim>\<open>str::rsplitn (3, '.')\<close>: the pieces from the right, the last one the rest.\<close>

definition rsplit_dot :: "string \<Rightarrow> string \<times> string option" where
  "rsplit_dot s =
     (let last_part = rev (takeWhile (\<lambda>c. c \<noteq> CHR ''.'') (rev s))
      in (last_part, if CHR ''.'' \<in> set s then Some (take (length s - length last_part - 1) s) else None))"

definition parse_universal_addr :: "bytes \<Rightarrow> bytes + socket_addr" where
  "parse_universal_addr value =
     (let (low_part, before) = rsplit_dot (bytes_text value) in
      case parse_u8 low_part of
        None \<Rightarrow> Inl value
      | Some low \<Rightarrow> (case before of
          None \<Rightarrow> Inl value
        | Some before \<Rightarrow>
            let (high_part, host) = rsplit_dot before in
            case parse_u8 high_part of
              None \<Rightarrow> Inl value
            | Some high \<Rightarrow> (case host of
                None \<Rightarrow> Inl value
              | Some host \<Rightarrow> (case parse_ip_addr host of
                  None \<Rightarrow> Inl value
                | Some ip \<Rightarrow> Inr (socket_addr_new ip (be_to_u16 [of_nat high, of_nat low]))))))"

section \<open>Numbers\<close>

lemma unat_of_char: "unat (of_char c :: byte) = of_char c"
proof -
  have "(of_char c :: byte) = word_of_nat (of_char c)" by (metis of_char_of of_nat_of_char)
  then show ?thesis by (simp add: unat_of_nat)
qed

lemma bytes_text_text_bytes [simp]: "bytes_text (text_bytes s) = s"
  by (simp add: bytes_text_def text_bytes_def comp_def unat_of_char)

lemma to_digit_10: "(\<exists>d. to_digit 10 c = Some d) \<longleftrightarrow> is_ascii_digit c"
  by (auto simp: to_digit_def is_ascii_digit_def in_range_def Let_def)

lemma show_nat_length: "n < 10 ^ Suc k \<Longrightarrow> length (show_nat n) \<le> Suc k"
proof (induction k arbitrary: n)
  case 0
  then show ?case by (simp add: show_nat.simps)
next
  case (Suc k)
  have "n div 10 < 10 ^ Suc k" using Suc.prems by (simp add: less_mult_imp_div_less mult.commute)
  with Suc.IH [of "n div 10"] show ?case by (subst show_nat.simps) simp
qed

text \<open>Reading a run of digits that ends where the digits end.\<close>

lemma read_digits:
  assumes "\<forall>c \<in> set ds. to_digit radix c \<noteq> None" "ds \<noteq> []" "length ds \<le> m" "digits_value radix 0 ds = Some n" "n \<le> bound"
    "z \<or> hd ds \<noteq> CHR ''0'' \<or> length ds = 1" "rest = [] \<or> to_digit radix (hd rest) = None"
  shows "read_number radix m z bound (ds @ rest) = Some (n, rest)"
proof -
  have "takeWhile (\<lambda>c. to_digit radix c \<noteq> None) (ds @ rest) = ds"
    using assms(1,7) by (subst takeWhile_append2) (auto simp: takeWhile_eq_Nil_iff)
  moreover have "hd (ds @ rest) = hd ds" using assms(2) by simp
  ultimately show ?thesis
    using assms(2-6) unfolding read_number_def by (auto simp: Let_def)
qed

lemma read_number_show:
  assumes "n \<le> 255" "rest = [] \<or> \<not> is_ascii_digit (hd rest)"
  shows "read_number 10 3 False 255 (show_nat n @ rest) = Some (n, rest)"
proof (rule read_digits)
  show "length (show_nat n) \<le> 3" using show_nat_length [of n 2] assms(1) by simp
  show "rest = [] \<or> to_digit 10 (hd rest) = None" using assms(2) to_digit_10 [of "hd rest"] by force
qed (use show_nat_digits [of n] assms(1) in \<open>auto simp: to_digit_10 list_all_iff digits_value_show\<close>)

section \<open>Hexadecimal groups\<close>

definition hex_digit :: "nat \<Rightarrow> char" where
  "hex_digit d = char_of (if d < 10 then 48 + d else 87 + d)"

lemma show_hex_rec: "show_hex n = (if n < 16 then [hex_digit n] else show_hex (n div 16) @ [hex_digit (n mod 16)])"
  by (subst show_hex.simps) (simp add: Let_def hex_digit_def)

lemma hex_digit_simps:
  assumes "d < 16"
  shows "to_digit 16 (hex_digit d) = Some d" "hex_digit d \<noteq> CHR ''.''" "hex_digit d \<noteq> CHR '':''"
proof -
  have oc: "of_char (hex_digit d) = (if d < 10 then 48 + d else 87 + d)" using assms by (simp add: hex_digit_def)
  then show "to_digit 16 (hex_digit d) = Some d"
    using assms by (auto simp: to_digit_def is_ascii_digit_def in_range_def)
  show "hex_digit d \<noteq> CHR ''.''" "hex_digit d \<noteq> CHR '':''" using oc by (auto split: if_splits)
qed

lemma show_hex_chars: "show_hex n \<noteq> [] \<and> (\<forall>c \<in> set (show_hex n). to_digit 16 c \<noteq> None \<and> c \<noteq> CHR ''.'' \<and> c \<noteq> CHR '':'')"
proof (induction n rule: less_induct)
  case (less n)
  show ?case
    using less [of "n div 16"] hex_digit_simps [of n] hex_digit_simps [of "n mod 16"]
    by (cases "n < 16"; subst (1 2) show_hex_rec) auto
qed

lemma digits_value_hex: "digits_value 16 0 (show_hex n) = Some n"
proof (induction n rule: less_induct)
  case (less n)
  then show ?case
    by (subst show_hex_rec) (simp add: digits_value_append hex_digit_simps)
qed

lemma show_hex_length: "n < 16 ^ Suc k \<Longrightarrow> length (show_hex n) \<le> Suc k"
proof (induction k arbitrary: n)
  case 0
  then show ?case by (simp add: show_hex_rec)
next
  case (Suc k)
  have "n div 16 < 16 ^ Suc k" using Suc.prems by (simp add: less_mult_imp_div_less mult.commute)
  with Suc.IH [of "n div 16"] show ?case by (subst show_hex_rec) simp
qed

lemma read_number_hex:
  assumes "g < 65536" "rest = [] \<or> to_digit 16 (hd rest) = None"
  shows "read_number 16 4 True 65535 (show_hex g @ rest) = Some (g, rest)"
  by (rule read_digits) (use assms show_hex_chars [of g] show_hex_length [of g 3] in \<open>auto simp: digits_value_hex\<close>)

section \<open>IPv4\<close>

lemma dot_no_digit: "\<not> is_ascii_digit (CHR ''.'')" "to_digit 16 (CHR '':'') = None"
  by code_simp+

lemma read_ipv4_show:
  assumes "length ip = 4" "rest = [] \<or> \<not> is_ascii_digit (hd rest)"
  shows "read_ipv4_addr (show_ipv4 ip @ rest) = Some (ip, rest)"
proof -
  obtain a b c d where ip: "ip = [a, b, c, d]"
    using assms(1) by (auto simp: numeral_eq_Suc length_Suc_conv)
  have octet: "unat x \<le> 255" for x :: byte
    using unsigned_less [where ?'a = nat, of x] by simp
  show ?thesis
    using assms(2) octet
    by (simp add: ip show_ipv4_def read_ipv4_addr_def read_separator_def read_number_show dot_no_digit)
qed

text \<open>Text whose leading decimal digits are not followed by a dot is no IPv4 address.\<close>

lemma read_number_rest: "read_number 10 m z b s = Some (n, s') \<Longrightarrow> s' = dropWhile is_ascii_digit s"
  by (auto simp: read_number_def Let_def to_digit_10 dropWhile_eq_drop split: if_splits option.splits)

lemma read_ipv4_none:
  assumes "dropWhile is_ascii_digit s = [] \<or> hd (dropWhile is_ascii_digit s) \<noteq> CHR ''.''"
  shows "read_ipv4_addr s = None"
proof (cases "read_number 10 3 False 255 s")
  case None
  then show ?thesis by (simp add: read_ipv4_addr_def read_separator_def)
next
  case (Some x)
  obtain n s' where x: "x = (n, s')" by (cases x)
  with Some read_number_rest assms have "s' = [] \<or> hd s' \<noteq> CHR ''.''" by blast
  with Some x show ?thesis
    by (cases s') (auto simp: read_ipv4_addr_def read_separator_def)
qed

lemma read_ipv4_hex: "rest = [] \<or> hd rest = CHR '':'' \<Longrightarrow> read_ipv4_addr (show_hex g @ rest) = None"
proof (rule read_ipv4_none)
  assume rest: "rest = [] \<or> hd rest = CHR '':''"
  let ?d = "dropWhile is_ascii_digit (show_hex g)"
  show "dropWhile is_ascii_digit (show_hex g @ rest) = [] \<or> hd (dropWhile is_ascii_digit (show_hex g @ rest)) \<noteq> CHR ''.''"
  proof (cases ?d)
    case Nil
    then have "dropWhile is_ascii_digit (show_hex g @ rest) = rest"
      using rest by (cases rest) (auto simp: dropWhile_append1 dropWhile_append3 is_ascii_digit_def in_range_def)
    with rest show ?thesis by auto
  next
    case (Cons c cs)
    then have "c \<in> set (show_hex g)" by (metis list.set_intros(1) set_dropWhileD)
    moreover have "dropWhile is_ascii_digit (show_hex g @ rest) = c # cs @ rest"
      using Cons by (metis append_Cons dropWhile_append dropWhile_eq_Nil_conv list.distinct(1))
    ultimately show ?thesis using show_hex_chars [of g] by auto
  qed
qed

section \<open>IPv6\<close>

lemma fmt_subslice_Cons: "fmt_subslice (g # gs) = show_hex g @ (if gs = [] then [] else '':'' @ fmt_subslice gs)"
  by (cases gs) (simp_all add: fmt_subslice_def)

lemma read_at_colon:
  assumes "s = [] \<or> (\<exists>r. s = CHR '':'' # r)"
  shows "read_ipv4_addr s = None" "read_number 16 4 True 65535 s = None"
proof -
  have colon: "\<not> is_ascii_digit (CHR '':'')" by code_simp
  then show "read_ipv4_addr s = None" using assms by (intro read_ipv4_none) auto
  show "read_number 16 4 True 65535 s = None" using assms dot_no_digit by (auto simp: read_number_def)
qed

lemma read_groups_show:
  assumes "\<forall>g \<in> set gs. g < 65536" "i + length gs \<le> limit" "rest = [] \<or> (\<exists>r. rest = ''::'' @ r)"
  shows "read_groups limit i ((if i > 0 \<and> gs \<noteq> [] then '':'' else '''') @ fmt_subslice gs @ rest) = (gs, False, rest)"
  using assms(1,2)
proof (induction gs arbitrary: i)
  case Nil
  have "read_separator (CHR '':'') i read_ipv4_addr rest = None" "read_separator (CHR '':'') i (read_number 16 4 True 65535) rest = None"
    using assms(3) read_at_colon [of rest] read_at_colon [of "tl rest"] by (auto simp: read_separator_def)
  then show ?case by (simp add: read_groups.simps [of limit i] fmt_subslice_def)
next
  case (Cons g gs)
  define tl where "tl = (if gs \<noteq> [] then '':'' else '''') @ fmt_subslice gs @ rest"
  have tl: "tl = [] \<or> hd tl = CHR '':''" using assms(3) by (auto simp: tl_def fmt_subslice_def)
  then have ndig: "tl = [] \<or> to_digit 16 (hd tl) = None" using dot_no_digit by auto
  have eq: "(if i > 0 \<and> g # gs \<noteq> [] then '':'' else '''') @ fmt_subslice (g # gs) @ rest = (if i > 0 then '':'' else '''') @ show_hex g @ tl"
    by (simp add: tl_def fmt_subslice_Cons) (simp add: fmt_subslice_def)
  have "read_separator (CHR '':'') i read_ipv4_addr ((if i > 0 then '':'' else '''') @ show_hex g @ tl) = None"
    using read_ipv4_hex [OF tl] by (simp add: read_separator_def)
  moreover have "read_separator (CHR '':'') i (read_number 16 4 True 65535) ((if i > 0 then '':'' else '''') @ show_hex g @ tl) = Some (g, tl)"
    using read_number_hex [OF _ ndig] Cons.prems(1) by (simp add: read_separator_def)
  moreover have "read_groups limit (i + 1) tl = (gs, False, rest)"
    using Cons.IH [of "i + 1"] Cons.prems by (simp add: tl_def)
  ultimately show ?case
    unfolding eq using Cons.prems(2) by (simp add: read_groups.simps [of limit i])
qed

lemma read_groups_mapped:
  assumes "length ip = 4"
  shows "read_groups 7 0 (''ffff:'' @ show_ipv4 ip) = (65535 # segments ip, True, [])"
proof -
  let ?t = "'':'' @ show_ipv4 ip"
  have f: "hex_digit 15 = CHR ''f''" by code_simp
  have ffff: "show_hex 65535 = ''ffff''" by (simp add: show_hex_rec f)
  have "read_ipv4_addr (''ffff'' @ ?t) = None" using read_ipv4_hex [of ?t 65535] by (simp add: ffff)
  moreover have "read_number 16 4 True 65535 (''ffff'' @ ?t) = Some (65535, ?t)"
    using read_number_hex [of 65535 ?t] dot_no_digit by (simp add: ffff)
  moreover have "read_groups 7 1 ?t = (segments ip, True, [])"
    using read_ipv4_show [OF assms, of "[]"] by (simp add: read_groups.simps [of 7 "Suc 0"] read_separator_def)
  ultimately show ?thesis
    by (simp add: read_groups.simps [of 7 0] read_separator_def)
qed

subsection \<open>Segments\<close>

lemma segment_bytes_pair: "segment_bytes (unat h * 256 + unat l) = [h, l]" for h l :: byte
proof -
  have "unat l < 256" using unsigned_less [where ?'a = nat, of l] by simp
  then have "(unat h * 256 + unat l) div 256 = unat h" "(unat h * 256 + unat l) mod 256 = unat l" by simp_all
  then show ?thesis by (simp add: segment_bytes_def)
qed

lemma segments_bytes: "even (length ip) \<Longrightarrow> concat (map segment_bytes (segments ip)) = ip"
  by (induction ip rule: segments.induct) (auto simp: segment_bytes_pair)

lemma segments_length: "length (segments ip) = length ip div 2"
  by (induction ip rule: segments.induct) auto

lemma segments_bound: "g \<in> set (segments ip) \<Longrightarrow> g < 65536"
proof (induction ip rule: segments.induct)
  case (1 h l bs)
  have "unat h < 256" "unat l < 256" using unsigned_less [where ?'a = nat, of h] unsigned_less [where ?'a = nat, of l] by simp_all
  with 1 show ?case by auto
qed auto

definition zero_run :: "nat list \<Rightarrow> nat \<times> nat \<Rightarrow> bool" where
  "zero_run gs r \<longleftrightarrow> fst r + snd r \<le> length gs \<and> (\<forall>j. fst r \<le> j \<and> j < fst r + snd r \<longrightarrow> gs ! j = 0)"

lemma longest_zeros_run:
  "zero_run all current \<Longrightarrow> snd current > 0 \<longrightarrow> fst current + snd current = i \<Longrightarrow> zero_run all longest \<Longrightarrow> drop i all = gs \<Longrightarrow>
   zero_run all (longest_zeros i current longest gs)"
proof (induction gs arbitrary: i current longest)
  case (Cons g gs)
  have i: "i < length all" "all ! i = g" "drop (i + 1) all = gs"
    using Cons.prems(4) nth_via_drop [OF Cons.prems(4)] tl_drop [of i all]
    by (auto simp: drop_Suc intro: ccontr)
  show ?case
  proof (cases "g = 0")
    case True
    let ?c = "(if snd current = 0 then i else fst current, snd current + 1)"
    have c: "zero_run all ?c" using Cons.prems(1,2) i True by (auto simp: zero_run_def less_Suc_eq)
    moreover have "fst ?c + snd ?c = i + 1" using Cons.prems(2) by auto
    ultimately have "zero_run all (longest_zeros (i + 1) ?c (if snd ?c > snd longest then ?c else longest) gs)"
      using Cons.prems(3) i(3) by (intro Cons.IH) auto
    with True show ?thesis unfolding longest_zeros.simps Let_def by simp
  next
    case False
    have "zero_run all (0, 0)" by (simp add: zero_run_def)
    with False i Cons show ?thesis by simp
  qed
qed simp

lemma zero_run_split:
  assumes "zero_run gs (start, len)"
  shows "gs = take start gs @ replicate len 0 @ drop (start + len) gs"
proof -
  have "take len (drop start gs) = replicate len 0"
    using assms by (intro nth_equalityI) (auto simp: zero_run_def)
  then show ?thesis
    by (metis append_take_drop_id drop_drop add.commute)
qed

lemma read_ipv6_compressed:
  assumes "\<forall>g \<in> set (pre @ post). g < 65536" "length pre + length post < 8"
  shows "read_ipv6_addr (fmt_subslice pre @ ''::'' @ fmt_subslice post) =
    Some (concat (map segment_bytes (pre @ replicate (8 - length pre - length post) 0 @ post)), [])"
proof -
  have "read_groups 8 0 (fmt_subslice pre @ ''::'' @ fmt_subslice post) = (pre, False, ''::'' @ fmt_subslice post)"
    using read_groups_show [of pre 0 8 "''::'' @ fmt_subslice post"] assms by auto
  moreover have "read_groups (8 - (length pre + 1)) 0 (fmt_subslice post) = (post, False, [])"
    using read_groups_show [of post 0 "8 - (length pre + 1)" "[]"] assms by auto
  ultimately show ?thesis
    using assms(2) by (simp add: read_ipv6_addr_def)
qed

lemma read_ipv6_show:
  assumes "length ip = 16"
  shows "read_ipv6_addr (show_ipv6 ip) = Some (ip, [])"
proof (cases "is_ipv4_mapped ip")
  case True
  define v4 where "v4 = drop 12 ip"
  have v4: "length v4 = 4" and ip: "ip = replicate 10 0 @ [255, 255] @ v4"
    using assms True append_take_drop_id [of 12 ip] by (auto simp: v4_def is_ipv4_mapped_def)
  have "read_groups 8 0 (''::ffff:'' @ show_ipv4 v4) = ([], False, ''::ffff:'' @ show_ipv4 v4)"
    using read_groups_show [of "[]" 0 8 "''::ffff:'' @ show_ipv4 v4"] by (simp add: fmt_subslice_def)
  moreover have "length (segments v4) = 2" using v4 by (simp add: segments_length)
  moreover have "concat (map segment_bytes (segments v4)) = v4" using v4 by (simp add: segments_bytes)
  moreover have "segment_bytes 65535 = [255, 255]" "segment_bytes 0 = [0, 0]" by (simp_all add: segment_bytes_def)
  moreover have "replicate 10 (0 :: byte) = [0, 0, 0, 0, 0, 0, 0, 0, 0, 0]" "concat (replicate 5 [0, 0 :: byte]) = [0, 0, 0, 0, 0, 0, 0, 0, 0, 0]"
    by (simp_all add: numeral_eq_Suc)
  ultimately have "read_ipv6_addr (''::ffff:'' @ show_ipv4 v4) = Some (ip, [])"
    using read_groups_mapped [OF v4] by (simp add: read_ipv6_addr_def ip)
  with True show ?thesis by (simp add: show_ipv6_def v4_def)
next
  case False
  obtain start len where run: "longest_zeros 0 (0, 0) (0, 0) (segments ip) = (start, len)" by fastforce
  have zr: "zero_run (segments ip) (start, len)"
    using longest_zeros_run [of "segments ip" "(0, 0)" 0 "(0, 0)" "segments ip"] run by (simp add: zero_run_def)
  have l: "length (segments ip) = 8" using assms by (simp add: segments_length)
  have bound: "\<forall>g \<in> set (segments ip). g < 65536" using segments_bound by blast
  show ?thesis
  proof (cases "len > 1")
    case True
    let ?pre = "take start (segments ip)" and ?post = "drop (start + len) (segments ip)"
    have fit: "start + len \<le> 8" using zr l by (simp add: zero_run_def)
    then have "8 - length ?pre - length ?post = len" "length ?pre + length ?post < 8" using True l by auto
    moreover have "\<forall>g \<in> set (?pre @ ?post). g < 65536"
      using bound set_take_subset [of start "segments ip"] set_drop_subset [of "start + len" "segments ip"] by auto
    ultimately have "read_ipv6_addr (fmt_subslice ?pre @ ''::'' @ fmt_subslice ?post) = Some (concat (map segment_bytes (segments ip)), [])"
      using read_ipv6_compressed [of ?pre ?post] zero_run_split [OF zr] by simp
    with False True run assms segments_bytes [of ip] show ?thesis by (simp add: show_ipv6_def Let_def)
  next
    case False2: False
    have "read_groups 8 0 (fmt_subslice (segments ip)) = (segments ip, False, [])"
      using read_groups_show [of "segments ip" 0 8 "[]"] bound l by simp
    with False False2 run assms l segments_bytes [of ip] show ?thesis by (simp add: show_ipv6_def read_ipv6_addr_def)
  qed
qed

lemma show_ipv6_start:
  assumes "length ip = 16"
  shows "\<exists>r. show_ipv6 ip = '':'' @ r \<or> (\<exists>g. show_ipv6 ip = show_hex g @ '':'' @ r)"
proof -
  have start: "\<exists>r. fmt_subslice gs @ s = '':'' @ r \<or> (\<exists>g. fmt_subslice gs @ s = show_hex g @ '':'' @ r)"
    if "s = '':'' @ t \<or> length gs > 1" for gs s t
    using that by (cases gs; cases "tl gs") (auto simp: fmt_subslice_def)
  obtain start len where run: "longest_zeros 0 (0, 0) (0, 0) (segments ip) = (start, len)" by fastforce
  have "length (segments ip) > 1" using assms by (simp add: segments_length)
  with run start [of "''::'' @ fmt_subslice (drop (start + len) (segments ip))" "'':'' @ fmt_subslice (drop (start + len) (segments ip))" "take start (segments ip)"]
    start [of "[]" "[]" "segments ip"]
  show ?thesis by (cases "is_ipv4_mapped ip") (auto simp: show_ipv6_def Let_def)
qed

lemma parse_ip_show:
  assumes "ip_valid ip"
  shows "parse_ip_addr (show_ip ip) = Some ip"
proof (cases ip)
  case (IpV4 bs)
  with assms read_ipv4_show [of bs "[]"] show ?thesis by (simp add: parse_ip_addr_def)
next
  case (IpV6 bs)
  with assms have l: "length bs = 16" by simp
  have "read_ipv4_addr (show_ipv6 bs) = None"
    using show_ipv6_start [OF l] read_at_colon(1) read_ipv4_hex by force
  with IpV6 read_ipv6_show [OF l] show ?thesis by (simp add: parse_ip_addr_def)
qed

section \<open>Universal addresses\<close>

lemma rsplit_dot_append: "CHR ''.'' \<notin> set q \<Longrightarrow> rsplit_dot (p @ ''.'' @ q) = (q, Some p)"
proof -
  assume "CHR ''.'' \<notin> set q"
  then have "takeWhile (\<lambda>c. c \<noteq> CHR ''.'') (rev (p @ ''.'' @ q)) = rev q"
    by (simp add: takeWhile_append)
  then show ?thesis by (simp add: rsplit_dot_def Let_def)
qed

lemma show_nat_no_dot: "CHR ''.'' \<notin> set (show_nat n)"
  using show_nat_digits [of n] dot_no_digit by (auto simp: list_all_iff)

lemma parse_u8_show: "n \<le> 255 \<Longrightarrow> parse_u8 (show_nat n) = Some n"
proof -
  assume "n \<le> 255"
  obtain c cs where c: "show_nat n = c # cs" "is_ascii_digit c" using show_nat_digits [of n] by (cases "show_nat n") auto
  then have "c \<noteq> CHR ''+''" by (auto simp: is_ascii_digit_def in_range_def)
  with c \<open>n \<le> 255\<close> digits_value_show [of n] show ?thesis by (simp add: parse_u8_def)
qed

lemma parse_universal:
  assumes "ip_valid (addr_ip a)"
  shows "parse_universal_addr (universal_addr a) = Inr (socket_addr_new (addr_ip a) (addr_port a))"
proof -
  obtain high low where port: "u16_to_be (addr_port a) = [high, low]"
    by (simp add: u16_to_be_def numeral_2_eq_2)
  have octet: "unat x \<le> 255" for x :: byte
    using unsigned_less [where ?'a = nat, of x] by simp
  have "be_to_u16 [high, low] = addr_port a"
    using be_to_u16_to_be [of "addr_port a"] port by simp
  moreover have "rsplit_dot ((show_ip (addr_ip a) @ ''.'' @ show_nat (unat high)) @ ''.'' @ show_nat (unat low)) =
      (show_nat (unat low), Some (show_ip (addr_ip a) @ ''.'' @ show_nat (unat high)))"
    by (rule rsplit_dot_append [OF show_nat_no_dot])
  ultimately show ?thesis
    using rsplit_dot_append [OF show_nat_no_dot, of "show_ip (addr_ip a)"] port parse_ip_show [OF assms]
    by (simp add: universal_addr_def parse_universal_addr_def parse_u8_show octet)
qed

section \<open>The size and the characters of an address\<close>

lemma join_with_bound: "(\<And>x. x \<in> set xs \<Longrightarrow> length x \<le> k) \<Longrightarrow> length (join_with [c] xs) \<le> (k + 1) * length xs"
proof (induction "[c]" xs rule: join_with.induct)
  case (3 x y xs)
  then have "length x \<le> k" "length (join_with [c] (y # xs)) \<le> (k + 1) * length (y # xs)" by auto
  then show ?case by simp
qed auto

lemma show_ipv4_length: "length (show_ipv4 ip) \<le> 4 * length ip"
proof -
  have "length (show_nat (unat x)) \<le> 3" for x :: byte
    using show_nat_length [of "unat x" 2] unsigned_less [where ?'a = nat, of x] by simp
  then show ?thesis
    using join_with_bound [of "map (\<lambda>b. show_nat (unat b)) ip" 3 "CHR ''.''"] by (auto simp: show_ipv4_def)
qed

lemma fmt_subslice_length: "\<forall>g \<in> set gs. g < 65536 \<Longrightarrow> length (fmt_subslice gs) \<le> 5 * length gs"
  using join_with_bound [of "map show_hex gs" 4 "CHR '':''"] show_hex_length [of _ 3] by (auto simp: fmt_subslice_def)

lemma show_ip_length:
  assumes "ip_valid ip"
  shows "length (show_ip ip) \<le> 82"
proof (cases ip)
  case (IpV4 bs)
  with assms show_ipv4_length [of bs] show ?thesis by simp
next
  case (IpV6 bs)
  have b: "\<forall>g \<in> set (take i (segments bs)). g < 65536" "\<forall>g \<in> set (drop i (segments bs)). g < 65536" for i
    using segments_bound set_take_subset set_drop_subset by fast+
  have l: "length (segments bs) = 8" using IpV6 assms by (simp add: segments_length)
  have part: "length (fmt_subslice (take i (segments bs))) \<le> 40" "length (fmt_subslice (drop i (segments bs))) \<le> 40" for i
    using fmt_subslice_length [OF b(1), of i] fmt_subslice_length [OF b(2), of i] l by auto
  have "length (show_ipv4 (drop 12 bs)) \<le> 16" using show_ipv4_length [of "drop 12 bs"] IpV6 assms by simp
  with IpV6 part part(2) [of 0] show ?thesis
    by (auto simp: show_ipv6_def Let_def split: prod.split intro: order_trans [OF add_mono [OF part]])
qed

definition ascii :: "string \<Rightarrow> bool" where
  "ascii s \<longleftrightarrow> list_all (\<lambda>c. of_char c < (128 :: nat)) s"

lemma ascii_append [simp]: "ascii (s @ t) \<longleftrightarrow> ascii s \<and> ascii t" "ascii (c # s) \<longleftrightarrow> of_char c < (128 :: nat) \<and> ascii s" "ascii []"
  by (simp_all add: ascii_def)

lemma utf8_valid_text: "ascii s \<Longrightarrow> utf8_valid (text_bytes s)"
  by (rule utf8_valid_ascii) (auto simp: text_bytes_def ascii_def list_all_iff word_less_nat_alt unat_of_char)

lemma ascii_join: "list_all ascii xs \<Longrightarrow> of_char d < (128 :: nat) \<Longrightarrow> ascii (join_with [d] xs)"
  by (induction "[d]" xs rule: join_with.induct) auto

lemma to_digit_ascii: "to_digit radix c \<noteq> None \<Longrightarrow> radix \<le> 36 \<Longrightarrow> of_char c < (128 :: nat)"
  unfolding to_digit_def Let_def is_ascii_digit_def in_range_def by (simp split: if_split_asm)

lemma ascii_numbers: "ascii (show_nat n)" "ascii (show_hex n)"
  using show_nat_digits [of n] show_hex_chars [of n] to_digit_ascii [of 16]
  by (auto simp: ascii_def list_all_iff is_ascii_digit_def in_range_def)

lemma show_ip_ascii: "ascii (show_ip ip)"
proof -
  have v4: "ascii (show_ipv4 bs)" for bs
    unfolding show_ipv4_def by (rule ascii_join) (simp_all add: list_all_iff ascii_numbers)
  have "ascii (fmt_subslice gs)" for gs
    unfolding fmt_subslice_def by (rule ascii_join) (simp_all add: list_all_iff ascii_numbers)
  with v4 show ?thesis by (cases ip) (simp_all add: show_ipv6_def Let_def split: prod.split)
qed

lemma universal_addr_string:
  assumes "ip_valid (addr_ip a)"
  shows "string_valid (universal_addr a)" "universal_addr a \<noteq> []"
proof -
  obtain high low where port: "u16_to_be (addr_port a) = [high, low]" by (simp add: u16_to_be_def numeral_2_eq_2)
  let ?s = "show_ip (addr_ip a) @ ''.'' @ show_nat (unat high) @ ''.'' @ show_nat (unat low)"
  have u: "universal_addr a = text_bytes ?s" by (simp add: universal_addr_def port)
  have "length (show_nat (unat x)) \<le> 3" for x :: byte
    using show_nat_length [of "unat x" 2] unsigned_less [where ?'a = nat, of x] by simp
  from this [of high] this [of low] show_ip_length [OF assms] have "length ?s \<le> u32_max" by (simp add: u32_max_def)
  moreover have "ascii ?s" by (simp add: show_ip_ascii ascii_numbers)
  then have "utf8_valid (text_bytes ?s)" by (rule utf8_valid_text)
  ultimately show "string_valid (universal_addr a)" "universal_addr a \<noteq> []"
    by (simp_all add: u string_valid_def text_bytes_def)
qed

section \<open>Properties\<close>

text \<open>
  C32. The universal address of a socket address parses back to the same IP address and port, for IPv4 and for
  every form of IPv6 text: full, compressed and IPv4-mapped. The flow label and the scope of an IPv6
  socket address are not part of a universal address and come back as zero.\<close>
theorem universal_addr_roundtrip:
  assumes "ip_valid (addr_ip a)"
  shows "parse_universal_addr (universal_addr a) = Inr (socket_addr_new (addr_ip a) (addr_port a))"
  by (rule parse_universal [OF assms])

theorem universal_addr_roundtrip_witness:
  "parse_universal_addr (universal_addr (SocketV6 ([32, 1, 13, 184] @ replicate 11 0 @ [1]) 2049 7 3)) =
     Inr (SocketV6 ([32, 1, 13, 184] @ replicate 11 0 @ [1]) 2049 0 0)"
  using universal_addr_roundtrip [of "SocketV6 ([32, 1, 13, 184] @ replicate 11 0 @ [1]) 2049 7 3"] by simp

end
