(* ===== verification/Loopback.thy ===== *)
theory Loopback
  imports Rpc_Server
begin

text \<open>
  A client of \<^verbatim>\<open>onc-rpc-runtime\<close> talking to a server of \<^verbatim>\<open>onc-rpc-server\<close>: each call is encoded to bytes, decoded by the
  server, dispatched, and its reply encoded and decoded on the way back. The theorem of this theory
  composes the client, the message codec and the server.
\<close>

section \<open>A transport that ends at a server\<close>

definition exchange :: "(rpc_message \<Rightarrow> socket_addr option \<Rightarrow> ('d, server_error, rpc_message) action) \<Rightarrow> socket_addr option \<Rightarrow>
    rpc_message \<Rightarrow> ('d, runtime_error, rpc_message) action" where
  "exchange handle peer request =
     and_then (lift_result (encode_rpc_message_datagram request)) (\<lambda>datagram.
     and_then (lift_result (decode_rpc_message_datagram datagram)) (\<lambda>message.
     and_then (map_action_err (\<lambda>_. ConnectionClosed) (handle message peer)) (\<lambda>reply.
     and_then (lift_result (encode_rpc_message_datagram reply)) (\<lambda>datagram.
     lift_result (decode_rpc_message_datagram datagram)))))"

definition loopback :: "'d server \<Rightarrow> socket_addr option \<Rightarrow> 'd client_transport" where
  "loopback server peer =
     \<lparr>ct_xid_allocator = None, ct_call = exchange (handle_message_with_peer_addr server) peer,
      ct_call_with_options = (\<lambda>request options. exchange (handle_message_with_peer_addr server) peer request)\<rparr>"

text \<open>What a remote call stands for: running the dispatcher registered for the program.\<close>

fun remote_error :: "dispatch_error \<Rightarrow> runtime_error" where
  "remote_error DispatchProcedureUnavailable = RemoteProcedureUnavailable"
| "remote_error DispatchGarbageArgs = RemoteGarbageArgs"
| "remote_error DispatchSystemError = RemoteSystemError"

definition local_call :: "'d server \<Rightarrow> request_context \<Rightarrow> ('d, runtime_error, response_payload) action" where
  "local_call server request = (case map_of (sv_dispatchers server) (program_from (rq_program request)) of
       Some dispatch \<Rightarrow> map_action_err remote_error (dispatch request)
     | None \<Rightarrow> err RemoteProgramUnavailable)"

definition auth_ok :: "opaque_auth \<Rightarrow> bool" where
  "auth_ok a \<longleftrightarrow> auth_canonical a \<and> auth_fits a"

definition accepted_outcome :: "runtime_error + response_payload \<Rightarrow> accepted_reply" where
  "accepted_outcome r = (case r of
       Inr p \<Rightarrow> \<lparr>ar_verifier = rp_verifier p, ar_status = Success (rp_payload p)\<rparr>
     | Inl e \<Rightarrow> \<lparr>ar_verifier = opaque_auth_none, ar_status =
         (case e of RemoteProcedureUnavailable \<Rightarrow> ProcedureUnavailable | RemoteGarbageArgs \<Rightarrow> GarbageArgs
          | RemoteSystemError \<Rightarrow> SystemError | _ \<Rightarrow> ProgramUnavailable)\<rparr>)"

section \<open>One exchange\<close>

lemma auth_none_ok: "auth_ok opaque_auth_none"
  by (simp add: auth_ok_def auth_canonical_def auth_fits_def opaque_auth_none_def auth_flavor_from_def MAX_AUTH_BYTES_def)

lemma message_passes:
  assumes "wf_message m" "list_all auth_fits (message_auths (msg_body m))"
  shows "encode_rpc_message_datagram m = Inr (message_wire m)" "decode_rpc_message_datagram (message_wire m) = Inr m"
proof -
  have "rpc_message_encode m = Inr (message_wire m)" "rpc_message_decode (message_wire m) = Inr m"
    using assms by (simp_all add: message_encode_Inr message_decode_iff)
  then show "encode_rpc_message_datagram m = Inr (message_wire m)" "decode_rpc_message_datagram (message_wire m) = Inr m"
    by (simp_all add: encode_rpc_message_datagram_def decode_rpc_message_datagram_def)
qed

lemma handle_call:
  assumes "local_call server \<lparr>rq_xid = xid, rq_program = cb_program call, rq_procedure = cb_procedure call, rq_peer_addr = peer,
      rq_credentials = cb_credentials call, rq_verifier = cb_verifier call, rq_payload = cb_payload call\<rparr> app = (r, app')"
  shows "handle_message_with_peer_addr server \<lparr>msg_xid = xid, msg_body = Call call\<rparr> peer app =
    (Inr \<lparr>msg_xid = xid, msg_body = Reply (Accepted (accepted_outcome r))\<rparr>, app')"
proof -
  have same: "\<lparr>pv_program = pv_program (cb_program call), pv_version = pv_version (cb_program call)\<rparr> = cb_program call" by simp
  show ?thesis
  proof (cases "map_of (sv_dispatchers server) (program_from (cb_program call))")
    case None
    with assms show ?thesis
      by (auto simp: handle_message_with_peer_addr_def resolve_dispatch_def local_call_def accepted_outcome_def program_unavailable_reply_def same Let_def)
  next
    case (Some dispatch)
    with assms show ?thesis
      by (auto simp: handle_message_with_peer_addr_def resolve_dispatch_def local_call_def map_action_err_def accepted_outcome_def same Let_def
        procedure_unavailable_reply_def garbage_args_reply_def system_error_reply_def success_reply_def
        split: prod.splits sum.splits dispatch_error.splits)
  qed
qed

lemma exchange_call:
  assumes "local_call server \<lparr>rq_xid = xid, rq_program = cb_program call, rq_procedure = cb_procedure call, rq_peer_addr = peer,
      rq_credentials = cb_credentials call, rq_verifier = cb_verifier call, rq_payload = cb_payload call\<rparr> app = (r, app')"
    and "cb_rpc_version call = RPC_VERSION_2" "auth_ok (cb_credentials call)" "auth_ok (cb_verifier call)"
    and "\<And>p. r = Inr p \<Longrightarrow> auth_ok (rp_verifier p)"
  shows "exchange (handle_message_with_peer_addr server) peer \<lparr>msg_xid = xid, msg_body = Call call\<rparr> app =
    (Inr \<lparr>msg_xid = xid, msg_body = Reply (Accepted (accepted_outcome r))\<rparr>, app')"
proof -
  let ?q = "\<lparr>msg_xid = xid, msg_body = Call call\<rparr>" and ?a = "\<lparr>msg_xid = xid, msg_body = Reply (Accepted (accepted_outcome r))\<rparr>"
  have "auth_ok (ar_verifier (accepted_outcome r))"
    using assms(5) auth_none_ok by (cases r) (auto simp: accepted_outcome_def)
  then have a: "wf_message ?a" "list_all auth_fits (message_auths (msg_body ?a))"
    by (simp_all add: wf_message_def auth_ok_def)
  have q: "wf_message ?q" "list_all auth_fits (message_auths (msg_body ?q))"
    using assms(2-4) by (simp_all add: wf_message_def auth_ok_def)
  show ?thesis
    using message_passes [OF q] message_passes [OF a] handle_call [OF assms(1)]
    by (simp add: exchange_def map_action_err_def)
qed

lemma map_err_Inl: "map_err f x = Inl e \<longleftrightarrow> (\<exists>d. x = Inl d \<and> e = f d)"
  by (cases x) auto

lemma remote_error_cases: "remote_error d = RemoteProcedureUnavailable \<or> remote_error d = RemoteGarbageArgs \<or> remote_error d = RemoteSystemError"
  by (cases d) simp_all

lemma handle_outcome:
  assumes "local_call server request app = (r, app')"
  shows "handle_reply xid \<lparr>msg_xid = xid, msg_body = Reply (Accepted (accepted_outcome r))\<rparr> =
    result_bind r (\<lambda>p. Inr \<lparr>cp_xid = xid, cp_verifier = rp_verifier p, cp_payload = rp_payload p\<rparr>)"
proof (cases r)
  case (Inl e)
  with assms have "e \<in> {RemoteProgramUnavailable, RemoteProcedureUnavailable, RemoteGarbageArgs, RemoteSystemError}"
    by (auto simp: local_call_def map_action_err_def map_err_Inl split: option.splits prod.splits) (use remote_error_cases in blast)
  with Inl show ?thesis by (auto simp: handle_reply_def accepted_outcome_def)
next
  case (Inr p)
  then show ?thesis by (simp add: handle_reply_def accepted_outcome_def)
qed

lemma call_typed_loopback:
  assumes "to_xdr_bytes enc x = Inr payload" "unat c \<noteq> u32_max" "auth_ok (cc_credentials config)" "auth_ok (cc_verifier config)"
    and "local_call server \<lparr>rq_xid = Xid c, rq_program = program, rq_procedure = procedure, rq_peer_addr = peer,
      rq_credentials = cc_credentials config, rq_verifier = cc_verifier config, rq_payload = payload\<rparr> app = (r, app')"
    and "\<And>p. r = Inr p \<Longrightarrow> auth_ok (rp_verifier p)"
  shows "call_typed enc dec config (loopback server peer) program procedure x (c, app) =
    (result_bind r (\<lambda>p. map_err DecodeFailure (from_xdr_bytes dec (rp_payload p))), (c + 1, app'))"
proof -
  let ?call = "call_body_new program procedure (cc_credentials config) (cc_verifier config) payload"
  have build: "build_request_message_with_options config (Xid c) (call_request_new program procedure payload) call_options_new =
      \<lparr>msg_xid = Xid c, msg_body = Call ?call\<rparr>"
    by (simp add: build_request_message_with_options_def build_request_message_def call_request_new_def call_options_new_def call_body_new_def)
  have "exchange (handle_message_with_peer_addr server) peer \<lparr>msg_xid = Xid c, msg_body = Call ?call\<rparr> app =
      (Inr \<lparr>msg_xid = Xid c, msg_body = Reply (Accepted (accepted_outcome r))\<rparr>, app')"
    using assms by (intro exchange_call) (simp_all add: call_body_new_def)
  with assms(1,2) build handle_outcome [OF assms(5), of "Xid c"] show ?thesis
    by (cases r) (simp_all add: call_typed_def call_typed_with_options_def client_call_with_options_def loopback_def on_counter_def on_transport_def
        allocate_xid_eq)
qed

section \<open>Properties\<close>

text \<open>
  C1. A typed remote call is the local call: over a transport that carries the encoded messages to a server, a call runs
  the dispatcher registered for the program exactly once, on the encoded argument and the caller's
  credentials, and returns the decoded result; each dispatch error and an unknown program come
  back as the error that names them. The counter moves on by one and the server's state is that of the dispatcher.\<close>
theorem typed_call_end_to_end:
  assumes "to_xdr_bytes enc x = Inr payload" "unat c \<noteq> u32_max" "auth_ok (cc_credentials config)" "auth_ok (cc_verifier config)"
    and "local_call server \<lparr>rq_xid = Xid c, rq_program = program, rq_procedure = procedure, rq_peer_addr = peer,
      rq_credentials = cc_credentials config, rq_verifier = cc_verifier config, rq_payload = payload\<rparr> app = (r, app')"
    and "\<And>p. r = Inr p \<Longrightarrow> auth_ok (rp_verifier p)"
  shows "call_typed enc dec config (loopback server peer) program procedure x (c, app) =
    (result_bind r (\<lambda>p. map_err DecodeFailure (from_xdr_bytes dec (rp_payload p))), (c + 1, app'))"
  by (rule call_typed_loopback [OF assms])

theorem typed_call_end_to_end_witness:
  "call_typed encode_u32 decode_u32 (client_config_new (SocketV4 [127, 0, 0, 1] 111))
     (loopback \<lparr>sv_config = server_config_default, sv_dispatchers =
        [(Program 9 1, \<lambda>request n. (Inr (response_success (rq_payload request)), n + length (rq_payload request)))]\<rparr> None)
     \<lparr>pv_program = 9, pv_version = 1\<rparr> (Procedure 4) 77 (1, 10 :: nat) = (Inr 77, (2, 14))"
proof -
  let ?server = "\<lparr>sv_config = server_config_default, sv_dispatchers =
        [(Program 9 1, \<lambda>request n. (Inr (response_success (rq_payload request)), n + length (rq_payload request)))]\<rparr> :: nat server"
  let ?config = "client_config_new (SocketV4 [127, 0, 0, 1] 111)"
  have auth: "auth_ok (cc_credentials ?config)" "auth_ok (cc_verifier ?config)" "auth_ok (rp_verifier (response_success p))" for p
    by (simp_all add: client_config_new_def response_success_def auth_none_ok)
  have "to_xdr_bytes encode_u32 77 = Inr (u32_to_be 77)" by (rule u32_codec.to_bytes) simp
  from typed_call_end_to_end [OF this _ auth(1,2), of 1 ?server "\<lparr>pv_program = 9, pv_version = 1\<rparr>" "Procedure 4" None 10
      "Inr (response_success (u32_to_be 77))" 14 decode_u32] auth(3) u32_codec.from_bytes [of 77]
  show ?thesis by (auto simp: local_call_def program_from_def map_action_err_def response_success_def u32_max_def)
qed

end
