(* ===== verification/Rpcbind.thy ===== *)
theory Rpcbind
  imports Net_Addr Loopback Server_Transport
begin

text \<open>
  The crate \<^verbatim>\<open>src/crates/onc-rpc-bind/src/lib.rs\<close>: rpcbind version 4 requests, the synchronous and asynchronous rpcbind
  clients, and the publication of a server's programs around serving. Connecting is tokio's: the
  parameter \<open>connect\<close> gives the transport of a connection, an action on the state \<open>'w\<close> of the world. Of a server
  transport the crate uses its configuration, its local address, its programs and its two serving
  calls, which are the fields of \<open>bound_server\<close>; their errors are kept in place of their texts.
\<close>

section \<open>Constants and errors\<close>

definition RPCBIND_PROGRAM :: program_version where
  "RPCBIND_PROGRAM = \<lparr>pv_program = 100000, pv_version = 4\<rparr>"

definition RPCBIND_NULL :: rpc_procedure where "RPCBIND_NULL = Procedure 0"

definition RPCBIND_SET :: rpc_procedure where "RPCBIND_SET = Procedure 1"

definition RPCBIND_UNSET :: rpc_procedure where "RPCBIND_UNSET = Procedure 2"

definition RPCBIND_GETADDR :: rpc_procedure where "RPCBIND_GETADDR = Procedure 3"

definition DEFAULT_OWNER :: bytes where
  "DEFAULT_OWNER = text_bytes ''oncrpc-rs''"

datatype rpc_transport = Tcp | Tcp6 | Udp | Udp6

fun netid :: "rpc_transport \<Rightarrow> bytes" where
  "netid Tcp = text_bytes ''tcp''"
| "netid Tcp6 = text_bytes ''tcp6''"
| "netid Udp = text_bytes ''udp''"
| "netid Udp6 = text_bytes ''udp6''"

datatype bind_error =
    BindRuntime runtime_error
  | BindXdr xdr_error
  | NotFound u32 u32
  | InvalidUniversalAddress bytes
  | UnspecifiedServiceAddress socket_addr
  | MissingRpcbindAddress
  | BindServerTransport server_transport_error

section \<open>Requests\<close>

record rpcb =
  rb_program :: u32
  rb_version :: u32
  rb_netid :: bytes
  rb_address :: bytes
  rb_owner :: bytes

fun tcp_netid :: "socket_addr \<Rightarrow> bytes" where
  "tcp_netid (SocketV4 ip port) = text_bytes ''tcp''"
| "tcp_netid (SocketV6 ip port flowinfo scope_id) = text_bytes ''tcp6''"

fun udp_netid :: "socket_addr \<Rightarrow> bytes" where
  "udp_netid (SocketV4 ip port) = text_bytes ''udp''"
| "udp_netid (SocketV6 ip port flowinfo scope_id) = text_bytes ''udp6''"

text \<open>\<^verbatim>\<open>IpAddr::is_unspecified\<close>.\<close>

fun is_unspecified :: "ip_addr \<Rightarrow> bool" where
  "is_unspecified (IpV4 ip) = (ip = [0, 0, 0, 0])"
| "is_unspecified (IpV6 ip) = (ip = replicate 16 0)"

definition checked_service_addr :: "socket_addr \<Rightarrow> bind_error + socket_addr" where
  "checked_service_addr addr = (if is_unspecified (addr_ip addr) then Inl (UnspecifiedServiceAddress addr) else Inr addr)"

definition rpcb_for_tcp :: "program_version \<Rightarrow> socket_addr \<Rightarrow> bytes \<Rightarrow> rpcb" where
  "rpcb_for_tcp program service_addr owner =
     \<lparr>rb_program = pv_program program, rb_version = pv_version program, rb_netid = tcp_netid service_addr,
      rb_address = universal_addr service_addr, rb_owner = owner\<rparr>"

definition rpcb_for_udp :: "program_version \<Rightarrow> socket_addr \<Rightarrow> bytes \<Rightarrow> rpcb" where
  "rpcb_for_udp program service_addr owner =
     \<lparr>rb_program = pv_program program, rb_version = pv_version program, rb_netid = udp_netid service_addr,
      rb_address = universal_addr service_addr, rb_owner = owner\<rparr>"

definition rpcb_encode :: "rpcb xdr_encoder" where
  "rpcb_encode self =
     and_then (encode_u32 (rb_program self)) (\<lambda>_.
     and_then (encode_u32 (rb_version self)) (\<lambda>_.
     and_then (encode_string (rb_netid self)) (\<lambda>_.
     and_then (encode_string (rb_address self)) (\<lambda>_.
     and_then (encode_string (rb_owner self)) (\<lambda>_.
     ok ())))))"

definition rpcb_decode :: "rpcb xdr_decoder" where
  "rpcb_decode =
     and_then decode_u32 (\<lambda>program.
     and_then decode_u32 (\<lambda>version.
     and_then decode_string (\<lambda>netid.
     and_then decode_string (\<lambda>address.
     and_then decode_string (\<lambda>owner.
     ok \<lparr>rb_program = program, rb_version = version, rb_netid = netid, rb_address = address, rb_owner = owner\<rparr>)))))"

section \<open>The clients\<close>

record 'w rpcbind_client =
  br_client :: "'w client"
  br_netid :: bytes

definition rpcbind_connect :: "(client_config \<Rightarrow> ('w, runtime_error, 'w client_transport) action) \<Rightarrow> socket_addr \<Rightarrow> ('w, bind_error, 'w rpcbind_client) action" where
  "rpcbind_connect connect rpcbind_addr =
     (let config = config_with_connect_timeout (from_secs 5) (client_config_new rpcbind_addr) in
      and_then (map_action_err BindRuntime (connect config)) (\<lambda>transport.
      ok \<lparr>br_client = client_new config transport, br_netid = tcp_netid rpcbind_addr\<rparr>))"

text \<open>A client is used on its counter and the world; the counter goes with the client.\<close>

definition on_client :: "'w rpcbind_client \<Rightarrow> (u32 \<times> 'w, 'e, 'a) action \<Rightarrow> ('w, 'e, 'a) action" where
  "on_client self m w = (case m (cl_next_xid (br_client self), w) of (r, s) \<Rightarrow> (r, snd s))"

definition lookup_addr :: "'w rpcbind_client \<Rightarrow> program_version \<Rightarrow> bytes \<Rightarrow> (u32 \<times> 'w, bind_error, socket_addr) action" where
  "lookup_addr self program net =
     (let request = \<lparr>rb_program = pv_program program, rb_version = pv_version program, rb_netid = net, rb_address = [], rb_owner = []\<rparr> in
      and_then (map_action_err BindRuntime (call_typed rpcb_encode decode_string (cl_config (br_client self)) (cl_transport (br_client self))
         RPCBIND_PROGRAM RPCBIND_GETADDR request)) (\<lambda>result.
      if result = [] then err (NotFound (pv_program program) (pv_version program))
      else lift_result (map_err InvalidUniversalAddress (parse_universal_addr result))))"

definition lookup_tcp_addr :: "'w rpcbind_client \<Rightarrow> program_version \<Rightarrow> (u32 \<times> 'w, bind_error, socket_addr) action" where
  "lookup_tcp_addr self program = lookup_addr self program (br_netid self)"

definition lookup_udp_addr :: "'w rpcbind_client \<Rightarrow> program_version \<Rightarrow> (u32 \<times> 'w, bind_error, socket_addr) action" where
  "lookup_udp_addr self program = lookup_addr self program
     (if br_netid self = text_bytes ''tcp'' \<or> br_netid self = text_bytes ''udp'' then netid Udp
      else if br_netid self = text_bytes ''tcp6'' \<or> br_netid self = text_bytes ''udp6'' then netid Udp6
      else netid Udp)"

definition lookup_addr_for_transport :: "'w rpcbind_client \<Rightarrow> program_version \<Rightarrow> rpc_transport \<Rightarrow> (u32 \<times> 'w, bind_error, socket_addr) action" where
  "lookup_addr_for_transport self program transport = lookup_addr self program (netid transport)"

definition register_tcp :: "'w rpcbind_client \<Rightarrow> socket_addr \<Rightarrow> program_version \<Rightarrow> bytes \<Rightarrow> (u32 \<times> 'w, bind_error, bool) action" where
  "register_tcp self service_addr program owner =
     and_then (lift_result (checked_service_addr service_addr)) (\<lambda>addr.
     let request = rpcb_for_tcp program addr owner in
     map_action_err BindRuntime (call_typed rpcb_encode decode_bool (cl_config (br_client self)) (cl_transport (br_client self))
         RPCBIND_PROGRAM RPCBIND_SET request))"

definition unregister_tcp :: "'w rpcbind_client \<Rightarrow> socket_addr \<Rightarrow> program_version \<Rightarrow> bytes \<Rightarrow> (u32 \<times> 'w, bind_error, bool) action" where
  "unregister_tcp self service_addr program owner =
     and_then (lift_result (checked_service_addr service_addr)) (\<lambda>addr.
     let request = rpcb_for_tcp program addr owner in
     map_action_err BindRuntime (call_typed rpcb_encode decode_bool (cl_config (br_client self)) (cl_transport (br_client self))
         RPCBIND_PROGRAM RPCBIND_UNSET request))"

definition register_udp :: "'w rpcbind_client \<Rightarrow> socket_addr \<Rightarrow> program_version \<Rightarrow> bytes \<Rightarrow> (u32 \<times> 'w, bind_error, bool) action" where
  "register_udp self service_addr program owner =
     and_then (lift_result (checked_service_addr service_addr)) (\<lambda>addr.
     let request = rpcb_for_udp program addr owner in
     map_action_err BindRuntime (call_typed rpcb_encode decode_bool (cl_config (br_client self)) (cl_transport (br_client self))
         RPCBIND_PROGRAM RPCBIND_SET request))"

definition unregister_udp :: "'w rpcbind_client \<Rightarrow> socket_addr \<Rightarrow> program_version \<Rightarrow> bytes \<Rightarrow> (u32 \<times> 'w, bind_error, bool) action" where
  "unregister_udp self service_addr program owner =
     and_then (lift_result (checked_service_addr service_addr)) (\<lambda>addr.
     let request = rpcb_for_udp program addr owner in
     map_action_err BindRuntime (call_typed rpcb_encode decode_bool (cl_config (br_client self)) (cl_transport (br_client self))
         RPCBIND_PROGRAM RPCBIND_UNSET request))"

record 'w async_rpcbind_client =
  ar_client :: "'w async_client"
  ar_netid :: bytes

definition async_rpcbind_connect :: "(client_config \<Rightarrow> ('w, runtime_error, 'w async_client_transport) action) \<Rightarrow> socket_addr \<Rightarrow> ('w, bind_error, 'w async_rpcbind_client) action" where
  "async_rpcbind_connect connect rpcbind_addr =
     (let config = config_with_connect_timeout (from_secs 5) (client_config_new rpcbind_addr) in
      and_then (map_action_err BindRuntime (connect config)) (\<lambda>transport.
      ok \<lparr>ar_client = async_client_new config transport, ar_netid = tcp_netid rpcbind_addr\<rparr>))"

text \<open>A client is used on its counter and the world; the counter goes with the client.\<close>

definition async_on_client :: "'w async_rpcbind_client \<Rightarrow> (u32 \<times> 'w, 'e, 'a) action \<Rightarrow> ('w, 'e, 'a) action" where
  "async_on_client self m w = (case m (ac_next_xid (ar_client self), w) of (r, s) \<Rightarrow> (r, snd s))"

definition async_lookup_addr :: "'w async_rpcbind_client \<Rightarrow> program_version \<Rightarrow> bytes \<Rightarrow> (u32 \<times> 'w, bind_error, socket_addr) action" where
  "async_lookup_addr self program net =
     (let request = \<lparr>rb_program = pv_program program, rb_version = pv_version program, rb_netid = net, rb_address = [], rb_owner = []\<rparr> in
      and_then (map_action_err BindRuntime (async_call_typed rpcb_encode decode_string (ac_config (ar_client self)) (ac_transport (ar_client self))
         RPCBIND_PROGRAM RPCBIND_GETADDR request)) (\<lambda>result.
      if result = [] then err (NotFound (pv_program program) (pv_version program))
      else lift_result (map_err InvalidUniversalAddress (parse_universal_addr result))))"

definition async_lookup_tcp_addr :: "'w async_rpcbind_client \<Rightarrow> program_version \<Rightarrow> (u32 \<times> 'w, bind_error, socket_addr) action" where
  "async_lookup_tcp_addr self program = async_lookup_addr self program (ar_netid self)"

definition async_lookup_udp_addr :: "'w async_rpcbind_client \<Rightarrow> program_version \<Rightarrow> (u32 \<times> 'w, bind_error, socket_addr) action" where
  "async_lookup_udp_addr self program = async_lookup_addr self program
     (if ar_netid self = text_bytes ''tcp'' \<or> ar_netid self = text_bytes ''udp'' then netid Udp
      else if ar_netid self = text_bytes ''tcp6'' \<or> ar_netid self = text_bytes ''udp6'' then netid Udp6
      else netid Udp)"

definition async_lookup_addr_for_transport :: "'w async_rpcbind_client \<Rightarrow> program_version \<Rightarrow> rpc_transport \<Rightarrow> (u32 \<times> 'w, bind_error, socket_addr) action" where
  "async_lookup_addr_for_transport self program transport = async_lookup_addr self program (netid transport)"

definition async_register_tcp :: "'w async_rpcbind_client \<Rightarrow> socket_addr \<Rightarrow> program_version \<Rightarrow> bytes \<Rightarrow> (u32 \<times> 'w, bind_error, bool) action" where
  "async_register_tcp self service_addr program owner =
     and_then (lift_result (checked_service_addr service_addr)) (\<lambda>addr.
     let request = rpcb_for_tcp program addr owner in
     map_action_err BindRuntime (async_call_typed rpcb_encode decode_bool (ac_config (ar_client self)) (ac_transport (ar_client self))
         RPCBIND_PROGRAM RPCBIND_SET request))"

definition async_unregister_tcp :: "'w async_rpcbind_client \<Rightarrow> socket_addr \<Rightarrow> program_version \<Rightarrow> bytes \<Rightarrow> (u32 \<times> 'w, bind_error, bool) action" where
  "async_unregister_tcp self service_addr program owner =
     and_then (lift_result (checked_service_addr service_addr)) (\<lambda>addr.
     let request = rpcb_for_tcp program addr owner in
     map_action_err BindRuntime (async_call_typed rpcb_encode decode_bool (ac_config (ar_client self)) (ac_transport (ar_client self))
         RPCBIND_PROGRAM RPCBIND_UNSET request))"

definition async_register_udp :: "'w async_rpcbind_client \<Rightarrow> socket_addr \<Rightarrow> program_version \<Rightarrow> bytes \<Rightarrow> (u32 \<times> 'w, bind_error, bool) action" where
  "async_register_udp self service_addr program owner =
     and_then (lift_result (checked_service_addr service_addr)) (\<lambda>addr.
     let request = rpcb_for_udp program addr owner in
     map_action_err BindRuntime (async_call_typed rpcb_encode decode_bool (ac_config (ar_client self)) (ac_transport (ar_client self))
         RPCBIND_PROGRAM RPCBIND_SET request))"

definition async_unregister_udp :: "'w async_rpcbind_client \<Rightarrow> socket_addr \<Rightarrow> program_version \<Rightarrow> bytes \<Rightarrow> (u32 \<times> 'w, bind_error, bool) action" where
  "async_unregister_udp self service_addr program owner =
     and_then (lift_result (checked_service_addr service_addr)) (\<lambda>addr.
     let request = rpcb_for_udp program addr owner in
     map_action_err BindRuntime (async_call_typed rpcb_encode decode_bool (ac_config (ar_client self)) (ac_transport (ar_client self))
         RPCBIND_PROGRAM RPCBIND_UNSET request))"

section \<open>Ports and configurations\<close>

definition lookup_port :: "(client_config \<Rightarrow> ('w, runtime_error, 'w client_transport) action) \<Rightarrow> socket_addr \<Rightarrow> u32 \<Rightarrow> u32 \<Rightarrow> ('w, bind_error, u16) action" where
  "lookup_port connect rpcbind_addr program version =
     and_then (rpcbind_connect connect rpcbind_addr) (\<lambda>client.
     and_then (on_client client (lookup_tcp_addr client \<lparr>pv_program = program, pv_version = version\<rparr>)) (\<lambda>addr.
     ok (addr_port addr)))"

definition lookup_port_for_transport :: "(client_config \<Rightarrow> ('w, runtime_error, 'w client_transport) action) \<Rightarrow> socket_addr \<Rightarrow> u32 \<Rightarrow> u32 \<Rightarrow> rpc_transport \<Rightarrow> ('w, bind_error, u16) action" where
  "lookup_port_for_transport connect rpcbind_addr program version transport =
     and_then (rpcbind_connect connect rpcbind_addr) (\<lambda>client.
     and_then (on_client client (lookup_addr_for_transport client \<lparr>pv_program = program, pv_version = version\<rparr> transport)) (\<lambda>addr.
     ok (addr_port addr)))"

definition lookup_udp_port :: "(client_config \<Rightarrow> ('w, runtime_error, 'w client_transport) action) \<Rightarrow> socket_addr \<Rightarrow> u32 \<Rightarrow> u32 \<Rightarrow> ('w, bind_error, u16) action" where
  "lookup_udp_port connect rpcbind_addr program version =
     and_then (rpcbind_connect connect rpcbind_addr) (\<lambda>client.
     and_then (on_client client (lookup_udp_addr client \<lparr>pv_program = program, pv_version = version\<rparr>)) (\<lambda>addr.
     ok (addr_port addr)))"

definition resolve_client_config :: "(client_config \<Rightarrow> ('w, runtime_error, 'w client_transport) action) \<Rightarrow> socket_addr \<Rightarrow> program_version \<Rightarrow> ('w, bind_error, client_config) action" where
  "resolve_client_config connect rpcbind_addr program =
     and_then (rpcbind_connect connect rpcbind_addr) (\<lambda>client.
     and_then (on_client client (lookup_tcp_addr client program)) (\<lambda>addr.
     ok (client_config_new addr)))"

definition resolve_client_config_for_transport :: "(client_config \<Rightarrow> ('w, runtime_error, 'w client_transport) action) \<Rightarrow> socket_addr \<Rightarrow> program_version \<Rightarrow> rpc_transport \<Rightarrow> ('w, bind_error, client_config) action" where
  "resolve_client_config_for_transport connect rpcbind_addr program transport =
     and_then (rpcbind_connect connect rpcbind_addr) (\<lambda>client.
     and_then (on_client client (lookup_addr_for_transport client program transport)) (\<lambda>addr.
     ok (client_config_new addr)))"

definition resolve_udp_client_config :: "(client_config \<Rightarrow> ('w, runtime_error, 'w client_transport) action) \<Rightarrow> socket_addr \<Rightarrow> program_version \<Rightarrow> ('w, bind_error, client_config) action" where
  "resolve_udp_client_config connect rpcbind_addr program =
     and_then (rpcbind_connect connect rpcbind_addr) (\<lambda>client.
     and_then (on_client client (lookup_udp_addr client program)) (\<lambda>addr.
     ok (client_config_new addr)))"

definition lookup_port_async :: "(client_config \<Rightarrow> ('w, runtime_error, 'w async_client_transport) action) \<Rightarrow> socket_addr \<Rightarrow> u32 \<Rightarrow> u32 \<Rightarrow> ('w, bind_error, u16) action" where
  "lookup_port_async connect rpcbind_addr program version =
     and_then (async_rpcbind_connect connect rpcbind_addr) (\<lambda>client.
     and_then (async_on_client client (async_lookup_tcp_addr client \<lparr>pv_program = program, pv_version = version\<rparr>)) (\<lambda>addr.
     ok (addr_port addr)))"

definition lookup_port_async_for_transport :: "(client_config \<Rightarrow> ('w, runtime_error, 'w async_client_transport) action) \<Rightarrow> socket_addr \<Rightarrow> u32 \<Rightarrow> u32 \<Rightarrow> rpc_transport \<Rightarrow> ('w, bind_error, u16) action" where
  "lookup_port_async_for_transport connect rpcbind_addr program version transport =
     and_then (async_rpcbind_connect connect rpcbind_addr) (\<lambda>client.
     and_then (async_on_client client (async_lookup_addr_for_transport client \<lparr>pv_program = program, pv_version = version\<rparr> transport)) (\<lambda>addr.
     ok (addr_port addr)))"

definition lookup_udp_port_async :: "(client_config \<Rightarrow> ('w, runtime_error, 'w async_client_transport) action) \<Rightarrow> socket_addr \<Rightarrow> u32 \<Rightarrow> u32 \<Rightarrow> ('w, bind_error, u16) action" where
  "lookup_udp_port_async connect rpcbind_addr program version =
     and_then (async_rpcbind_connect connect rpcbind_addr) (\<lambda>client.
     and_then (async_on_client client (async_lookup_udp_addr client \<lparr>pv_program = program, pv_version = version\<rparr>)) (\<lambda>addr.
     ok (addr_port addr)))"

definition resolve_client_config_async :: "(client_config \<Rightarrow> ('w, runtime_error, 'w async_client_transport) action) \<Rightarrow> socket_addr \<Rightarrow> program_version \<Rightarrow> ('w, bind_error, client_config) action" where
  "resolve_client_config_async connect rpcbind_addr program =
     and_then (async_rpcbind_connect connect rpcbind_addr) (\<lambda>client.
     and_then (async_on_client client (async_lookup_tcp_addr client program)) (\<lambda>addr.
     ok (client_config_new addr)))"

definition resolve_client_config_async_for_transport :: "(client_config \<Rightarrow> ('w, runtime_error, 'w async_client_transport) action) \<Rightarrow> socket_addr \<Rightarrow> program_version \<Rightarrow> rpc_transport \<Rightarrow> ('w, bind_error, client_config) action" where
  "resolve_client_config_async_for_transport connect rpcbind_addr program transport =
     and_then (async_rpcbind_connect connect rpcbind_addr) (\<lambda>client.
     and_then (async_on_client client (async_lookup_addr_for_transport client program transport)) (\<lambda>addr.
     ok (client_config_new addr)))"

definition resolve_udp_client_config_async :: "(client_config \<Rightarrow> ('w, runtime_error, 'w async_client_transport) action) \<Rightarrow> socket_addr \<Rightarrow> program_version \<Rightarrow> ('w, bind_error, client_config) action" where
  "resolve_udp_client_config_async connect rpcbind_addr program =
     and_then (async_rpcbind_connect connect rpcbind_addr) (\<lambda>client.
     and_then (async_on_client client (async_lookup_udp_addr client program)) (\<lambda>addr.
     ok (client_config_new addr)))"

section \<open>Publication\<close>

record publication_info =
  pi_rpcbind_addr :: socket_addr
  pi_service_addr :: socket_addr
  pi_owner :: bytes
  pi_programs :: "program list"

definition publication_owner :: "server_config \<Rightarrow> bytes" where
  "publication_owner config = (case sc_service_name config of Some name \<Rightarrow> name | None \<Rightarrow> DEFAULT_OWNER)"

definition publication_info_of :: "server_config \<Rightarrow> socket_addr \<Rightarrow> program list \<Rightarrow> bind_error + publication_info option" where
  "publication_info_of config service_addr programs =
     (if \<not> sc_auto_publish config then Inr None
      else case sc_rpcbind_addr config of
          None \<Rightarrow> Inl MissingRpcbindAddress
        | Some rpcbind_addr \<Rightarrow>
            result_bind (checked_service_addr service_addr) (\<lambda>addr.
            Inr (Some \<lparr>pi_rpcbind_addr = rpcbind_addr, pi_service_addr = addr, pi_owner = publication_owner config, pi_programs = programs\<rparr>)))"

text \<open>The loop over the programs; the answer to each request is not looked at.\<close>

definition for_programs :: "(program_version \<Rightarrow> ('s, bind_error, bool) action) \<Rightarrow> program list \<Rightarrow> ('s, bind_error, unit) action" where
  "for_programs request programs =
     for_each (\<lambda>p. and_then (request \<lparr>pv_program = program_number p, pv_version = program_vers p\<rparr>) (\<lambda>_. ok ())) programs"

definition publish_tcp_programs_async :: "(client_config \<Rightarrow> ('w, runtime_error, 'w async_client_transport) action) \<Rightarrow> publication_info \<Rightarrow> ('w, bind_error, unit) action" where
  "publish_tcp_programs_async connect info =
     and_then (async_rpcbind_connect connect (pi_rpcbind_addr info)) (\<lambda>client.
     async_on_client client (for_programs (\<lambda>program. async_register_tcp client (pi_service_addr info) program (pi_owner info)) (pi_programs info)))"

definition unpublish_tcp_programs_async :: "(client_config \<Rightarrow> ('w, runtime_error, 'w async_client_transport) action) \<Rightarrow> publication_info \<Rightarrow> ('w, bind_error, unit) action" where
  "unpublish_tcp_programs_async connect info =
     and_then (async_rpcbind_connect connect (pi_rpcbind_addr info)) (\<lambda>client.
     async_on_client client (for_programs (\<lambda>program. async_unregister_tcp client (pi_service_addr info) program (pi_owner info)) (pi_programs info)))"

definition publish_tcp_programs :: "(client_config \<Rightarrow> ('w, runtime_error, 'w client_transport) action) \<Rightarrow> publication_info \<Rightarrow> ('w, bind_error, unit) action" where
  "publish_tcp_programs connect info =
     and_then (rpcbind_connect connect (pi_rpcbind_addr info)) (\<lambda>client.
     on_client client (for_programs (\<lambda>program. register_tcp client (pi_service_addr info) program (pi_owner info)) (pi_programs info)))"

definition unpublish_tcp_programs :: "(client_config \<Rightarrow> ('w, runtime_error, 'w client_transport) action) \<Rightarrow> publication_info \<Rightarrow> ('w, bind_error, unit) action" where
  "unpublish_tcp_programs connect info =
     and_then (rpcbind_connect connect (pi_rpcbind_addr info)) (\<lambda>client.
     on_client client (for_programs (\<lambda>program. unregister_tcp client (pi_service_addr info) program (pi_owner info)) (pi_programs info)))"

definition publish_udp_programs_async :: "(client_config \<Rightarrow> ('w, runtime_error, 'w async_client_transport) action) \<Rightarrow> publication_info \<Rightarrow> ('w, bind_error, unit) action" where
  "publish_udp_programs_async connect info =
     and_then (async_rpcbind_connect connect (pi_rpcbind_addr info)) (\<lambda>client.
     async_on_client client (for_programs (\<lambda>program. async_register_udp client (pi_service_addr info) program (pi_owner info)) (pi_programs info)))"

definition unpublish_udp_programs_async :: "(client_config \<Rightarrow> ('w, runtime_error, 'w async_client_transport) action) \<Rightarrow> publication_info \<Rightarrow> ('w, bind_error, unit) action" where
  "unpublish_udp_programs_async connect info =
     and_then (async_rpcbind_connect connect (pi_rpcbind_addr info)) (\<lambda>client.
     async_on_client client (for_programs (\<lambda>program. async_unregister_udp client (pi_service_addr info) program (pi_owner info)) (pi_programs info)))"

definition publish_udp_programs :: "(client_config \<Rightarrow> ('w, runtime_error, 'w client_transport) action) \<Rightarrow> publication_info \<Rightarrow> ('w, bind_error, unit) action" where
  "publish_udp_programs connect info =
     and_then (rpcbind_connect connect (pi_rpcbind_addr info)) (\<lambda>client.
     on_client client (for_programs (\<lambda>program. register_udp client (pi_service_addr info) program (pi_owner info)) (pi_programs info)))"

definition unpublish_udp_programs :: "(client_config \<Rightarrow> ('w, runtime_error, 'w client_transport) action) \<Rightarrow> publication_info \<Rightarrow> ('w, bind_error, unit) action" where
  "unpublish_udp_programs connect info =
     and_then (rpcbind_connect connect (pi_rpcbind_addr info)) (\<lambda>client.
     on_client client (for_programs (\<lambda>program. unregister_udp client (pi_service_addr info) program (pi_owner info)) (pi_programs info)))"

section \<open>Serving with rpcbind\<close>

record 'w bound_server =
  bs_config :: server_config
  bs_local_addr :: "server_transport_error + socket_addr"
  bs_programs :: "program list"
  bs_accept_once :: "('w, server_transport_error, unit) action"
  bs_serve :: "('w, server_transport_error, unit) action"

definition bound_service_addr :: "'w bound_server \<Rightarrow> bind_error + socket_addr" where
  "bound_service_addr self = result_bind (map_err BindServerTransport (bs_local_addr self)) checked_service_addr"

definition bound_publication :: "'w bound_server \<Rightarrow> socket_addr \<Rightarrow> bind_error + publication_info" where
  "bound_publication self rpcbind_addr =
     result_bind (bound_service_addr self) (\<lambda>addr.
     Inr \<lparr>pi_rpcbind_addr = rpcbind_addr, pi_service_addr = addr, pi_owner = publication_owner (bs_config self), pi_programs = bs_programs self\<rparr>)"

text \<open>The body that every \<^verbatim>\<open>accept_once_with_rpcbind\<close> and \<^verbatim>\<open>serve_with_rpcbind\<close> has, over its own publication and serving calls.\<close>

definition with_rpcbind :: "(publication_info \<Rightarrow> ('w, bind_error, unit) action) \<Rightarrow> (publication_info \<Rightarrow> ('w, bind_error, unit) action) \<Rightarrow>
    'w bound_server \<Rightarrow> ('w, server_transport_error, unit) action \<Rightarrow> ('w, bind_error, unit) action" where
  "with_rpcbind publish unpublish self run =
     and_then (lift_result (map_err BindServerTransport (bs_local_addr self))) (\<lambda>addr.
     and_then (lift_result (publication_info_of (bs_config self) addr (bs_programs self))) (\<lambda>publication.
     case publication of
       Some info \<Rightarrow>
         and_then (publish info) (\<lambda>_ w.
           (let (result, w) = map_action_err BindServerTransport run w; (unpublished, w) = unpublish info w
            in (result_bind result (\<lambda>_. unpublished), w)))
     | None \<Rightarrow> map_action_err BindServerTransport run))"

definition async_tcp_publish_rpcbind :: "(client_config \<Rightarrow> ('w, runtime_error, 'w async_client_transport) action) \<Rightarrow> 'w bound_server \<Rightarrow> socket_addr \<Rightarrow> ('w, bind_error, unit) action" where
  "async_tcp_publish_rpcbind connect self rpcbind_addr =
     and_then (lift_result (bound_publication self rpcbind_addr)) (publish_tcp_programs_async connect)"

definition async_tcp_unpublish_rpcbind :: "(client_config \<Rightarrow> ('w, runtime_error, 'w async_client_transport) action) \<Rightarrow> 'w bound_server \<Rightarrow> socket_addr \<Rightarrow> ('w, bind_error, unit) action" where
  "async_tcp_unpublish_rpcbind connect self rpcbind_addr =
     and_then (lift_result (bound_publication self rpcbind_addr)) (unpublish_tcp_programs_async connect)"

definition async_tcp_maybe_publish_rpcbind :: "(client_config \<Rightarrow> ('w, runtime_error, 'w async_client_transport) action) \<Rightarrow> 'w bound_server \<Rightarrow> socket_addr \<Rightarrow> ('w, bind_error, bool) action" where
  "async_tcp_maybe_publish_rpcbind connect self rpcbind_addr =
     (if \<not> sc_auto_publish (bs_config self) then ok False
      else and_then (async_tcp_publish_rpcbind connect self rpcbind_addr) (\<lambda>_. ok True))"

definition async_tcp_accept_once_with_rpcbind :: "(client_config \<Rightarrow> ('w, runtime_error, 'w async_client_transport) action) \<Rightarrow> 'w bound_server \<Rightarrow> ('w, bind_error, unit) action" where
  "async_tcp_accept_once_with_rpcbind connect self =
     with_rpcbind (publish_tcp_programs_async connect) (unpublish_tcp_programs_async connect) self (bs_accept_once self)"

definition async_tcp_serve_with_rpcbind :: "(client_config \<Rightarrow> ('w, runtime_error, 'w async_client_transport) action) \<Rightarrow> 'w bound_server \<Rightarrow> ('w, bind_error, unit) action" where
  "async_tcp_serve_with_rpcbind connect self =
     with_rpcbind (publish_tcp_programs_async connect) (unpublish_tcp_programs_async connect) self (bs_serve self)"

definition tcp_publish_rpcbind :: "(client_config \<Rightarrow> ('w, runtime_error, 'w client_transport) action) \<Rightarrow> 'w bound_server \<Rightarrow> socket_addr \<Rightarrow> ('w, bind_error, unit) action" where
  "tcp_publish_rpcbind connect self rpcbind_addr =
     and_then (lift_result (bound_publication self rpcbind_addr)) (publish_tcp_programs connect)"

definition tcp_unpublish_rpcbind :: "(client_config \<Rightarrow> ('w, runtime_error, 'w client_transport) action) \<Rightarrow> 'w bound_server \<Rightarrow> socket_addr \<Rightarrow> ('w, bind_error, unit) action" where
  "tcp_unpublish_rpcbind connect self rpcbind_addr =
     and_then (lift_result (bound_publication self rpcbind_addr)) (unpublish_tcp_programs connect)"

definition tcp_maybe_publish_rpcbind :: "(client_config \<Rightarrow> ('w, runtime_error, 'w client_transport) action) \<Rightarrow> 'w bound_server \<Rightarrow> socket_addr \<Rightarrow> ('w, bind_error, bool) action" where
  "tcp_maybe_publish_rpcbind connect self rpcbind_addr =
     (if \<not> sc_auto_publish (bs_config self) then ok False
      else and_then (tcp_publish_rpcbind connect self rpcbind_addr) (\<lambda>_. ok True))"

definition tcp_accept_once_with_rpcbind :: "(client_config \<Rightarrow> ('w, runtime_error, 'w client_transport) action) \<Rightarrow> 'w bound_server \<Rightarrow> ('w, bind_error, unit) action" where
  "tcp_accept_once_with_rpcbind connect self =
     with_rpcbind (publish_tcp_programs connect) (unpublish_tcp_programs connect) self (bs_accept_once self)"

definition tcp_serve_with_rpcbind :: "(client_config \<Rightarrow> ('w, runtime_error, 'w client_transport) action) \<Rightarrow> 'w bound_server \<Rightarrow> ('w, bind_error, unit) action" where
  "tcp_serve_with_rpcbind connect self =
     with_rpcbind (publish_tcp_programs connect) (unpublish_tcp_programs connect) self (bs_serve self)"

definition async_udp_publish_rpcbind :: "(client_config \<Rightarrow> ('w, runtime_error, 'w async_client_transport) action) \<Rightarrow> 'w bound_server \<Rightarrow> socket_addr \<Rightarrow> ('w, bind_error, unit) action" where
  "async_udp_publish_rpcbind connect self rpcbind_addr =
     and_then (lift_result (bound_service_addr self)) (\<lambda>service_addr.
     and_then (async_rpcbind_connect connect rpcbind_addr) (\<lambda>client.
     async_on_client client (for_programs (\<lambda>program. async_register_udp client service_addr program (publication_owner (bs_config self))) (bs_programs self))))"

definition async_udp_unpublish_rpcbind :: "(client_config \<Rightarrow> ('w, runtime_error, 'w async_client_transport) action) \<Rightarrow> 'w bound_server \<Rightarrow> socket_addr \<Rightarrow> ('w, bind_error, unit) action" where
  "async_udp_unpublish_rpcbind connect self rpcbind_addr =
     and_then (lift_result (bound_service_addr self)) (\<lambda>service_addr.
     and_then (async_rpcbind_connect connect rpcbind_addr) (\<lambda>client.
     async_on_client client (for_programs (\<lambda>program. async_unregister_udp client service_addr program (publication_owner (bs_config self))) (bs_programs self))))"

definition async_udp_maybe_publish_rpcbind :: "(client_config \<Rightarrow> ('w, runtime_error, 'w async_client_transport) action) \<Rightarrow> 'w bound_server \<Rightarrow> socket_addr \<Rightarrow> ('w, bind_error, bool) action" where
  "async_udp_maybe_publish_rpcbind connect self rpcbind_addr =
     (if \<not> sc_auto_publish (bs_config self) then ok False
      else and_then (async_udp_publish_rpcbind connect self rpcbind_addr) (\<lambda>_. ok True))"

definition async_udp_accept_once_with_rpcbind :: "(client_config \<Rightarrow> ('w, runtime_error, 'w async_client_transport) action) \<Rightarrow> 'w bound_server \<Rightarrow> ('w, bind_error, unit) action" where
  "async_udp_accept_once_with_rpcbind connect self =
     with_rpcbind (publish_udp_programs_async connect) (unpublish_udp_programs_async connect) self (bs_accept_once self)"

definition async_udp_serve_with_rpcbind :: "(client_config \<Rightarrow> ('w, runtime_error, 'w async_client_transport) action) \<Rightarrow> 'w bound_server \<Rightarrow> ('w, bind_error, unit) action" where
  "async_udp_serve_with_rpcbind connect self =
     with_rpcbind (publish_udp_programs_async connect) (unpublish_udp_programs_async connect) self (bs_serve self)"

definition udp_publish_rpcbind :: "(client_config \<Rightarrow> ('w, runtime_error, 'w client_transport) action) \<Rightarrow> 'w bound_server \<Rightarrow> socket_addr \<Rightarrow> ('w, bind_error, unit) action" where
  "udp_publish_rpcbind connect self rpcbind_addr =
     and_then (lift_result (bound_service_addr self)) (\<lambda>service_addr.
     and_then (rpcbind_connect connect rpcbind_addr) (\<lambda>client.
     on_client client (for_programs (\<lambda>program. register_udp client service_addr program (publication_owner (bs_config self))) (bs_programs self))))"

definition udp_unpublish_rpcbind :: "(client_config \<Rightarrow> ('w, runtime_error, 'w client_transport) action) \<Rightarrow> 'w bound_server \<Rightarrow> socket_addr \<Rightarrow> ('w, bind_error, unit) action" where
  "udp_unpublish_rpcbind connect self rpcbind_addr =
     and_then (lift_result (bound_service_addr self)) (\<lambda>service_addr.
     and_then (rpcbind_connect connect rpcbind_addr) (\<lambda>client.
     on_client client (for_programs (\<lambda>program. unregister_udp client service_addr program (publication_owner (bs_config self))) (bs_programs self))))"

definition udp_maybe_publish_rpcbind :: "(client_config \<Rightarrow> ('w, runtime_error, 'w client_transport) action) \<Rightarrow> 'w bound_server \<Rightarrow> socket_addr \<Rightarrow> ('w, bind_error, bool) action" where
  "udp_maybe_publish_rpcbind connect self rpcbind_addr =
     (if \<not> sc_auto_publish (bs_config self) then ok False
      else and_then (udp_publish_rpcbind connect self rpcbind_addr) (\<lambda>_. ok True))"

definition udp_accept_once_with_rpcbind :: "(client_config \<Rightarrow> ('w, runtime_error, 'w client_transport) action) \<Rightarrow> 'w bound_server \<Rightarrow> ('w, bind_error, unit) action" where
  "udp_accept_once_with_rpcbind connect self =
     with_rpcbind (publish_udp_programs connect) (unpublish_udp_programs connect) self (bs_accept_once self)"

definition udp_serve_with_rpcbind :: "(client_config \<Rightarrow> ('w, runtime_error, 'w client_transport) action) \<Rightarrow> 'w bound_server \<Rightarrow> ('w, bind_error, unit) action" where
  "udp_serve_with_rpcbind connect self =
     with_rpcbind (publish_udp_programs connect) (unpublish_udp_programs connect) self (bs_serve self)"

section \<open>The asynchronous client does what the synchronous one does\<close>

text \<open>An asynchronous transport seen as a synchronous one: a call is the outcome of its future.\<close>

definition blocking :: "'w async_client_transport \<Rightarrow> 'w client_transport" where
  "blocking t = \<lparr>ct_xid_allocator = at_xid_allocator t, ct_call = at_call t, ct_call_with_options = at_call_with_options t\<rparr>"

definition blocking_client :: "'w async_rpcbind_client \<Rightarrow> 'w rpcbind_client" where
  "blocking_client c = \<lparr>br_client = \<lparr>cl_config = ac_config (ar_client c), cl_transport = blocking (ac_transport (ar_client c)),
     cl_next_xid = ac_next_xid (ar_client c)\<rparr>, br_netid = ar_netid c\<rparr>"

lemma blocking_client_simps [simp]:
  "cl_config (br_client (blocking_client c)) = ac_config (ar_client c)"
  "cl_transport (br_client (blocking_client c)) = blocking (ac_transport (ar_client c))"
  "cl_next_xid (br_client (blocking_client c)) = ac_next_xid (ar_client c)" "br_netid (blocking_client c) = ar_netid c"
  by (simp_all add: blocking_client_def)

lemma async_call_typed_blocking: "async_call_typed enc dec config t = call_typed enc dec config (blocking t)"
  by (intro ext) (simp add: async_call_typed_def call_typed_def async_call_typed_with_options_def call_typed_with_options_def
      async_client_call_with_options_def client_call_with_options_def blocking_def Let_def)

lemma async_operations_blocking:
  "async_lookup_addr c = lookup_addr (blocking_client c)" "async_lookup_tcp_addr c = lookup_tcp_addr (blocking_client c)"
  "async_lookup_udp_addr c = lookup_udp_addr (blocking_client c)"
  "async_lookup_addr_for_transport c = lookup_addr_for_transport (blocking_client c)"
  "async_register_tcp c = register_tcp (blocking_client c)" "async_unregister_tcp c = unregister_tcp (blocking_client c)"
  "async_register_udp c = register_udp (blocking_client c)" "async_unregister_udp c = unregister_udp (blocking_client c)"
  "async_on_client c m = on_client (blocking_client c) m"
  by (intro ext; simp add: async_lookup_addr_def lookup_addr_def async_lookup_tcp_addr_def lookup_tcp_addr_def async_lookup_udp_addr_def
      lookup_udp_addr_def async_lookup_addr_for_transport_def lookup_addr_for_transport_def async_register_tcp_def register_tcp_def
      async_unregister_tcp_def unregister_tcp_def async_register_udp_def register_udp_def async_unregister_udp_def unregister_udp_def
      async_on_client_def on_client_def async_call_typed_blocking)+

lemma async_connect_blocking:
  "and_then (async_rpcbind_connect connect a) (\<lambda>c. f (blocking_client c)) =
   and_then (rpcbind_connect (\<lambda>config. and_then (connect config) (\<lambda>t. ok (blocking t))) a) f"
  by (intro ext) (simp add: async_rpcbind_connect_def rpcbind_connect_def and_then_def map_action_err_def blocking_client_def client_new_def
      async_client_new_def Let_def blocking_def split: prod.split sum.split)

text \<open>Hence the same outcome of every lookup, publication and serving call.\<close>

lemma async_rpcbind_blocking:
  fixes connect :: "client_config \<Rightarrow> ('w, runtime_error, 'w async_client_transport) action"
  defines "connect_blocking \<equiv> \<lambda>config. and_then (connect config) (\<lambda>t. ok (blocking t))"
  shows "lookup_port_async connect = lookup_port connect_blocking"
    "resolve_client_config_async connect = resolve_client_config connect_blocking"
    "publish_tcp_programs_async connect = publish_tcp_programs connect_blocking"
    "unpublish_tcp_programs_async connect = unpublish_tcp_programs connect_blocking"
    "publish_udp_programs_async connect = publish_udp_programs connect_blocking"
    "unpublish_udp_programs_async connect = unpublish_udp_programs connect_blocking"
    "async_tcp_accept_once_with_rpcbind connect = tcp_accept_once_with_rpcbind connect_blocking"
    "async_tcp_serve_with_rpcbind connect = tcp_serve_with_rpcbind connect_blocking"
    "async_udp_accept_once_with_rpcbind connect = udp_accept_once_with_rpcbind connect_blocking"
    "async_udp_serve_with_rpcbind connect = udp_serve_with_rpcbind connect_blocking"
proof -
  show programs: "publish_tcp_programs_async connect = publish_tcp_programs connect_blocking"
    "unpublish_tcp_programs_async connect = unpublish_tcp_programs connect_blocking"
    "publish_udp_programs_async connect = publish_udp_programs connect_blocking"
    "unpublish_udp_programs_async connect = unpublish_udp_programs connect_blocking"
    by (intro ext; simp add: publish_tcp_programs_async_def publish_tcp_programs_def unpublish_tcp_programs_async_def unpublish_tcp_programs_def
        publish_udp_programs_async_def publish_udp_programs_def unpublish_udp_programs_async_def unpublish_udp_programs_def
        async_operations_blocking connect_blocking_def flip: async_connect_blocking)+
  show "lookup_port_async connect = lookup_port connect_blocking" "resolve_client_config_async connect = resolve_client_config connect_blocking"
    by (intro ext; simp add: lookup_port_async_def lookup_port_def resolve_client_config_async_def resolve_client_config_def
        async_operations_blocking connect_blocking_def flip: async_connect_blocking)+
  show "async_tcp_accept_once_with_rpcbind connect = tcp_accept_once_with_rpcbind connect_blocking"
    "async_tcp_serve_with_rpcbind connect = tcp_serve_with_rpcbind connect_blocking"
    "async_udp_accept_once_with_rpcbind connect = udp_accept_once_with_rpcbind connect_blocking"
    "async_udp_serve_with_rpcbind connect = udp_serve_with_rpcbind connect_blocking"
    by (intro ext; simp add: async_tcp_accept_once_with_rpcbind_def tcp_accept_once_with_rpcbind_def async_tcp_serve_with_rpcbind_def
        tcp_serve_with_rpcbind_def async_udp_accept_once_with_rpcbind_def udp_accept_once_with_rpcbind_def async_udp_serve_with_rpcbind_def
        udp_serve_with_rpcbind_def programs)+
qed

end
