(* ===== verification/Rpcbind_Service.thy ===== *)
theory Rpcbind_Service
  imports Rpcbind
begin

text \<open>
  What rpcbind promises and what follows for its clients. The contract of RFC 1833 is the locale
  \<open>rpcbind_service\<close>; the in-memory rpcbind server that the crate's tests run, on the server of \<^verbatim>\<open>onc-rpc-server\<close> and
  behind the message codec, interprets it.
\<close>

section \<open>The rpcbind server of the tests\<close>

type_synonym mapping_key = "u32 \<times> u32 \<times> bytes"
type_synonym rpcbind_state = "mapping_key \<Rightarrow> rpcb option"

definition mapping_key_of :: "rpcb \<Rightarrow> mapping_key" where
  "mapping_key_of r = (rb_program r, rb_version r, rb_netid r)"

definition rpcbind_set :: "rpcb \<Rightarrow> rpcbind_state \<Rightarrow> bool \<times> rpcbind_state" where
  "rpcbind_set r mappings = (mappings (mapping_key_of r) = None, mappings(mapping_key_of r \<mapsto> r))"

definition rpcbind_unset :: "rpcb \<Rightarrow> rpcbind_state \<Rightarrow> bool \<times> rpcbind_state" where
  "rpcbind_unset r mappings = (mappings (mapping_key_of r) \<noteq> None, mappings(mapping_key_of r := None))"

definition rpcbind_getaddr :: "rpcb \<Rightarrow> rpcbind_state \<Rightarrow> bytes" where
  "rpcbind_getaddr r mappings = (case mappings (mapping_key_of r) of Some value \<Rightarrow> rb_address value | None \<Rightarrow> [])"

text \<open>An answer is encoded after the state has changed.\<close>

definition rpcbind_answer :: "'a xdr_encoder \<Rightarrow> (rpcb \<Rightarrow> rpcbind_state \<Rightarrow> 'a \<times> rpcbind_state) \<Rightarrow> bytes \<Rightarrow>
    (rpcbind_state, dispatch_error, response_payload) action" where
  "rpcbind_answer enc operation payload mappings =
     (case from_xdr_bytes rpcb_decode payload of
        Inl _ \<Rightarrow> (Inl DispatchGarbageArgs, mappings)
      | Inr value \<Rightarrow>
          (let (answer, mappings) = operation value mappings
           in case to_xdr_bytes enc answer of
                Inl _ \<Rightarrow> (Inl DispatchSystemError, mappings)
              | Inr bs \<Rightarrow> (Inr (response_success bs), mappings)))"

definition rpcbind_dispatch :: "rpcbind_state dispatch" where
  "rpcbind_dispatch request =
     (if rq_procedure request = RPCBIND_NULL then ok (response_success [])
      else if rq_procedure request = RPCBIND_SET then rpcbind_answer encode_bool rpcbind_set (rq_payload request)
      else if rq_procedure request = RPCBIND_UNSET then rpcbind_answer encode_bool rpcbind_unset (rq_payload request)
      else if rq_procedure request = RPCBIND_GETADDR then
        rpcbind_answer encode_string (\<lambda>r m. (rpcbind_getaddr r m, m)) (rq_payload request)
      else err DispatchProcedureUnavailable)"

definition rpcbind_server :: "rpcbind_state server" where
  "rpcbind_server = \<lparr>sv_config = server_config_default, sv_dispatchers = [(program_from RPCBIND_PROGRAM, rpcbind_dispatch)]\<rparr>"

definition mapped :: "rpcbind_state \<Rightarrow> mapping_key \<Rightarrow> bytes option" where
  "mapped m k = map_option rb_address (m k)"

section \<open>The codec of requests\<close>

definition rpcb_valid :: "rpcb \<Rightarrow> bool" where
  "rpcb_valid r \<longleftrightarrow> string_valid (rb_netid r) \<and> string_valid (rb_address r) \<and> string_valid (rb_owner r)"

definition rpcb_wire :: "rpcb \<Rightarrow> bytes" where
  "rpcb_wire r = u32_to_be (rb_program r) @ u32_to_be (rb_version r) @ opaque_wire (rb_netid r) @ opaque_wire (rb_address r) @ opaque_wire (rb_owner r)"

interpretation rpcb_codec: xdr_codec rpcb_encode rpcb_decode rpcb_valid rpcb_wire
proof
  fix r :: rpcb and rest
  assume v: "rpcb_valid r"
  then show "rpcb_encode r rest = (Inr (), rest @ rpcb_wire r)"
    by (simp add: rpcb_encode_def rpcb_wire_def rpcb_valid_def u32_codec.encode_wire string_codec.encode_wire)
  from v show "rpcb_decode (rpcb_wire r @ rest) = (Inr r, rest)"
    by (simp add: rpcb_decode_def rpcb_wire_def rpcb_valid_def u32_codec.decode_wire string_codec.decode_wire)
  from v show "truncates rpcb_decode (rpcb_wire r)"
    unfolding rpcb_decode_def rpcb_wire_def rpcb_valid_def
    by (intro truncates_and_then [where x = "rb_program r"] truncates_and_then [where x = "rb_version r"]
        truncates_and_then [where x = "rb_netid r"] truncates_and_then [where x = "rb_address r"]
        truncates_and_then [where x = "rb_owner r" and ?w2.0 = "[]", simplified]
        u32_codec.decode_truncated string_codec.decode_truncated u32_codec.decode_wire string_codec.decode_wire) auto
next
  show "forward rpcb_decode"
    unfolding rpcb_decode_def using u32_codec.decode_forward string_codec.decode_forward by (intro forward_intros)
qed

section \<open>The contract\<close>

definition plain_config :: "client_config \<Rightarrow> bool" where
  "plain_config config \<longleftrightarrow> auth_ok (cc_credentials config) \<and> auth_ok (cc_verifier config)"

text \<open>The requests of a publication, one for each program.\<close>

definition send_all :: "client_config \<Rightarrow> 'w client_transport \<Rightarrow> rpc_procedure \<Rightarrow> ('p \<Rightarrow> rpcb) \<Rightarrow> 'p list \<Rightarrow> (u32 \<times> 'w, bind_error, unit) action" where
  "send_all config transport procedure mk ps = for_each (\<lambda>p. and_then (map_action_err BindRuntime
     (call_typed rpcb_encode decode_bool config transport RPCBIND_PROGRAM procedure (mk p))) (\<lambda>_. ok ())) ps"

lemma send_all_Nil: "send_all config transport procedure mk [] s = (Inr (), s)"
  by (simp add: send_all_def)

lemma send_all_Cons:
  "call_typed rpcb_encode decode_bool config transport RPCBIND_PROGRAM procedure (mk p) s = (Inr b, s') \<Longrightarrow>
   send_all config transport procedure mk (p # ps) s = send_all config transport procedure mk ps s'"
  by (simp add: send_all_def map_action_err_def and_then_def)

text \<open>
  A service with the state \<open>'w\<close>: \<^verbatim>\<open>SET\<close> maps a free key and answers true, and answers false for a key that is mapped;
  \<^verbatim>\<open>UNSET\<close> removes a mapping; \<^verbatim>\<open>GETADDR\<close> answers the address, or the empty string.
\<close>

locale rpcbind_service =
  fixes transport :: "'w client_transport"
    and mapping :: "'w \<Rightarrow> mapping_key \<Rightarrow> bytes option"
    and valid :: "'w \<Rightarrow> bool"
  assumes set_free: "valid w \<Longrightarrow> plain_config config \<Longrightarrow> unat c \<noteq> u32_max \<Longrightarrow> rpcb_valid r \<Longrightarrow> mapping w (mapping_key_of r) = None \<Longrightarrow>
      \<exists>w'. call_typed rpcb_encode decode_bool config transport RPCBIND_PROGRAM RPCBIND_SET r (c, w) = (Inr True, (c + 1, w')) \<and>
        valid w' \<and> mapping w' = (mapping w)(mapping_key_of r \<mapsto> rb_address r)"
    and set_taken: "valid w \<Longrightarrow> plain_config config \<Longrightarrow> unat c \<noteq> u32_max \<Longrightarrow> rpcb_valid r \<Longrightarrow> mapping w (mapping_key_of r) \<noteq> None \<Longrightarrow>
      \<exists>w'. call_typed rpcb_encode decode_bool config transport RPCBIND_PROGRAM RPCBIND_SET r (c, w) = (Inr False, (c + 1, w')) \<and> valid w'"
    and unset: "valid w \<Longrightarrow> plain_config config \<Longrightarrow> unat c \<noteq> u32_max \<Longrightarrow> rpcb_valid r \<Longrightarrow>
      \<exists>w'. call_typed rpcb_encode decode_bool config transport RPCBIND_PROGRAM RPCBIND_UNSET r (c, w) =
          (Inr (mapping w (mapping_key_of r) \<noteq> None), (c + 1, w')) \<and> valid w' \<and> mapping w' = (mapping w)(mapping_key_of r := None)"
    and getaddr: "valid w \<Longrightarrow> plain_config config \<Longrightarrow> unat c \<noteq> u32_max \<Longrightarrow> rpcb_valid r \<Longrightarrow>
      call_typed rpcb_encode decode_string config transport RPCBIND_PROGRAM RPCBIND_GETADDR r (c, w) =
        (Inr (case mapping w (mapping_key_of r) of Some a \<Rightarrow> a | None \<Rightarrow> []), (c + 1, w))"
begin

text \<open>Requests sent one after another, each for its own key.\<close>

lemma set_all:
  assumes "plain_config config" "valid w" "unat c + length ps \<le> u32_max" "distinct (map (\<lambda>p. mapping_key_of (mk p)) ps)"
    and "\<And>p. p \<in> set ps \<Longrightarrow> rpcb_valid (mk p) \<and> mapping w (mapping_key_of (mk p)) = None"
  shows "\<exists>w'. send_all config transport RPCBIND_SET mk ps (c, w) = (Inr (), (c + of_nat (length ps), w')) \<and>
      valid w' \<and> mapping w' = mapping w ++ map_of (map (\<lambda>p. (mapping_key_of (mk p), rb_address (mk p))) (rev ps))"
  using assms(2-5)
proof (induction ps arbitrary: c w)
  case (Cons p ps)
  have "unat c \<noteq> u32_max" using Cons.prems(2) by simp
  then obtain v where v: "call_typed rpcb_encode decode_bool config transport RPCBIND_PROGRAM RPCBIND_SET (mk p) (c, w) = (Inr True, (c + 1, v))"
      "valid v" "mapping v = (mapping w)(mapping_key_of (mk p) \<mapsto> rb_address (mk p))"
    using set_free [OF Cons.prems(1) assms(1), of c "mk p"] Cons.prems(4) [of p] by auto
  have "unat (c + 1) = Suc (unat c)" using \<open>unat c \<noteq> u32_max\<close> by (rule unat_Suc_u32)
  moreover have "rpcb_valid (mk q) \<and> mapping v (mapping_key_of (mk q)) = None" if "q \<in> set ps" for q
    using Cons.prems(3) Cons.prems(4) [of q] that v(3) by (auto simp: image_iff)
  ultimately obtain w' where
      "send_all config transport RPCBIND_SET mk ps (c + 1, v) = (Inr (), (c + 1 + of_nat (length ps), w'))" "valid w'"
      "mapping w' = mapping v ++ map_of (map (\<lambda>p. (mapping_key_of (mk p), rb_address (mk p))) (rev ps))"
    using Cons.IH [OF v(2), of "c + 1"] Cons.prems by auto
  with v show ?case by (auto simp: send_all_Cons [where mk = mk and p = p, OF v(1)] add.assoc)
qed (simp add: send_all_Nil)

lemma set_any:
  assumes "plain_config config" "valid w" "unat c + length ps \<le> u32_max" "\<And>p. p \<in> set ps \<Longrightarrow> rpcb_valid (mk p)"
  shows "fst (send_all config transport RPCBIND_SET mk ps (c, w)) = Inr ()"
  using assms(2-4)
proof (induction ps arbitrary: c w)
  case (Cons p ps)
  have "unat c \<noteq> u32_max" using Cons.prems(2) by simp
  then obtain b v where v: "call_typed rpcb_encode decode_bool config transport RPCBIND_PROGRAM RPCBIND_SET (mk p) (c, w) = (Inr b, (c + 1, v))" "valid v"
    using set_free [OF Cons.prems(1) assms(1), of c "mk p"] set_taken [OF Cons.prems(1) assms(1), of c "mk p"] Cons.prems(3) [of p]
    by (cases "mapping w (mapping_key_of (mk p)) = None") auto
  have "unat (c + 1) = Suc (unat c)" using \<open>unat c \<noteq> u32_max\<close> by (rule unat_Suc_u32)
  with Cons.IH [OF v(2), of "c + 1"] Cons.prems show ?case
    by (simp add: send_all_Cons [where mk = mk and p = p, OF v(1)])
qed (simp add: send_all_Nil)

lemma unset_all:
  assumes "plain_config config" "valid w" "unat c + length ps \<le> u32_max" "\<And>p. p \<in> set ps \<Longrightarrow> rpcb_valid (mk p)"
  shows "\<exists>w'. send_all config transport RPCBIND_UNSET mk ps (c, w) = (Inr (), (c + of_nat (length ps), w')) \<and>
      valid w' \<and> mapping w' = mapping w |` (- (\<lambda>p. mapping_key_of (mk p)) ` set ps)"
  using assms(2-4)
proof (induction ps arbitrary: c w)
  case (Cons p ps)
  have "unat c \<noteq> u32_max" using Cons.prems(2) by simp
  then obtain b v where v: "call_typed rpcb_encode decode_bool config transport RPCBIND_PROGRAM RPCBIND_UNSET (mk p) (c, w) = (Inr b, (c + 1, v))"
      "valid v" "mapping v = (mapping w)(mapping_key_of (mk p) := None)"
    using unset [OF Cons.prems(1) assms(1), of c "mk p"] Cons.prems(3) [of p] by auto
  have "unat (c + 1) = Suc (unat c)" using \<open>unat c \<noteq> u32_max\<close> by (rule unat_Suc_u32)
  with Cons.IH [OF v(2), of "c + 1"] Cons.prems obtain w' where
      "send_all config transport RPCBIND_UNSET mk ps (c + 1, v) = (Inr (), (c + 1 + of_nat (length ps), w'))" "valid w'"
      and m: "mapping w' = mapping v |` (- (\<lambda>p. mapping_key_of (mk p)) ` set ps)"
    by auto
  moreover have "mapping w' = mapping w |` (- (\<lambda>p. mapping_key_of (mk p)) ` set (p # ps))"
    unfolding m v(3) by (rule ext) (simp add: restrict_map_def)
  ultimately show ?case using send_all_Cons [where mk = mk and p = p, OF v(1)] by (auto simp: add.assoc)
qed (simp add: send_all_Nil restrict_map_def)

lemma lookup:
  assumes "cl_transport (br_client self) = transport" "plain_config (cl_config (br_client self))" "valid w" "unat c \<noteq> u32_max" "string_valid net"
  shows "lookup_addr self program net (c, w) =
    ((case mapping w (pv_program program, pv_version program, net) of
        None \<Rightarrow> Inl (NotFound (pv_program program) (pv_version program))
      | Some a \<Rightarrow> if a = [] then Inl (NotFound (pv_program program) (pv_version program)) else map_err InvalidUniversalAddress (parse_universal_addr a)),
     (c + 1, w))"
proof -
  let ?r = "\<lparr>rb_program = pv_program program, rb_version = pv_version program, rb_netid = net, rb_address = [], rb_owner = []\<rparr>"
  have "rpcb_valid ?r" using assms(5) by (simp add: rpcb_valid_def string_valid_def utf8_valid_ascii)
  from getaddr [OF assms(3,2,4) this] assms(1) show ?thesis
    by (simp add: lookup_addr_def map_action_err_def mapping_key_of_def Let_def and_then_def split: option.split)
qed

end

section \<open>The tests' server keeps the contract\<close>

definition state_ok :: "rpcbind_state \<Rightarrow> bool" where
  "state_ok m \<longleftrightarrow> (\<forall>r \<in> ran m. rpcb_valid r)"

lemma served_call:
  assumes "plain_config config" "unat c \<noteq> u32_max" "rpcb_valid r"
    and "\<And>request. rq_procedure request = procedure \<Longrightarrow> rq_payload request = rpcb_wire r \<Longrightarrow>
      rpcbind_dispatch request m = (Inr (response_success bs), m')"
  shows "call_typed rpcb_encode dec config (loopback rpcbind_server peer) RPCBIND_PROGRAM procedure r (c, m) =
    (map_err DecodeFailure (from_xdr_bytes dec bs), (c + 1, m'))"
proof -
  have "local_call rpcbind_server \<lparr>rq_xid = Xid c, rq_program = RPCBIND_PROGRAM, rq_procedure = procedure, rq_peer_addr = peer,
      rq_credentials = cc_credentials config, rq_verifier = cc_verifier config, rq_payload = rpcb_wire r\<rparr> m =
      (Inr (response_success bs), m')"
    using assms(4) by (simp add: local_call_def rpcbind_server_def map_action_err_def)
  from call_typed_loopback [OF rpcb_codec.to_bytes [OF assms(3)] assms(2) _ _ this] assms(1)
  show ?thesis by (simp add: plain_config_def response_success_def auth_none_ok)
qed

lemma answer_bool: "rpcb_valid r \<Longrightarrow> rpcbind_answer encode_bool operation (rpcb_wire r) m =
    (Inr (response_success (bool_wire (fst (operation r m)))), snd (operation r m))"
  by (simp add: rpcbind_answer_def rpcb_codec.from_bytes bool_codec.to_bytes Let_def split: prod.split)

lemma answer_getaddr: "rpcb_valid r \<Longrightarrow> state_ok m \<Longrightarrow> rpcbind_answer encode_string (\<lambda>r m. (rpcbind_getaddr r m, m)) (rpcb_wire r) m =
    (Inr (response_success (opaque_wire (rpcbind_getaddr r m))), m) \<and> string_valid (rpcbind_getaddr r m)"
proof -
  assume v: "rpcb_valid r" "state_ok m"
  then have "string_valid (rpcbind_getaddr r m)"
    by (cases "m (mapping_key_of r)") (auto simp: rpcbind_getaddr_def state_ok_def rpcb_valid_def string_valid_def utf8_valid_ascii dest: ranI [of m "mapping_key_of r"])
  with v show ?thesis by (simp add: rpcbind_answer_def rpcb_codec.from_bytes string_codec.to_bytes Let_def)
qed

lemmas rpcbind_procedures = RPCBIND_NULL_def RPCBIND_SET_def RPCBIND_UNSET_def RPCBIND_GETADDR_def

lemma state_ok_updates: "state_ok m \<Longrightarrow> rpcb_valid r \<Longrightarrow> state_ok (m(k \<mapsto> r))" "state_ok m \<Longrightarrow> state_ok (m(k := None))"
  by (auto simp: state_ok_def ran_def split: if_splits)

interpretation tests_rpcbind: rpcbind_service "loopback rpcbind_server peer" mapped state_ok
proof
  fix m :: rpcbind_state and config :: client_config and c :: u32 and r :: rpcb
  assume ok: "state_ok m" "plain_config config" "unat c \<noteq> u32_max" "rpcb_valid r"
  have set: "call_typed rpcb_encode decode_bool config (loopback rpcbind_server peer) RPCBIND_PROGRAM RPCBIND_SET r (c, m) =
      (Inr (mapped m (mapping_key_of r) = None), (c + 1, m(mapping_key_of r \<mapsto> r)))"
    using served_call [OF ok(2-4), of RPCBIND_SET m "bool_wire (m (mapping_key_of r) = None)" "m(mapping_key_of r \<mapsto> r)" decode_bool peer]
    by (simp add: rpcbind_dispatch_def rpcbind_procedures answer_bool ok rpcbind_set_def bool_codec.from_bytes mapped_def)
  have upd: "mapped (m(mapping_key_of r \<mapsto> r)) = (mapped m)(mapping_key_of r \<mapsto> rb_address r)"
    by (auto simp: mapped_def)
  show "\<exists>w'. call_typed rpcb_encode decode_bool config (loopback rpcbind_server peer) RPCBIND_PROGRAM RPCBIND_SET r (c, m) = (Inr True, c + 1, w') \<and>
      state_ok w' \<and> mapped w' = (mapped m)(mapping_key_of r \<mapsto> rb_address r)" if "mapped m (mapping_key_of r) = None"
    using set upd that ok state_ok_updates by auto
  show "\<exists>w'. call_typed rpcb_encode decode_bool config (loopback rpcbind_server peer) RPCBIND_PROGRAM RPCBIND_SET r (c, m) = (Inr False, c + 1, w') \<and>
      state_ok w'" if "mapped m (mapping_key_of r) \<noteq> None"
    using set that ok state_ok_updates by auto
  have "call_typed rpcb_encode decode_bool config (loopback rpcbind_server peer) RPCBIND_PROGRAM RPCBIND_UNSET r (c, m) =
      (Inr (mapped m (mapping_key_of r) \<noteq> None), (c + 1, m(mapping_key_of r := None)))"
    using served_call [OF ok(2-4), of RPCBIND_UNSET m "bool_wire (m (mapping_key_of r) \<noteq> None)" "m(mapping_key_of r := None)" decode_bool peer]
    by (simp add: rpcbind_dispatch_def rpcbind_procedures answer_bool ok rpcbind_unset_def bool_codec.from_bytes mapped_def)
  moreover have "mapped (m(mapping_key_of r := None)) = (mapped m)(mapping_key_of r := None)"
    by (auto simp: mapped_def)
  ultimately show "\<exists>w'. call_typed rpcb_encode decode_bool config (loopback rpcbind_server peer) RPCBIND_PROGRAM RPCBIND_UNSET r (c, m) =
      (Inr (mapped m (mapping_key_of r) \<noteq> None), c + 1, w') \<and> state_ok w' \<and> mapped w' = (mapped m)(mapping_key_of r := None)"
    using ok state_ok_updates by auto
  show "call_typed rpcb_encode decode_string config (loopback rpcbind_server peer) RPCBIND_PROGRAM RPCBIND_GETADDR r (c, m) =
      (Inr (case mapped m (mapping_key_of r) of Some a \<Rightarrow> a | None \<Rightarrow> []), c + 1, m)"
    using answer_getaddr [OF ok(4,1)]
      served_call [OF ok(2-4), of RPCBIND_GETADDR m "opaque_wire (rpcbind_getaddr r m)" m decode_string peer]
    by (cases "m (mapping_key_of r)")
       (simp_all add: rpcbind_dispatch_def rpcbind_procedures string_codec.from_bytes mapped_def rpcbind_getaddr_def)
qed

section \<open>Publication against the service\<close>

abbreviation version_of :: "program \<Rightarrow> program_version" where
  "version_of p \<equiv> \<lparr>pv_program = program_number p, pv_version = program_vers p\<rparr>"

definition rpcbind_config :: "socket_addr \<Rightarrow> client_config" where
  "rpcbind_config rpcbind_addr = config_with_connect_timeout (from_secs 5) (client_config_new rpcbind_addr)"

lemma rpcbind_config_plain: "plain_config (rpcbind_config addr)"
  by (simp add: plain_config_def rpcbind_config_def config_with_connect_timeout_def client_config_new_def auth_none_ok)

lemma netid_string: "string_valid (tcp_netid a)" "string_valid (udp_netid a)"
  by (cases a; simp add: string_valid_def u32_max_def utf8_valid_text; simp add: text_bytes_def)+

lemma rpcb_for_valid:
  assumes "ip_valid (addr_ip a)" "string_valid owner"
  shows "rpcb_valid (rpcb_for_tcp program a owner)" "rpcb_valid (rpcb_for_udp program a owner)"
  using assms universal_addr_string [OF assms(1)] netid_string by (simp_all add: rpcb_valid_def rpcb_for_tcp_def rpcb_for_udp_def)

lemma lift_then: "and_then (lift_result (Inr x)) f = f x"
  by (rule ext) (simp add: and_then_def lift_result_def)

lemma programs_as_requests:
  assumes "connect (rpcbind_config (pi_rpcbind_addr info)) w = (Inr transport, w)" "ct_xid_allocator transport = None"
    "\<not> is_unspecified (addr_ip (pi_service_addr info))"
  shows "publish_tcp_programs connect info w = (case send_all (rpcbind_config (pi_rpcbind_addr info)) transport RPCBIND_SET
      (\<lambda>p. rpcb_for_tcp (version_of p) (pi_service_addr info) (pi_owner info)) (pi_programs info) (xid_allocator_new, w) of (r, s) \<Rightarrow> (r, snd s))"
    "unpublish_tcp_programs connect info w = (case send_all (rpcbind_config (pi_rpcbind_addr info)) transport RPCBIND_UNSET
      (\<lambda>p. rpcb_for_tcp (version_of p) (pi_service_addr info) (pi_owner info)) (pi_programs info) (xid_allocator_new, w) of (r, s) \<Rightarrow> (r, snd s))"
  using assms
  by (simp_all add: publish_tcp_programs_def unpublish_tcp_programs_def rpcbind_connect_def rpcbind_config_def [symmetric] map_action_err_def [of BindRuntime "connect _"]
      on_client_def client_new_def for_programs_def send_all_def register_tcp_def unregister_tcp_def checked_service_addr_def lift_then Let_def)

lemma resolve_served:
  assumes "state_ok m"
  shows "resolve_client_config (\<lambda>_. ok (loopback rpcbind_server peer)) rpcbind_addr program m =
    ((case mapped m (pv_program program, pv_version program, tcp_netid rpcbind_addr) of
        None \<Rightarrow> Inl (NotFound (pv_program program) (pv_version program))
      | Some a \<Rightarrow> if a = [] then Inl (NotFound (pv_program program) (pv_version program))
          else result_bind (map_err InvalidUniversalAddress (parse_universal_addr a)) (\<lambda>addr. Inr (client_config_new addr))), m)"
proof -
  let ?self = "\<lparr>br_client = client_new (rpcbind_config rpcbind_addr) (loopback rpcbind_server peer), br_netid = tcp_netid rpcbind_addr\<rparr>"
  have "unat xid_allocator_new \<noteq> u32_max" by (simp add: xid_allocator_new_def u32_max_def)
  with tests_rpcbind.lookup [of ?self peer m xid_allocator_new "tcp_netid rpcbind_addr" program] assms netid_string rpcbind_config_plain
  show ?thesis
    by (simp add: resolve_client_config_def rpcbind_connect_def rpcbind_config_def [symmetric] map_action_err_def on_client_def client_new_def
        lookup_tcp_addr_def Let_def loopback_def and_then_def result_bind_def split: option.split sum.split)
qed

lemma keys_distinct: "distinct ps \<Longrightarrow> distinct (map (\<lambda>p. mapping_key_of (rpcb_for_tcp (version_of p) a owner)) ps)"
  by (auto simp: distinct_map inj_on_def mapping_key_of_def rpcb_for_tcp_def intro: program.expand)

section \<open>Properties\<close>



text \<open>
  C38. Publishing does not look at rpcbind's answers: for a program whose key is already mapped, rpcbind refuses the
  registration, which the rpcbind client reports, and publishing reports success all the same.\<close>
theorem publish_ignores_refusal:
  fixes m :: rpcbind_state
  assumes "state_ok m" "ip_valid (addr_ip service)" "\<not> is_unspecified (addr_ip service)" "string_valid owner" "length programs < u32_max"
    and "\<And>p. p \<in> set programs \<Longrightarrow> m (program_number p, program_vers p, tcp_netid service) \<noteq> None"
  shows "(\<forall>p \<in> set programs. fst (register_tcp
        \<lparr>br_client = client_new (rpcbind_config rpcbind_addr) (loopback rpcbind_server peer), br_netid = tcp_netid rpcbind_addr\<rparr>
        service (version_of p) owner (xid_allocator_new, m)) = Inr False) \<and>
    fst (publish_tcp_programs (\<lambda>_. ok (loopback rpcbind_server peer))
      \<lparr>pi_rpcbind_addr = rpcbind_addr, pi_service_addr = service, pi_owner = owner, pi_programs = programs\<rparr> m) = Inr ()"
proof -
  let ?info = "\<lparr>pi_rpcbind_addr = rpcbind_addr, pi_service_addr = service, pi_owner = owner, pi_programs = programs\<rparr>"
  let ?mk = "\<lambda>p. rpcb_for_tcp (version_of p) service owner"
  let ?t = "loopback rpcbind_server peer"
  have valid: "rpcb_valid (?mk p)" for p by (rule rpcb_for_valid [OF assms(2,4)])
  have "fst (send_all (rpcbind_config rpcbind_addr) ?t RPCBIND_SET ?mk programs (xid_allocator_new, m)) = Inr ()"
    using tests_rpcbind.set_any [OF rpcbind_config_plain assms(1), of xid_allocator_new programs ?mk rpcbind_addr peer] valid assms(5)
    by (simp add: xid_allocator_new_def)
  then have "fst (publish_tcp_programs (\<lambda>_. ok ?t) ?info m) = Inr ()"
    using programs_as_requests(1) [of "\<lambda>_. ok ?t" ?info m ?t] assms(3) by (simp add: loopback_def split: prod.splits)
  moreover have "fst (register_tcp \<lparr>br_client = client_new (rpcbind_config rpcbind_addr) ?t, br_netid = tcp_netid rpcbind_addr\<rparr>
      service (version_of p) owner (xid_allocator_new, m)) = Inr False" if "p \<in> set programs" for p
  proof -
    have "mapped m (mapping_key_of (?mk p)) \<noteq> None"
      using assms(6) [OF that] by (simp add: mapped_def mapping_key_of_def rpcb_for_tcp_def)
    moreover have "unat xid_allocator_new \<noteq> u32_max" by (simp add: xid_allocator_new_def u32_max_def)
    ultimately show ?thesis
      using tests_rpcbind.set_taken [OF assms(1) rpcbind_config_plain _ valid, of xid_allocator_new p rpcbind_addr peer] assms(3)
      by (auto simp: register_tcp_def checked_service_addr_def lift_then map_action_err_def client_new_def)
  qed
  ultimately show ?thesis by blast
qed

theorem publish_ignores_refusal_witness:
  "fst (publish_tcp_programs (\<lambda>_. ok (loopback rpcbind_server None))
     \<lparr>pi_rpcbind_addr = SocketV4 [127, 0, 0, 1] 111, pi_service_addr = SocketV4 [127, 0, 0, 1] 2049, pi_owner = [], pi_programs = [Program 100003 3]\<rparr>
     [(100003, 3, text_bytes ''tcp'') \<mapsto> \<lparr>rb_program = 100003, rb_version = 3, rb_netid = text_bytes ''tcp'', rb_address = [], rb_owner = []\<rparr>]) = Inr ()"
proof -
  have "utf8_valid (text_bytes ''tcp'')" by (rule utf8_valid_text) simp
  then show ?thesis
    using publish_ignores_refusal [of "[(100003, 3, text_bytes ''tcp'') \<mapsto>
        \<lparr>rb_program = 100003, rb_version = 3, rb_netid = text_bytes ''tcp'', rb_address = [], rb_owner = []\<rparr>]"
      "SocketV4 [127, 0, 0, 1] 2049" "[]" "[Program 100003 3]" "SocketV4 [127, 0, 0, 1] 111" None]
    by (simp add: state_ok_def rpcb_valid_def string_valid_def utf8_valid_ascii u32_max_def) (simp add: text_bytes_def)
qed

end
