(* ===== verification/Owned_Receive.thy ===== *)
theory Owned_Receive
  imports Rpc_Client Xdr_Segments
begin

text \<open>
  The receiving side of \<^verbatim>\<open>src/crates/onc-rpc-runtime/src/owned/segmented.rs\<close> and the record
  reader of \<^verbatim>\<open>owned.rs\<close>: a reply assembled in a buffer, and a reply whose envelope is decoded
  from a fixed array while its results go straight into a receiver of the caller.

  A receiver is the trait \<^verbatim>\<open>ReplyReceiver\<close>, which applications implement, as a record of its
  methods: the size of the range it offers, the bytes the reader then puts at the start of
  that range, and their count. Reads are those of the record reader, so that a stream may
  deliver its bytes in any chunks, fail, or be abandoned at any read.
\<close>

section \<open>Reading a record to its end\<close>

lemma next_fragment_size:
  "next_fragment r = (res, r') \<Longrightarrow> stream_size (rr_stream r') \<le> stream_size (rr_stream r)"
proof (induction r arbitrary: res r' rule: next_fragment.induct)
  case (1 r)
  show ?case
  proof (cases "rr_remaining r = 0 \<and> \<not> rr_last r \<and> rr_fragments r \<noteq> max_fragments (rr_limits r)")
    case True
    obtain x mid where st: "and_then fill_marker (\<lambda>_. accept_marker) r = (x, mid)" by fastforce
    then obtain y m where fill: "fill_marker r = (y, m)" and mid: "rr_stream mid = rr_stream m"
      by (cases "fill_marker r") (auto simp: and_then_def split: sum.splits dest: accept_marker_stream)
    from fill_marker_shrinks [OF fill] mid have le: "stream_size (rr_stream mid) \<le> stream_size (rr_stream r)" by simp
    show ?thesis
    proof (cases x)
      case (Inl e)
      with st True 1(2) le show ?thesis by (subst (asm) next_fragment.simps) simp
    next
      case (Inr u)
      with st True 1(2) have "next_fragment mid = (res, r')" by (subst (asm) next_fragment.simps) simp
      with 1(1) [of x mid u] st True Inr le show ?thesis by fastforce
    qed
  next
    case False
    with 1(2) show ?thesis by (subst (asm) next_fragment.simps) (auto split: if_splits)
  qed
qed

lemma read_some_size:
  "read_some n r = (Inr bs, r') \<Longrightarrow> bs \<noteq> [] \<Longrightarrow> stream_size (rr_stream r') < stream_size (rr_stream r)"
  by (auto simp: read_some_def split: if_splits prod.splits sum.splits bool.splits read_result.splits
      dest!: next_fragment_size stream_read_size)

text \<open>\<^verbatim>\<open>drain\<close>: the rest of a record is read and forgotten.\<close>

function drain_loop :: "nat \<Rightarrow> record_reader \<Rightarrow> (halt + nat) \<times> record_reader" where
  "drain_loop seen record =
     (case read_some 4096 record of
        (Inl e, record') \<Rightarrow> (Inl e, record')
      | (Inr bs, record') \<Rightarrow> if bs = [] then (Inr seen, record') else drain_loop (seen + length bs) record')"
  by pat_completeness auto
termination
  by (relation "measure (\<lambda>(seen, record). stream_size (rr_stream record))") (auto dest: read_some_size [OF sym])

declare drain_loop.simps [simp del]

definition drain :: "record_reader \<Rightarrow> (halt + nat) \<times> record_reader" where
  "drain record = drain_loop 0 record"

text \<open>The loop of the buffered arm of \<^verbatim>\<open>receive_record\<close>.\<close>

function read_to_end :: "bytes \<Rightarrow> record_reader \<Rightarrow> (halt + bytes) \<times> record_reader" where
  "read_to_end bytes record =
     (case read_some 4096 record of
        (Inl e, record') \<Rightarrow> (Inl e, record')
      | (Inr bs, record') \<Rightarrow> if bs = [] then (Inr bytes, record') else read_to_end (bytes @ bs) record')"
  by pat_completeness auto
termination
  by (relation "measure (\<lambda>(bytes, record). stream_size (rr_stream record))") (auto dest: read_some_size [OF sym])

declare read_to_end.simps [simp del]

fun is_reply :: "message_body \<Rightarrow> bool" where
  "is_reply (Reply _) = True"
| "is_reply (Call _) = False"

definition receive_buffered :: "bytes \<Rightarrow> record_reader \<Rightarrow> (halt + rpc_message) \<times> record_reader" where
  "receive_buffered xid_bytes record =
     (case read_to_end xid_bytes record of
        (Inl e, record') \<Rightarrow> (Inl e, record')
      | (Inr bytes, record') \<Rightarrow>
          (case rpc_message_decode bytes of
             Inl e \<Rightarrow> Inl (Failed (WireFailure e))
           | Inr message \<Rightarrow> if is_reply (msg_body message) then Inr message else Inl (Failed UnexpectedCallMessage), record'))"

section \<open>The envelope of a reply\<close>

text \<open>An index beyond the array of 432 bytes would be a panic.\<close>

datatype receive_halt = Halted halt | IndexPanic

definition ENVELOPE_BYTES :: nat where "ENVELOPE_BYTES = 432"

definition envelope_read :: "nat \<Rightarrow> (record_reader \<times> bytes, receive_halt, bytes) action" where
  "envelope_read n self = (case self of (record, envelope) \<Rightarrow>
     if length envelope + n > ENVELOPE_BYTES then (Inl IndexPanic, self)
     else case reader_read_exact n (record, []) of
         (Inl e, record', _) \<Rightarrow> (Inl (Halted e), (record', envelope))
       | (Inr _, record', got) \<Rightarrow> (Inr got, (record', envelope @ got)))"

definition envelope_word :: "(record_reader \<times> bytes, receive_halt, u32) action" where
  "envelope_word = and_then (envelope_read 4) (\<lambda>w. ok (be_to_u32 w))"

definition skip_words :: "nat \<Rightarrow> (record_reader \<times> bytes, receive_halt, unit) action" where
  "skip_words n = and_then (repeat_n n envelope_word) (\<lambda>_. ok ())"

definition accepted_envelope :: "(record_reader \<times> bytes, receive_halt, unit) action" where
  "accepted_envelope =
     and_then envelope_word (\<lambda>_.
     and_then envelope_word (\<lambda>w. let len = unat w in
     if len > MAX_AUTH_BYTES then err (Halted (Failed (WireFailure (AuthBodyTooLong len)))) else
     and_then (envelope_read ((len + 3) div 4 * 4)) (\<lambda>_.
     and_then envelope_word (\<lambda>stat. if stat = 2 then skip_words 2 else ok ()))))"

definition denied_envelope :: "(record_reader \<times> bytes, receive_halt, unit) action" where
  "denied_envelope =
     and_then envelope_word (\<lambda>reject. if reject = 0 then skip_words 2 else if reject = 1 then skip_words 1 else ok ())"

definition reply_envelope :: "(record_reader \<times> bytes, receive_halt, unit) action" where
  "reply_envelope =
     and_then envelope_word (\<lambda>message_type.
     if message_type = 0 then err (Halted (Failed UnexpectedCallMessage))
     else if message_type \<noteq> 1 then err (Halted (Failed (WireFailure (InvalidMessageType message_type))))
     else and_then envelope_word (\<lambda>reply.
       if reply = 0 then accepted_envelope else if reply = 1 then denied_envelope else ok ()))"

definition reply_header :: "bytes \<Rightarrow> record_reader \<Rightarrow> (receive_halt + rpc_message) \<times> record_reader" where
  "reply_header xid record =
     (case reply_envelope (record, xid) of
        (Inl e, (record', _)) \<Rightarrow> (Inl e, record')
      | (Inr _, (record', envelope)) \<Rightarrow>
          (case rpc_message_decode envelope of
             Inl e \<Rightarrow> Inl (Halted (Failed (WireFailure e))) | Inr message \<Rightarrow> Inr message, record'))"

section \<open>Receivers\<close>

record 'r reply_receiver =
  rv_buffer :: "'r \<Rightarrow> (runtime_error + nat) \<times> 'r"
  rv_write :: "bytes \<Rightarrow> 'r \<Rightarrow> 'r"
  rv_advance :: "nat \<Rightarrow> 'r \<Rightarrow> (runtime_error + unit) \<times> 'r"

text \<open>\<^verbatim>\<open>Target\<close> counts what its receiver has been given.\<close>

record 'r target =
  tg_receiver :: 'r
  tg_payload_len :: nat

definition target_new :: "'r \<Rightarrow> 'r target" where
  "target_new receiver = \<lparr>tg_receiver = receiver, tg_payload_len = 0\<rparr>"

definition target_buffer :: "'r reply_receiver \<Rightarrow> 'r target \<Rightarrow> (runtime_error + nat) \<times> 'r target" where
  "target_buffer api self = (case rv_buffer api (tg_receiver self) of (res, rv) \<Rightarrow> (res, self\<lparr>tg_receiver := rv\<rparr>))"

definition target_write :: "'r reply_receiver \<Rightarrow> bytes \<Rightarrow> 'r target \<Rightarrow> 'r target" where
  "target_write api bs self = self\<lparr>tg_receiver := rv_write api bs (tg_receiver self)\<rparr>"

definition target_advance :: "'r reply_receiver \<Rightarrow> nat \<Rightarrow> 'r target \<Rightarrow> (runtime_error + unit) \<times> 'r target" where
  "target_advance api bytes self =
     (case checked_add (tg_payload_len self) bytes of
        None \<Rightarrow> (Inl (Transport ''RPC receive byte count overflow''), self)
      | Some received \<Rightarrow>
          (case rv_advance api bytes (tg_receiver self) of
             (res, rv) \<Rightarrow> (res, self\<lparr>tg_payload_len := received, tg_receiver := rv\<rparr>)))"

text \<open>The inner loop of the segmented arm: the record ended, or the receiver is full.\<close>

datatype filled = Ended nat | Full nat

function fill_target :: "'r reply_receiver \<Rightarrow> nat \<Rightarrow> record_reader \<times> 'r target \<Rightarrow> (halt + filled) \<times> record_reader \<times> 'r target" where
  "fill_target api len (record, target) =
     (case target_buffer api target of
        (Inl e, target) \<Rightarrow> (Inl (Failed e), record, target)
      | (Inr room, target) \<Rightarrow>
          if room = 0 then (Inr (Full len), record, target)
          else case read_some room record of
              (Inl e, record') \<Rightarrow> (Inl e, record', target)
            | (Inr bs, record') \<Rightarrow>
                if bs = [] then (Inr (Ended len), record', target)
                else (case target_advance api (length bs) (target_write api bs target) of
                    (Inl e, target) \<Rightarrow> (Inl (Failed e), record', target)
                  | (Inr _, target) \<Rightarrow> fill_target api (len + length bs) (record', target)))"
  by pat_completeness auto
termination
  by (relation "measure (\<lambda>(api, len, record, target). stream_size (rr_stream record))") (auto dest: read_some_size [OF sym])

declare fill_target.simps [simp del]

fun is_success :: "message_body \<Rightarrow> bool" where
  "is_success (Reply (Accepted r)) = (case ar_status r of Success _ \<Rightarrow> True | _ \<Rightarrow> False)"
| "is_success _ = False"

definition probe_end :: "bool \<Rightarrow> rpc_message \<Rightarrow> nat \<Rightarrow> record_reader \<Rightarrow> (halt + (rpc_message \<times> nat)) \<times> record_reader" where
  "probe_end success header len record =
     (case read_some 1 record of
        (Inl e, record) \<Rightarrow> (Inl e, record)
      | (Inr bs, record) \<Rightarrow>
          if bs = [] then (Inr (header, len), record)
          else (case drain record of
              (Inl e, record) \<Rightarrow> (Inl e, record)
            | (Inr n, record) \<Rightarrow>
                (if \<not> success then Inl (Failed (WireFailure (WTrailingBytes (1 + n)))) else Inr (header, usize_max), record)))"

definition receive_segmented :: "'r reply_receiver \<Rightarrow> bytes \<Rightarrow> record_reader \<times> 'r target \<Rightarrow>
    (receive_halt + (rpc_message \<times> nat)) \<times> record_reader \<times> 'r target" where
  "receive_segmented api xid_bytes self = (case self of (record, target) \<Rightarrow>
     (case reply_header xid_bytes record of
        (Inl e, record) \<Rightarrow> (Inl e, record, target)
      | (Inr header, record) \<Rightarrow>
          (let success = is_success (msg_body header);
               (res, record, target) = (if success then fill_target api 0 (record, target) else (Inr (Full 0), record, target))
           in case res of
                Inl e \<Rightarrow> (Inl (Halted e), record, target)
              | Inr (Ended len) \<Rightarrow> (Inr (header, len), record, target)
              | Inr (Full len) \<Rightarrow>
                  (case probe_end success header len record of (res, record) \<Rightarrow> (map_err Halted res, record, target)))))"

section \<open>The array is never left\<close>

definition stays_within :: "nat \<Rightarrow> (record_reader \<times> bytes, receive_halt, 'a) action \<Rightarrow> bool" where
  "stays_within k m = (\<forall>record envelope. length envelope + k \<le> ENVELOPE_BYTES \<longrightarrow>
     fst (m (record, envelope)) \<noteq> Inl IndexPanic \<and> length (snd (snd (m (record, envelope)))) \<le> length envelope + k)"

lemma stays_withinD:
  "stays_within k m \<Longrightarrow> length envelope + k \<le> ENVELOPE_BYTES \<Longrightarrow> m (record, envelope) = (res, record', envelope') \<Longrightarrow>
   res \<noteq> Inl IndexPanic \<and> length envelope' \<le> length envelope + k"
  unfolding stays_within_def by (drule spec [of _ "record"], drule spec [of _ envelope]) simp

lemma stays_within_and_then:
  assumes "stays_within k m" "\<And>x. stays_within l (f x)"
  shows "stays_within (k + l) (and_then m f)"
  unfolding stays_within_def
proof (intro allI impI)
  fix rd and envelope :: bytes
  assume len: "length envelope + (k + l) \<le> ENVELOPE_BYTES"
  obtain res rd' envelope' where m: "m (rd, envelope) = (res, rd', envelope')" by (cases "m (rd, envelope)") auto
  have k: "res \<noteq> Inl IndexPanic" "length envelope' \<le> length envelope + k"
    using stays_withinD [OF assms(1) _ m] len by auto
  show "fst (and_then m f (rd, envelope)) \<noteq> Inl IndexPanic \<and>
        length (snd (snd (and_then m f (rd, envelope)))) \<le> length envelope + (k + l)"
  proof (cases res)
    case (Inr x)
    obtain res2 rd2 envelope2 where f: "f x (rd', envelope') = (res2, rd2, envelope2)"
      by (cases "f x (rd', envelope')") auto
    with stays_withinD [OF assms(2) _ f] k len m Inr show ?thesis by (auto simp: and_then_def)
  qed (use k m in \<open>auto simp: and_then_def\<close>)
qed

lemma read_exact_length:
  "reader_read_exact n (r, got) = (Inr u, r', got') \<Longrightarrow> length got' = length got + n"
proof (induction n arbitrary: r got rule: less_induct)
  case (less n)
  show ?case
  proof (cases "n = 0")
    case True
    with less.prems show ?thesis by (subst (asm) reader_read_exact.simps) simp
  next
    case False
    with less.prems obtain bs mid where rs: "read_some n r = (Inr bs, mid)" "bs \<noteq> []"
      and rest: "reader_read_exact (n - length bs) (mid, got @ bs) = (Inr u, r', got')"
      by (subst (asm) reader_read_exact.simps) (auto split: prod.splits sum.splits if_splits)
    have "length bs \<le> n" using rs(1) by (auto simp: read_some_def split: if_splits prod.splits sum.splits bool.splits read_result.splits dest!: stream_read_length)
    with less.IH [OF _ rest] False rs(2) show ?thesis by simp
  qed
qed

lemma stays_within_simple: "stays_within k (ok x)" "e \<noteq> IndexPanic \<Longrightarrow> stays_within k (err e)"
  by (simp_all add: stays_within_def)

lemma stays_within_mono: "stays_within k m \<Longrightarrow> k \<le> l \<Longrightarrow> stays_within l m"
  unfolding stays_within_def by (meson add_left_mono le_trans)

lemma stays_within_read: "stays_within n (envelope_read n)"
  unfolding stays_within_def
proof (intro allI impI)
  fix rd and envelope :: bytes
  assume "length envelope + n \<le> ENVELOPE_BYTES"
  moreover obtain res rd' got where "reader_read_exact n (rd, []) = (res, rd', got)" by (cases "reader_read_exact n (rd, [])") auto
  moreover from this have "length got = n" if "res = Inr u" for u using that read_exact_length [of n rd "[]" u rd' got] by simp
  ultimately show "fst (envelope_read n (rd, envelope)) \<noteq> Inl IndexPanic \<and>
      length (snd (snd (envelope_read n (rd, envelope)))) \<le> length envelope + n"
    by (cases res) (simp_all add: envelope_read_def)
qed

lemma stays_within_word: "stays_within 4 envelope_word"
  unfolding envelope_word_def using stays_within_and_then [OF stays_within_read stays_within_simple(1), of 4 0] by simp

lemma stays_within_words: "stays_within (4 * n) (repeat_n n envelope_word)"
proof (induction n)
  case (Suc n)
  have "stays_within (4 + (4 * n + 0)) (repeat_n (Suc n) envelope_word)"
    unfolding repeat_n.simps by (intro stays_within_and_then stays_within_word Suc stays_within_simple)
  then show ?case by simp
qed (simp add: stays_within_def)

lemma stays_within_skip: "stays_within (4 * n) (skip_words n)"
  unfolding skip_words_def using stays_within_and_then [OF stays_within_words stays_within_simple(1), of n 0] by simp

lemma accepted_within: "stays_within 420 accepted_envelope"
proof -
  have stat: "stays_within 8 (if w = 2 then skip_words 2 else ok ())" for w :: u32
    using stays_within_skip [of 2] by (simp add: stays_within_simple)
  have body: "stays_within (400 + (4 + 8)) (if unat w > MAX_AUTH_BYTES then err (Halted (Failed (WireFailure (AuthBodyTooLong (unat w)))))
      else and_then (envelope_read ((unat w + 3) div 4 * 4)) (\<lambda>_. and_then envelope_word (\<lambda>stat. if stat = 2 then skip_words 2 else ok ())))" for w :: u32
  proof (cases "unat w > MAX_AUTH_BYTES")
    case False
    then have "(unat w + 3) div 4 * 4 \<le> 400" by (simp add: MAX_AUTH_BYTES_def)
    from stays_within_mono [OF stays_within_read this] have "stays_within 400 (envelope_read ((unat w + 3) div 4 * 4))" .
    with False show ?thesis by (simp only: if_False) (intro stays_within_and_then stays_within_word stat)
  qed (simp add: stays_within_simple)
  have "stays_within (4 + (4 + (400 + (4 + 8)))) accepted_envelope"
    unfolding accepted_envelope_def Let_def by (intro stays_within_and_then stays_within_word body)
  then show ?thesis by simp
qed

lemma denied_within: "stays_within 420 denied_envelope"
proof -
  have "stays_within 8 (if w = 0 then skip_words 2 else if w = 1 then skip_words 1 else ok ())" for w :: u32
    using stays_within_skip [of 2] stays_within_mono [OF stays_within_skip [of 1]] by (auto simp: stays_within_simple)
  then have "stays_within (4 + 8) denied_envelope"
    unfolding denied_envelope_def by (intro stays_within_and_then stays_within_word)
  then show ?thesis by (rule stays_within_mono) simp
qed

lemma reply_within: "stays_within 428 reply_envelope"
proof -
  have "stays_within (4 + 420) (if w = 0 then err (Halted (Failed UnexpectedCallMessage))
     else if w \<noteq> 1 then err (Halted (Failed (WireFailure (InvalidMessageType w))))
     else and_then envelope_word (\<lambda>reply. if reply = 0 then accepted_envelope else if reply = 1 then denied_envelope else ok ()))" for w :: u32
    using stays_within_and_then [OF stays_within_word, of 420 "\<lambda>reply. if reply = 0 then accepted_envelope else if reply = 1 then denied_envelope else ok ()"]
    by (auto simp: stays_within_simple accepted_within denied_within)
  then have "stays_within (4 + (4 + 420)) reply_envelope"
    unfolding reply_envelope_def by (intro stays_within_and_then stays_within_word)
  then show ?thesis by simp
qed

lemma reply_header_no_panic:
  assumes "length xid = 4"
  shows "fst (reply_header xid rd) \<noteq> Inl IndexPanic"
proof -
  obtain res rd' envelope where e: "reply_envelope (rd, xid) = (res, rd', envelope)" by (cases "reply_envelope (rd, xid)") auto
  from stays_withinD [OF reply_within _ e] assms have "res \<noteq> Inl IndexPanic" by (simp add: ENVELOPE_BYTES_def)
  with e show ?thesis by (auto simp: reply_header_def split: sum.splits)
qed

section \<open>What is read from a framed record\<close>

lemma drain_loop_reads:
  "reader_at r todo rest \<Longrightarrow>
   (\<exists>r' todo'. drain_loop k r = (Inl Dropped, r') \<and> reader_at r' todo' rest) \<or>
   (\<exists>r'. drain_loop k r = (Inr (k + length todo), r') \<and> reader_at r' [] rest \<and> finished r')"
proof (induction k r arbitrary: todo rule: drain_loop.induct)
  case (1 k r)
  from read_some_reads [OF 1(2), of 4096]
  consider r' where "read_some 4096 r = (Inl Dropped, r')" "reader_at r' todo rest"
    | r' where "read_some 4096 r = (Inr [], r')" "todo = []" "reader_at r' [] rest" "finished r'"
    | r' bs todo' where "read_some 4096 r = (Inr bs, r')" "bs \<noteq> []" "todo = bs @ todo'" "reader_at r' todo' rest"
    by force
  then show ?case
  proof cases
    case (3 r' bs todo')
    then have "drain_loop k r = drain_loop (k + length bs) r'" by (subst drain_loop.simps) simp
    with 1(1) [OF 3(1) [symmetric] refl 3(2,4)] 3(3) show ?thesis by (simp add: add.assoc)
  qed (auto simp: drain_loop.simps [of k r])
qed

lemma drain_reads:
  assumes "reader_at r todo rest"
  shows "(\<exists>r' todo'. drain r = (Inl Dropped, r') \<and> reader_at r' todo' rest) \<or>
    (\<exists>r'. drain r = (Inr (length todo), r') \<and> reader_at r' [] rest \<and> finished r')"
  using drain_loop_reads [OF assms, of 0] by (simp add: drain_def)

lemma read_to_end_reads:
  "reader_at r todo rest \<Longrightarrow>
   (\<exists>r' todo'. read_to_end bytes r = (Inl Dropped, r') \<and> reader_at r' todo' rest) \<or>
   (\<exists>r'. read_to_end bytes r = (Inr (bytes @ todo), r') \<and> reader_at r' [] rest \<and> finished r')"
proof (induction bytes r arbitrary: todo rule: read_to_end.induct)
  case (1 bytes r)
  from read_some_reads [OF 1(2), of 4096]
  consider r' where "read_some 4096 r = (Inl Dropped, r')" "reader_at r' todo rest"
    | r' where "read_some 4096 r = (Inr [], r')" "todo = []" "reader_at r' [] rest" "finished r'"
    | r' bs todo' where "read_some 4096 r = (Inr bs, r')" "bs \<noteq> []" "todo = bs @ todo'" "reader_at r' todo' rest"
    by force
  then show ?case
  proof cases
    case (3 r' bs todo')
    then have "read_to_end bytes r = read_to_end (bytes @ bs) r'" by (subst read_to_end.simps) simp
    with 1(1) [OF 3(1) [symmetric] refl 3(2,4)] 3(3) show ?thesis by simp
  qed (auto simp: read_to_end.simps [of bytes r])
qed

text \<open>An action on the envelope that takes exactly the bytes \<open>w\<close>, and one that loses no byte.\<close>

definition consumes :: "(record_reader \<times> bytes, receive_halt, 'a) action \<Rightarrow> bytes \<Rightarrow> bytes \<Rightarrow> 'a \<Rightarrow> bool" where
  "consumes m env w x = (\<forall>rd todo rest. reader_at rd (w @ todo) rest \<longrightarrow>
     (\<exists>rd' env' todo'. m (rd, env) = (Inl (Halted Dropped), rd', env') \<and> reader_at rd' todo' rest) \<or>
     (\<exists>rd'. m (rd, env) = (Inr x, rd', env @ w) \<and> reader_at rd' todo rest))"

definition keeps_bytes :: "(record_reader \<times> bytes, receive_halt, 'a) action \<Rightarrow> bool" where
  "keeps_bytes m = (\<forall>rd env todo rest res rd' env'. reader_at rd todo rest \<longrightarrow> m (rd, env) = (res, rd', env') \<longrightarrow>
     (\<exists>todo'. reader_at rd' todo' rest \<and> (\<forall>x. res = Inr x \<longrightarrow> env' @ todo' = env @ todo)))"

lemma consumes_and_then:
  assumes "consumes m env w x" "consumes (f x) (env @ w) v y"
  shows "consumes (and_then m f) env (w @ v) y"
  unfolding consumes_def
proof (intro allI impI)
  fix rd todo rest
  assume "reader_at rd ((w @ v) @ todo) rest"
  then have "reader_at rd (w @ v @ todo) rest" by simp
  with assms(1) consider rd' env' todo' where "m (rd, env) = (Inl (Halted Dropped), rd', env')" "reader_at rd' todo' rest"
    | rd' where "m (rd, env) = (Inr x, rd', env @ w)" "reader_at rd' (v @ todo) rest"
    unfolding consumes_def by blast
  then show "(\<exists>rd' env' todo'. and_then m f (rd, env) = (Inl (Halted Dropped), rd', env') \<and> reader_at rd' todo' rest) \<or>
     (\<exists>rd'. and_then m f (rd, env) = (Inr y, rd', env @ w @ v) \<and> reader_at rd' todo rest)"
  proof cases
    case (2 rd')
    with assms(2) show ?thesis unfolding consumes_def by fastforce
  qed (auto simp: and_then_def)
qed

lemma consumes_ok: "consumes (ok x) env [] x"
  by (auto simp: consumes_def)

lemma consumes_read:
  assumes "length w = n" "length env + n \<le> ENVELOPE_BYTES"
  shows "consumes (envelope_read n) env w w"
  unfolding consumes_def
proof (intro allI impI)
  fix rd todo rest
  assume "reader_at rd (w @ todo) rest"
  from read_exact_reads [OF this, of n "[]"] assms(1)
  consider rd' k where "reader_read_exact n (rd, []) = (Inl Dropped, rd', take k (w @ todo))" "reader_at rd' (drop k (w @ todo)) rest"
    | rd' where "reader_read_exact n (rd, []) = (Inr (), rd', w)" "reader_at rd' todo rest"
    by auto
  then show "(\<exists>rd' env' todo'. envelope_read n (rd, env) = (Inl (Halted Dropped), rd', env') \<and> reader_at rd' todo' rest) \<or>
     (\<exists>rd'. envelope_read n (rd, env) = (Inr w, rd', env @ w) \<and> reader_at rd' todo rest)"
    by cases (use assms(2) in \<open>auto simp: envelope_read_def\<close>)
qed

lemma consumes_word:
  assumes "length env + 4 \<le> ENVELOPE_BYTES"
  shows "consumes envelope_word env (u32_to_be v) v"
proof -
  have "consumes (and_then (envelope_read 4) (\<lambda>w. ok (be_to_u32 w))) env (u32_to_be v @ []) (be_to_u32 (u32_to_be v))"
    by (rule consumes_and_then [OF consumes_read consumes_ok]) (use assms in simp_all)
  then show ?thesis by (simp only: envelope_word_def append_Nil2 be_to_u32_to_be)
qed

lemma keeps_bytesD:
  "keeps_bytes m \<Longrightarrow> reader_at rd todo rest \<Longrightarrow> m (rd, env) = (res, rd', env') \<Longrightarrow>
   \<exists>todo'. reader_at rd' todo' rest \<and> (\<forall>x. res = Inr x \<longrightarrow> env' @ todo' = env @ todo)"
  unfolding keeps_bytes_def by (elim allE impE) assumption+

lemma keeps_and_then:
  assumes "keeps_bytes m" "\<And>x. keeps_bytes (f x)"
  shows "keeps_bytes (and_then m f)"
  unfolding keeps_bytes_def
proof (intro allI impI)
  fix rd todo rest res rd' and env env' :: bytes
  assume at: "reader_at rd todo rest" and run: "and_then m f (rd, env) = (res, rd', env')"
  obtain x mid env1 where m: "m (rd, env) = (x, mid, env1)" by (cases "m (rd, env)") auto
  from keeps_bytesD [OF assms(1) at this] obtain todo1 where
    mid: "reader_at mid todo1 rest" "\<forall>y. x = Inr y \<longrightarrow> env1 @ todo1 = env @ todo"
    by blast
  show "\<exists>todo'. reader_at rd' todo' rest \<and> (\<forall>x. res = Inr x \<longrightarrow> env' @ todo' = env @ todo)"
  proof (cases x)
    case (Inr y)
    with m run have "f y (mid, env1) = (res, rd', env')" by (simp add: and_then_def)
    from keeps_bytesD [OF assms(2) mid(1) this] obtain todo' where
      "reader_at rd' todo' rest" "\<forall>z. res = Inr z \<longrightarrow> env' @ todo' = env1 @ todo1"
      by blast
    with mid(2) Inr show ?thesis by auto
  qed (use m run mid(1) in \<open>auto simp: and_then_def\<close>)
qed

lemma keeps_simple: "keeps_bytes (ok x)" "keeps_bytes (err e)"
  by (auto simp: keeps_bytes_def)

lemma keeps_read: "keeps_bytes (envelope_read n)"
  unfolding keeps_bytes_def
proof (intro allI impI)
  fix rd todo rest res rd' and env env' :: bytes
  assume at: "reader_at rd todo rest" and run: "envelope_read n (rd, env) = (res, rd', env')"
  from read_exact_reads [OF at, of n "[]"]
  consider r' k where "reader_read_exact n (rd, []) = (Inl Dropped, r', take k todo)" "reader_at r' (drop k todo) rest"
    | r' where "reader_read_exact n (rd, []) =
        (if n \<le> length todo then Inr () else Inl (Failed (WireFailure (WUnexpectedEof (n - length todo) 0))), r', take n todo)"
        "reader_at r' (drop n todo) rest"
    by auto
  then show "\<exists>todo'. reader_at rd' todo' rest \<and> (\<forall>x. res = Inr x \<longrightarrow> env' @ todo' = env @ todo)"
    by cases (use at run in \<open>auto simp: envelope_read_def split: if_splits\<close>)
qed

lemma keeps_word: "keeps_bytes envelope_word"
  unfolding envelope_word_def by (intro keeps_and_then keeps_read keeps_simple)

lemma keeps_words: "keeps_bytes (repeat_n n envelope_word)"
proof (induction n)
  case (Suc n)
  then show ?case unfolding repeat_n.simps by (intro keeps_and_then keeps_word keeps_simple)
qed (auto simp: keeps_bytes_def)

lemma keeps_if: "keeps_bytes a \<Longrightarrow> keeps_bytes b \<Longrightarrow> keeps_bytes (if c then a else b)"
  by simp

lemmas keeps_intros = keeps_and_then keeps_word keeps_words keeps_read keeps_simple keeps_if

lemma keeps_skip: "keeps_bytes (skip_words n)"
  unfolding skip_words_def by (intro keeps_intros)

lemma keeps_accepted: "keeps_bytes accepted_envelope"
  unfolding accepted_envelope_def Let_def by (intro keeps_intros keeps_skip)

lemma keeps_denied: "keeps_bytes denied_envelope"
  unfolding denied_envelope_def by (intro keeps_intros keeps_skip)

lemma keeps_reply: "keeps_bytes reply_envelope"
  unfolding reply_envelope_def by (intro keeps_intros keeps_accepted keeps_denied)

section \<open>The envelope is the message without its results\<close>

fun without_results :: "message_body \<Rightarrow> message_body" where
  "without_results (Reply (Accepted r)) =
     Reply (Accepted (case ar_status r of Success _ \<Rightarrow> r\<lparr>ar_status := Success []\<rparr> | _ \<Rightarrow> r))"
| "without_results b = b"

fun results_of :: "message_body \<Rightarrow> bytes" where
  "results_of (Reply (Accepted r)) = (case ar_status r of Success results \<Rightarrow> results | _ \<Rightarrow> [])"
| "results_of _ = []"

lemma consumes_words:
  "length env + 4 * length ws \<le> ENVELOPE_BYTES \<Longrightarrow> consumes (repeat_n (length ws) envelope_word) env (concat (map u32_to_be ws)) ws"
proof (induction ws arbitrary: env)
  case (Cons v ws)
  have "consumes (and_then (repeat_n (length ws) envelope_word) (\<lambda>xs. ok (v # xs))) (env @ u32_to_be v) (concat (map u32_to_be ws) @ []) (v # ws)"
    by (rule consumes_and_then [OF Cons.IH consumes_ok]) (use Cons.prems in simp)
  from consumes_and_then [where f = "\<lambda>x. and_then (repeat_n (length ws) envelope_word) (\<lambda>xs. ok (x # xs))", OF consumes_word this [unfolded append_Nil2]] Cons.prems
  show ?case by simp
qed (simp add: consumes_def)

lemma consumes_skip:
  assumes "length env + 4 * length ws \<le> ENVELOPE_BYTES" "n = length ws"
  shows "consumes (skip_words n) env (concat (map u32_to_be ws)) ()"
  using consumes_and_then [where f = "\<lambda>_. ok ()", OF consumes_words [OF assms(1)] consumes_ok]
  by (simp only: assms(2) skip_words_def append_Nil2)

lemma consumes_words2: "length env + 8 \<le> ENVELOPE_BYTES \<Longrightarrow> consumes (skip_words 2) env (u32_to_be a @ u32_to_be b) ()"
  using consumes_skip [of env "[a, b]" 2] by simp

lemma consumes_words1: "length env + 4 \<le> ENVELOPE_BYTES \<Longrightarrow> consumes (skip_words 1) env (u32_to_be a) ()"
  using consumes_skip [of env "[a]" 1] by simp

lemma padded_length: "length bs + xdr_padding (length bs) = (length bs + 3) div 4 * 4"
proof -
  have "4 * q + r + (4 - r) mod 4 = (4 * q + r + 3) div 4 * 4" if "r < 4" for q r :: nat
  proof -
    from that have "r = 0 \<or> r = 1 \<or> r = 2 \<or> r = 3" by auto
    then show ?thesis by (elim disjE) (simp_all add: div_add1_eq [of "4 * q"])
  qed
  from this [of "length bs mod 4" "length bs div 4"] show ?thesis
    by (simp add: xdr_padding_def)
qed

lemma consumes_status:
  assumes "length env + 12 \<le> ENVELOPE_BYTES"
  shows "consumes (and_then envelope_word (\<lambda>stat. if stat = 2 then skip_words 2 else ok ())) env
    (status_wire (case st of Success _ \<Rightarrow> Success [] | st \<Rightarrow> st)) ()"
proof -
  have "consumes (and_then envelope_word (\<lambda>stat. if stat = 2 then skip_words 2 else ok ())) env (u32_to_be w @ []) ()" if "w \<noteq> 2" for w
    by (rule consumes_and_then [OF consumes_word]) (use assms that consumes_ok in simp_all)
  moreover have "consumes (and_then envelope_word (\<lambda>stat. if stat = 2 then skip_words 2 else ok ())) env (u32_to_be 2 @ u32_to_be a @ u32_to_be b) ()" for a b
    by (rule consumes_and_then [OF consumes_word]) (use assms consumes_words2 in simp_all)
  ultimately show ?thesis by (cases st) (auto simp: range_wire_def)
qed

lemma consumes_accepted:
  assumes "auth_fits a" "length env + 420 \<le> ENVELOPE_BYTES"
  shows "consumes accepted_envelope env (auth_wire a @ status_wire (case st of Success _ \<Rightarrow> Success [] | st \<Rightarrow> st)) ()"
proof -
  let ?n = "length (oa_body a)" and ?st = "status_wire (case st of Success _ \<Rightarrow> Success [] | st \<Rightarrow> st)"
  from assms(1) have n: "?n \<le> 400" by (simp add: auth_fits_def MAX_AUTH_BYTES_def)
  then have len: "unat (of_nat ?n :: u32) = ?n" by (simp add: unat_of_nat_u32 u32_max_def)
  from n have pad: "(?n + 3) div 4 * 4 \<le> 400" by simp
  have "consumes accepted_envelope env (u32_to_be (auth_flavor_number (oa_flavor a)) @ u32_to_be (of_nat ?n) @
      (oa_body a @ replicate (xdr_padding ?n) 0) @ ?st) ()"
    unfolding accepted_envelope_def Let_def
  proof (intro consumes_and_then [OF consumes_word])
    show "consumes (if unat (of_nat ?n :: u32) > MAX_AUTH_BYTES then err (Halted (Failed (WireFailure (AuthBodyTooLong (unat (of_nat ?n :: u32))))))
      else and_then (envelope_read ((unat (of_nat ?n :: u32) + 3) div 4 * 4)) (\<lambda>_. and_then envelope_word (\<lambda>stat. if stat = 2 then skip_words 2 else ok ())))
      ((env @ u32_to_be (auth_flavor_number (oa_flavor a))) @ u32_to_be (of_nat ?n)) ((oa_body a @ replicate (xdr_padding ?n) 0) @ ?st) ()"
      unfolding len using n pad assms(2)
      by (simp only: MAX_AUTH_BYTES_def not_less [symmetric] if_False)
         (intro consumes_and_then [OF consumes_read consumes_status]; simp add: padded_length)
  qed (use assms(2) in simp_all)
  then show ?thesis by (simp add: auth_wire_def opaque_wire_def)
qed

lemma consumes_denied:
  assumes "length env + 12 \<le> ENVELOPE_BYTES"
  shows "consumes denied_envelope env (rejected_wire d) ()"
proof (cases d)
  case (RpcMismatch vr)
  have "consumes denied_envelope env (u32_to_be 0 @ u32_to_be (range_low vr) @ u32_to_be (range_high vr)) ()"
    unfolding denied_envelope_def by (rule consumes_and_then [OF consumes_word]) (use assms consumes_words2 in simp_all)
  with RpcMismatch show ?thesis by (simp add: range_wire_def)
next
  case (AuthError st)
  have "consumes denied_envelope env (u32_to_be 1 @ u32_to_be (auth_stat_number st)) ()"
    unfolding denied_envelope_def by (rule consumes_and_then [OF consumes_word]) (use assms consumes_words1 in simp_all)
  with AuthError show ?thesis by simp
qed

lemma consumes_reply:
  assumes "list_all auth_fits (message_auths (Reply b))" "length xid = 4"
  shows "consumes reply_envelope xid (body_wire (without_results (Reply b))) ()"
proof -
  have len: "length xid + 428 \<le> ENVELOPE_BYTES" using assms(2) by (simp add: ENVELOPE_BYTES_def)
  have body: "consumes (if w = 0 then accepted_envelope else if w = 1 then denied_envelope else ok ()) ((xid @ u32_to_be 1) @ u32_to_be w) v ()
      \<Longrightarrow> consumes reply_envelope xid (u32_to_be 1 @ u32_to_be w @ v) ()" for w v
    unfolding reply_envelope_def
    by (rule consumes_and_then [OF consumes_word]) (use len in \<open>simp_all add: consumes_and_then [OF consumes_word]\<close>)
  show ?thesis
  proof (cases b)
    case (Accepted r)
    have wire: "body_wire (without_results (Reply b)) = u32_to_be 1 @ u32_to_be 0 @ auth_wire (ar_verifier r) @
        status_wire (case ar_status r of Success _ \<Rightarrow> Success [] | st \<Rightarrow> st)"
      using Accepted by (cases "ar_status r") simp_all
    show ?thesis
      unfolding wire by (rule body) (use len assms(1) Accepted in \<open>simp add: consumes_accepted\<close>)
  next
    case (Denied d)
    have wire: "body_wire (without_results (Reply b)) = u32_to_be 1 @ u32_to_be 1 @ rejected_wire d"
      using Denied by simp
    show ?thesis unfolding wire by (rule body) (use len in \<open>simp add: consumes_denied\<close>)
  qed
qed

text \<open>The header of a reply is read off its front and leaves the results in the record.\<close>

lemma reply_header_reads:
  assumes at: "reader_at rd todo rest" and dec: "rpc_message_decode (xid @ todo) = Inr m" and reply: "is_reply (msg_body m)" and "length xid = 4"
  shows "(\<exists>rd' todo'. reply_header xid rd = (Inl (Halted Dropped), rd') \<and> reader_at rd' todo' rest) \<or>
    (\<exists>rd'. reply_header xid rd = (Inr (m\<lparr>msg_body := without_results (msg_body m)\<rparr>), rd') \<and>
       reader_at rd' (results_of (msg_body m)) rest)"
proof -
  from reply obtain b where b: "msg_body m = Reply b" by (cases "msg_body m") auto
  let ?h = "m\<lparr>msg_body := without_results (msg_body m)\<rparr>"
  from dec have m: "wf_message m" "list_all auth_fits (message_auths (msg_body m))" "xid @ todo = message_wire m"
    by (auto simp: message_decode_iff)
  have split: "body_wire (Reply b) = body_wire (without_results (Reply b)) @ results_of (Reply b)"
    by (cases "Reply b" rule: results_of.cases) (auto split: accepted_status.splits)
  from m(3) assms(4) have xid: "xid = u32_to_be (xid_number (msg_xid m))" and todo: "todo = body_wire (without_results (Reply b)) @ results_of (Reply b)"
    unfolding message_wire_def b split by (metis append_eq_append_conv length_to_be(2))+
  have "rpc_message_decode (xid @ body_wire (without_results (Reply b))) = Inr ?h"
    unfolding message_decode_iff xid using m(1,2) b
    by (cases "Reply b" rule: results_of.cases) (auto simp: wf_message_def message_wire_def split: accepted_status.splits)
  moreover have "consumes reply_envelope xid (body_wire (without_results (Reply b))) ()"
    by (rule consumes_reply) (use m(2) b assms(4) in simp_all)
  ultimately show ?thesis
    using at unfolding todo b consumes_def by (fastforce simp: reply_header_def)
qed

lemma reply_envelope_call:
  assumes "reader_at rd (u32_to_be 0 @ todo) rest" "length xid = 4"
  shows "fst (reply_envelope (rd, xid)) \<noteq> Inr ()"
proof -
  have "consumes envelope_word xid (u32_to_be 0) 0" by (rule consumes_word) (simp add: assms(2) ENVELOPE_BYTES_def)
  with assms(1) show ?thesis unfolding consumes_def reply_envelope_def by (fastforce simp: and_then_def)
qed

text \<open>And nothing else is a header.\<close>

lemma reply_header_sound:
  assumes at: "reader_at rd todo rest" and hd: "reply_header xid rd = (res, rd')" and "length xid = 4"
  shows "\<exists>todo'. reader_at rd' todo' rest \<and> (\<forall>h. res = Inr h \<longrightarrow> (is_success (msg_body h) \<or> todo' = [] \<longrightarrow>
    (\<exists>m. rpc_message_decode (xid @ todo) = Inr m \<and> is_reply (msg_body m) \<and> h = m\<lparr>msg_body := without_results (msg_body m)\<rparr> \<and>
       todo' = results_of (msg_body m))))"
proof -
  obtain x r1 env where env: "reply_envelope (rd, xid) = (x, r1, env)" by (cases "reply_envelope (rd, xid)") auto
  from keeps_bytesD [OF keeps_reply at env] obtain todo' where
    todo': "reader_at r1 todo' rest" "\<forall>u. x = Inr u \<longrightarrow> env @ todo' = xid @ todo" by blast
  from hd env have r1: "rd' = r1" by (auto simp: reply_header_def split: sum.splits)
  have "\<exists>m. rpc_message_decode (xid @ todo) = Inr m \<and> is_reply (msg_body m) \<and> h = m\<lparr>msg_body := without_results (msg_body m)\<rparr> \<and>
       todo' = results_of (msg_body m)" if "res = Inr h" "is_success (msg_body h) \<or> todo' = []" for h
  proof -
    from that(1) hd env have h: "rpc_message_decode env = Inr h" "x = Inr ()"
      by (auto simp: reply_header_def split: sum.splits)
    then have bytes: "env @ todo' = xid @ todo" "env = message_wire h" using todo'(2) by (auto simp: message_decode_iff)
    have fits: "wf_message h" "list_all auth_fits (message_auths (msg_body h))" using h(1) by (auto simp: message_decode_iff)
    have reply: "is_reply (msg_body h)"
    proof (cases "msg_body h")
      case (Call c)
      with bytes have "xid @ todo = u32_to_be (xid_number (msg_xid h)) @ u32_to_be 0 @ call_wire c @ todo'"
        by (simp add: message_wire_def flip: bytes(1))
      then have "todo = u32_to_be 0 @ call_wire c @ todo'"
        using assms(3) by (metis append_eq_append_conv length_to_be(2))
      with reply_envelope_call [of rd "call_wire c @ todo'" rest xid] at assms(3) env h(2) show ?thesis by auto
    qed simp
    show ?thesis
    proof (cases "is_success (msg_body h)")
      case True
      then obtain r p where r: "msg_body h = Reply (Accepted r)" "ar_status r = Success p"
        by (cases "msg_body h" rule: is_success.cases) (auto split: accepted_status.splits)
      let ?m = "h\<lparr>msg_body := Reply (Accepted (r\<lparr>ar_status := Success (p @ todo')\<rparr>))\<rparr>"
      have "xid @ todo = message_wire ?m" unfolding bytes(1) [symmetric] bytes(2) by (simp add: message_wire_def r)
      with fits r have dec: "rpc_message_decode (xid @ todo) = Inr ?m"
        unfolding message_decode_iff by (simp add: wf_message_def)
      from reply_header_reads [OF at dec _ assms(3)] hd that(1) r have "h = ?m\<lparr>msg_body := without_results (msg_body ?m)\<rparr>" by auto
      then have "msg_body h = without_results (msg_body ?m)" by (metis rpc_message.select_convs(2) rpc_message.surjective rpc_message.update_convs(2))
      with r have "p = []" by (cases r) simp
      with dec \<open>h = _\<close> show ?thesis by (intro exI [of _ ?m]) simp
    next
      case False
      with that(2) bytes h(1) have "todo' = []" "rpc_message_decode (xid @ todo) = Inr h" by auto
      moreover from False have "without_results (msg_body h) = msg_body h" "results_of (msg_body h) = []"
        by (cases "msg_body h" rule: is_success.cases; auto split: accepted_status.splits)+
      ultimately show ?thesis using reply by (intro exI [of _ h]) simp
    qed
  qed
  with r1 todo'(1) show ?thesis by blast
qed

section \<open>Whatever the receiver does\<close>

lemma fill_target_counts:
  "fill_target api len (rd, tg) = (res, rd', tg') \<Longrightarrow> reader_at rd todo rest \<Longrightarrow>
   \<exists>todo'. reader_at rd' todo' rest \<and> (\<forall>n. res = Inr (Ended n) \<longrightarrow> n = len + length todo \<and> finished rd') \<and>
     (\<forall>n. res = Inr (Full n) \<longrightarrow> n + length todo' = len + length todo)"
proof (induction api len "(rd, tg)" arbitrary: rd tg todo rule: fill_target.induct)
  case (1 api len rd tg)
  obtain b tg1 where b: "target_buffer api tg = (b, tg1)" by fastforce
  show ?case
  proof (cases "\<exists>room. b = Inr room \<and> 0 < room")
    case True
    then obtain room where room: "b = Inr room" "0 < room" by blast
    from read_some_reads [OF 1(3) room(2)]
    consider r' where "read_some room rd = (Inl Dropped, r')" "reader_at r' todo rest"
      | r' where "read_some room rd = (Inr [], r')" "todo = []" "reader_at r' [] rest" "finished r'"
      | r' bs todo' where "read_some room rd = (Inr bs, r')" "bs \<noteq> []" "todo = bs @ todo'" "reader_at r' todo' rest"
      by force
    then show ?thesis
    proof cases
      case (3 r' bs todo')
      obtain a tg2 where a: "target_advance api (length bs) (target_write api bs tg1) = (a, tg2)" by fastforce
      show ?thesis
      proof (cases a)
        case (Inl e)
        with 1(2) 3 a b room show ?thesis by (subst (asm) fill_target.simps) auto
      next
        case (Inr u)
        with 1(2) 3 a b room have "fill_target api (len + length bs) (r', tg2) = (res, rd', tg')"
          by (subst (asm) fill_target.simps) simp
        from 1(1) [OF b [symmetric] room(1) _ 3(1) [symmetric] refl 3(2) a [symmetric] Inr this 3(4)] room 3(3)
        show ?thesis by (simp add: add.assoc)
      qed
    qed (use 1(2) b room in \<open>subst (asm) fill_target.simps, auto\<close>)+
  next
    case False
    with 1(2,3) b show ?thesis by (subst (asm) fill_target.simps) (auto split: sum.splits)
  qed
qed

lemma probe_end_reads:
  assumes "reader_at rd todo rest" "probe_end success h len rd = (res, rd')"
  shows "\<exists>todo'. reader_at rd' todo' rest \<and>
    (\<forall>x. res = Inr x \<longrightarrow> finished rd' \<and> todo' = [] \<and> (todo = [] \<and> x = (h, len) \<or> todo \<noteq> [] \<and> success \<and> x = (h, usize_max)))"
proof -
  from read_some_reads [OF assms(1), of 1]
  consider r' where "read_some 1 rd = (Inl Dropped, r')" "reader_at r' todo rest"
    | r' where "read_some 1 rd = (Inr [], r')" "todo = []" "reader_at r' [] rest" "finished r'"
    | r' bs todo' where "read_some 1 rd = (Inr bs, r')" "bs \<noteq> []" "todo = bs @ todo'" "reader_at r' todo' rest"
    by force
  then show ?thesis
  proof cases
    case (3 r' bs todo')
    from drain_reads [OF 3(4)] 3 assms(2) show ?thesis by (auto simp: probe_end_def split: if_splits)
  qed (use assms(2) in \<open>auto simp: probe_end_def\<close>)
qed

text \<open>
  A completed receive has taken the whole record, and what it returns is the decoded message
  split into its envelope and the length of its results, or the mark of a full receiver.
\<close>

lemma receive_segmented_sound:
  assumes at: "reader_at rd todo rest" and run: "receive_segmented api xid (rd, tg) = (res, rd', tg')" and "length xid = 4"
  shows "\<exists>todo'. reader_at rd' todo' rest \<and> (\<forall>h n. res = Inr (h, n) \<longrightarrow> finished rd' \<and>
    (n \<noteq> usize_max \<longrightarrow> (\<exists>m. rpc_message_decode (xid @ todo) = Inr m \<and> is_reply (msg_body m) \<and>
       h = m\<lparr>msg_body := without_results (msg_body m)\<rparr> \<and> n = length (results_of (msg_body m)))))"
proof -
  obtain hres r1 where hd: "reply_header xid rd = (hres, r1)" by fastforce
  from reply_header_sound [OF at hd assms(3)] obtain todo1 where
    r1: "reader_at r1 todo1 rest" and hs: "\<And>h. hres = Inr h \<Longrightarrow> is_success (msg_body h) \<or> todo1 = [] \<Longrightarrow>
    (\<exists>m. rpc_message_decode (xid @ todo) = Inr m \<and> is_reply (msg_body m) \<and> h = m\<lparr>msg_body := without_results (msg_body m)\<rparr> \<and>
       todo1 = results_of (msg_body m))" by blast
  show ?thesis
  proof (cases hres)
    case (Inl e)
    with hd run r1 show ?thesis by (auto simp: receive_segmented_def)
  next
    case (Inr h)
    obtain f r2 tg2 where f: "(if is_success (msg_body h) then fill_target api 0 (r1, tg) else (Inr (Full 0), r1, tg)) = (f, r2, tg2)"
      by (cases "if is_success (msg_body h) then fill_target api 0 (r1, tg) else (Inr (Full 0), r1, tg)") auto
    then have "\<exists>todo2. reader_at r2 todo2 rest \<and> (\<forall>n. f = Inr (Ended n) \<longrightarrow> is_success (msg_body h) \<and> n = length todo1 \<and> finished r2) \<and>
     (\<forall>n. f = Inr (Full n) \<longrightarrow> n + length todo2 = length todo1)"
      using fill_target_counts [of api 0 r1 tg f r2 tg2 todo1 rest] r1 by (cases "is_success (msg_body h)") auto
    then obtain todo2 where r2: "reader_at r2 todo2 rest" "\<And>n. f = Inr (Ended n) \<Longrightarrow> is_success (msg_body h) \<and> n = length todo1 \<and> finished r2"
      "\<And>n. f = Inr (Full n) \<Longrightarrow> n + length todo2 = length todo1" by blast
    consider (e) e where "f = Inl e" | (ended) n where "f = Inr (Ended n)" | (full) n where "f = Inr (Full n)"
      by (cases f; cases "projr f") auto
    then show ?thesis
    proof cases
      case e
      with hd run Inr f r2(1) show ?thesis by (auto simp: receive_segmented_def Let_def)
    next
      case ended
      with hd run Inr f have "res = Inr (h, n)" "rd' = r2" by (auto simp: receive_segmented_def Let_def)
      with r2 ended hs [OF Inr] show ?thesis by auto
    next
      case full
      obtain p r3 where p: "probe_end (is_success (msg_body h)) h n r2 = (p, r3)" by fastforce
      with full hd run Inr f have out: "res = map_err Halted p" "rd' = r3" by (auto simp: receive_segmented_def Let_def)
      from probe_end_reads [OF r2(1) p] obtain todo3 where r3: "reader_at r3 todo3 rest"
        "\<And>x. p = Inr x \<Longrightarrow> finished r3 \<and> (todo2 = [] \<and> x = (h, n) \<or> todo2 \<noteq> [] \<and> is_success (msg_body h) \<and> x = (h, usize_max))" by blast
      have todo1: "\<not> is_success (msg_body h) \<Longrightarrow> todo1 = [] \<longleftrightarrow> todo2 = []" using full f r2(3) [OF full] by auto
      have "\<exists>m. rpc_message_decode (xid @ todo) = Inr m \<and> is_reply (msg_body m) \<and> h = m\<lparr>msg_body := without_results (msg_body m)\<rparr> \<and>
         n = length (results_of (msg_body m))" if "p = Inr (h, n)" "n \<noteq> usize_max"
        using r3(2) [OF that(1)] r2(3) [OF full] todo1 hs [OF Inr] that(2) by fastforce
      with r3 out show ?thesis by (cases p) (auto simp: map_err_def)
    qed
  qed
qed

section \<open>Whatever arrives\<close>

lemma read_to_end_extends: "read_to_end bytes rd = (Inr bs, rd') \<Longrightarrow> \<exists>ws. bs = bytes @ ws"
proof (induction bytes rd rule: read_to_end.induct)
  case (1 bytes rd)
  from 1(2) show ?case
    by (subst (asm) read_to_end.simps) (auto split: prod.splits sum.splits if_splits dest!: 1(1) [OF sym])
qed

definition extends :: "(record_reader \<times> bytes, receive_halt, 'a) action \<Rightarrow> bool" where
  "extends m \<longleftrightarrow> (\<forall>rd env res rd' env'. m (rd, env) = (res, rd', env') \<longrightarrow> (\<exists>ws. env' = env @ ws))"

lemma extendsD: "extends m \<Longrightarrow> m (rd, env) = (res, rd', env') \<Longrightarrow> \<exists>ws. env' = env @ ws"
  by (simp add: extends_def)

lemma extends_and_then:
  assumes "extends m" "\<And>x. extends (f x)"
  shows "extends (and_then m f)"
  unfolding extends_def
proof (intro allI impI)
  fix rd env res rd' env'
  assume run: "and_then m f (rd, env) = (res, rd', env')"
  obtain x rd1 env1 where m: "m (rd, env) = (x, rd1, env1)" by (cases "m (rd, env)") auto
  from extendsD [OF assms(1) m] obtain ws where ws: "env1 = env @ ws" by blast
  show "\<exists>ws. env' = env @ ws"
  proof (cases x)
    case (Inr y)
    with run m have "f y (rd1, env1) = (res, rd', env')" by (simp add: and_then_def)
    from extendsD [OF assms(2) this] ws show ?thesis by auto
  qed (use run m ws in \<open>auto simp: and_then_def\<close>)
qed

lemma extends_simple: "extends (ok x)" "extends (err e)" "extends (envelope_read n)"
  by (auto simp: extends_def ok_def err_def envelope_read_def split: if_splits prod.splits sum.splits)

lemma extends_word: "extends envelope_word"
  unfolding envelope_word_def by (intro extends_and_then extends_simple)

lemma extends_words: "extends (repeat_n n envelope_word)"
proof (induction n)
  case (Suc n)
  show ?case unfolding repeat_n.simps by (intro extends_and_then extends_word Suc extends_simple)
qed (simp add: extends_def)

lemma extends_if: "extends a \<Longrightarrow> extends b \<Longrightarrow> extends (if c then a else b)"
  by simp

lemma extends_reply: "extends accepted_envelope" "extends denied_envelope"
  unfolding accepted_envelope_def denied_envelope_def skip_words_def Let_def
  by (intro extends_and_then extends_simple extends_word extends_words extends_if)+

lemma message_wire_front:
  assumes "message_wire m = xid @ ws" "length xid = 4"
  shows "msg_xid m = Xid (be_to_u32 xid)" "ws = body_wire (msg_body m)"
proof -
  have "xid = u32_to_be (xid_number (msg_xid m))" and ws: "ws = body_wire (msg_body m)"
    using assms unfolding message_wire_def by (metis append_eq_append_conv length_to_be(2))+
  then show "msg_xid m = Xid (be_to_u32 xid)" "ws = body_wire (msg_body m)"
    by (cases "msg_xid m", simp_all)
qed

lemma envelope_word_got:
  assumes "envelope_word (rd, env) = (Inr w, rd', env')"
  shows "\<exists>got. env' = env @ got \<and> length got = 4 \<and> w = be_to_u32 got"
proof -
  obtain res rd1 got where got: "reader_read_exact 4 (rd, []) = (res, rd1, got)" by (cases "reader_read_exact 4 (rd, [])") auto
  with assms read_exact_length [of 4 rd "[]" _ rd1 got] show ?thesis
    by (cases res) (auto simp: envelope_word_def envelope_read_def and_then_def ok_def split: if_splits)
qed

lemma reply_envelope_front:
  assumes "reply_envelope (rd, xid) = (Inr u, rd', env)"
  shows "\<exists>ws. env = xid @ u32_to_be 1 @ ws"
proof -
  obtain x rd1 env1 where w: "envelope_word (rd, xid) = (x, rd1, env1)" by (cases "envelope_word (rd, xid)") auto
  with assms have x: "x = Inr 1" by (auto simp: reply_envelope_def and_then_def err_def split: sum.splits if_splits)
  from envelope_word_got [OF w [unfolded x]] obtain got where got: "env1 = xid @ got" "length got = 4" "be_to_u32 got = 1" by auto
  then have "got = u32_to_be 1" by (metis u32_to_be_to_u32)
  moreover have "extends (and_then envelope_word (\<lambda>reply.
      if reply = 0 then accepted_envelope else if reply = 1 then denied_envelope else ok ()))"
    by (intro extends_and_then extends_word extends_if extends_reply extends_simple)
  moreover from assms w x have "and_then envelope_word (\<lambda>reply.
      if reply = 0 then accepted_envelope else if reply = 1 then denied_envelope else ok ()) (rd1, env1) = (Inr u, rd', env)"
    by (simp add: reply_envelope_def and_then_def)
  ultimately show ?thesis using extendsD got(1) by fastforce
qed

text \<open>Whatever the bytes on the stream, a received message is a reply with the identifier it was looked up by.\<close>

lemma receive_buffered_reply:
  assumes "receive_buffered xid rd = (Inr m, rd')" "length xid = 4"
  shows "msg_xid m = Xid (be_to_u32 xid) \<and> is_reply (msg_body m)"
proof -
  from assms(1) obtain bs where bs: "read_to_end xid rd = (Inr bs, rd')" "rpc_message_decode bs = Inr m" "is_reply (msg_body m)"
    by (auto simp: receive_buffered_def split: prod.splits sum.splits if_splits)
  from read_to_end_extends [OF bs(1)] bs(2) obtain ws where "message_wire m = xid @ ws" by (auto simp: message_decode_iff)
  with message_wire_front(1) assms(2) bs(3) show ?thesis by blast
qed

lemma reply_header_reply:
  assumes "reply_header xid rd = (Inr h, rd')" "length xid = 4"
  shows "msg_xid h = Xid (be_to_u32 xid) \<and> is_reply (msg_body h)"
proof -
  obtain x rd1 env where env: "reply_envelope (rd, xid) = (x, rd1, env)" by (cases "reply_envelope (rd, xid)") auto
  with assms(1) have dec: "rpc_message_decode env = Inr h" "x = Inr ()" by (auto simp: reply_header_def split: sum.splits)
  from reply_envelope_front [OF env [unfolded dec(2)]] obtain ws where "env = xid @ u32_to_be 1 @ ws" by blast
  with dec(1) have wire: "message_wire h = xid @ u32_to_be 1 @ ws" by (auto simp: message_decode_iff)
  note front = message_wire_front [OF wire assms(2)]
  have "is_reply (msg_body h)"
  proof (cases "msg_body h")
    case (Call c)
    with front(2) have "u32_to_be 1 = u32_to_be 0" by (metis append_eq_append_conv body_wire.simps(1) length_to_be(2))
    then have "be_to_u32 (u32_to_be 1) = be_to_u32 (u32_to_be 0)" by simp
    then show ?thesis by simp
  qed simp
  with front(1) show ?thesis by blast
qed

lemma receive_segmented_reply:
  assumes "receive_segmented api xid (rd, tg) = (Inr (h, n), rd', tg')" "length xid = 4"
  shows "msg_xid h = Xid (be_to_u32 xid) \<and> is_reply (msg_body h)"
proof -
  have "\<exists>rd1. reply_header xid rd = (Inr h, rd1)"
    using assms(1) by (auto simp: receive_segmented_def Let_def probe_end_def map_err_def split: prod.splits sum.splits filled.splits if_splits)
  with reply_header_reply assms(2) show ?thesis by blast
qed
section \<open>Streams that are not abandoned\<close>

definition steady :: "record_reader \<Rightarrow> bool" where
  "steady rd \<longleftrightarrow> DropRead \<notin> set (rr_stream rd)"

lemma stream_read_steady:
  "stream_read n es = (res, es') \<Longrightarrow> DropRead \<notin> set es \<Longrightarrow> res \<noteq> ReadDropped \<and> DropRead \<notin> set es'"
  by (induction n es rule: stream_read.induct) (auto split: if_splits)

lemma fill_marker_steady: "fill_marker rd = (res, rd') \<Longrightarrow> steady rd \<Longrightarrow> res \<noteq> Inl Dropped \<and> steady rd'"
proof (induction rd rule: fill_marker.induct)
  case (1 rd)
  show ?case
  proof (cases "rr_marker_used rd < 4")
    case True
    obtain got es where sr: "stream_read (4 - rr_marker_used rd) (rr_stream rd) = (got, es)" by fastforce
    with 1(3) have st: "got \<noteq> ReadDropped" "DropRead \<notin> set es" using stream_read_steady by (auto simp: steady_def)
    from 1(2) [unfolded fill_marker.simps [of rd]] True sr st 1(1) [OF True sr [symmetric]] show ?thesis
      by (auto simp: steady_def split: read_result.splits if_splits)
  qed (use 1(2) [unfolded fill_marker.simps [of rd]] 1(3) in auto)
qed

lemma next_fragment_steady: "next_fragment rd = (res, rd') \<Longrightarrow> steady rd \<Longrightarrow> res \<noteq> Inl Dropped \<and> steady rd'"
proof (induction rd rule: next_fragment.induct)
  case (1 rd)
  obtain x rd1 where m: "and_then fill_marker (\<lambda>_. accept_marker) rd = (x, rd1)" by fastforce
  have "x \<noteq> Inl Dropped \<and> steady rd1"
  proof -
    obtain y rd0 where f: "fill_marker rd = (y, rd0)" by fastforce
    have "y \<noteq> Inl Dropped" "steady rd0" using fill_marker_steady [OF f 1(3)] by auto
    with m f show ?thesis
      by (auto simp: and_then_def accept_marker_def Let_def steady_def split: sum.splits option.splits if_splits)
  qed
  with 1(2) [unfolded next_fragment.simps [of rd]] 1(3) m 1(1) [OF _ _ _ m [symmetric]] show ?case
    by (auto split: if_splits sum.splits)
qed

lemma read_some_steady:
  assumes "read_some n rd = (res, rd')" "steady rd"
  shows "res \<noteq> Inl Dropped \<and> steady rd'"
proof -
  obtain x rd1 where nf: "next_fragment rd = (x, rd1)" by fastforce
  from next_fragment_steady [OF this assms(2)] have st: "x \<noteq> Inl Dropped" "steady rd1" by auto
  obtain got es where sr: "stream_read (min n (rr_remaining rd1)) (rr_stream rd1) = (got, es)" by fastforce
  with st(2) stream_read_steady have "got \<noteq> ReadDropped" "DropRead \<notin> set es" by (auto simp: steady_def)
  with assms nf st sr show ?thesis
    by (auto simp: read_some_def steady_def split: if_splits sum.splits bool.splits read_result.splits)
qed

lemma read_exact_steady:
  "reader_read_exact n (rd, got) = (res, rd', got') \<Longrightarrow> steady rd \<Longrightarrow> res \<noteq> Inl Dropped \<and> steady rd'"
proof (induction n "(rd, got)" arbitrary: rd got rule: reader_read_exact.induct)
  case (1 n rd got)
  obtain x rd1 where rs: "read_some n rd = (x, rd1)" by fastforce
  from read_some_steady [OF this 1(3)] have "x \<noteq> Inl Dropped" "steady rd1" by auto
  with 1(2) [unfolded reader_read_exact.simps [of n rd got]] 1(3) rs 1(1) [OF _ rs [symmetric]] show ?case
    by (auto split: if_splits sum.splits)
qed

lemma drain_steady: "drain_loop k rd = (res, rd') \<Longrightarrow> steady rd \<Longrightarrow> res \<noteq> Inl Dropped \<and> steady rd'"
proof (induction k rd rule: drain_loop.induct)
  case (1 k rd)
  obtain x rd1 where rs: "read_some 4096 rd = (x, rd1)" by fastforce
  from read_some_steady [OF this 1(3)] have "x \<noteq> Inl Dropped" "steady rd1" by auto
  with 1(2) [unfolded drain_loop.simps [of k rd]] 1(3) rs 1(1) [OF rs [symmetric]] show ?case
    by (auto split: if_splits sum.splits)
qed

lemma fill_target_steady:
  "fill_target api len (rd, tg) = (res, rd', tg') \<Longrightarrow> steady rd \<Longrightarrow> res \<noteq> Inl Dropped \<and> steady rd'"
proof (induction api len "(rd, tg)" arbitrary: rd tg rule: fill_target.induct)
  case (1 api len rd tg)
  obtain b tg1 where b: "target_buffer api tg = (b, tg1)" by fastforce
  obtain x rd1 where rs: "read_some (projr b) rd = (x, rd1)" by fastforce
  from read_some_steady [OF this 1(3)] have "x \<noteq> Inl Dropped" "steady rd1" by auto
  with 1(2) [unfolded fill_target.simps [of api len rd tg]] 1(3) b rs 1(1) [OF b [symmetric]] show ?case
    by (fastforce split: if_splits sum.splits prod.splits)
qed

definition undropped :: "(record_reader \<times> bytes, receive_halt, 'a) action \<Rightarrow> bool" where
  "undropped m \<longleftrightarrow> (\<forall>rd env res rd' env'. steady rd \<longrightarrow> m (rd, env) = (res, rd', env') \<longrightarrow> res \<noteq> Inl (Halted Dropped) \<and> steady rd')"

lemma undroppedD: "undropped m \<Longrightarrow> steady rd \<Longrightarrow> m (rd, env) = (res, rd', env') \<Longrightarrow> res \<noteq> Inl (Halted Dropped) \<and> steady rd'"
  unfolding undropped_def by blast

lemma undropped_and_then:
  assumes "undropped m" "\<And>x. undropped (f x)"
  shows "undropped (and_then m f)"
  unfolding undropped_def
proof (intro allI impI)
  fix rd env res rd' env'
  assume rd: "steady rd" and run: "and_then m f (rd, env) = (res, rd', env')"
  obtain x rd1 env1 where m: "m (rd, env) = (x, rd1, env1)" by (cases "m (rd, env)") auto
  note st = undroppedD [OF assms(1) rd m]
  show "res \<noteq> Inl (Halted Dropped) \<and> steady rd'"
  proof (cases x)
    case (Inr y)
    with run m have "f y (rd1, env1) = (res, rd', env')" by (simp add: and_then_def)
    with undroppedD [OF assms(2)] st show ?thesis by blast
  qed (use run m st in \<open>auto simp: and_then_def\<close>)
qed

lemma undropped_simple: "undropped (ok x)" "e \<noteq> Halted Dropped \<Longrightarrow> undropped (err e)"
  by (auto simp: undropped_def ok_def err_def)

lemma undropped_read: "undropped (envelope_read n)"
  by (auto simp: undropped_def envelope_read_def split: if_splits sum.splits prod.splits dest: read_exact_steady)

lemma undropped_word: "undropped envelope_word"
  unfolding envelope_word_def by (intro undropped_and_then undropped_read undropped_simple)

lemma undropped_words: "undropped (repeat_n n envelope_word)"
proof (induction n)
  case (Suc n)
  show ?case unfolding repeat_n.simps by (intro undropped_and_then undropped_word Suc undropped_simple)
qed (simp add: undropped_def)

lemma undropped_if: "undropped a \<Longrightarrow> undropped b \<Longrightarrow> undropped (if c then a else b)"
  by simp

lemmas undropped_intros = undropped_and_then undropped_word undropped_words undropped_read undropped_simple undropped_if

lemma undropped_reply: "undropped reply_envelope"
proof -
  have "undropped accepted_envelope" "undropped denied_envelope"
    unfolding accepted_envelope_def denied_envelope_def skip_words_def Let_def by (intro undropped_intros; simp)+
  then show ?thesis unfolding reply_envelope_def by (intro undropped_intros; simp)
qed

lemma receive_segmented_steady:
  assumes "receive_segmented api xid (rd, tg) = (res, rd', tg')" "steady rd"
  shows "res \<noteq> Inl (Halted Dropped)"
proof -
  obtain x rd1 env where e: "reply_envelope (rd, xid) = (x, rd1, env)" by (cases "reply_envelope (rd, xid)") auto
  note st = undroppedD [OF undropped_reply assms(2) e]
  obtain hres rd2 where h: "reply_header xid rd = (hres, rd2)" by fastforce
  with e st have hd: "hres \<noteq> Inl (Halted Dropped)" "steady rd2" by (auto simp: reply_header_def split: sum.splits)
  have probe: "p \<noteq> Inl Dropped" if "probe_end success hdr n rd3 = (p, rd4)" "steady rd3" for success hdr n rd3 p rd4
    using that by (auto simp: probe_end_def drain_def split: prod.splits sum.splits if_splits dest: read_some_steady drain_steady)
  show ?thesis
    using assms(1) h hd fill_target_steady [of api 0 rd2 tg] probe
    by (fastforce simp: receive_segmented_def Let_def map_err_def map_sum_def split: prod.splits sum.splits filled.splits if_splits)
qed
section \<open>The contract of a receiver\<close>

text \<open>
  \<open>expects rv todo\<close>: the receiver \<open>rv\<close> is waiting for the bytes \<open>todo\<close>. While bytes are to come it
  offers room, and it takes the next ones in pieces of any size that fits the room.
\<close>

locale receiver_contract =
  fixes api :: "'r reply_receiver"
    and expects :: "'r \<Rightarrow> bytes \<Rightarrow> bool"
  assumes offers: "expects rv todo \<Longrightarrow> \<exists>room rv'. rv_buffer api rv = (Inr room, rv') \<and> expects rv' todo \<and> (todo \<noteq> [] \<longrightarrow> 0 < room)"
    and takes: "expects rv (bs @ todo) \<Longrightarrow> rv_buffer api rv = (Inr room, rv') \<Longrightarrow> bs \<noteq> [] \<Longrightarrow> length bs \<le> room \<Longrightarrow>
      \<exists>rv''. rv_advance api (length bs) (rv_write api bs rv') = (Inr (), rv'') \<and> expects rv'' todo"
begin

lemma fill_target_receives:
  "reader_at rd todo rest \<Longrightarrow> expects (tg_receiver tg) todo \<Longrightarrow> tg_payload_len tg + length todo \<le> usize_max \<Longrightarrow>
   (\<exists>rd' tg' todo'. fill_target api len (rd, tg) = (Inl Dropped, rd', tg') \<and> reader_at rd' todo' rest) \<or>
   (\<exists>rd' tg' f. fill_target api len (rd, tg) = (Inr f, rd', tg') \<and> reader_at rd' [] rest \<and>
      (f = Ended (len + length todo) \<and> finished rd' \<or> f = Full (len + length todo)) \<and>
      expects (tg_receiver tg') [] \<and> tg_payload_len tg' = tg_payload_len tg + length todo)"
proof (induction "length todo" arbitrary: rd tg todo len rule: less_induct)
  case less
  from offers [OF less.prems(2)] obtain room rv where
    b: "rv_buffer api (tg_receiver tg) = (Inr room, rv)" "expects rv todo" "todo \<noteq> [] \<longrightarrow> 0 < room" by blast
  let ?tg = "tg\<lparr>tg_receiver := rv\<rparr>"
  have tb: "target_buffer api tg = (Inr room, ?tg)" using b(1) by (simp add: target_buffer_def)
  show ?case
  proof (cases "room = 0")
    case True
    with tb have "fill_target api len (rd, tg) = (Inr (Full len), rd, ?tg)" by (subst fill_target.simps) simp
    with True b less.prems show ?thesis by (intro disjI2) auto
  next
    case False
    then have "0 < room" by simp
    from read_some_reads [OF less.prems(1) this]
    consider r' where "read_some room rd = (Inl Dropped, r')" "reader_at r' todo rest"
      | r' where "read_some room rd = (Inr [], r')" "todo = []" "reader_at r' [] rest" "finished r'"
      | r' bs todo' where "read_some room rd = (Inr bs, r')" "bs \<noteq> []" "todo = bs @ todo'" "length bs \<le> room" "reader_at r' todo' rest"
      by force
    then show ?thesis
    proof cases
      case (1 r')
      with tb False have "fill_target api len (rd, tg) = (Inl Dropped, r', ?tg)" by (subst fill_target.simps) simp
      with 1 show ?thesis by blast
    next
      case (2 r')
      with tb False have "fill_target api len (rd, tg) = (Inr (Ended len), r', ?tg)" by (subst fill_target.simps) simp
      with 2 b show ?thesis by (intro disjI2) auto
    next
      case (3 r' bs todo')
      from takes [OF less.prems(2) [unfolded 3(3)] b(1) 3(2,4)] obtain rv' where
        adv: "rv_advance api (length bs) (rv_write api bs rv) = (Inr (), rv')" "expects rv' todo'" by blast
      let ?tg' = "tg\<lparr>tg_receiver := rv', tg_payload_len := tg_payload_len tg + length bs\<rparr>"
      have "target_advance api (length bs) (target_write api bs ?tg) = (Inr (), ?tg')"
        using adv(1) less.prems(3) 3(3) by (simp add: target_advance_def target_write_def checked_add_def)
      with tb False 3 have step: "fill_target api len (rd, tg) = fill_target api (len + length bs) (r', ?tg')"
        by (subst fill_target.simps) simp
      have "length todo' < length todo" "tg_payload_len ?tg' + length todo' \<le> usize_max" using 3 less.prems(3) by auto
      from less.hyps [OF this(1) 3(5) _ this(2), of "len + length bs"] adv(2) 3(3) show ?thesis
        unfolding step by (auto simp: add.assoc)
    qed
  qed
qed

lemma receive_segmented_receives:
  assumes at: "reader_at rd todo rest" and dec: "rpc_message_decode (xid @ todo) = Inr m" "is_reply (msg_body m)" and "length xid = 4"
    and ex: "expects (tg_receiver tg) (results_of (msg_body m))" "tg_payload_len tg + length (results_of (msg_body m)) \<le> usize_max"
  shows "(\<exists>rd' tg' todo'. receive_segmented api xid (rd, tg) = (Inl (Halted Dropped), rd', tg') \<and> reader_at rd' todo' rest) \<or>
    (\<exists>rd' tg'. receive_segmented api xid (rd, tg) =
       (Inr (m\<lparr>msg_body := without_results (msg_body m)\<rparr>, length (results_of (msg_body m))), rd', tg') \<and>
       reader_at rd' [] rest \<and> finished rd' \<and> expects (tg_receiver tg') [] \<and>
       tg_payload_len tg' = tg_payload_len tg + length (results_of (msg_body m)))"
proof -
  let ?h = "m\<lparr>msg_body := without_results (msg_body m)\<rparr>" and ?p = "results_of (msg_body m)"
  from reply_header_reads [OF at dec assms(4)]
  consider r1 todo' where "reply_header xid rd = (Inl (Halted Dropped), r1)" "reader_at r1 todo' rest"
    | r1 where "reply_header xid rd = (Inr ?h, r1)" "reader_at r1 ?p rest" by blast
  then show ?thesis
  proof cases
    case (2 r1)
    have probe: "(\<exists>r3 todo'. probe_end s ?h n r2 = (Inl Dropped, r3) \<and> reader_at r3 todo' rest) \<or>
        (\<exists>r3. probe_end s ?h n r2 = (Inr (?h, n), r3) \<and> reader_at r3 [] rest \<and> finished r3)" if "reader_at r2 [] rest" for s n r2
      using read_some_reads [OF that, of 1] by (auto simp: probe_end_def)
    show ?thesis
    proof (cases "is_success (msg_body ?h)")
      case True
      from fill_target_receives [OF 2(2) ex, of 0] show ?thesis
      proof (elim disjE exE conjE)
        fix r2 tg2 todo'
        assume "fill_target api 0 (r1, tg) = (Inl Dropped, r2, tg2)" "reader_at r2 todo' rest"
        with 2 True show ?thesis by (intro disjI1) (auto simp: receive_segmented_def Let_def)
      next
        fix r2 tg2 f
        assume "fill_target api 0 (r1, tg) = (Inr f, r2, tg2)" "reader_at r2 [] rest" "expects (tg_receiver tg2) []"
          "tg_payload_len tg2 = tg_payload_len tg + length ?p" "f = Ended (0 + length ?p)" "finished r2"
        with 2 True show ?thesis by (intro disjI2) (auto simp: receive_segmented_def Let_def)
      next
        fix r2 tg2 f
        assume "fill_target api 0 (r1, tg) = (Inr f, r2, tg2)" "reader_at r2 [] rest" "expects (tg_receiver tg2) []"
          "tg_payload_len tg2 = tg_payload_len tg + length ?p" "f = Full (0 + length ?p)"
        with 2 True probe [of r2 True "length ?p"] show ?thesis by (auto simp: receive_segmented_def Let_def map_err_def)
      qed
    next
      case False
      then have "?p = []" by (cases "msg_body m" rule: is_success.cases) (auto split: accepted_status.splits)
      with 2 False ex probe [of r1 False 0] show ?thesis by (auto simp: receive_segmented_def Let_def map_err_def)
    qed
  qed (auto simp: receive_segmented_def)
qed

lemma receive_segmented_completes:
  assumes at: "reader_at rd todo rest" "steady rd" and dec: "rpc_message_decode (xid @ todo) = Inr m" "is_reply (msg_body m)" and "length xid = 4"
    and ex: "expects (tg_receiver tg) (results_of (msg_body m))" "tg_payload_len tg + length (results_of (msg_body m)) \<le> usize_max"
  shows "\<exists>rd' tg'. receive_segmented api xid (rd, tg) =
       (Inr (m\<lparr>msg_body := without_results (msg_body m)\<rparr>, length (results_of (msg_body m))), rd', tg') \<and>
       reader_at rd' [] rest \<and> finished rd' \<and> expects (tg_receiver tg') [] \<and>
       tg_payload_len tg' = tg_payload_len tg + length (results_of (msg_body m))"
proof -
  have "receive_segmented api xid (rd, tg) \<noteq> (Inl (Halted Dropped), rd', tg')" for rd' tg'
    using receive_segmented_steady [OF _ at(2)] by blast
  with receive_segmented_receives [OF at(1) dec assms(5) ex] show ?thesis by blast
qed

end

end
