(* ===== verification/Xdr_Receivers.thy ===== *)
theory Xdr_Receivers
  imports Owned_Receive
begin

text \<open>
  The receivers of the runtime: the caller's buffers of \<^verbatim>\<open>call_segmented\<close> in
  \<^verbatim>\<open>src/crates/onc-rpc-runtime/src/owned/segmented.rs\<close>, and the two typed receivers of
  \<^verbatim>\<open>src/crates/onc-rpc-runtime/src/xdr_client.rs\<close>: one decodes metadata of bounded size and receives
  the opaque data behind it in place, the other decodes the whole reply in the caller's buffer.
  A caller's buffer is the list of its bytes.
\<close>

definition splice :: "nat \<Rightarrow> bytes \<Rightarrow> bytes \<Rightarrow> bytes" where
  "splice offset bs buffer = take offset buffer @ bs @ drop (offset + length bs) buffer"

section \<open>A list of buffers\<close>

record buffers =
  bf_buffers :: "bytes list"
  bf_index :: nat
  bf_offset :: nat

function skip_full :: "buffers \<Rightarrow> buffers" where
  "skip_full self =
     (if bf_index self < length (bf_buffers self) \<and> bf_offset self = length (bf_buffers self ! bf_index self)
      then skip_full (self\<lparr>bf_index := bf_index self + 1, bf_offset := 0\<rparr>) else self)"
  by pat_completeness auto
termination
  by (relation "measure (\<lambda>self. length (bf_buffers self) - bf_index self)") auto

declare skip_full.simps [simp del]

definition buffers_buffer :: "buffers \<Rightarrow> (runtime_error + nat) \<times> buffers" where
  "buffers_buffer self =
     (let self = skip_full self
      in (Inr (if bf_index self = length (bf_buffers self) then 0
               else length (bf_buffers self ! bf_index self) - bf_offset self), self))"

definition buffers_write :: "bytes \<Rightarrow> buffers \<Rightarrow> buffers" where
  "buffers_write bs self =
     self\<lparr>bf_buffers := (bf_buffers self)[bf_index self := splice (bf_offset self) bs (bf_buffers self ! bf_index self)]\<rparr>"

definition buffers_advance :: "nat \<Rightarrow> buffers \<Rightarrow> (runtime_error + unit) \<times> buffers" where
  "buffers_advance bytes self = (Inr (), self\<lparr>bf_offset := bf_offset self + bytes\<rparr>)"

definition buffers_api :: "buffers reply_receiver" where
  "buffers_api = \<lparr>rv_buffer = buffers_buffer, rv_write = buffers_write, rv_advance = buffers_advance\<rparr>"

definition buffers_new :: "bytes list \<Rightarrow> buffers" where
  "buffers_new bufs = \<lparr>bf_buffers = bufs, bf_index = 0, bf_offset = 0\<rparr>"

section \<open>Metadata and data in place\<close>

record 'm typed_outcome =
  to_result :: "runtime_error + 'm"
  to_buffer :: bytes
  to_payload_len :: nat

record 'm xdr_reply_receiver =
  xr_buffer :: bytes
  xr_prefix :: bytes
  xr_used :: nat
  xr_target :: nat
  xr_metadata :: "'m option"
  xr_data_len :: nat
  xr_data_used :: nat
  xr_padding :: bytes
  xr_padding_used :: nat

definition xdr_reply_new :: "nat \<Rightarrow> bytes \<Rightarrow> 'm xdr_reply_receiver" where
  "xdr_reply_new max_prefix_bytes buffer =
     \<lparr>xr_buffer = buffer, xr_prefix = replicate max_prefix_bytes 0, xr_used = 0, xr_target = 0, xr_metadata = None,
      xr_data_len = 0, xr_data_used = 0, xr_padding = [0, 0, 0], xr_padding_used = 0\<rparr>"

definition parse_prefix :: "'m xdr_decoder \<Rightarrow> ('m \<Rightarrow> nat option) \<Rightarrow> ('m xdr_reply_receiver, runtime_error, unit) action" where
  "parse_prefix decode_xdr opaque_len self =
     (if xr_metadata self \<noteq> None \<or> xr_used self < xr_target self then (Inr (), self)
      else case decode_xdr (take (xr_used self) (xr_prefix self)) of
          (Inr metadata, input) \<Rightarrow>
            if input \<noteq> [] then (Inl (DecodeFailure (TrailingBytes (length input))), self)
            else let self = self\<lparr>xr_data_len := (case opaque_len metadata of Some n \<Rightarrow> n | None \<Rightarrow> 0)\<rparr>
                 in if xr_data_len self > length (xr_buffer self)
                    then (Inl (Transport ''XDR opaque result exceeds caller destination''), self)
                    else (Inr (), self\<lparr>xr_metadata := Some metadata\<rparr>)
        | (Inl (UnexpectedEof needed), input) \<Rightarrow>
            (case checked_add (xr_used self) (max (needed - length input) 1) of
               None \<Rightarrow> (Inl (Transport ''XDR prefix length overflow''), self)
             | Some new_target \<Rightarrow>
                 let self = self\<lparr>xr_target := new_target\<rparr>
                 in if xr_target self > length (xr_prefix self)
                    then (Inl (Transport ''XDR metadata exceeds generated prefix bound''), self)
                    else (Inr (), self))
        | (Inl e, input) \<Rightarrow> (Inl (DecodeFailure e), self))"

definition xdr_reply_finish :: "'m xdr_decoder \<Rightarrow> ('m \<Rightarrow> nat option) \<Rightarrow> runtime_error + unit \<Rightarrow> 'm xdr_reply_receiver \<Rightarrow> 'm typed_outcome" where
  "xdr_reply_finish decode_xdr opaque_len result self =
     (let (result, self) = (case result of
            Inl e \<Rightarrow> (Inl e, self)
          | Inr _ \<Rightarrow> and_then (parse_prefix decode_xdr opaque_len) (\<lambda>_ self.
              if xr_data_used self \<noteq> xr_data_len self \<or> xr_padding_used self \<noteq> (4 - xr_data_len self mod 4) mod 4
              then (Inl (Transport ''truncated XDR opaque result''), self)
              else (case xr_metadata self of
                  Some metadata \<Rightarrow> (Inr metadata, self\<lparr>xr_metadata := None\<rparr>)
                | None \<Rightarrow> (Inl (Transport ''truncated XDR result metadata''), self))) self)
      in \<lparr>to_result = result, to_buffer = xr_buffer self, to_payload_len = xr_data_used self\<rparr>)"

definition xdr_reply_buffer :: "'m xdr_decoder \<Rightarrow> ('m \<Rightarrow> nat option) \<Rightarrow> ('m xdr_reply_receiver, runtime_error, nat) action" where
  "xdr_reply_buffer decode_xdr opaque_len =
     and_then (parse_prefix decode_xdr opaque_len) (\<lambda>_ self.
       (Inr (if xr_metadata self = None then xr_target self - xr_used self
             else if xr_data_used self < xr_data_len self then xr_data_len self - xr_data_used self
             else (4 - xr_data_len self mod 4) mod 4 - xr_padding_used self), self))"

definition xdr_reply_write :: "bytes \<Rightarrow> 'm xdr_reply_receiver \<Rightarrow> 'm xdr_reply_receiver" where
  "xdr_reply_write bs self =
     (if xr_metadata self = None then self\<lparr>xr_prefix := splice (xr_used self) bs (xr_prefix self)\<rparr>
      else if xr_data_used self < xr_data_len self then self\<lparr>xr_buffer := splice (xr_data_used self) bs (xr_buffer self)\<rparr>
      else self\<lparr>xr_padding := splice (xr_padding_used self) bs (xr_padding self)\<rparr>)"

definition xdr_reply_advance :: "'m xdr_decoder \<Rightarrow> ('m \<Rightarrow> nat option) \<Rightarrow> nat \<Rightarrow> ('m xdr_reply_receiver, runtime_error, unit) action" where
  "xdr_reply_advance decode_xdr opaque_len count self =
     (if xr_metadata self = None then parse_prefix decode_xdr opaque_len (self\<lparr>xr_used := xr_used self + count\<rparr>)
      else if xr_data_used self < xr_data_len self then (Inr (), self\<lparr>xr_data_used := xr_data_used self + count\<rparr>)
      else let self = self\<lparr>xr_padding_used := xr_padding_used self + count\<rparr>
           in if list_ex (\<lambda>b. b \<noteq> 0) (take (xr_padding_used self) (xr_padding self))
              then (Inl (Transport ''nonzero XDR opaque padding''), self) else (Inr (), self))"

definition xdr_reply_api :: "'m xdr_decoder \<Rightarrow> ('m \<Rightarrow> nat option) \<Rightarrow> 'm xdr_reply_receiver reply_receiver" where
  "xdr_reply_api decode_xdr opaque_len = \<lparr>rv_buffer = xdr_reply_buffer decode_xdr opaque_len, rv_write = xdr_reply_write,
     rv_advance = xdr_reply_advance decode_xdr opaque_len\<rparr>"

section \<open>A whole reply in the caller's buffer\<close>

record xdr_decode_receiver =
  xd_buffer :: bytes
  xd_used :: nat

definition xdr_decode_new :: "bytes \<Rightarrow> xdr_decode_receiver" where
  "xdr_decode_new buffer = \<lparr>xd_buffer = buffer, xd_used = 0\<rparr>"

definition xdr_decode_finish :: "'ret xdr_decoder \<Rightarrow> runtime_error + unit \<Rightarrow> xdr_decode_receiver \<Rightarrow> 'ret typed_outcome" where
  "xdr_decode_finish dec result self =
     \<lparr>to_result = result_bind result (\<lambda>_. map_err DecodeFailure (from_xdr_bytes dec (take (xd_used self) (xd_buffer self)))),
      to_buffer = xd_buffer self, to_payload_len = xd_used self\<rparr>"

definition xdr_decode_buffer :: "xdr_decode_receiver \<Rightarrow> (runtime_error + nat) \<times> xdr_decode_receiver" where
  "xdr_decode_buffer self = (Inr (length (xd_buffer self) - xd_used self), self)"

definition xdr_decode_write :: "bytes \<Rightarrow> xdr_decode_receiver \<Rightarrow> xdr_decode_receiver" where
  "xdr_decode_write bs self = self\<lparr>xd_buffer := splice (xd_used self) bs (xd_buffer self)\<rparr>"

definition xdr_decode_advance :: "nat \<Rightarrow> xdr_decode_receiver \<Rightarrow> (runtime_error + unit) \<times> xdr_decode_receiver" where
  "xdr_decode_advance count self = (Inr (), self\<lparr>xd_used := xd_used self + count\<rparr>)"

definition xdr_decode_api :: "xdr_decode_receiver reply_receiver" where
  "xdr_decode_api = \<lparr>rv_buffer = xdr_decode_buffer, rv_write = xdr_decode_write, rv_advance = xdr_decode_advance\<rparr>"

section \<open>Writing into a buffer\<close>

lemma splice_fits:
  assumes "offset + length bs \<le> length buffer"
  shows "length (splice offset bs buffer) = length buffer"
    and "take (offset + length bs) (splice offset bs buffer) = take offset buffer @ bs"
    and "drop (offset + length bs) (splice offset bs buffer) = drop (offset + length bs) buffer"
  using assms by (simp_all add: splice_def)

lemma splice_concat:
  assumes "i < length bufs" "offset + length bs \<le> length (bufs ! i)"
  shows "concat (bufs[i := splice offset bs (bufs ! i)]) = splice (length (concat (take i bufs)) + offset) bs (concat bufs)"
proof -
  from assms(1) have "concat bufs = concat (take i bufs) @ bufs ! i @ concat (drop (Suc i) bufs)"
    by (metis append_Cons append_Nil concat.simps(2) concat_append id_take_nth_drop)
  moreover from assms(1) have "concat (bufs[i := x]) = concat (take i bufs) @ x @ concat (drop (Suc i) bufs)" for x
    by (simp add: upd_conv_take_nth_drop)
  ultimately show ?thesis using assms(2) by (simp add: splice_def)
qed

section \<open>The receivers keep the contract\<close>

definition decode_expects :: "bytes \<Rightarrow> xdr_decode_receiver \<Rightarrow> bytes \<Rightarrow> bool" where
  "decode_expects results rv todo \<longleftrightarrow> (\<exists>got. results = got @ todo \<and> xd_used rv = length got \<and>
     take (length got) (xd_buffer rv) = got \<and> length results \<le> length (xd_buffer rv))"

interpretation decode_receiver: receiver_contract xdr_decode_api "decode_expects results" for results
proof
  fix rv todo
  assume "decode_expects results rv todo"
  then show "\<exists>room rv'. rv_buffer xdr_decode_api rv = (Inr room, rv') \<and> decode_expects results rv' todo \<and> (todo \<noteq> [] \<longrightarrow> 0 < room)"
    by (auto simp: decode_expects_def xdr_decode_api_def xdr_decode_buffer_def simp flip: length_greater_0_conv)
next
  fix rv bs todo room rv'
  assume ex: "decode_expects results rv (bs @ todo)" and b: "rv_buffer xdr_decode_api rv = (Inr room, rv')" and "length bs \<le> room"
  from ex obtain got where got: "results = got @ bs @ todo" "xd_used rv = length got" "take (length got) (xd_buffer rv) = got"
    "length results \<le> length (xd_buffer rv)"
    unfolding decode_expects_def by blast
  moreover from b have "rv' = rv" by (simp add: xdr_decode_api_def xdr_decode_buffer_def)
  ultimately show "\<exists>rv''. rv_advance xdr_decode_api (length bs) (rv_write xdr_decode_api bs rv') = (Inr (), rv'') \<and> decode_expects results rv'' todo"
    using splice_fits [of "length got" bs "xd_buffer rv"]
    by (simp add: decode_expects_def xdr_decode_api_def xdr_decode_write_def xdr_decode_advance_def)
qed

definition buffers_at :: "buffers \<Rightarrow> nat \<Rightarrow> bool" where
  "buffers_at rv pos \<longleftrightarrow> bf_index rv \<le> length (bf_buffers rv) \<and> pos = length (concat (take (bf_index rv) (bf_buffers rv))) + bf_offset rv \<and>
     (if bf_index rv < length (bf_buffers rv) then bf_offset rv \<le> length (bf_buffers rv ! bf_index rv) else bf_offset rv = 0)"

definition buffers_expects :: "bytes \<Rightarrow> buffers \<Rightarrow> bytes \<Rightarrow> bool" where
  "buffers_expects results rv todo \<longleftrightarrow> (\<exists>got. results = got @ todo \<and> buffers_at rv (length got) \<and>
     take (length got) (concat (bf_buffers rv)) = got \<and> length results \<le> length (concat (bf_buffers rv)))"

lemma skip_full_at:
  "buffers_at rv pos \<Longrightarrow> buffers_at (skip_full rv) pos \<and> bf_buffers (skip_full rv) = bf_buffers rv \<and>
   (bf_index (skip_full rv) < length (bf_buffers rv) \<longrightarrow> bf_offset (skip_full rv) < length (bf_buffers rv ! bf_index (skip_full rv)))"
proof (induction rv rule: skip_full.induct)
  case (1 rv)
  show ?case
  proof (cases "bf_index rv < length (bf_buffers rv) \<and> bf_offset rv = length (bf_buffers rv ! bf_index rv)")
    case True
    let ?rv = "rv\<lparr>bf_index := bf_index rv + 1, bf_offset := 0\<rparr>"
    from True 1(2) have "buffers_at ?rv pos" by (auto simp: buffers_at_def take_Suc_conv_app_nth)
    moreover from True have "skip_full rv = skip_full ?rv" by (subst skip_full.simps) simp
    ultimately show ?thesis using 1(1) [OF True] by simp
  next
    case False
    then have "skip_full rv = rv" by (subst skip_full.simps) auto
    with 1(2) False show ?thesis by (auto simp: buffers_at_def split: if_splits)
  qed
qed

lemma buffers_at_end:
  "buffers_at rv pos \<Longrightarrow> bf_index rv = length (bf_buffers rv) \<Longrightarrow> pos = length (concat (bf_buffers rv))"
  by (simp add: buffers_at_def)

lemma buffers_at_advance:
  assumes "buffers_at rv pos" "bf_index rv < length (bf_buffers rv)" "bf_offset rv + length bs \<le> length (bf_buffers rv ! bf_index rv)"
  shows "buffers_at ((buffers_write bs rv)\<lparr>bf_offset := bf_offset rv + length bs\<rparr>) (pos + length bs)"
    and "concat (bf_buffers (buffers_write bs rv)) = splice pos bs (concat (bf_buffers rv))"
  using assms splice_concat [OF assms(2,3)] splice_fits(1) [OF assms(3)]
  by (auto simp: buffers_at_def buffers_write_def)

interpretation buffers_receiver: receiver_contract buffers_api "buffers_expects results" for results
proof
  fix rv todo
  assume "buffers_expects results rv todo"
  then obtain got where got: "results = got @ todo" "buffers_at rv (length got)" "take (length got) (concat (bf_buffers rv)) = got"
    "length results \<le> length (concat (bf_buffers rv))" by (auto simp: buffers_expects_def)
  note at = skip_full_at [OF got(2)]
  with buffers_at_end [of "skip_full rv" "length got"] got
  show "\<exists>room rv'. rv_buffer buffers_api rv = (Inr room, rv') \<and> buffers_expects results rv' todo \<and> (todo \<noteq> [] \<longrightarrow> 0 < room)"
    by (auto simp: buffers_api_def buffers_buffer_def Let_def buffers_expects_def buffers_at_def)
next
  fix rv bs todo room rv'
  assume ex: "buffers_expects results rv (bs @ todo)" and b: "rv_buffer buffers_api rv = (Inr room, rv')" and len: "bs \<noteq> []" "length bs \<le> room"
  from ex obtain got where got: "results = got @ bs @ todo" "buffers_at rv (length got)" "take (length got) (concat (bf_buffers rv)) = got"
    "length results \<le> length (concat (bf_buffers rv))" by (auto simp: buffers_expects_def)
  note at = skip_full_at [OF got(2)]
  from b len at have rv': "rv' = skip_full rv" "bf_index rv' < length (bf_buffers rv')" "bf_offset rv' + length bs \<le> length (bf_buffers rv' ! bf_index rv')"
    by (auto simp: buffers_api_def buffers_buffer_def Let_def buffers_at_def split: if_splits)
  with at have "buffers_at rv' (length got)" "bf_buffers rv' = bf_buffers rv" by auto
  note adv = buffers_at_advance [OF this(1) rv'(2,3)]
  have fits: "length got + length bs \<le> length (concat (bf_buffers rv))" using got by simp
  from adv splice_fits [OF fits] got \<open>bf_buffers rv' = bf_buffers rv\<close>
  show "\<exists>rv''. rv_advance buffers_api (length bs) (rv_write buffers_api bs rv') = (Inr (), rv'') \<and> buffers_expects results rv'' todo"
    by (auto simp: buffers_api_def buffers_advance_def buffers_expects_def buffers_write_def intro!: exI [of _ "got @ bs"])
qed

section \<open>The metadata receiver\<close>

text \<open>
  \<open>xdr_reply_expects\<close> for metadata \<open>m\<close> with bytes \<open>w\<close> in front of the data \<open>d\<close>: bytes of the metadata are
  to come and the next request stays inside them, or the metadata is known and data or padding
  is to come.
\<close>

definition opaque_data :: "('m \<Rightarrow> nat option) \<Rightarrow> 'm \<Rightarrow> bytes \<Rightarrow> bool" where
  "opaque_data opaque_len m d \<longleftrightarrow> (case opaque_len m of Some n \<Rightarrow> n = length d | None \<Rightarrow> d = [])"

definition in_prefix :: "bytes \<Rightarrow> 'm xdr_reply_receiver \<Rightarrow> bytes \<Rightarrow> bool" where
  "in_prefix w rv got \<longleftrightarrow> xr_metadata rv = None \<and> prefix got w \<and> xr_used rv = length got \<and> take (length got) (xr_prefix rv) = got \<and>
     xr_data_used rv = 0 \<and> xr_padding_used rv = 0 \<and> xr_padding rv = [0, 0, 0] \<and>
     (if got = [] then xr_target rv \<le> length w else xr_used rv < xr_target rv \<and> xr_target rv \<le> length w)"

definition in_data :: "bytes \<Rightarrow> 'm \<Rightarrow> bytes \<Rightarrow> 'm xdr_reply_receiver \<Rightarrow> bytes \<Rightarrow> bool" where
  "in_data w m d rv got \<longleftrightarrow> xr_metadata rv = Some m \<and> xr_data_len rv = length d \<and> xr_data_used rv \<le> length d \<and>
     (xr_data_used rv < length d \<longrightarrow> xr_padding_used rv = 0) \<and> xr_padding_used rv \<le> xdr_padding (length d) \<and>
     got = w @ take (xr_data_used rv) d @ replicate (xr_padding_used rv) 0 \<and>
     take (xr_data_used rv) (xr_buffer rv) = take (xr_data_used rv) d \<and>
     length (xr_padding rv) = 3 \<and> take (xr_padding_used rv) (xr_padding rv) = replicate (xr_padding_used rv) 0"

definition reply_expects :: "bytes \<Rightarrow> 'm \<Rightarrow> bytes \<Rightarrow> 'm xdr_reply_receiver \<Rightarrow> bytes \<Rightarrow> bool" where
  "reply_expects w m d rv todo \<longleftrightarrow> length w \<le> length (xr_prefix rv) \<and> length (xr_prefix rv) \<le> usize_max \<and> length d \<le> length (xr_buffer rv) \<and>
     (\<exists>got. got @ todo = w @ d @ replicate (xdr_padding (length d)) 0 \<and> (in_prefix w rv got \<or> in_data w m d rv got))"

text \<open>Parsing at the end of what was asked for: the metadata is complete, or more of it is asked for.\<close>

lemma parse_prefix_step:
  assumes codec: "xdr_codec enc dec valid wire" "valid m" "w = wire m" and data: "opaque_data opaque_len m d"
    and fits: "length w \<le> length (xr_prefix rv)" "length (xr_prefix rv) \<le> usize_max" "length d \<le> length (xr_buffer rv)"
    and rv: "xr_metadata rv = None" "prefix got w" "xr_used rv = length got" "take (length got) (xr_prefix rv) = got"
      "xr_data_used rv = 0" "xr_padding_used rv = 0" "xr_padding rv = [0, 0, 0]" "\<not> xr_used rv < xr_target rv"
  shows "\<exists>rv'. parse_prefix dec opaque_len rv = (Inr (), rv') \<and> xr_prefix rv' = xr_prefix rv \<and> xr_buffer rv' = xr_buffer rv \<and>
    (got = w \<and> in_data w m d rv' got \<or> got \<noteq> w \<and> in_prefix w rv' got \<and> xr_used rv' < xr_target rv')"
proof (cases "got = w")
  case True
  have len: "(case opaque_len m of Some n \<Rightarrow> n | None \<Rightarrow> 0) = length d"
    using data by (auto simp: opaque_data_def split: option.splits)
  from xdr_codec.decode_wire_Nil [OF codec(1,2)] codec(3) True have "dec got = (Inr m, [])" by simp
  with rv fits(3) len have "parse_prefix dec opaque_len rv = (Inr (), rv\<lparr>xr_data_len := length d, xr_metadata := Some m\<rparr>)"
    by (simp add: parse_prefix_def)
  with True rv show ?thesis by (simp add: in_data_def)
next
  case False
  with rv(2) obtain q where q: "w = got @ q" "q \<noteq> []" by (auto simp: prefix_def)
  from truncatesD [OF xdr_codec.decode_truncated [OF codec(1,2), folded codec(3), unfolded q(1)] q(2)]
  obtain needed rest where dec: "dec got = (Inl (UnexpectedEof needed), rest)" "length rest < needed" "needed \<le> length rest + length q"
    by blast
  let ?n = "max (needed - length rest) 1"
  have n: "0 < ?n" "length got + ?n \<le> length w" using dec(2,3) q by auto
  then have "checked_add (length got) ?n = Some (length got + ?n)" using fits by (simp add: checked_add_def)
  with rv dec(1) n fits have "parse_prefix dec opaque_len rv = (Inr (), rv\<lparr>xr_target := length got + ?n\<rparr>)"
    by (simp add: parse_prefix_def Let_def)
  with False n(2) rv show ?thesis by (cases "got = []") (simp_all add: in_prefix_def)
qed

text \<open>The states between two reads: what was asked for has not come yet, so parsing changes nothing.\<close>

lemma reply_expectsI:
  "length w \<le> length (xr_prefix rv) \<Longrightarrow> length (xr_prefix rv) \<le> usize_max \<Longrightarrow> length d \<le> length (xr_buffer rv) \<Longrightarrow>
   got @ todo = w @ d @ replicate (xdr_padding (length d)) 0 \<Longrightarrow> in_prefix w rv got \<or> in_data w m d rv got \<Longrightarrow> reply_expects w m d rv todo"
  unfolding reply_expects_def by blast

lemma reply_expectsE:
  assumes "reply_expects w m d rv todo"
  obtains got where "length w \<le> length (xr_prefix rv)" "length (xr_prefix rv) \<le> usize_max" "length d \<le> length (xr_buffer rv)"
    "got @ todo = w @ d @ replicate (xdr_padding (length d)) 0" "in_prefix w rv got \<or> in_data w m d rv got"
  using assms unfolding reply_expects_def by blast

lemma reply_parsed:
  assumes codec: "xdr_codec enc dec valid wire" "valid m" "w = wire m" and data: "opaque_data opaque_len m d"
    and ex: "reply_expects w m d rv todo"
  shows "\<exists>rv'. parse_prefix dec opaque_len rv = (Inr (), rv') \<and> reply_expects w m d rv' todo \<and>
    (xr_metadata rv' = None \<longrightarrow> xr_used rv' < xr_target rv')"
proof -
  from ex obtain got where fits: "length w \<le> length (xr_prefix rv)" "length (xr_prefix rv) \<le> usize_max" "length d \<le> length (xr_buffer rv)"
    and got: "got @ todo = w @ d @ replicate (xdr_padding (length d)) 0" "in_prefix w rv got \<or> in_data w m d rv got"
    by (rule reply_expectsE)
  show ?thesis
  proof (cases "in_prefix w rv got \<and> \<not> xr_used rv < xr_target rv")
    case True
    have "\<exists>rv'. parse_prefix dec opaque_len rv = (Inr (), rv') \<and> xr_prefix rv' = xr_prefix rv \<and> xr_buffer rv' = xr_buffer rv \<and>
        (got = w \<and> in_data w m d rv' got \<or> got \<noteq> w \<and> in_prefix w rv' got \<and> xr_used rv' < xr_target rv')"
      by (rule parse_prefix_step [OF codec data fits]) (use True in \<open>simp_all add: in_prefix_def\<close>)
    then obtain rv' where rv': "parse_prefix dec opaque_len rv = (Inr (), rv')" "xr_prefix rv' = xr_prefix rv" "xr_buffer rv' = xr_buffer rv"
      "in_data w m d rv' got \<or> in_prefix w rv' got \<and> xr_used rv' < xr_target rv'"
      by (elim exE conjE disjE) simp_all
    moreover from rv'(4) have "in_prefix w rv' got \<or> in_data w m d rv' got" by blast
    from reply_expectsI [OF _ _ _ got(1) this] fits rv'(2,3) have "reply_expects w m d rv' todo" by simp
    moreover from rv'(4) have "xr_metadata rv' = None \<longrightarrow> xr_used rv' < xr_target rv'" by (auto simp: in_data_def)
    ultimately show ?thesis by (intro exI [of _ rv'] conjI)
  next
    case False
    with got(2) have "in_data w m d rv got \<or> xr_used rv < xr_target rv" by blast
    then have "xr_metadata rv \<noteq> None \<or> xr_used rv < xr_target rv" by (elim disjE) (simp_all add: in_data_def)
    then have "parse_prefix dec opaque_len rv = (Inr (), rv)" "xr_metadata rv = None \<longrightarrow> xr_used rv < xr_target rv"
      by (cases "xr_metadata rv"; simp add: parse_prefix_def)+
    with ex show ?thesis by (intro exI [of _ rv] conjI)
  qed
qed

text \<open>The room offered in such a state, and what comes after taking bytes.\<close>

definition reply_room :: "'m xdr_reply_receiver \<Rightarrow> nat" where
  "reply_room rv = (if xr_metadata rv = None then xr_target rv - xr_used rv
     else if xr_data_used rv < xr_data_len rv then xr_data_len rv - xr_data_used rv else xdr_padding (xr_data_len rv) - xr_padding_used rv)"

lemma xdr_reply_buffer_eq:
  "parse_prefix dec opaque_len rv = (Inr (), rv') \<Longrightarrow> rv_buffer (xdr_reply_api dec opaque_len) rv = (Inr (reply_room rv'), rv')"
  by (simp add: xdr_reply_api_def xdr_reply_buffer_def reply_room_def xdr_padding_def)

lemma reply_room_pos:
  assumes "reply_expects w m d rv todo" "xr_metadata rv = None \<longrightarrow> xr_used rv < xr_target rv" "todo \<noteq> []"
  shows "0 < reply_room rv"
proof -
  from assms(1) obtain got where got: "got @ todo = w @ d @ replicate (xdr_padding (length d)) 0" "in_prefix w rv got \<or> in_data w m d rv got"
    by (rule reply_expectsE)
  from got(2) show ?thesis
  proof
    assume "in_prefix w rv got"
    with assms(2) show ?thesis by (simp add: in_prefix_def reply_room_def)
  next
    assume inv: "in_data w m d rv got"
    show ?thesis
    proof (cases "xr_data_used rv < length d")
      case True
      with inv show ?thesis by (simp add: in_data_def reply_room_def)
    next
      case False
      with inv have used: "xr_data_used rv = length d" "got = w @ d @ replicate (xr_padding_used rv) 0" by (simp_all add: in_data_def)
      from got(1) have "length got + length todo = length w + length d + xdr_padding (length d)" by (metis add.assoc length_append length_replicate)
      with used(2) assms(3) have "xr_padding_used rv < xdr_padding (length d)" by (cases todo) simp_all
      with inv used(1) show ?thesis by (simp add: in_data_def reply_room_def)
    qed
  qed
qed

lemma prefix_takes:
  assumes codec: "xdr_codec enc dec valid wire" "valid m" "w = wire m" and data: "opaque_data opaque_len m d"
    and fits: "length w \<le> length (xr_prefix rv)" "length (xr_prefix rv) \<le> usize_max" "length d \<le> length (xr_buffer rv)"
    and got: "got @ bs @ todo = w @ d @ replicate (xdr_padding (length d)) 0" "in_prefix w rv got"
    and len: "bs \<noteq> []" "length bs \<le> xr_target rv - xr_used rv" "xr_used rv < xr_target rv"
  shows "\<exists>rv'. xdr_reply_advance dec opaque_len (length bs) (xdr_reply_write bs rv) = (Inr (), rv') \<and> reply_expects w m d rv' todo"
proof -
  let ?rv = "rv\<lparr>xr_prefix := splice (length got) bs (xr_prefix rv), xr_used := length got + length bs\<rparr>"
  from got(2) have rv: "xr_metadata rv = None" "xr_used rv = length got" "take (length got) (xr_prefix rv) = got"
    "xr_data_used rv = 0" "xr_padding_used rv = 0" "xr_padding rv = [0, 0, 0]" "xr_target rv \<le> length w"
    by (auto simp: in_prefix_def split: if_splits)
  have within: "length got + length bs \<le> length w" using len rv by simp
  have "prefix (got @ bs) w"
  proof -
    have "take (length (got @ bs)) (got @ bs @ todo) = got @ bs" by simp
    then have "take (length (got @ bs)) w = got @ bs" unfolding got(1) using within by simp
    then show ?thesis by (metis take_is_prefix)
  qed
  note sp = splice_fits [of "length got" bs "xr_prefix rv"]
  have fits': "length w \<le> length (xr_prefix ?rv)" "length (xr_prefix ?rv) \<le> usize_max" "length d \<le> length (xr_buffer ?rv)"
    using fits within sp(1) by simp_all
  have eq: "xdr_reply_advance dec opaque_len (length bs) (xdr_reply_write bs rv) = parse_prefix dec opaque_len ?rv"
    using rv by (simp add: xdr_reply_advance_def xdr_reply_write_def)
  have tk: "take (length (got @ bs)) (xr_prefix ?rv) = got @ bs" using sp(2) rv(3) fits within by simp
  show ?thesis
  proof (cases "length got + length bs < xr_target rv")
    case True
    then have "parse_prefix dec opaque_len ?rv = (Inr (), ?rv)" by (simp add: parse_prefix_def)
    moreover have "in_prefix w ?rv (got @ bs)" using True rv \<open>prefix (got @ bs) w\<close> tk len by (simp add: in_prefix_def)
    ultimately show ?thesis
      unfolding eq using reply_expectsI [OF fits', of "got @ bs" todo m] got(1) by simp
  next
    case False
    have "\<exists>rv'. parse_prefix dec opaque_len ?rv = (Inr (), rv') \<and> xr_prefix rv' = xr_prefix ?rv \<and> xr_buffer rv' = xr_buffer ?rv \<and>
        (got @ bs = w \<and> in_data w m d rv' (got @ bs) \<or> got @ bs \<noteq> w \<and> in_prefix w rv' (got @ bs) \<and> xr_used rv' < xr_target rv')"
      by (rule parse_prefix_step [OF codec data fits']) (use False rv \<open>prefix (got @ bs) w\<close> tk in simp_all)
    then obtain rv' where rv': "parse_prefix dec opaque_len ?rv = (Inr (), rv')" "xr_prefix rv' = xr_prefix ?rv" "xr_buffer rv' = xr_buffer ?rv"
      "in_prefix w rv' (got @ bs) \<or> in_data w m d rv' (got @ bs)" by blast
    have "reply_expects w m d rv' todo"
      by (rule reply_expectsI [OF _ _ _ _ rv'(4)]) (use fits' rv'(2,3) got(1) in simp_all)
    with rv'(1) show ?thesis unfolding eq by blast
  qed
qed

lemma data_takes:
  assumes fits: "length w \<le> length (xr_prefix rv)" "length (xr_prefix rv) \<le> usize_max" "length d \<le> length (xr_buffer rv)"
    and got: "got @ bs @ todo = w @ d @ replicate (xdr_padding (length d)) 0" "in_data w m d rv got"
    and len: "length bs \<le> reply_room rv"
  shows "\<exists>rv'. xdr_reply_advance dec opaque_len (length bs) (xdr_reply_write bs rv) = (Inr (), rv') \<and> reply_expects w m d rv' todo"
proof (cases "xr_data_used rv < length d")
  case True
  let ?k = "xr_data_used rv"
  let ?rv = "rv\<lparr>xr_buffer := splice ?k bs (xr_buffer rv), xr_data_used := ?k + length bs\<rparr>"
  from got(2) True have rv: "xr_metadata rv = Some m" "xr_data_len rv = length d" "xr_padding_used rv = 0" "got = w @ take ?k d"
    "take ?k (xr_buffer rv) = take ?k d" "length (xr_padding rv) = 3" by (simp_all add: in_data_def)
  from len rv True have k: "?k + length bs \<le> length d" by (simp add: reply_room_def)
  have "bs = take (length bs) (drop ?k d)"
  proof -
    have "take ?k d @ bs @ todo = d @ replicate (xdr_padding (length d)) 0" using got(1) rv(4) by simp
    then have "drop ?k (take ?k d @ bs @ todo) = drop ?k (d @ replicate (xdr_padding (length d)) 0)" by (rule arg_cong)
    with True k have "bs @ todo = drop ?k d @ replicate (xdr_padding (length d)) 0" by simp
    then have "take (length bs) (bs @ todo) = take (length bs) (drop ?k d @ replicate (xdr_padding (length d)) 0)" by (rule arg_cong)
    with k show ?thesis by simp
  qed
  then have tk: "take (?k + length bs) d = take ?k d @ bs" by (metis take_add)
  note sp = splice_fits [of ?k bs "xr_buffer rv"]
  have "in_data w m d ?rv (got @ bs)" using got(2) rv k tk sp fits(3) by (simp add: in_data_def)
  moreover have "xdr_reply_advance dec opaque_len (length bs) (xdr_reply_write bs rv) = (Inr (), ?rv)"
    using rv True by (simp add: xdr_reply_advance_def xdr_reply_write_def)
  ultimately show ?thesis
    using reply_expectsI [of w ?rv d "got @ bs" todo m] got(1) fits sp(1) k by simp
next
  case False
  let ?k = "xr_padding_used rv" and ?pad = "xdr_padding (length d)"
  let ?rv = "rv\<lparr>xr_padding := splice ?k bs (xr_padding rv), xr_padding_used := ?k + length bs\<rparr>"
  from got(2) False have rv: "xr_metadata rv = Some m" "xr_data_len rv = length d" "xr_data_used rv = length d" "got = w @ d @ replicate ?k 0"
    "length (xr_padding rv) = 3" "take ?k (xr_padding rv) = replicate ?k 0" "?k \<le> ?pad" by (simp_all add: in_data_def)
  from len rv have k: "?k + length bs \<le> ?pad" by (simp add: reply_room_def)
  have pad3: "?pad \<le> 3" by (simp add: xdr_padding_def)
  have "replicate ?k 0 @ bs @ todo = replicate ?pad (0 :: byte)" using got(1) rv(4) by simp
  then have "bs @ todo = replicate (?pad - ?k) 0" by (metis append_eq_conv_conj drop_replicate length_replicate)
  then have "take (length bs) (bs @ todo) = take (length bs) (replicate (?pad - ?k) 0)" by (rule arg_cong)
  with k have bs: "bs = replicate (length bs) 0" by simp
  note sp = splice_fits [of ?k bs "xr_padding rv"]
  have tk: "take (?k + length bs) (splice ?k bs (xr_padding rv)) = replicate (?k + length bs) 0"
    using sp(2) rv(5,6) k pad3 bs by (simp add: replicate_add)
  have "in_data w m d ?rv (got @ bs)" using got(2) rv k tk sp(1) pad3 bs by (simp add: in_data_def replicate_add)
  moreover have "xdr_reply_advance dec opaque_len (length bs) (xdr_reply_write bs rv) = (Inr (), ?rv)"
    using rv tk by (simp add: xdr_reply_advance_def xdr_reply_write_def Let_def list_ex_iff)
  ultimately show ?thesis
    using reply_expectsI [of w ?rv d "got @ bs" todo m] got(1) fits by simp
qed

lemma xdr_reply_contract:
  assumes codec: "xdr_codec enc dec valid wire" "valid m" and data: "opaque_data opaque_len m d"
  shows "receiver_contract (xdr_reply_api dec opaque_len) (reply_expects (wire m) m d)"
proof (unfold_locales, goal_cases)
  case (1 rv todo)
  from reply_parsed [OF codec refl data 1] obtain rv' where rv': "parse_prefix dec opaque_len rv = (Inr (), rv')"
    "reply_expects (wire m) m d rv' todo" "xr_metadata rv' = None \<longrightarrow> xr_used rv' < xr_target rv'"
    by (elim exE conjE)
  from reply_room_pos [OF rv'(2,3)] rv'(2) show ?case unfolding xdr_reply_buffer_eq [OF rv'(1)] by simp
next
  case (2 rv bs todo room rv')
  from reply_parsed [OF codec refl data 2(1)] obtain rv1 where rv1: "parse_prefix dec opaque_len rv = (Inr (), rv1)"
    "reply_expects (wire m) m d rv1 (bs @ todo)" "xr_metadata rv1 = None \<longrightarrow> xr_used rv1 < xr_target rv1"
    by (elim exE conjE)
  with xdr_reply_buffer_eq [OF rv1(1)] 2(2) have rv': "rv' = rv1" "room = reply_room rv1" by auto
  from rv1(2) obtain got where got: "length (wire m) \<le> length (xr_prefix rv1)" "length (xr_prefix rv1) \<le> usize_max" "length d \<le> length (xr_buffer rv1)"
    "got @ bs @ todo = wire m @ d @ replicate (xdr_padding (length d)) 0" "in_prefix (wire m) rv1 got \<or> in_data (wire m) m d rv1 got"
    by (rule reply_expectsE)
  from got(5) have "\<exists>rv'. xdr_reply_advance dec opaque_len (length bs) (xdr_reply_write bs rv1) = (Inr (), rv') \<and> reply_expects (wire m) m d rv' todo"
  proof
    assume pre: "in_prefix (wire m) rv1 got"
    then have "xr_metadata rv1 = None" by (simp add: in_prefix_def)
    with 2(4) rv' rv1(3) have "length bs \<le> xr_target rv1 - xr_used rv1" "xr_used rv1 < xr_target rv1" by (simp_all add: reply_room_def)
    from prefix_takes [OF codec refl data got(1-4) pre 2(3) this] show ?thesis .
  next
    assume "in_data (wire m) m d rv1 got"
    from data_takes [OF got(1-4) this, of dec opaque_len] 2(4) show ?thesis unfolding rv'(2) .
  qed
  with rv' show ?case by (simp add: xdr_reply_api_def)
qed

text \<open>A receiver that expects nothing more holds the result.\<close>

lemma xdr_reply_finished:
  assumes codec: "xdr_codec enc dec valid wire" "valid m" and data: "opaque_data opaque_len m d" and ex: "reply_expects (wire m) m d rv []"
  shows "\<exists>buffer. xdr_reply_finish dec opaque_len (Inr ()) rv = \<lparr>to_result = Inr m, to_buffer = buffer, to_payload_len = length d\<rparr> \<and>
    take (length d) buffer = d"
proof -
  from reply_parsed [OF codec refl data ex] obtain rv' where rv': "parse_prefix dec opaque_len rv = (Inr (), rv')"
    "reply_expects (wire m) m d rv' []" "xr_metadata rv' = None \<longrightarrow> xr_used rv' < xr_target rv'"
    by (elim exE conjE)
  from rv'(2) obtain got where got: "got @ [] = wire m @ d @ replicate (xdr_padding (length d)) 0" "in_prefix (wire m) rv' got \<or> in_data (wire m) m d rv' got"
    by (rule reply_expectsE)
  have "in_data (wire m) m d rv' got"
  proof (rule ccontr)
    assume "\<not> in_data (wire m) m d rv' got"
    with got(2) have pre: "in_prefix (wire m) rv' got" by blast
    then have "xr_used rv' = length got" "xr_used rv' < xr_target rv'" "xr_target rv' \<le> length (wire m)"
      using rv'(3) by (auto simp: in_prefix_def split: if_splits)
    moreover from got(1) have "length (wire m) \<le> length got" by simp
    ultimately show False by simp
  qed
  then have inv: "xr_metadata rv' = Some m" "xr_data_len rv' = length d" "xr_data_used rv' \<le> length d" "xr_data_used rv' < length d \<longrightarrow> xr_padding_used rv' = 0"
    "xr_padding_used rv' \<le> xdr_padding (length d)"
    "got = wire m @ take (xr_data_used rv') d @ replicate (xr_padding_used rv') 0" "take (xr_data_used rv') (xr_buffer rv') = take (xr_data_used rv') d"
    by (simp_all add: in_data_def)
  from arg_cong [OF got(1), of length] inv(3,6) have sum: "xr_data_used rv' + xr_padding_used rv' = length d + xdr_padding (length d)" by simp
  with inv(3,5) have "xr_data_used rv' = length d" "xr_padding_used rv' = xdr_padding (length d)" by linarith+
  with inv rv'(1) show ?thesis by (simp add: xdr_reply_finish_def xdr_padding_def)
qed

end
