(* ===== verification/Owned_Transport.thy ===== *)
theory Owned_Transport
  imports Xdr_Receivers Admission_Ctl
begin

text \<open>
  The multiplexed client connection of \<^verbatim>\<open>src/crates/onc-rpc-runtime/src/owned.rs\<close> and
  \<^verbatim>\<open>owned/segmented.rs\<close>: calls admitted by a budget, registered by transaction identifier, written
  frame by frame under a lock, and answered by one reader task.

  A call is a number, which stands for the identity of its \<^verbatim>\<open>CallControl\<close>, of its oneshot
  channel and of its permit. Every section under a lock is one step, and the steps of a call
  and of the reader interleave freely; what timers, cancellation flags and the socket answer
  in a poll are inputs of its step. \<^verbatim>\<open>State::fail\<close> and \<^verbatim>\<open>PendingCall::stop\<close> take senders out of the
  map under its lock and answer them afterwards: between the two the senders are in \<open>os_work\<close>.
  An abort of the reader is a request that takes effect at some later step of the reader. The
  connection is not dropped while the model runs.
\<close>

section \<open>State\<close>

datatype 'r sender = Buffered | Segmented "'r target"

datatype 'r delivery =
    ReplyOf "runtime_error + rpc_message"
  | OutcomeOf "runtime_error + rpc_message" 'r nat

datatype 'r channel = ChanNone | ChanOpen | ChanSent "'r delivery" | ChanClosed

text \<open>What a call does after its entry has been removed from the map.\<close>

datatype 'r after_stop =
    AfterSend
  | AfterWrite "write_event list"
  | AfterInterrupt
  | AfterReturn "'r delivery"
  | AfterDrop

datatype 'r request = Whole rpc_message | Parts xid "bytes list" 'r

datatype 'r owned_call =
    OcIdle
  | OcRefused admission_error
  | OcAdmitted "'r request" call_options
  | OcLocking
  | OcWriting "write_event list" bool
  | OcStopping runtime_error "'r after_stop"
  | OcAwaiting bool
  | OcDone "'r delivery"
  | OcDropped
  | OcPanicked

record call_info =
  ci_xid :: xid
  ci_segments :: "bytes list"
  ci_options :: call_options
  ci_into :: bool

datatype 'r owned_reader =
    RdIdle
  | RdReceiving record_reader bytes nat "'r sender"
  | RdDraining record_reader xid "nat option"
  | RdClosing xid "nat option" "runtime_error + unit"
  | RdFailing runtime_error
  | RdTaking
  | RdDone

datatype 'r work = StopPending nat runtime_error "'r sender option" | FailSender nat runtime_error "'r sender" | CloseAdmission

record 'r owned =
  os_limits :: record_limits
  os_xids :: u32
  os_admission :: admission
  os_writer :: bool
  os_lock :: "nat option"
  os_closed :: "runtime_error option"
  os_pending :: "(xid \<times> nat \<times> 'r sender option) list"
  os_terminal :: "nat \<Rightarrow> (runtime_error + unit) option"
  os_channel :: "nat \<Rightarrow> 'r channel"
  os_refs :: "nat \<Rightarrow> nat"
  os_weight :: "nat \<Rightarrow> nat"
  os_calls :: "nat \<Rightarrow> 'r owned_call"
  os_info :: "nat \<Rightarrow> call_info"
  os_work :: "'r work list"
  os_reader :: "'r owned_reader"
  os_abort :: bool
  os_stream :: "read_event list"
  os_out :: bytes
  os_default_call_timeout :: "duration option"
  os_write_timeout :: "duration option"

definition from_stream_using_admission :: "read_event list \<Rightarrow> client_config \<Rightarrow> record_limits \<Rightarrow> admission \<Rightarrow> runtime_error + 'r owned" where
  "from_stream_using_admission stream config limits admission =
     result_bind (record_limits_validate limits) (\<lambda>_.
     Inr \<lparr>os_limits = limits, os_xids = xid_allocator_new, os_admission = admission, os_writer = True, os_lock = None,
          os_closed = None, os_pending = [], os_terminal = (\<lambda>_. None), os_channel = (\<lambda>_. ChanNone), os_refs = (\<lambda>_. 0),
          os_weight = (\<lambda>_. 0), os_calls = (\<lambda>_. OcIdle),
          os_info = (\<lambda>_. \<lparr>ci_xid = Xid 0, ci_segments = [], ci_options = call_options_new, ci_into = False\<rparr>),
          os_work = [], os_reader = RdIdle, os_abort = False, os_stream = stream, os_out = [],
          os_default_call_timeout = cc_default_call_timeout config, os_write_timeout = cc_write_timeout config\<rparr>)"

definition from_stream_with_limits :: "read_event list \<Rightarrow> client_config \<Rightarrow> record_limits \<Rightarrow> runtime_error + 'r owned" where
  "from_stream_with_limits stream config limits =
     (case admission_unlimited of
        Inl _ \<Rightarrow> Inl (Transport ''nonzero compatibility limits'')
      | Inr admission \<Rightarrow> from_stream_using_admission stream config limits admission)"

definition from_stream :: "read_event list \<Rightarrow> client_config \<Rightarrow> runtime_error + 'r owned" where
  "from_stream stream config = from_stream_with_limits stream config record_limits_default"

definition from_stream_with_admission :: "read_event list \<Rightarrow> client_config \<Rightarrow> record_limits \<Rightarrow> admission_limits \<Rightarrow> runtime_error + 'r owned" where
  "from_stream_with_admission stream config records limits =
     (case admission_new limits of
        Inl _ \<Rightarrow> Inl (Transport ''RPC admission limits must both be greater than zero'')
      | Inr admission \<Rightarrow> from_stream_using_admission stream config records admission)"

section \<open>Terminal decisions and permits\<close>

definition control_stop :: "nat \<Rightarrow> runtime_error \<Rightarrow> 'r owned \<Rightarrow> 'r owned" where
  "control_stop t error s =
     (if os_terminal s t = None then s\<lparr>os_terminal := (os_terminal s)(t := Some (Inl error))\<rparr> else s)"

definition control_error :: "nat \<Rightarrow> 'r owned \<Rightarrow> runtime_error option" where
  "control_error t s = (case os_terminal s t of Some (Inl error) \<Rightarrow> Some error | _ \<Rightarrow> None)"

definition control_finish :: "nat \<Rightarrow> runtime_error + 'a \<Rightarrow> 'r owned \<Rightarrow> (runtime_error + 'a) \<times> 'r owned" where
  "control_finish t result s = (case os_terminal s t of
       Some (Inl error) \<Rightarrow> (Inl error, s)
     | _ \<Rightarrow> (result, s\<lparr>os_terminal := (os_terminal s)(t := Some (Inr ()))\<rparr>))"

text \<open>Dropping one owner of a permit; the last one gives it back.\<close>

definition release :: "nat \<Rightarrow> 'r owned \<Rightarrow> 'r owned" where
  "release t s =
     (let s = s\<lparr>os_refs := (os_refs s)(t := os_refs s t - 1)\<rparr>
      in if os_refs s t = 0
         then (case drop_permit (os_weight s t) (os_admission s) of Some a \<Rightarrow> s\<lparr>os_admission := a\<rparr> | None \<Rightarrow> s)
         else s)"

definition answer :: "nat \<Rightarrow> 'r delivery \<Rightarrow> 'r owned \<Rightarrow> 'r owned" where
  "answer t d s = release t (s\<lparr>os_channel := (os_channel s)(t := ChanSent d)\<rparr>)"

definition target_finish :: "nat \<Rightarrow> 'r target \<Rightarrow> runtime_error + rpc_message \<Rightarrow> 'r owned \<Rightarrow> 'r owned" where
  "target_finish t target header s =
     (case control_finish t header s of (result, s) \<Rightarrow>
        answer t (OutcomeOf result (tg_receiver target) (tg_payload_len target)) s)"

definition sender_fail :: "nat \<Rightarrow> runtime_error \<Rightarrow> 'r sender \<Rightarrow> 'r owned \<Rightarrow> 'r owned" where
  "sender_fail t error sender s = (case sender of
       Buffered \<Rightarrow> answer t (ReplyOf (Inl error)) s
     | Segmented target \<Rightarrow> target_finish t target (Inl error) s)"

text \<open>A sender that is dropped unsent: the buffered one closes its channel, a target returns its receiver.\<close>

definition sender_drop :: "nat \<Rightarrow> 'r sender \<Rightarrow> 'r owned \<Rightarrow> 'r owned" where
  "sender_drop t sender s = (case sender of
       Buffered \<Rightarrow> release t (s\<lparr>os_channel := (os_channel s)(t := ChanClosed)\<rparr>)
     | Segmented target \<Rightarrow> target_finish t target (Inl ConnectionClosed) s)"

section \<open>Failing and stopping\<close>

definition state_fail :: "runtime_error \<Rightarrow> 'r owned \<Rightarrow> 'r owned" where
  "state_fail error s = (case os_closed s of
       Some _ \<Rightarrow> s
     | None \<Rightarrow> s\<lparr>os_closed := Some error, os_pending := [],
         os_work := os_work s @ CloseAdmission # map (\<lambda>(x, t, sender). StopPending t error sender) (os_pending s)\<rparr>)"

definition abort_reader :: "'r owned \<Rightarrow> 'r owned" where
  "abort_reader s = s\<lparr>os_abort := True\<rparr>"

text \<open>What is still to be done for a sender taken out of the map, one section at a time.\<close>

definition run_work :: "'r work \<Rightarrow> 'r owned \<Rightarrow> 'r owned" where
  "run_work w s = (case w of
       CloseAdmission \<Rightarrow> s\<lparr>os_admission := close_admission (os_admission s)\<rparr>
     | StopPending t error sender \<Rightarrow>
         (let s = control_stop t error s
          in case sender of None \<Rightarrow> s | Some sender \<Rightarrow> s\<lparr>os_work := os_work s @ [FailSender t error sender]\<rparr>)
     | FailSender t error sender \<Rightarrow>
         (case control_finish t (Inl error :: runtime_error + unit) s of
            (Inl e, s) \<Rightarrow> sender_fail t e sender s
          | (Inr _, s) \<Rightarrow> s))"

definition remove_entry :: "xid \<Rightarrow> nat \<Rightarrow> 'r owned \<Rightarrow> 'r sender option \<times> 'r owned" where
  "remove_entry xid t s = (case map_of (os_pending s) xid of
       Some (u, sender) \<Rightarrow>
         if u = t then (sender, s\<lparr>os_pending := filter (\<lambda>e. fst e \<noteq> xid) (os_pending s)\<rparr>) else (None, s)
     | None \<Rightarrow> (None, s))"

definition pending_remove :: "nat \<Rightarrow> runtime_error \<Rightarrow> 'r owned \<Rightarrow> 'r owned" where
  "pending_remove t error s = (case remove_entry (ci_xid (os_info s t)) t s of
       (Some sender, s) \<Rightarrow> s\<lparr>os_work := os_work s @ [FailSender t error sender]\<rparr>
     | (None, s) \<Rightarrow> s)"

definition close_transport :: "'r owned \<Rightarrow> 'r owned" where
  "close_transport s =
     (let s = abort_reader (state_fail ConnectionClosed s)
      in if os_lock s = None then s\<lparr>os_writer := False\<rparr> else s)"

definition is_closed :: "'r owned \<Rightarrow> bool" where
  "is_closed s = (os_closed s \<noteq> None)"

definition owned_admission_error :: "'r owned \<Rightarrow> admission_error \<Rightarrow> runtime_error" where
  "owned_admission_error s reason = (case reason of
       InvalidRequest error \<Rightarrow> error
     | AdmissionClosed \<Rightarrow> (case os_closed s of Some error \<Rightarrow> error | None \<Rightarrow> ConnectionClosed)
     | AtCapacity \<Rightarrow> Transport ''RPC admission is currently at capacity''
     | TooLarge required limit \<Rightarrow>
         Transport (''RPC admission requires '' @ show_nat required @ '' bytes, exceeding the '' @ show_nat limit @ ''-byte limit'')
     | InvalidLimits \<Rightarrow> Transport ''RPC admission limits must both be greater than zero'')"

section \<open>Admission of calls\<close>

text \<open>The sizes of the types \<^verbatim>\<open>RpcMessage\<close>, \<^verbatim>\<open>Bytes\<close> and of the receiver, which the compiler chooses.\<close>

record type_sizes =
  size_of_message :: nat
  size_of_bytes :: nat
  size_of_receiver :: nat

fun without_payload :: "message_body \<Rightarrow> message_body \<times> nat" where
  "without_payload (Call call) = (Call (call\<lparr>cb_payload := []\<rparr>), length (cb_payload call))"
| "without_payload (Reply (Accepted r)) = (case ar_status r of
       Success results \<Rightarrow> (Reply (Accepted (r\<lparr>ar_status := Success []\<rparr>)), length results)
     | _ \<Rightarrow> (Reply (Accepted r), 0))"
| "without_payload body = (body, 0)"

definition message_admission_bytes :: "type_sizes \<Rightarrow> rpc_message \<Rightarrow> runtime_error + nat" where
  "message_admission_bytes sizes message =
     (let (body, payload) = without_payload (msg_body message); header = message\<lparr>msg_body := body\<rparr>
      in result_bind (map_err WireFailure (rpc_message_encode header)) (\<lambda>encoded.
         case Option.bind (checked_add (length encoded) payload) (\<lambda>n. checked_add n (4 + size_of_message sizes)) of
           Some n \<Rightarrow> Inr n
         | None \<Rightarrow> Inl (Transport ''RPC admission charge overflow'')))"

record segmented_request =
  sr_header :: rpc_message
  sr_payload :: "bytes list"

fun checked_sum :: "nat \<Rightarrow> nat list \<Rightarrow> nat option" where
  "checked_sum n [] = Some n"
| "checked_sum n (m # ms) = Option.bind (checked_add n m) (\<lambda>k. checked_sum k ms)"

definition checked_mul :: "nat \<Rightarrow> nat \<Rightarrow> nat option" where
  "checked_mul a b = (if a * b \<le> usize_max then Some (a * b) else None)"

definition prepare :: "type_sizes \<Rightarrow> segmented_request \<Rightarrow> runtime_error + (bytes \<times> nat)" where
  "prepare sizes self =
     (if (case msg_body (sr_header self) of Call call \<Rightarrow> cb_payload call \<noteq> [] | Reply _ \<Rightarrow> True)
      then Inl (Transport ''segmented request requires an empty call envelope'')
      else result_bind (map_err WireFailure (rpc_message_encode (sr_header self))) (\<lambda>header.
        case checked_sum (length header) (map length (sr_payload self)) of
          None \<Rightarrow> Inl (Transport ''segmented request exceeds RPC fragment limit'')
        | Some wire_bytes \<Rightarrow>
            if wire_bytes > unat MAX_FRAGMENT_LEN then Inl (Transport ''segmented request exceeds RPC fragment limit'')
            else case Option.bind (checked_add (length (sr_payload self)) 1) (\<lambda>n. checked_mul n (size_of_bytes sizes)) of
                None \<Rightarrow> Inl (Transport ''RPC descriptor charge overflow'')
              | Some descriptor_bytes \<Rightarrow>
                  (case Option.bind (checked_add wire_bytes 4) (\<lambda>n. checked_add n descriptor_bytes) of
                     None \<Rightarrow> Inl (Transport ''RPC admission charge overflow'')
                   | Some charge \<Rightarrow> Inr (header, charge))))"

definition admit :: "nat \<Rightarrow> nat \<Rightarrow> 'r request \<Rightarrow> call_options \<Rightarrow> 'r owned \<Rightarrow> 'r owned" where
  "admit t charge request options s = (case try_acquire charge (os_admission s) of
       (Inl reason, a) \<Rightarrow> s\<lparr>os_calls := (os_calls s)(t := OcRefused reason), os_admission := a\<rparr>
     | (Inr permit, a) \<Rightarrow>
         s\<lparr>os_admission := a, os_weight := (os_weight s)(t := permit), os_refs := (os_refs s)(t := 2),
           os_calls := (os_calls s)(t := OcAdmitted request options)\<rparr>)"

definition owned_try_call :: "type_sizes \<Rightarrow> nat \<Rightarrow> rpc_message \<Rightarrow> call_options \<Rightarrow> 'r owned \<Rightarrow> 'r owned" where
  "owned_try_call sizes t request options s = (case message_admission_bytes sizes request of
       Inl error \<Rightarrow> s\<lparr>os_calls := (os_calls s)(t := OcRefused (InvalidRequest error))\<rparr>
     | Inr bytes \<Rightarrow> admit t bytes (Whole request) options s)"

definition owned_try_call_into :: "type_sizes \<Rightarrow> nat \<Rightarrow> segmented_request \<Rightarrow> 'r \<Rightarrow> call_options \<Rightarrow> 'r owned \<Rightarrow> 'r owned" where
  "owned_try_call_into sizes t request receiver options s = (case prepare sizes request of
       Inl error \<Rightarrow> s\<lparr>os_calls := (os_calls s)(t := OcRefused (InvalidRequest error))\<rparr>
     | Inr (header, charge) \<Rightarrow>
         (case checked_add charge (size_of_receiver sizes) of
            None \<Rightarrow> s\<lparr>os_calls := (os_calls s)(t := OcRefused (InvalidRequest (Transport ''RPC receiver charge overflow'')))\<rparr>
          | Some required_bytes \<Rightarrow>
              admit t required_bytes (Parts (msg_xid (sr_header request)) (header # sr_payload request) receiver) options s))"

section \<open>Steps of a call\<close>

text \<open>\<^verbatim>\<open>CallWait::interrupted\<close> in one poll: the token first, then the deadline.\<close>

definition interrupted :: "(nat \<Rightarrow> bool) \<Rightarrow> call_options \<Rightarrow> duration option \<Rightarrow> bool \<Rightarrow> runtime_error option" where
  "interrupted flags options default_timeout elapsed =
     (if (case co_cancellation options of Some token \<Rightarrow> flags token | None \<Rightarrow> False) then Some Cancelled
      else case effective_timeout options default_timeout of
          Some duration \<Rightarrow> if elapsed then Some (CallTimeoutError duration) else None
        | None \<Rightarrow> None)"

text \<open>The inputs of a poll.\<close>

record poll =
  po_flags :: "nat \<Rightarrow> bool"
  po_elapsed :: bool
  po_write_elapsed :: bool
  po_write :: write_event
  po_flush :: "(io_error + unit) option"

definition write_deadline :: "poll \<Rightarrow> 'r owned \<Rightarrow> runtime_error option" where
  "write_deadline p s = (case os_write_timeout s of
       Some duration \<Rightarrow> if po_write_elapsed p then Some (WriteTimeoutError duration) else None
     | None \<Rightarrow> None)"

definition interrupted_call :: "poll \<Rightarrow> nat \<Rightarrow> 'r owned \<Rightarrow> runtime_error option" where
  "interrupted_call p t s = interrupted (po_flags p) (ci_options (os_info s t)) (os_default_call_timeout s) (po_elapsed p)"

definition set_call :: "nat \<Rightarrow> 'r owned_call \<Rightarrow> 'r owned \<Rightarrow> 'r owned" where
  "set_call t c s = s\<lparr>os_calls := (os_calls s)(t := c)\<rparr>"

text \<open>The first half of \<^verbatim>\<open>PendingCall::stop\<close>.\<close>

definition stop_call :: "nat \<Rightarrow> runtime_error \<Rightarrow> 'r after_stop \<Rightarrow> 'r owned \<Rightarrow> 'r owned" where
  "stop_call t error after s = set_call t (OcStopping error after) (control_stop t error s)"

text \<open>The registration in \<^verbatim>\<open>call_inner_admitted\<close> and \<^verbatim>\<open>call_into_admitted\<close>; a call that is not registered returns at once and drops both owners of its permit.\<close>

definition unregistered :: "nat \<Rightarrow> 'r delivery \<Rightarrow> 'r owned \<Rightarrow> 'r owned" where
  "unregistered t d s = release t (release t (set_call t (OcDone d) s))"

definition register_sender :: "nat \<Rightarrow> xid \<Rightarrow> bytes list \<Rightarrow> call_options \<Rightarrow> 'r sender \<Rightarrow> (runtime_error \<Rightarrow> 'r delivery) \<Rightarrow> 'r owned \<Rightarrow> 'r owned" where
  "register_sender t xid parts options sender fail s = (case os_closed s of
       Some error \<Rightarrow> unregistered t (fail error) s
     | None \<Rightarrow>
         if map_of (os_pending s) xid \<noteq> None then unregistered t (fail (Transport ''duplicate in-flight RPC XID'')) s
         else set_call t OcLocking (s\<lparr>os_pending := (xid, t, Some sender) # os_pending s,
           os_channel := (os_channel s)(t := ChanOpen), os_terminal := (os_terminal s)(t := None),
           os_info := (os_info s)(t := \<lparr>ci_xid = xid, ci_segments = parts, ci_options = options,
             ci_into = (sender \<noteq> Buffered)\<rparr>)\<rparr>))"

definition call_register :: "nat \<Rightarrow> 'r owned \<Rightarrow> 'r owned" where
  "call_register t s = (case os_calls s t of
       OcAdmitted (Whole request) options \<Rightarrow>
         (case rpc_message_encode request of
            Inl e \<Rightarrow> unregistered t (ReplyOf (Inl (WireFailure e))) s
          | Inr bytes \<Rightarrow> register_sender t (msg_xid request) [bytes] options Buffered (\<lambda>e. ReplyOf (Inl e)) s)
     | OcAdmitted (Parts xid parts receiver) options \<Rightarrow>
         register_sender t xid parts options (Segmented (target_new receiver)) (\<lambda>e. OutcomeOf (Inl e) receiver 0) s
     | _ \<Rightarrow> s)"

text \<open>\<^verbatim>\<open>send_segments\<close> up to the writer's lock.\<close>

definition send_lock :: "poll \<Rightarrow> nat \<Rightarrow> 'r owned \<Rightarrow> 'r owned" where
  "send_lock p t s = (case interrupted_call p t s of
       Some error \<Rightarrow> stop_call t error AfterSend s
     | None \<Rightarrow> (case os_closed s of
           Some error \<Rightarrow> stop_call t error AfterSend s
         | None \<Rightarrow> (case write_deadline p s of
               Some error \<Rightarrow> stop_call t error AfterSend s
             | None \<Rightarrow>
                 if os_lock s \<noteq> None then s
                 else if \<not> os_writer s then stop_call t ConnectionClosed AfterSend s
                 else set_call t (OcWriting [] False) (s\<lparr>os_lock := Some t\<rparr>))))"

text \<open>The bytes of a call's frame that a schedule of writes has put on the stream.\<close>

definition frame_bytes :: "nat \<Rightarrow> write_event list \<Rightarrow> 'r owned \<Rightarrow> bytes" where
  "frame_bytes t schedule s = snd (snd (write_segments (ci_segments (os_info s t)) (schedule, [])))"

text \<open>\<^verbatim>\<open>Drop for FrameWrite\<close>; \<open>os_out\<close> holds what finished or abandoned frames have written.\<close>

definition frame_drop :: "bool \<Rightarrow> bytes \<Rightarrow> 'r owned \<Rightarrow> 'r owned" where
  "frame_drop complete written s =
     (let s = s\<lparr>os_out := os_out s @ written\<rparr>;
          s = (if \<not> complete \<and> written \<noteq> [] then state_fail (Transport ''RPC frame write interrupted'') s else s);
          s = (if os_closed s \<noteq> None then abort_reader (s\<lparr>os_writer := False\<rparr>) else s)
      in s\<lparr>os_lock := None\<rparr>)"

definition benign :: "runtime_error \<Rightarrow> bool" where
  "benign error = (case error of Cancelled \<Rightarrow> True | CallTimeoutError _ \<Rightarrow> True | WriteTimeoutError _ \<Rightarrow> True | _ \<Rightarrow> False)"

text \<open>The end of \<^verbatim>\<open>send_segments\<close>, and what \<^verbatim>\<open>complete_call\<close> does with its result.\<close>

definition send_finish :: "nat \<Rightarrow> runtime_error + unit \<Rightarrow> bytes \<Rightarrow> 'r owned \<Rightarrow> 'r owned" where
  "send_finish t result written s = (case result of
       Inr _ \<Rightarrow> set_call t (OcAwaiting False) (frame_drop True written s)
     | Inl error \<Rightarrow>
         stop_call t error AfterSend
           (frame_drop False written (if written = [] \<and> benign error then s else state_fail error s)))"

text \<open>One poll of the loop in \<^verbatim>\<open>send_segments\<close>.\<close>

definition owned_send_poll :: "poll \<Rightarrow> nat \<Rightarrow> write_event list \<Rightarrow> bool \<Rightarrow> 'r owned \<Rightarrow> 'r owned" where
  "owned_send_poll p t schedule stopped s =
     (let written = frame_bytes t schedule s
      in case os_closed s of
           Some error \<Rightarrow> send_finish t (Inl error) written s
         | None \<Rightarrow> (case write_deadline p s of
               Some error \<Rightarrow> send_finish t (Inl error) written s
             | None \<Rightarrow> (case (if stopped then None else interrupted_call p t s) of
                   Some error \<Rightarrow> stop_call t error (AfterWrite schedule) s
                 | None \<Rightarrow>
                     (let schedule = schedule @ [po_write p];
                          written = frame_bytes t schedule s
                      in case fst (write_segments (ci_segments (os_info s t)) (schedule, [])) of
                           Inl Dropped \<Rightarrow> set_call t (OcWriting schedule stopped) s
                         | Inl (Failed error) \<Rightarrow> send_finish t (Inl error) written s
                         | Inr _ \<Rightarrow> (case po_flush p of
                               None \<Rightarrow> set_call t (OcWriting schedule stopped) s
                             | Some (Inl e) \<Rightarrow> send_finish t (Inl (transport_error e)) written s
                             | Some (Inr _) \<Rightarrow> send_finish t (Inr ()) written s)))))"

text \<open>The second half of \<^verbatim>\<open>PendingCall::stop\<close>, and what comes after it.\<close>

definition stop_remove :: "nat \<Rightarrow> runtime_error \<Rightarrow> 'r after_stop \<Rightarrow> 'r owned \<Rightarrow> 'r owned" where
  "stop_remove t error after s =
     (let s = pending_remove t error s
      in case after of
           AfterSend \<Rightarrow> set_call t (OcAwaiting False) s
         | AfterInterrupt \<Rightarrow> set_call t (OcAwaiting True) s
         | AfterWrite schedule \<Rightarrow>
             if frame_bytes t schedule s = [] then send_finish t (Inl error) [] s
             else set_call t (OcWriting schedule True) s
         | AfterReturn d \<Rightarrow> release t (set_call t (OcDone d) s)
         | AfterDrop \<Rightarrow> release t (set_call t OcDropped s))"

text \<open>
  The end of \<^verbatim>\<open>complete_call\<close>; a flag says that the interruption has been handled. A channel that is
  closed without a value is an error of a buffered call and a panic of an owned receive.
\<close>

definition await_response :: "poll \<Rightarrow> nat \<Rightarrow> bool \<Rightarrow> 'r owned \<Rightarrow> 'r owned" where
  "await_response p t handled s = (case os_channel s t of
       ChanSent d \<Rightarrow> stop_call t Cancelled (AfterReturn d) s
     | ChanOpen \<Rightarrow>
         (case (if handled then None else interrupted_call p t s) of
            Some error \<Rightarrow> stop_call t error AfterInterrupt s
          | None \<Rightarrow> set_call t (OcAwaiting handled) s)
     | _ \<Rightarrow>
         if ci_into (os_info s t) then set_call t OcPanicked s
         else stop_call t Cancelled (AfterReturn (ReplyOf (Inl (case control_error t s of Some e \<Rightarrow> e | None \<Rightarrow> ConnectionClosed)))) s)"

definition call_poll :: "poll \<Rightarrow> nat \<Rightarrow> 'r owned \<Rightarrow> 'r owned" where
  "call_poll p t s = (case os_calls s t of
       OcAdmitted _ _ \<Rightarrow> call_register t s
     | OcLocking \<Rightarrow> send_lock p t s
     | OcWriting schedule stopped \<Rightarrow> owned_send_poll p t schedule stopped s
     | OcStopping error after \<Rightarrow> stop_remove t error after s
     | OcAwaiting handled \<Rightarrow> await_response p t handled s
     | _ \<Rightarrow> s)"

text \<open>The future is dropped: its locals are, in the reverse order of their creation.\<close>

definition call_drop :: "nat \<Rightarrow> 'r owned \<Rightarrow> 'r owned" where
  "call_drop t s = (case os_calls s t of
       OcAdmitted _ _ \<Rightarrow> release t (release t (set_call t OcDropped s))
     | OcLocking \<Rightarrow> stop_call t Cancelled AfterDrop s
     | OcWriting schedule stopped \<Rightarrow> stop_call t Cancelled AfterDrop (frame_drop False (frame_bytes t schedule s) s)
     | OcAwaiting handled \<Rightarrow> stop_call t Cancelled AfterDrop s
     | _ \<Rightarrow> s)"

section \<open>Steps of the reader\<close>

text \<open>\<^verbatim>\<open>receive_record\<close> up to the lookup; \<open>None\<close> while the read is not complete.\<close>

definition receive_lookup :: "'r owned \<Rightarrow> 'r owned option" where
  "receive_lookup s = (case record_reader_new (os_stream s) (os_limits s) of
       Inl e \<Rightarrow> Some (s\<lparr>os_reader := RdFailing e\<rparr>)
     | Inr record \<Rightarrow> (case reader_read_exact 4 (record, []) of
           (Inl Dropped, _) \<Rightarrow> None
         | (Inl (Failed e), record, _) \<Rightarrow> Some (s\<lparr>os_reader := RdFailing e, os_stream := rr_stream record\<rparr>)
         | (Inr _, record, xid_bytes) \<Rightarrow>
             (let xid = Xid (be_to_u32 xid_bytes)
              in case map_of (os_pending s) xid of
                   Some (t, Some sender) \<Rightarrow>
                     Some (s\<lparr>os_pending := map (\<lambda>e. if fst e = xid then (xid, t, None) else e) (os_pending s),
                             os_reader := RdReceiving record xid_bytes t sender\<rparr>)
                 | Some (t, None) \<Rightarrow> Some (s\<lparr>os_reader := RdDraining record xid (Some t)\<rparr>)
                 | None \<Rightarrow> Some (s\<lparr>os_reader := RdDraining record xid None\<rparr>))))"

text \<open>
  The race between \<^verbatim>\<open>control.stopped ()\<close> and the receive: a receive is abandoned exactly when the call
  has been stopped, after any part of the record. What follows is decided by \<^verbatim>\<open>control.finish\<close>.
\<close>

definition raced :: "runtime_error option \<Rightarrow> halt + 'a \<Rightarrow> (runtime_error + 'a) option" where
  "raced stopped received = (case stopped of
       Some error \<Rightarrow> (case received of Inl Dropped \<Rightarrow> Some (Inl error) | _ \<Rightarrow> None)
     | None \<Rightarrow> (case received of Inl Dropped \<Rightarrow> None | Inl (Failed error) \<Rightarrow> Some (Inl error) | Inr x \<Rightarrow> Some (Inr x)))"

text \<open>After the answer: a stopped call's record is drained, a receive that failed ends the connection.\<close>

definition after_receive :: "runtime_error option \<Rightarrow> runtime_error + unit \<Rightarrow> record_reader \<Rightarrow> xid \<Rightarrow> nat \<Rightarrow> 'r owned \<Rightarrow> 'r owned" where
  "after_receive stopped result record xid t s =
     (if stopped \<noteq> None then s\<lparr>os_reader := RdDraining record xid (Some t)\<rparr>
      else s\<lparr>os_reader := RdClosing xid (Some t) result, os_stream := rr_stream record\<rparr>)"

definition receive_for_buffered :: "record_reader \<Rightarrow> bytes \<Rightarrow> nat \<Rightarrow> 'r owned \<Rightarrow> 'r owned option" where
  "receive_for_buffered record xid_bytes t s =
     (case receive_buffered xid_bytes record of (received, record) \<Rightarrow>
        (case raced (control_error t s) received of
           None \<Rightarrow> None
         | Some result \<Rightarrow>
             (case control_finish t result s of (result, s) \<Rightarrow>
                Some (after_receive (control_error t s) (case result of Inl e \<Rightarrow> Inl e | Inr _ \<Rightarrow> Inr ()) record (Xid (be_to_u32 xid_bytes)) t
                  (answer t (ReplyOf result) s)))))"

text \<open>A panic of the reader is handled like its abort, below.\<close>

definition reader_exit :: "'r owned \<Rightarrow> 'r owned" where
  "reader_exit s =
     (let s = (case os_reader s of RdReceiving record xid_bytes t sender \<Rightarrow> sender_drop t sender s | _ \<Rightarrow> s);
          s = state_fail ConnectionClosed s;
          s = (if os_lock s = None then s\<lparr>os_writer := False\<rparr> else s)
      in s\<lparr>os_reader := RdDone\<rparr>)"

definition receive_for_segmented :: "'r reply_receiver \<Rightarrow> record_reader \<Rightarrow> bytes \<Rightarrow> nat \<Rightarrow> 'r target \<Rightarrow> 'r owned \<Rightarrow> 'r owned option" where
  "receive_for_segmented api record xid_bytes t target s =
     (case receive_segmented api xid_bytes (record, target) of
        (Inl IndexPanic, _, target) \<Rightarrow> Some (reader_exit (s\<lparr>os_reader := RdReceiving record xid_bytes t (Segmented target)\<rparr>))
      | (received, record, target) \<Rightarrow>
          (case raced (control_error t s) (map_err (\<lambda>e. case e of Halted h \<Rightarrow> h | IndexPanic \<Rightarrow> Dropped) received) of
             None \<Rightarrow> None
           | Some result \<Rightarrow>
               (case control_finish t result s of (result, s) \<Rightarrow>
                  (let stopped = control_error t s
                   in case result of
                        Inr (header, len) \<Rightarrow>
                          Some (after_receive None (Inr ()) record (Xid (be_to_u32 xid_bytes)) t
                            (target_finish t target
                              (if len \<noteq> usize_max then Inr header else Inl (Transport ''RPC reply exceeds caller buffer capacity'')) s))
                      | Inl error \<Rightarrow>
                          Some (after_receive stopped (Inl error) record (Xid (be_to_u32 xid_bytes)) t (target_finish t target (Inl error) s))))))"

definition reader_step :: "'r reply_receiver \<Rightarrow> 'r owned \<Rightarrow> 'r owned option" where
  "reader_step api s = (case os_reader s of
       RdIdle \<Rightarrow> receive_lookup s
     | RdReceiving record xid_bytes t Buffered \<Rightarrow> receive_for_buffered record xid_bytes t s
     | RdReceiving record xid_bytes t (Segmented target) \<Rightarrow> receive_for_segmented api record xid_bytes t target s
     | RdDraining record xid token \<Rightarrow>
         (case drain record of
            (Inl Dropped, _) \<Rightarrow> None
          | (Inl (Failed e), record) \<Rightarrow> Some (s\<lparr>os_reader := RdClosing xid token (Inl e), os_stream := rr_stream record\<rparr>)
          | (Inr _, record) \<Rightarrow> Some (s\<lparr>os_reader := RdClosing xid token (Inr ()), os_stream := rr_stream record\<rparr>))
     | RdClosing xid token result \<Rightarrow>
         (let s = (case token of Some t \<Rightarrow> snd (remove_entry xid t s) | None \<Rightarrow> s)
          in Some (s\<lparr>os_reader := (case result of Inl e \<Rightarrow> RdFailing e | Inr _ \<Rightarrow> RdIdle)\<rparr>))
     | RdFailing error \<Rightarrow> Some ((state_fail error s)\<lparr>os_reader := RdTaking\<rparr>)
     | RdTaking \<Rightarrow> if os_lock s = None then Some (reader_exit (s\<lparr>os_writer := False\<rparr>)) else None
     | RdDone \<Rightarrow> None)"

section \<open>Interleavings\<close>

text \<open>A shared token is one of the call's inputs, and a call may be started, polled and dropped at any time.\<close>

inductive owned_step :: "'r reply_receiver \<Rightarrow> 'r owned \<Rightarrow> 'r owned \<Rightarrow> bool" for api where
  allocate: "owned_step api s (s\<lparr>os_xids := snd (allocate_xid (os_xids s))\<rparr>)"
| try_whole: "os_calls s t = OcIdle \<Longrightarrow> owned_step api s (owned_try_call sizes t request options s)"
| try_into: "os_calls s t = OcIdle \<Longrightarrow> owned_step api s (owned_try_call_into sizes t parts receiver options s)"
| poll: "po_write p \<noteq> DropWrite \<Longrightarrow> owned_step api s (call_poll p t s)"
| abandon: "owned_step api s (call_drop t s)"
| work: "os_work s = before @ w # after \<Longrightarrow> owned_step api s (run_work w (s\<lparr>os_work := before @ after\<rparr>))"
| close: "owned_step api s (close_transport s)"
| reader: "reader_step api s = Some s' \<Longrightarrow> owned_step api s s'"
| abort: "os_abort s \<Longrightarrow> os_reader s \<noteq> RdDone \<Longrightarrow> owned_step api s (reader_exit s)"

inductive_cases owned_stepE: "owned_step api s s'"

section \<open>What the primitives leave alone\<close>

lemma control_stop_sel [simp]:
  "os_limits (control_stop t e s) = os_limits s"
  "os_xids (control_stop t e s) = os_xids s"
  "os_admission (control_stop t e s) = os_admission s"
  "os_writer (control_stop t e s) = os_writer s"
  "os_lock (control_stop t e s) = os_lock s"
  "os_closed (control_stop t e s) = os_closed s"
  "os_pending (control_stop t e s) = os_pending s"
  "os_channel (control_stop t e s) = os_channel s"
  "os_refs (control_stop t e s) = os_refs s"
  "os_weight (control_stop t e s) = os_weight s"
  "os_calls (control_stop t e s) = os_calls s"
  "os_info (control_stop t e s) = os_info s"
  "os_work (control_stop t e s) = os_work s"
  "os_reader (control_stop t e s) = os_reader s"
  "os_abort (control_stop t e s) = os_abort s"
  "os_stream (control_stop t e s) = os_stream s"
  "os_out (control_stop t e s) = os_out s"
  "os_default_call_timeout (control_stop t e s) = os_default_call_timeout s"
  "os_write_timeout (control_stop t e s) = os_write_timeout s"
  by (simp_all add: control_stop_def)

lemma control_finish_sel [simp]:
  "os_limits (snd (control_finish t r s)) = os_limits s"
  "os_xids (snd (control_finish t r s)) = os_xids s"
  "os_admission (snd (control_finish t r s)) = os_admission s"
  "os_writer (snd (control_finish t r s)) = os_writer s"
  "os_lock (snd (control_finish t r s)) = os_lock s"
  "os_closed (snd (control_finish t r s)) = os_closed s"
  "os_pending (snd (control_finish t r s)) = os_pending s"
  "os_channel (snd (control_finish t r s)) = os_channel s"
  "os_refs (snd (control_finish t r s)) = os_refs s"
  "os_weight (snd (control_finish t r s)) = os_weight s"
  "os_calls (snd (control_finish t r s)) = os_calls s"
  "os_info (snd (control_finish t r s)) = os_info s"
  "os_work (snd (control_finish t r s)) = os_work s"
  "os_reader (snd (control_finish t r s)) = os_reader s"
  "os_abort (snd (control_finish t r s)) = os_abort s"
  "os_stream (snd (control_finish t r s)) = os_stream s"
  "os_out (snd (control_finish t r s)) = os_out s"
  "os_default_call_timeout (snd (control_finish t r s)) = os_default_call_timeout s"
  "os_write_timeout (snd (control_finish t r s)) = os_write_timeout s"
  by (simp_all add: control_finish_def split: option.splits sum.splits)

lemma set_call_sel [simp]:
  "os_limits (set_call t c s) = os_limits s"
  "os_xids (set_call t c s) = os_xids s"
  "os_admission (set_call t c s) = os_admission s"
  "os_writer (set_call t c s) = os_writer s"
  "os_lock (set_call t c s) = os_lock s"
  "os_closed (set_call t c s) = os_closed s"
  "os_pending (set_call t c s) = os_pending s"
  "os_terminal (set_call t c s) = os_terminal s"
  "os_channel (set_call t c s) = os_channel s"
  "os_refs (set_call t c s) = os_refs s"
  "os_weight (set_call t c s) = os_weight s"
  "os_info (set_call t c s) = os_info s"
  "os_work (set_call t c s) = os_work s"
  "os_reader (set_call t c s) = os_reader s"
  "os_abort (set_call t c s) = os_abort s"
  "os_stream (set_call t c s) = os_stream s"
  "os_out (set_call t c s) = os_out s"
  "os_default_call_timeout (set_call t c s) = os_default_call_timeout s"
  "os_write_timeout (set_call t c s) = os_write_timeout s"
  by (simp_all add: set_call_def)

lemma abort_reader_sel [simp]:
  "os_limits (abort_reader s) = os_limits s"
  "os_xids (abort_reader s) = os_xids s"
  "os_admission (abort_reader s) = os_admission s"
  "os_writer (abort_reader s) = os_writer s"
  "os_lock (abort_reader s) = os_lock s"
  "os_closed (abort_reader s) = os_closed s"
  "os_pending (abort_reader s) = os_pending s"
  "os_terminal (abort_reader s) = os_terminal s"
  "os_channel (abort_reader s) = os_channel s"
  "os_refs (abort_reader s) = os_refs s"
  "os_weight (abort_reader s) = os_weight s"
  "os_calls (abort_reader s) = os_calls s"
  "os_info (abort_reader s) = os_info s"
  "os_work (abort_reader s) = os_work s"
  "os_reader (abort_reader s) = os_reader s"
  "os_stream (abort_reader s) = os_stream s"
  "os_out (abort_reader s) = os_out s"
  "os_default_call_timeout (abort_reader s) = os_default_call_timeout s"
  "os_write_timeout (abort_reader s) = os_write_timeout s"
  by (simp_all add: abort_reader_def)

lemma release_sel [simp]:
  "os_limits (release t s) = os_limits s"
  "os_xids (release t s) = os_xids s"
  "os_writer (release t s) = os_writer s"
  "os_lock (release t s) = os_lock s"
  "os_closed (release t s) = os_closed s"
  "os_pending (release t s) = os_pending s"
  "os_terminal (release t s) = os_terminal s"
  "os_channel (release t s) = os_channel s"
  "os_weight (release t s) = os_weight s"
  "os_calls (release t s) = os_calls s"
  "os_info (release t s) = os_info s"
  "os_work (release t s) = os_work s"
  "os_reader (release t s) = os_reader s"
  "os_abort (release t s) = os_abort s"
  "os_stream (release t s) = os_stream s"
  "os_out (release t s) = os_out s"
  "os_default_call_timeout (release t s) = os_default_call_timeout s"
  "os_write_timeout (release t s) = os_write_timeout s"
  by (simp_all add: release_def Let_def split: option.splits)

lemma state_fail_sel [simp]:
  "os_limits (state_fail e s) = os_limits s"
  "os_xids (state_fail e s) = os_xids s"
  "os_admission (state_fail e s) = os_admission s"
  "os_writer (state_fail e s) = os_writer s"
  "os_lock (state_fail e s) = os_lock s"
  "os_terminal (state_fail e s) = os_terminal s"
  "os_channel (state_fail e s) = os_channel s"
  "os_refs (state_fail e s) = os_refs s"
  "os_weight (state_fail e s) = os_weight s"
  "os_calls (state_fail e s) = os_calls s"
  "os_info (state_fail e s) = os_info s"
  "os_reader (state_fail e s) = os_reader s"
  "os_abort (state_fail e s) = os_abort s"
  "os_stream (state_fail e s) = os_stream s"
  "os_out (state_fail e s) = os_out s"
  "os_default_call_timeout (state_fail e s) = os_default_call_timeout s"
  "os_write_timeout (state_fail e s) = os_write_timeout s"
  by (simp_all add: state_fail_def split: option.splits)

lemma remove_entry_sel [simp]:
  "os_limits (snd (remove_entry x t s)) = os_limits s"
  "os_xids (snd (remove_entry x t s)) = os_xids s"
  "os_admission (snd (remove_entry x t s)) = os_admission s"
  "os_writer (snd (remove_entry x t s)) = os_writer s"
  "os_lock (snd (remove_entry x t s)) = os_lock s"
  "os_closed (snd (remove_entry x t s)) = os_closed s"
  "os_terminal (snd (remove_entry x t s)) = os_terminal s"
  "os_channel (snd (remove_entry x t s)) = os_channel s"
  "os_refs (snd (remove_entry x t s)) = os_refs s"
  "os_weight (snd (remove_entry x t s)) = os_weight s"
  "os_calls (snd (remove_entry x t s)) = os_calls s"
  "os_info (snd (remove_entry x t s)) = os_info s"
  "os_work (snd (remove_entry x t s)) = os_work s"
  "os_reader (snd (remove_entry x t s)) = os_reader s"
  "os_abort (snd (remove_entry x t s)) = os_abort s"
  "os_stream (snd (remove_entry x t s)) = os_stream s"
  "os_out (snd (remove_entry x t s)) = os_out s"
  "os_default_call_timeout (snd (remove_entry x t s)) = os_default_call_timeout s"
  "os_write_timeout (snd (remove_entry x t s)) = os_write_timeout s"
  by (simp_all add: remove_entry_def split: option.splits prod.splits)

lemma pending_remove_sel [simp]:
  "os_limits (pending_remove t e s) = os_limits s"
  "os_xids (pending_remove t e s) = os_xids s"
  "os_admission (pending_remove t e s) = os_admission s"
  "os_writer (pending_remove t e s) = os_writer s"
  "os_lock (pending_remove t e s) = os_lock s"
  "os_closed (pending_remove t e s) = os_closed s"
  "os_terminal (pending_remove t e s) = os_terminal s"
  "os_channel (pending_remove t e s) = os_channel s"
  "os_refs (pending_remove t e s) = os_refs s"
  "os_weight (pending_remove t e s) = os_weight s"
  "os_calls (pending_remove t e s) = os_calls s"
  "os_info (pending_remove t e s) = os_info s"
  "os_reader (pending_remove t e s) = os_reader s"
  "os_abort (pending_remove t e s) = os_abort s"
  "os_stream (pending_remove t e s) = os_stream s"
  "os_out (pending_remove t e s) = os_out s"
  "os_default_call_timeout (pending_remove t e s) = os_default_call_timeout s"
  "os_write_timeout (pending_remove t e s) = os_write_timeout s"
  by (auto simp: pending_remove_def remove_entry_def split: option.splits prod.splits if_splits)

lemma frame_drop_sel [simp]:
  "os_limits (frame_drop complete written s) = os_limits s"
  "os_xids (frame_drop complete written s) = os_xids s"
  "os_admission (frame_drop complete written s) = os_admission s"
  "os_terminal (frame_drop complete written s) = os_terminal s"
  "os_channel (frame_drop complete written s) = os_channel s"
  "os_refs (frame_drop complete written s) = os_refs s"
  "os_weight (frame_drop complete written s) = os_weight s"
  "os_calls (frame_drop complete written s) = os_calls s"
  "os_info (frame_drop complete written s) = os_info s"
  "os_reader (frame_drop complete written s) = os_reader s"
  "os_stream (frame_drop complete written s) = os_stream s"
  "os_default_call_timeout (frame_drop complete written s) = os_default_call_timeout s"
  "os_write_timeout (frame_drop complete written s) = os_write_timeout s"
  by (simp_all add: frame_drop_def Let_def)

end
