(* ===== verification/Owned_Ownership.thy ===== *)
theory Owned_Ownership
  imports Owned_Transport
begin

text \<open>
  Who owns what in the multiplexed connection. Every registered call has exactly one sender,
  which is in the map, in the reader's hands or on its way to be failed, until the call's
  channel has its answer; a permit has one owner per sender and per future. So no call is
  left without an answer and no permit is lost or returned twice.
\<close>

section \<open>Owners\<close>

fun work_sender :: "'r work \<Rightarrow> nat option" where
  "work_sender (StopPending t e so) = (if so = None then None else Some t)"
| "work_sender (FailSender t e so) = Some t"
| "work_sender CloseAdmission = None"

fun reader_holds :: "'r owned_reader \<Rightarrow> nat option" where
  "reader_holds (RdReceiving _ _ t _) = Some t"
| "reader_holds _ = None"

fun reader_key :: "'r owned_reader \<Rightarrow> (xid \<times> nat) option" where
  "reader_key (RdReceiving _ xid_bytes t _) = Some (Xid (be_to_u32 xid_bytes), t)"
| "reader_key (RdDraining _ x token) = map_option (Pair x) token"
| "reader_key (RdClosing x token _) = map_option (Pair x) token"
| "reader_key _ = None"

fun future_refs :: "'r owned_call \<Rightarrow> nat" where
  "future_refs (OcAdmitted _ _) = 2"
| "future_refs OcLocking = 1"
| "future_refs (OcWriting _ _) = 1"
| "future_refs (OcStopping _ _) = 1"
| "future_refs (OcAwaiting _) = 1"
| "future_refs OcPanicked = 1"
| "future_refs _ = 0"

definition live_call :: "'r owned_call \<Rightarrow> bool" where
  "live_call c \<longleftrightarrow> future_refs c = 1"

fun fresh_call :: "'r owned_call \<Rightarrow> bool" where
  "fresh_call OcIdle = True"
| "fresh_call (OcRefused _) = True"
| "fresh_call (OcAdmitted _ _) = True"
| "fresh_call _ = False"

lemma live_calls [simp]:
  "live_call OcLocking" "live_call (OcWriting schedule b)" "live_call (OcStopping e a)" "live_call (OcAwaiting b)" "live_call OcPanicked"
  "\<not> live_call OcIdle" "\<not> live_call (OcRefused r)" "\<not> live_call (OcAdmitted q p)" "\<not> live_call (OcDone d)" "\<not> live_call OcDropped"
  by (simp_all add: live_call_def)

lemma live_not_fresh: "live_call c \<Longrightarrow> \<not> fresh_call c"
  by (cases c) simp_all

definition map_senders :: "(xid \<times> nat \<times> 'r sender option) list \<Rightarrow> nat \<Rightarrow> nat" where
  "map_senders pending t = length (filter (\<lambda>e. fst (snd e) = t \<and> snd (snd e) \<noteq> None) pending)"

definition work_senders :: "'r work list \<Rightarrow> nat \<Rightarrow> nat" where
  "work_senders ws t = length (filter (\<lambda>w. work_sender w = Some t) ws)"

definition one_if :: "bool \<Rightarrow> nat" where
  "one_if b = (if b then 1 else 0)"

lemma one_if_simps [simp]: "one_if True = 1" "one_if False = 0" "b \<Longrightarrow> one_if b = 1" "\<not> b \<Longrightarrow> one_if b = 0"
  by (simp_all add: one_if_def)

text \<open>\<open>missing\<close> is a call whose sender a step has in its hands.\<close>

definition senders_ok :: "nat option \<Rightarrow> 'r owned \<Rightarrow> bool" where
  "senders_ok missing s \<longleftrightarrow> (\<forall>t. map_senders (os_pending s) t + work_senders (os_work s) t +
     one_if (reader_holds (os_reader s) = Some t) + one_if (missing = Some t) = one_if (os_channel s t = ChanOpen))"

definition refs_ok :: "'r owned \<Rightarrow> bool" where
  "refs_ok s \<longleftrightarrow> (\<forall>t. os_refs s t = future_refs (os_calls s t) + one_if (os_channel s t = ChanOpen) \<and>
     (fresh_call (os_calls s t) \<longrightarrow> os_channel s t = ChanNone) \<and> (live_call (os_calls s t) \<longrightarrow> os_channel s t \<noteq> ChanNone))"

definition entries_ok :: "'r owned \<Rightarrow> bool" where
  "entries_ok s \<longleftrightarrow> distinct (map fst (os_pending s)) \<and> (os_closed s \<noteq> None \<longrightarrow> os_pending s = []) \<and>
     (\<forall>x t so. (x, t, so) \<in> set (os_pending s) \<longrightarrow> ci_xid (os_info s t) = x \<and> live_call (os_calls s t) \<and>
        (so = None \<longleftrightarrow> reader_key (os_reader s) = Some (x, t))) \<and>
     (\<forall>x t. reader_key (os_reader s) = Some (x, t) \<longrightarrow> ci_xid (os_info s t) = x \<and> os_channel s t \<noteq> ChanNone)"

text \<open>The permits alive are those with an owner, and the budget's counters are their number and weight.\<close>

definition live_permits :: "'r owned \<Rightarrow> nat multiset" where
  "live_permits s = image_mset (os_weight s) (mset_set {t. os_refs s t \<noteq> 0})"

definition permits_ok :: "'r owned \<Rightarrow> bool" where
  "permits_ok s \<longleftrightarrow> finite {t. os_refs s t \<noteq> 0} \<and> accounted (adm_limits (os_admission s)) (os_admission s, live_permits s)"

text \<open>
  A message delivered to a call is a reply with the call's identifier; an owned receive is
  always delivered with its receiver.
\<close>

fun good_delivery :: "call_info \<Rightarrow> 'r delivery \<Rightarrow> bool" where
  "good_delivery i (ReplyOf r) = (\<forall>m. r = Inr m \<longrightarrow> msg_xid m = ci_xid i \<and> is_reply (msg_body m))"
| "good_delivery i (OutcomeOf r rv n) = (\<forall>m. r = Inr m \<longrightarrow> msg_xid m = ci_xid i \<and> is_reply (msg_body m))"

fun with_receiver :: "'r delivery \<Rightarrow> bool" where
  "with_receiver (OutcomeOf r rv n) = True"
| "with_receiver (ReplyOf r) = False"

definition sender_for :: "call_info \<Rightarrow> 'r sender \<Rightarrow> bool" where
  "sender_for i so \<longleftrightarrow> (so \<noteq> Buffered \<longleftrightarrow> ci_into i)"

fun work_kind :: "'r work \<Rightarrow> (nat \<times> 'r sender) option" where
  "work_kind (StopPending t e so) = map_option (Pair t) so"
| "work_kind (FailSender t e so) = Some (t, so)"
| "work_kind CloseAdmission = None"

fun call_delivery :: "'r owned_call \<Rightarrow> 'r delivery option" where
  "call_delivery (OcDone d) = Some d"
| "call_delivery (OcStopping e (AfterReturn d)) = Some d"
| "call_delivery _ = None"

definition deliveries_ok :: "'r owned \<Rightarrow> bool" where
  "deliveries_ok s \<longleftrightarrow>
     (\<forall>t d. os_channel s t = ChanSent d \<longrightarrow> good_delivery (os_info s t) d \<and> (with_receiver d \<longleftrightarrow> ci_into (os_info s t))) \<and>
     (\<forall>t d. call_delivery (os_calls s t) = Some d \<longrightarrow> good_delivery (os_info s t) d) \<and>
     (\<forall>t. ci_into (os_info s t) \<longrightarrow> os_channel s t \<noteq> ChanClosed) \<and> (\<forall>t. os_calls s t \<noteq> OcPanicked) \<and>
     (\<forall>x t so. (x, t, Some so) \<in> set (os_pending s) \<longrightarrow> sender_for (os_info s t) so) \<and>
     (\<forall>w t so. w \<in> set (os_work s) \<longrightarrow> work_kind w = Some (t, so) \<longrightarrow> sender_for (os_info s t) so) \<and>
     (\<forall>rec xb t so. os_reader s = RdReceiving rec xb t so \<longrightarrow> length xb = 4 \<and> sender_for (os_info s t) so)"

definition owned_inv :: "nat option \<Rightarrow> 'r owned \<Rightarrow> bool" where
  "owned_inv missing s \<longleftrightarrow> senders_ok missing s \<and> refs_ok s \<and> entries_ok s \<and> permits_ok s \<and> deliveries_ok s"

lemma owned_invD:
  "owned_inv missing s \<Longrightarrow> senders_ok missing s" "owned_inv missing s \<Longrightarrow> refs_ok s" "owned_inv missing s \<Longrightarrow> entries_ok s"
  "owned_inv missing s \<Longrightarrow> permits_ok s" "owned_inv missing s \<Longrightarrow> deliveries_ok s"
  by (simp_all add: owned_inv_def)

lemma deliveriesD:
  assumes "owned_inv missing s"
  shows "os_calls s t \<noteq> OcPanicked" "ci_into (os_info s t) \<Longrightarrow> os_channel s t \<noteq> ChanClosed"
    "os_channel s t = ChanSent d \<Longrightarrow> with_receiver d = ci_into (os_info s t)" "call_delivery (os_calls s t) = Some d \<Longrightarrow> good_delivery (os_info s t) d"
  using owned_invD(5) [OF assms] by (simp_all add: deliveries_ok_def)

lemma map_senders_simps [simp]:
  "map_senders [] t = 0"
  "map_senders ((x, u, so) # es) t = one_if (u = t \<and> so \<noteq> None) + map_senders es t"
  by (auto simp: map_senders_def one_if_def)

lemma work_senders_simps [simp]:
  "work_senders [] t = 0"
  "work_senders (w # ws) t = one_if (work_sender w = Some t) + work_senders ws t"
  "work_senders (vs @ ws) t = work_senders vs t + work_senders ws t"
  by (simp_all add: work_senders_def one_if_def)

lemma work_senders_fail [simp]:
  "work_senders (map (\<lambda>(x, t, sender). StopPending t e sender) ps) t = map_senders ps t"
  by (induction ps) (auto simp: one_if_def split: if_splits)

text \<open>What none of the three parts looks at.\<close>

lemma owned_inv_cong:
  assumes "os_pending s' = os_pending s" "os_work s' = os_work s" "os_reader s' = os_reader s" "os_channel s' = os_channel s"
    "os_refs s' = os_refs s" "os_calls s' = os_calls s" "os_info s' = os_info s" "os_closed s' = os_closed s"
    "os_weight s' = os_weight s" "os_admission s' = os_admission s"
  shows "owned_inv missing s' = owned_inv missing s"
  by (simp only: owned_inv_def senders_ok_def refs_ok_def entries_ok_def permits_ok_def live_permits_def deliveries_ok_def assms)

lemma owned_inv_updates [simp]:
  "owned_inv missing (control_stop t e s) = owned_inv missing s"
  "owned_inv missing (snd (control_finish t r s)) = owned_inv missing s"
  "owned_inv missing (abort_reader s) = owned_inv missing s"
  "owned_inv missing (s\<lparr>os_lock := l\<rparr>) = owned_inv missing s"
  "owned_inv missing (s\<lparr>os_writer := wr\<rparr>) = owned_inv missing s"
  "owned_inv missing (s\<lparr>os_out := bs\<rparr>) = owned_inv missing s"
  "owned_inv missing (s\<lparr>os_xids := n\<rparr>) = owned_inv missing s"
  "owned_inv missing (s\<lparr>os_stream := es\<rparr>) = owned_inv missing s"
  by (rule owned_inv_cong; simp)+

lemma owned_inv_close_admission [simp]:
  "owned_inv missing (s\<lparr>os_admission := close_admission (os_admission s)\<rparr>) = owned_inv missing s"
  unfolding owned_inv_def senders_ok_def refs_ok_def entries_ok_def deliveries_ok_def
  by (simp add: permits_ok_def live_permits_def accounted_def close_admission_def)

section \<open>The primitives\<close>

lemma owned_inv_fail:
  assumes "owned_inv missing s"
  shows "owned_inv missing (state_fail e s)"
proof (cases "os_closed s")
  case None
  let ?s = "state_fail e s"
  have "senders_ok missing ?s" "refs_ok ?s" "entries_ok ?s"
    using assms None by (simp_all add: owned_inv_def state_fail_def senders_ok_def refs_ok_def entries_ok_def ac_simps)
  moreover have "permits_ok ?s" using owned_invD(4) [OF assms] by (simp add: permits_ok_def live_permits_def)
  moreover have "deliveries_ok ?s" using owned_invD(5) [OF assms] None by (fastforce simp: deliveries_ok_def state_fail_def)
  ultimately show ?thesis by (simp add: owned_inv_def)
qed (use assms in \<open>simp add: state_fail_def\<close>)

lemma entry_unique:
  assumes "entries_ok s" "(x, t, so) \<in> set (os_pending s)" "(y, t, so') \<in> set (os_pending s)"
  shows "x = y \<and> so = so'"
  using assms unfolding entries_ok_def by (metis eq_key_imp_eq_value prod.inject)

lemma map_senders_remove:
  "distinct (map fst ps) \<Longrightarrow> map_of ps x = Some (u, so) \<Longrightarrow>
   map_senders ps t = map_senders (filter (\<lambda>e. fst e \<noteq> x) ps) t + one_if (u = t \<and> so \<noteq> None)"
proof (induction ps)
  case (Cons e ps)
  obtain y v so' where e: "e = (y, v, so')" by (cases e)
  show ?case
  proof (cases "y = x")
    case True
    with Cons.prems e have "filter (\<lambda>e. fst e \<noteq> x) ps = ps" by (force simp: filter_id_conv)
    with Cons.prems e True show ?thesis by auto
  next
    case False
    with Cons e show ?thesis by auto
  qed
qed simp

text \<open>Removing the entry of a call puts its sender into the hands of the step.\<close>

lemma remove_entry_cases:
  assumes "entries_ok s" "remove_entry x t s = (sender, s')" "ci_xid (os_info s t) = x"
  shows "os_pending s' = filter (\<lambda>e. fst (snd e) \<noteq> t) (os_pending s)"
    and "map_senders (os_pending s) u = map_senders (os_pending s') u + one_if (t = u \<and> sender \<noteq> None)"
    and "sender \<noteq> None \<longrightarrow> reader_key (os_reader s) \<noteq> Some (x, t)"
    and "s' = s\<lparr>os_pending := os_pending s'\<rparr>"
proof -
  from assms(1) have d: "distinct (map fst (os_pending s))"
    and keys: "\<And>y v so. (y, v, so) \<in> set (os_pending s) \<Longrightarrow> ci_xid (os_info s v) = y \<and> (so = None \<longleftrightarrow> reader_key (os_reader s) = Some (y, v))"
    by (auto simp: entries_ok_def)
  have none: "filter (\<lambda>e. fst (snd e) \<noteq> t) (os_pending s) = os_pending s" if "\<And>so. (x, t, so) \<notin> set (os_pending s)"
    using that keys assms(3) by (force simp: filter_id_conv)
  consider (own) so where "map_of (os_pending s) x = Some (t, so)" | (other) "\<And>so. map_of (os_pending s) x \<noteq> Some (t, so)" by blast
  then have "os_pending s' = filter (\<lambda>e. fst (snd e) \<noteq> t) (os_pending s) \<and>
      map_senders (os_pending s) u = map_senders (os_pending s') u + one_if (t = u \<and> sender \<noteq> None) \<and>
      (sender \<noteq> None \<longrightarrow> reader_key (os_reader s) \<noteq> Some (x, t)) \<and> s' = s\<lparr>os_pending := os_pending s'\<rparr>"
  proof cases
    case own
    have same: "fst e \<noteq> x \<longleftrightarrow> fst (snd e) \<noteq> t" if "e \<in> set (os_pending s)" for e
    proof -
      obtain y v so' where e: "e = (y, v, so')" by (cases e)
      with that keys [of y v so'] assms(3) own d show ?thesis
        by (auto dest: map_of_SomeD eq_key_imp_eq_value)
    qed
    have flt: "filter (\<lambda>e. fst e \<noteq> x) (os_pending s) = filter (\<lambda>e. fst (snd e) \<noteq> t) (os_pending s)"
      by (rule filter_cong [OF refl same])
    from own assms(2) have s': "sender = so" "s' = s\<lparr>os_pending := filter (\<lambda>e. fst e \<noteq> x) (os_pending s)\<rparr>"
      by (auto simp: remove_entry_def)
    from map_senders_remove [OF d own, of u] keys [OF map_of_SomeD [OF own]] s' flt show ?thesis by auto
  next
    case other
    then have "(x, t, so) \<notin> set (os_pending s)" for so using d by (metis map_of_is_SomeI)
    with other assms(2) none show ?thesis by (auto simp: remove_entry_def split: option.splits if_splits)
  qed
  then show "os_pending s' = filter (\<lambda>e. fst (snd e) \<noteq> t) (os_pending s)"
    and "map_senders (os_pending s) u = map_senders (os_pending s') u + one_if (t = u \<and> sender \<noteq> None)"
    and "sender \<noteq> None \<longrightarrow> reader_key (os_reader s) \<noteq> Some (x, t)"
    and "s' = s\<lparr>os_pending := os_pending s'\<rparr>" by blast+
qed

lemma owned_inv_removed:
  assumes inv: "owned_inv missing s" and rm: "remove_entry x t s = (sender, s')" and x: "ci_xid (os_info s t) = x" and m: "missing = None \<or> sender = None"
  shows "owned_inv (if sender = None then missing else Some t) s'" "\<And>y so. (y, t, so) \<notin> set (os_pending s')"
    "sender \<noteq> None \<Longrightarrow> reader_key (os_reader s) \<noteq> Some (x, t)" "os_info s' = os_info s" "os_calls s' = os_calls s" "os_reader s' = os_reader s"
    "\<And>so. sender = Some so \<Longrightarrow> sender_for (os_info s t) so"
proof -
  note r = remove_entry_cases [OF owned_invD(3) [OF inv] rm x]
  have sel: "os_work s' = os_work s" "os_reader s' = os_reader s" "os_channel s' = os_channel s" "os_refs s' = os_refs s" "os_calls s' = os_calls s"
    "os_info s' = os_info s" "os_closed s' = os_closed s" "os_weight s' = os_weight s" "os_admission s' = os_admission s" by (subst r(4), simp)+
  have "senders_ok (if sender = None then missing else Some t) s'"
    using owned_invD(1) [OF inv] m r(2) unfolding senders_ok_def sel by (cases sender) (fastforce simp: ac_simps)+
  moreover have "refs_ok s'" using owned_invD(2) [OF inv] unfolding refs_ok_def sel .
  moreover have "entries_ok s'" using owned_invD(3) [OF inv] unfolding entries_ok_def sel r(1) by (auto simp: distinct_map_filter)
  moreover have "permits_ok s'" using owned_invD(4) [OF inv] unfolding permits_ok_def live_permits_def sel .
  moreover have "deliveries_ok s'" using owned_invD(5) [OF inv] unfolding deliveries_ok_def sel r(1) by auto
  ultimately show "owned_inv (if sender = None then missing else Some t) s'" by (simp add: owned_inv_def)
  show "\<And>y so. (y, t, so) \<notin> set (os_pending s')" using r(1) by simp
  show "sender \<noteq> None \<Longrightarrow> reader_key (os_reader s) \<noteq> Some (x, t)" using r(3) by blast
  show "os_info s' = os_info s" "os_calls s' = os_calls s" "os_reader s' = os_reader s" using sel by simp_all
  fix so
  assume "sender = Some so"
  with rm have "(x, t, Some so) \<in> set (os_pending s)"
    by (auto simp: remove_entry_def split: option.splits if_splits dest: map_of_SomeD)
  with owned_invD(5) [OF inv] show "sender_for (os_info s t) so" by (simp add: deliveries_ok_def)
qed

lemma owned_inv_push:
  assumes "owned_inv (Some t) s" "sender_for (os_info s t) so"
  shows "owned_inv None (s\<lparr>os_work := os_work s @ [FailSender t e so]\<rparr>)" (is "owned_inv None ?s")
proof -
  have "senders_ok None ?s" "refs_ok ?s" "entries_ok ?s"
    using assms(1) by (simp_all add: owned_inv_def senders_ok_def refs_ok_def entries_ok_def ac_simps)
  moreover have "permits_ok ?s" using owned_invD(4) [OF assms(1)] by (simp add: permits_ok_def live_permits_def)
  moreover have "deliveries_ok ?s" using owned_invD(5) [OF assms(1)] assms(2) by (auto simp: deliveries_ok_def)
  ultimately show ?thesis by (simp add: owned_inv_def)
qed

lemma owned_inv_pending_remove:
  assumes "owned_inv None s"
  shows "owned_inv None (pending_remove t e s)" "(y, t, so) \<notin> set (os_pending (pending_remove t e s))"
proof -
  obtain sender s' where rm: "remove_entry (ci_xid (os_info s t)) t s = (sender, s')" by fastforce
  note r = owned_inv_removed [OF assms rm refl]
  have "owned_inv (if sender = None then None else Some t) s'" "(y, t, so) \<notin> set (os_pending s')" by (rule r; simp)+
  moreover have "sender_for (os_info s' t) so'" if "sender = Some so'" for so' using r(4,7) that by simp
  ultimately show "owned_inv None (pending_remove t e s)" "(y, t, so) \<notin> set (os_pending (pending_remove t e s))"
    using owned_inv_push [of t s'] by (cases sender; simp add: pending_remove_def rm)+
qed

lemma owned_inv_take_work:
  assumes "owned_inv None s" "os_work s = before @ w # after"
  shows "owned_inv (work_sender w) (s\<lparr>os_work := before @ after\<rparr>)" (is "owned_inv _ ?s")
    and "work_kind w = Some (t, so) \<Longrightarrow> sender_for (os_info s t) so"
proof -
  have "senders_ok (work_sender w) ?s" "refs_ok ?s" "entries_ok ?s"
    using assms by (simp_all add: owned_inv_def senders_ok_def refs_ok_def entries_ok_def ac_simps)
  moreover have "permits_ok ?s" using owned_invD(4) [OF assms(1)] by (simp add: permits_ok_def live_permits_def)
  moreover have "deliveries_ok ?s" using owned_invD(5) [OF assms(1)] assms(2) by (auto simp: deliveries_ok_def)
  ultimately show "owned_inv (work_sender w) ?s" by (simp add: owned_inv_def)
  show "work_kind w = Some (t, so) \<Longrightarrow> sender_for (os_info s t) so"
    using owned_invD(5) [OF assms(1)] assms(2) by (simp add: deliveries_ok_def)
qed

lemma os_refs_release [simp]: "os_refs (release t s) = (os_refs s)(t := os_refs s t - 1)"
  by (simp add: release_def Let_def split: option.splits)

lemma missing_open:
  assumes "owned_inv (Some t) s"
  shows "os_channel s t = ChanOpen"
proof (rule ccontr)
  assume "os_channel s t \<noteq> ChanOpen"
  with spec [OF owned_invD(1) [OF assms, unfolded senders_ok_def], of t] show False by simp
qed

text \<open>Dropping an owner of a permit keeps the budget accounted for.\<close>

lemma permits_ok_release:
  assumes ok: "permits_ok s" and t: "0 < os_refs s t"
  shows "permits_ok (release t s)"
proof (cases "os_refs s t = 1")
  case True
  have fin: "finite {u. os_refs s u \<noteq> 0}" and acc: "accounted (adm_limits (os_admission s)) (os_admission s, live_permits s)"
    using ok by (simp_all add: permits_ok_def)
  from t have mem: "t \<in> {u. os_refs s u \<noteq> 0}" by simp
  then have "os_weight s t \<in># live_permits s" using fin by (auto simp: live_permits_def)
  from accounted_release [OF acc this] obtain a where
    a: "drop_permit (os_weight s t) (os_admission s) = Some a" "accounted (adm_limits (os_admission s)) (a, live_permits s - {#os_weight s t#})" by blast
  have "{u. ((os_refs s)(t := os_refs s t - 1)) u \<noteq> 0} = {u. os_refs s u \<noteq> 0} - {t}" using True by auto
  then have live: "live_permits (release t s) = live_permits s - {#os_weight s t#}"
    using mset_set_Diff [OF fin, of "{t}"] mem fin image_mset_Diff [of "{#t#}" "mset_set {u. os_refs s u \<noteq> 0}" "os_weight s"]
    by (simp add: live_permits_def)
  have adm: "os_admission (release t s) = a" using a(1) True by (simp add: release_def)
  have "adm_limits a = adm_limits (os_admission s)" using a(2) by (simp add: accounted_def)
  with a(2) live adm fin show ?thesis by (auto simp: permits_ok_def elim: rev_finite_subset)
next
  case False
  with t have "os_admission (release t s) = os_admission s" "{u. ((os_refs s)(t := os_refs s t - 1)) u \<noteq> 0} = {u. os_refs s u \<noteq> 0}"
    by (auto simp: release_def Let_def)
  with ok show ?thesis by (simp add: permits_ok_def live_permits_def del: fun_upd_apply)
qed

text \<open>An answer, or the drop of an unsent sender, uses up the sender the step has in its hands.\<close>

lemma owned_inv_close_channel:
  assumes inv: "owned_inv (Some t) s" and c: "c \<noteq> ChanOpen" "c \<noteq> ChanNone"
    and d: "\<And>d. c = ChanSent d \<Longrightarrow> good_delivery (os_info s t) d \<and> (with_receiver d \<longleftrightarrow> ci_into (os_info s t))"
    and cl: "c = ChanClosed \<Longrightarrow> \<not> ci_into (os_info s t)"
  shows "owned_inv None (release t (s\<lparr>os_channel := (os_channel s)(t := c)\<rparr>))" (is "owned_inv None ?s")
proof -
  note op = missing_open [OF inv]
  have "senders_ok None ?s"
    unfolding senders_ok_def
  proof
    fix u
    from spec [OF owned_invD(1) [OF inv, unfolded senders_ok_def], of u] op c(1)
    show "map_senders (os_pending ?s) u + work_senders (os_work ?s) u + one_if (reader_holds (os_reader ?s) = Some u) + one_if (None = Some u) =
        one_if (os_channel ?s u = ChanOpen)"
      by (cases "u = t") simp_all
  qed
  moreover have "refs_ok ?s"
    using owned_invD(2) [OF inv] op c unfolding refs_ok_def by (auto simp: one_if_def)
  moreover have "entries_ok ?s"
    using owned_invD(3) [OF inv] c(2) unfolding entries_ok_def by auto
  moreover have "permits_ok ?s"
  proof (rule permits_ok_release)
    show "permits_ok (s\<lparr>os_channel := (os_channel s)(t := c)\<rparr>)" using owned_invD(4) [OF inv] by (simp add: permits_ok_def live_permits_def)
    from spec [OF owned_invD(2) [OF inv, unfolded refs_ok_def], of t] op show "0 < os_refs (s\<lparr>os_channel := (os_channel s)(t := c)\<rparr>) t" by simp
  qed
  moreover have "deliveries_ok ?s"
    using owned_invD(5) [OF inv] d cl unfolding deliveries_ok_def by auto
  ultimately show ?thesis by (simp add: owned_inv_def)
qed

lemma owned_inv_answer:
  "owned_inv (Some t) s \<Longrightarrow> good_delivery (os_info s t) d \<Longrightarrow> with_receiver d = ci_into (os_info s t) \<Longrightarrow> owned_inv None (answer t d s)"
  unfolding answer_def by (rule owned_inv_close_channel) auto

lemma control_finish_result:
  "fst (control_finish t v s) = v \<or> (\<exists>e. fst (control_finish t v s) = Inl e)"
  by (simp add: control_finish_def split: option.splits sum.splits)

lemma owned_inv_target_finish:
  assumes "owned_inv (Some t) s" "ci_into (os_info s t)" "\<And>m. h = Inr m \<Longrightarrow> msg_xid m = ci_xid (os_info s t) \<and> is_reply (msg_body m)"
  shows "owned_inv None (target_finish t tg h s)"
  unfolding target_finish_def split_def
  by (rule owned_inv_answer) (use assms control_finish_result [of t h s] in auto)

lemma owned_inv_sender_fail:
  "owned_inv (Some t) s \<Longrightarrow> sender_for (os_info s t) so \<Longrightarrow> owned_inv None (sender_fail t e so s)"
  by (cases so) (auto simp: sender_fail_def sender_for_def intro: owned_inv_answer owned_inv_target_finish)

lemma owned_inv_sender_drop:
  "owned_inv (Some t) s \<Longrightarrow> sender_for (os_info s t) so \<Longrightarrow> owned_inv None (sender_drop t so s)"
  by (cases so) (auto simp: sender_drop_def sender_for_def intro: owned_inv_close_channel owned_inv_target_finish)

text \<open>A live call moves on, leaves, or never registered.\<close>

lemma owned_inv_set_call:
  assumes inv: "owned_inv missing s" and live: "live_call (os_calls s t)" "live_call c"
    and d: "\<forall>d. call_delivery c = Some d \<longrightarrow> good_delivery (os_info s t) d" and p: "c \<noteq> OcPanicked"
  shows "owned_inv missing (set_call t c s)"
proof -
  have "senders_ok missing (set_call t c s)" "refs_ok (set_call t c s)" "entries_ok (set_call t c s)"
    using inv live live_not_fresh unfolding owned_inv_def senders_ok_def refs_ok_def entries_ok_def
    by (auto simp: set_call_def live_call_def)
  moreover have "permits_ok (set_call t c s)" using owned_invD(4) [OF inv] by (simp add: permits_ok_def live_permits_def)
  moreover have "deliveries_ok (set_call t c s)" using owned_invD(5) [OF inv] d p unfolding deliveries_ok_def by (simp add: set_call_def)
  ultimately show ?thesis by (simp add: owned_inv_def)
qed

lemma owned_inv_leave:
  assumes inv: "owned_inv None s" and live: "live_call (os_calls s t)" and c: "future_refs c = 0" "\<not> fresh_call c"
    and gone: "\<And>y so. (y, t, so) \<notin> set (os_pending s)"
    and d: "\<forall>d. call_delivery c = Some d \<longrightarrow> good_delivery (os_info s t) d"
  shows "owned_inv None (release t (set_call t c s))"
proof -
  have "senders_ok None (release t (set_call t c s))" "refs_ok (release t (set_call t c s))" "entries_ok (release t (set_call t c s))"
    using inv live c gone unfolding owned_inv_def senders_ok_def refs_ok_def entries_ok_def
    by (auto simp: set_call_def live_call_def)
  moreover have "permits_ok (release t (set_call t c s))"
  proof (rule permits_ok_release)
    show "permits_ok (set_call t c s)" using owned_invD(4) [OF inv] by (simp add: permits_ok_def live_permits_def)
    from spec [OF owned_invD(2) [OF inv, unfolded refs_ok_def], of t] live show "0 < os_refs (set_call t c s) t" by (simp add: live_call_def)
  qed
  moreover have "deliveries_ok (release t (set_call t c s))"
    using owned_invD(5) [OF inv] d c unfolding deliveries_ok_def by (auto simp: set_call_def)
  ultimately show ?thesis by (simp add: owned_inv_def)
qed

section \<open>The steps\<close>

lemma owned_inv_stop_call:
  "owned_inv missing s \<Longrightarrow> live_call (os_calls s t) \<Longrightarrow> (\<forall>d. a = AfterReturn d \<longrightarrow> good_delivery (os_info s t) d) \<Longrightarrow>
   owned_inv missing (stop_call t e a s)"
  unfolding stop_call_def by (rule owned_inv_set_call) (cases a, simp_all)+

lemma owned_inv_frame_drop: "owned_inv missing s \<Longrightarrow> owned_inv missing (frame_drop complete written s)"
  by (auto simp: frame_drop_def Let_def owned_inv_fail)

lemma owned_inv_send_finish:
  assumes "owned_inv missing s" "live_call (os_calls s t)"
  shows "owned_inv missing (send_finish t result written s)"
  using assms
  by (cases result) (simp_all add: send_finish_def owned_inv_set_call owned_inv_stop_call owned_inv_frame_drop owned_inv_fail)

lemma owned_inv_send_lock:
  assumes "owned_inv missing s" "live_call (os_calls s t)"
  shows "owned_inv missing (send_lock p t s)"
  using assms by (auto simp: send_lock_def owned_inv_stop_call owned_inv_set_call split: option.split)

lemma owned_inv_send_poll:
  assumes "owned_inv missing s" "live_call (os_calls s t)"
  shows "owned_inv missing (owned_send_poll p t schedule stopped s)"
  unfolding owned_send_poll_def Let_def
  by (auto simp: assms owned_inv_stop_call owned_inv_set_call owned_inv_send_finish split: option.split sum.split halt.split)

lemma owned_inv_stop_remove:
  assumes "owned_inv None s" and call: "os_calls s t = OcStopping e a"
  shows "owned_inv None (stop_remove t e a s)"
proof -
  have rm: "owned_inv None (pending_remove t e s)" "\<And>y so. (y, t, so) \<notin> set (os_pending (pending_remove t e s))"
    by (rule owned_inv_pending_remove [OF assms(1)])+
  have "good_delivery (os_info s t) d" if "a = AfterReturn d" for d
    using owned_invD(5) [OF assms(1)] call that unfolding deliveries_ok_def by (metis call_delivery.simps(2))
  then show ?thesis
    by (cases a) (simp_all add: stop_remove_def Let_def rm call owned_inv_set_call owned_inv_send_finish owned_inv_leave)
qed

text \<open>An owned receive that waits still has its sender or has its outcome: the \<^verbatim>\<open>expect\<close> of its channel holds.\<close>

lemma owned_inv_await:
  assumes inv: "owned_inv missing s" and live: "live_call (os_calls s t)"
  shows "owned_inv missing (await_response p t handled s)"
proof -
  from owned_invD(5) [OF inv] have "good_delivery (os_info s t) d" if "os_channel s t = ChanSent d" for d
    using that by (simp add: deliveries_ok_def)
  moreover from owned_invD(2) [OF inv] live have "os_channel s t \<noteq> ChanNone" by (simp add: refs_ok_def)
  moreover from owned_invD(5) [OF inv] have "\<not> ci_into (os_info s t)" if "os_channel s t = ChanClosed"
    using that by (auto simp: deliveries_ok_def)
  ultimately show ?thesis
    using inv live by (auto simp: await_response_def owned_inv_stop_call owned_inv_set_call split: channel.split option.split)
qed

lemma fresh_facts:
  assumes inv: "owned_inv missing s" and fresh: "fresh_call (os_calls s t)"
  shows "os_channel s t = ChanNone" "os_refs s t = future_refs (os_calls s t)" "(y, t, so) \<notin> set (os_pending s)"
    "reader_key (os_reader s) \<noteq> Some (y, t)" "w \<in> set (os_work s) \<Longrightarrow> work_kind w \<noteq> Some (t, so')" "os_reader s \<noteq> RdReceiving rec xb t so'"
proof -
  from spec [OF owned_invD(2) [OF inv, unfolded refs_ok_def], of t] fresh
  show none: "os_channel s t = ChanNone" and "os_refs s t = future_refs (os_calls s t)" by simp_all
  show "(y, t, so) \<notin> set (os_pending s)"
    using owned_invD(3) [OF inv] fresh live_not_fresh unfolding entries_ok_def by blast
  show key: "reader_key (os_reader s) \<noteq> Some (y, t)" for y
    using owned_invD(3) [OF inv] none unfolding entries_ok_def by blast
  show "os_reader s \<noteq> RdReceiving rec xb t so'" using key by (metis reader_key.simps(1))
  assume w: "w \<in> set (os_work s)"
  from spec [OF owned_invD(1) [OF inv, unfolded senders_ok_def], of t] none have "work_senders (os_work s) t = 0" by simp
  with w have "work_sender w \<noteq> Some t" by (auto simp: work_senders_def filter_empty_conv)
  then show "work_kind w \<noteq> Some (t, so')" by (cases w) auto
qed

lemma owned_inv_unregistered:
  assumes inv: "owned_inv None s" and t: "os_calls s t = OcAdmitted q options" and c: "future_refs c = 0" "\<not> fresh_call c"
    and d: "\<forall>d. call_delivery c = Some d \<longrightarrow> good_delivery (os_info s t) d"
  shows "owned_inv None (release t (release t (set_call t c s)))" (is "owned_inv None ?s")
proof -
  note f = fresh_facts [OF inv, of t, unfolded t, simplified]
  have "senders_ok None ?s" "refs_ok ?s" "entries_ok ?s"
    using inv c f(1-4) t unfolding owned_inv_def senders_ok_def refs_ok_def entries_ok_def
    by (auto simp: set_call_def live_call_def)
  moreover have "permits_ok ?s"
  proof (rule permits_ok_release, rule permits_ok_release)
    show "permits_ok (set_call t c s)" using owned_invD(4) [OF inv] by (simp add: permits_ok_def live_permits_def)
  qed (use f(2) in simp_all)
  moreover have "deliveries_ok ?s"
    using owned_invD(5) [OF inv] d c unfolding deliveries_ok_def by (auto simp: set_call_def)
  ultimately show ?thesis by (simp add: owned_inv_def)
qed

lemma owned_inv_register_sender:
  assumes inv: "owned_inv None s" and t: "os_calls s t = OcAdmitted q opts" and err: "\<And>i e. good_delivery i (f e)"
  shows "owned_inv None (register_sender t x parts options so f s)"
proof -
  note fr = fresh_facts [OF inv, of t, unfolded t, simplified]
  have un: "owned_inv None (unregistered t (f e) s)" for e
    using owned_inv_unregistered [OF inv t, of "OcDone (f e)"] err by (simp add: unregistered_def)
  have reg: "owned_inv None (set_call t OcLocking (s\<lparr>os_pending := (x, t, Some so) # os_pending s,
           os_channel := (os_channel s)(t := ChanOpen), os_terminal := (os_terminal s)(t := None),
           os_info := (os_info s)(t := i)\<rparr>))" (is "owned_inv None ?s")
    if i: "os_closed s = None" "map_of (os_pending s) x = None" "ci_xid i = x" "sender_for i so" for i
  proof -
    have "senders_ok None ?s"
      unfolding senders_ok_def
    proof
      fix u
      from spec [OF owned_invD(1) [OF inv, unfolded senders_ok_def], of u] fr(1)
      show "map_senders (os_pending ?s) u + work_senders (os_work ?s) u + one_if (reader_holds (os_reader ?s) = Some u) + one_if (None = Some u) =
          one_if (os_channel ?s u = ChanOpen)"
        by (cases "u = t") (simp_all add: set_call_def)
    qed
    moreover have "refs_ok ?s" using owned_invD(2) [OF inv] fr(1,2) unfolding refs_ok_def by (auto simp: set_call_def)
    moreover have "entries_ok ?s"
      using owned_invD(3) [OF inv] fr(3,4) i map_of_eq_None_iff [of "os_pending s" x] unfolding entries_ok_def
      by (auto simp: set_call_def)
    moreover have "permits_ok ?s" using owned_invD(4) [OF inv] by (simp add: permits_ok_def live_permits_def)
    moreover have "deliveries_ok ?s" using owned_invD(5) [OF inv] fr(3,5,6) i(4) unfolding deliveries_ok_def by (auto simp: set_call_def)
    ultimately show ?thesis by (simp add: owned_inv_def)
  qed
  show ?thesis using un reg by (cases "map_of (os_pending s) x") (simp_all add: register_sender_def sender_for_def split: option.split)
qed

lemma owned_inv_register:
  assumes "owned_inv None s"
  shows "owned_inv None (call_register t s)"
proof -
  have un: "owned_inv None (unregistered t (ReplyOf (Inl e)) s)" if "os_calls s t = OcAdmitted q options" for q options e
    using owned_inv_unregistered [OF assms that, of "OcDone (ReplyOf (Inl e))"] by (simp add: unregistered_def)
  show ?thesis
    using assms un owned_inv_register_sender [OF assms]
    by (auto simp: call_register_def split: owned_call.split request.split sum.split)
qed

lemma permits_ok_acquire:
  assumes ok: "permits_ok s" and t: "os_refs s t = 0" and acq: "try_acquire charge (os_admission s) = (Inr permit, a)"
  shows "permits_ok (s\<lparr>os_admission := a, os_weight := (os_weight s)(t := permit), os_refs := (os_refs s)(t := 2), os_calls := cs\<rparr>)" (is "permits_ok ?s")
proof -
  have fin: "finite {u. os_refs s u \<noteq> 0}" and acc: "accounted (adm_limits (os_admission s)) (os_admission s, live_permits s)"
    using ok by (simp_all add: permits_ok_def)
  have set: "{u. ((os_refs s)(t := 2)) u \<noteq> 0} = insert t {u. os_refs s u \<noteq> 0}" by auto
  have "image_mset ((os_weight s)(t := permit)) (mset_set {u. os_refs s u \<noteq> 0}) = image_mset (os_weight s) (mset_set {u. os_refs s u \<noteq> 0})"
    by (rule image_mset_cong) (use t fin in auto)
  with fin t have "image_mset ((os_weight s)(t := permit)) (mset_set (insert t {u. os_refs s u \<noteq> 0})) = add_mset permit (live_permits s)"
    by (simp add: live_permits_def)
  then have live: "live_permits ?s = add_mset permit (live_permits s)" unfolding set [symmetric] by (simp add: live_permits_def)
  have "adm_limits a = adm_limits (os_admission s)" using acq by (auto simp: try_acquire_Inr)
  with accounted_step [OF adm_step.acquire [OF acq] acc] live fin set show ?thesis
    by (simp add: permits_ok_def del: fun_upd_apply)
qed

lemma owned_inv_admit:
  assumes inv: "owned_inv None s" and t: "os_calls s t = OcIdle"
  shows "owned_inv None (admit t charge request options s)" "owned_inv None (s\<lparr>os_calls := (os_calls s)(t := OcRefused r)\<rparr>)"
proof -
  note f = fresh_facts [OF inv, of t, unfolded t, simplified]
  show ref: "owned_inv None (s\<lparr>os_calls := (os_calls s)(t := OcRefused r)\<rparr>)" (is "owned_inv None ?s") for r
  proof -
    have "senders_ok None ?s" using owned_invD(1) [OF inv] by (simp add: senders_ok_def)
    moreover have "refs_ok ?s" using owned_invD(2) [OF inv] f(1,2) unfolding refs_ok_def by auto
    moreover have "entries_ok ?s" using owned_invD(3) [OF inv] f(3) unfolding entries_ok_def by auto
    moreover have "permits_ok ?s" using owned_invD(4) [OF inv] by (simp add: permits_ok_def live_permits_def)
    moreover have "deliveries_ok ?s" using owned_invD(5) [OF inv] unfolding deliveries_ok_def by auto
    ultimately show ?thesis by (simp add: owned_inv_def)
  qed
  have "owned_inv None (s\<lparr>os_admission := a, os_weight := (os_weight s)(t := permit), os_refs := (os_refs s)(t := 2),
           os_calls := (os_calls s)(t := OcAdmitted request options)\<rparr>)" (is "owned_inv None ?s")
    if acq: "try_acquire charge (os_admission s) = (Inr permit, a)" for a permit
  proof -
    have "senders_ok None ?s" using owned_invD(1) [OF inv] by (simp add: senders_ok_def)
    moreover have "refs_ok ?s" using owned_invD(2) [OF inv] f(1,2) unfolding refs_ok_def by auto
    moreover have "entries_ok ?s" using owned_invD(3) [OF inv] f(3) unfolding entries_ok_def by auto
    moreover have "deliveries_ok ?s" using owned_invD(5) [OF inv] unfolding deliveries_ok_def by auto
    moreover have "permits_ok ?s" by (rule permits_ok_acquire [OF owned_invD(4) [OF inv] f(2) acq])
    ultimately show ?thesis by (simp add: owned_inv_def)
  qed
  moreover have "owned_inv None (s\<lparr>os_calls := (os_calls s)(t := OcRefused r), os_admission := a\<rparr>)"
    if "try_acquire charge (os_admission s) = (Inl r, a)" for r a
    using ref [of r] that owned_inv_cong [of "s\<lparr>os_calls := (os_calls s)(t := OcRefused r), os_admission := a\<rparr>" "s\<lparr>os_calls := (os_calls s)(t := OcRefused r)\<rparr>"]
    by (simp add: try_acquire_Inl)
  ultimately show "owned_inv None (admit t charge request options s)"
    by (auto simp: admit_def split: sum.split prod.split)
qed

lemma owned_inv_try_call: "owned_inv None s \<Longrightarrow> os_calls s t = OcIdle \<Longrightarrow> owned_inv None (owned_try_call sizes t request options s)"
  by (auto simp: owned_try_call_def owned_inv_admit split: sum.split)

lemma owned_inv_try_call_into:
  "owned_inv None s \<Longrightarrow> os_calls s t = OcIdle \<Longrightarrow> owned_inv None (owned_try_call_into sizes t parts receiver options s)"
  by (auto simp: owned_try_call_into_def owned_inv_admit split: sum.split option.split)

lemma owned_inv_poll:
  assumes "owned_inv None s"
  shows "owned_inv None (call_poll p t s)"
  using assms
  by (auto simp: call_poll_def owned_inv_register owned_inv_send_lock owned_inv_send_poll owned_inv_stop_remove owned_inv_await split: owned_call.split)

lemma owned_inv_drop:
  assumes "owned_inv None s"
  shows "owned_inv None (call_drop t s)"
proof -
  have "owned_inv None (release t (release t (set_call t OcDropped s)))" if "os_calls s t = OcAdmitted q options" for q options
    using owned_inv_unregistered [OF assms that, of OcDropped] by simp
  with assms show ?thesis
    by (auto simp: call_drop_def owned_inv_stop_call owned_inv_frame_drop split: owned_call.split)
qed

lemma owned_inv_run_work:
  assumes inv: "owned_inv (work_sender w) s" and kind: "\<And>t so. work_kind w = Some (t, so) \<Longrightarrow> sender_for (os_info s t) so"
  shows "owned_inv None (run_work w s)"
proof (cases w)
  case (StopPending t e so)
  with inv kind owned_inv_push [of t "control_stop t e s"] show ?thesis
    by (cases so) (simp_all add: run_work_def Let_def)
next
  case (FailSender t e so)
  have "owned_inv None (sender_fail t e' so (snd (control_finish t (Inl e :: runtime_error + unit) s)))" for e'
    by (rule owned_inv_sender_fail) (use inv kind FailSender in simp_all)
  moreover have "\<exists>e'. fst (control_finish t (Inl e :: runtime_error + unit) s) = Inl e'"
    by (simp add: control_finish_def split: option.splits sum.splits)
  ultimately show ?thesis using FailSender by (auto simp: run_work_def split_def)
qed (use inv in \<open>simp add: run_work_def\<close>)

lemma owned_inv_close: "owned_inv None s \<Longrightarrow> owned_inv None (close_transport s)"
  by (simp add: close_transport_def Let_def owned_inv_fail)

section \<open>The reader\<close>

lemma release_reader: "(release t s)\<lparr>os_reader := r\<rparr> = release t (s\<lparr>os_reader := r\<rparr>)"
  by (simp add: release_def Let_def split: option.split)

lemma answer_reader: "(answer t d s)\<lparr>os_reader := r\<rparr> = answer t d (s\<lparr>os_reader := r\<rparr>)"
  by (cases s) (simp add: answer_def release_reader)

lemma control_finish_reader:
  "(snd (control_finish t v s))\<lparr>os_reader := r\<rparr> = snd (control_finish t v (s\<lparr>os_reader := r\<rparr>))"
  "fst (control_finish t v (s\<lparr>os_reader := r\<rparr>)) = fst (control_finish t v s)"
  by (simp_all add: control_finish_def split: option.split sum.split)

lemma target_finish_reader: "(target_finish t tg h s)\<lparr>os_reader := r\<rparr> = target_finish t tg h (s\<lparr>os_reader := r\<rparr>)"
  by (simp add: target_finish_def split_def answer_reader control_finish_reader)

lemma sender_drop_reader: "(sender_drop t so s)\<lparr>os_reader := r\<rparr> = sender_drop t so (s\<lparr>os_reader := r\<rparr>)"
  by (cases so; cases s) (simp_all add: sender_drop_def release_reader target_finish_reader)

lemma state_fail_reader: "(state_fail e s)\<lparr>os_reader := r\<rparr> = state_fail e (s\<lparr>os_reader := r\<rparr>)"
  by (simp add: state_fail_def split: option.split)

text \<open>The reader lets go of a sender and keeps its entry in mind.\<close>

lemma owned_inv_let_go:
  assumes inv: "owned_inv None s" and rd: "os_reader s = RdReceiving rec xb t so"
    and r: "reader_holds r = None" "reader_key r = Some (Xid (be_to_u32 xb), t)"
  shows "owned_inv (Some t) (s\<lparr>os_reader := r\<rparr>)"
proof -
  have "senders_ok (Some t) (s\<lparr>os_reader := r\<rparr>)"
    using owned_invD(1) [OF inv] rd r unfolding senders_ok_def by simp
  moreover have "refs_ok (s\<lparr>os_reader := r\<rparr>)" using owned_invD(2) [OF inv] unfolding refs_ok_def by simp
  moreover have "entries_ok (s\<lparr>os_reader := r\<rparr>)" using owned_invD(3) [OF inv] rd r unfolding entries_ok_def by simp
  moreover have "permits_ok (s\<lparr>os_reader := r\<rparr>)" using owned_invD(4) [OF inv] by (simp add: permits_ok_def live_permits_def)
  moreover have "deliveries_ok (s\<lparr>os_reader := r\<rparr>)" using owned_invD(5) [OF inv] r(1) unfolding deliveries_ok_def by auto
  ultimately show ?thesis by (simp add: owned_inv_def)
qed

lemma owned_inv_new_reader:
  assumes inv: "owned_inv None s" and h: "reader_holds (os_reader s) = None" "reader_holds r = None"
    and key: "reader_key r = reader_key (os_reader s) \<or> reader_key r = None \<and> (\<forall>y t so. reader_key (os_reader s) = Some (y, t) \<longrightarrow> (y, t, so) \<notin> set (os_pending s))"
  shows "owned_inv None (s\<lparr>os_reader := r\<rparr>)"
proof -
  have "senders_ok None (s\<lparr>os_reader := r\<rparr>)" using owned_invD(1) [OF inv] h unfolding senders_ok_def by simp
  moreover have "refs_ok (s\<lparr>os_reader := r\<rparr>)" using owned_invD(2) [OF inv] unfolding refs_ok_def by simp
  moreover from key have "entries_ok (s\<lparr>os_reader := r\<rparr>)"
  proof
    assume "reader_key r = reader_key (os_reader s)"
    with owned_invD(3) [OF inv] show ?thesis unfolding entries_ok_def by simp
  next
    assume "reader_key r = None \<and> (\<forall>y t so. reader_key (os_reader s) = Some (y, t) \<longrightarrow> (y, t, so) \<notin> set (os_pending s))"
    with owned_invD(3) [OF inv] show ?thesis unfolding entries_ok_def by auto
  qed
  moreover have "permits_ok (s\<lparr>os_reader := r\<rparr>)" using owned_invD(4) [OF inv] by (simp add: permits_ok_def live_permits_def)
  moreover have "deliveries_ok (s\<lparr>os_reader := r\<rparr>)" using owned_invD(5) [OF inv] h(2) unfolding deliveries_ok_def by auto
  ultimately show ?thesis by (simp add: owned_inv_def)
qed

lemma map_senders_taken:
  "distinct (map fst ps) \<Longrightarrow> map_of ps x = Some (t, Some so) \<Longrightarrow>
   map_senders ps u = map_senders (map (\<lambda>e. if fst e = x then (x, t, None) else e) ps) u + one_if (t = u)"
proof (induction ps)
  case (Cons e ps)
  obtain y v so' where e: "e = (y, v, so')" by (cases e)
  show ?case
  proof (cases "y = x")
    case True
    with Cons.prems e have "map (\<lambda>e. if fst e = x then (x, t, None) else e) ps = ps" by (intro map_idI) (auto simp: image_iff)
    with Cons.prems e True show ?thesis by simp
  next
    case False
    with Cons e show ?thesis by simp
  qed
qed simp

lemma owned_inv_take_sender:
  assumes inv: "owned_inv None s" and rd: "os_reader s = RdIdle" and entry: "map_of (os_pending s) x = Some (t, Some so)" and x: "x = Xid (be_to_u32 xb)" and len: "length xb = 4"
  shows "owned_inv None (s\<lparr>os_pending := map (\<lambda>e. if fst e = x then (x, t, None) else e) (os_pending s), os_reader := RdReceiving rec xb t so\<rparr>)" (is "owned_inv None ?s")
proof -
  note ent = owned_invD(3) [OF inv]
  from ent have d: "distinct (map fst (os_pending s))" by (simp add: entries_ok_def)
  note mem = map_of_SomeD [OF entry]
  have fsts: "map (fst \<circ> (\<lambda>e. if fst e = x then (x, t, None) else e)) (os_pending s) = map fst (os_pending s)" by (rule map_cong) auto
  have "senders_ok None ?s"
    unfolding senders_ok_def
  proof
    fix u
    from spec [OF owned_invD(1) [OF inv, unfolded senders_ok_def], of u] map_senders_taken [OF d entry, of u] rd
    show "map_senders (os_pending ?s) u + work_senders (os_work ?s) u + one_if (reader_holds (os_reader ?s) = Some u) + one_if (None = Some u) =
        one_if (os_channel ?s u = ChanOpen)" by simp
  qed
  moreover have "refs_ok ?s" using owned_invD(2) [OF inv] unfolding refs_ok_def by simp
  moreover have "entries_ok ?s"
  proof -
    from ent mem have t: "ci_xid (os_info s t) = x" "live_call (os_calls s t)" by (auto simp: entries_ok_def)
    with owned_invD(2) [OF inv] have "os_channel s t \<noteq> ChanNone" by (simp add: refs_ok_def)
    moreover have "v \<noteq> t" if "(y, v, so') \<in> set (os_pending s)" "y \<noteq> x" for y v so'
      using that ent t rd unfolding entries_ok_def by auto
    moreover have "(y, v, None) \<notin> set (os_pending s)" for y v
      using ent rd unfolding entries_ok_def by auto
    moreover have "os_closed s = None" using ent mem unfolding entries_ok_def by (metis empty_iff list.set(1))
    moreover note ent [unfolded entries_ok_def rd]
    ultimately show ?thesis
      unfolding entries_ok_def using t x d by (auto simp: fsts [unfolded x] split: if_splits)
  qed
  moreover have "permits_ok ?s" using owned_invD(4) [OF inv] by (simp add: permits_ok_def live_permits_def)
  moreover have "deliveries_ok ?s" using owned_invD(5) [OF inv] mem len unfolding deliveries_ok_def by (auto split: if_splits)
  ultimately show ?thesis by (simp add: owned_inv_def)
qed

lemma owned_inv_lookup:
  assumes inv: "owned_inv None s" and rd: "os_reader s = RdIdle" and run: "receive_lookup s = Some s'"
  shows "owned_inv None s'"
proof -
  have idle: "owned_inv None (s\<lparr>os_reader := r\<rparr>)" if "reader_holds r = None" "reader_key r = None" for r
    by (rule owned_inv_new_reader [OF inv]) (simp_all add: rd that)
  have none: "map_of (os_pending s) x \<noteq> Some (t, None)" for x t
    using owned_invD(3) [OF inv] rd unfolding entries_ok_def by (auto dest: map_of_SomeD)
  show ?thesis
  proof (cases "record_reader_new (os_stream s) (os_limits s)")
    case (Inl e)
    with run idle [of "RdFailing e"] show ?thesis by (auto simp: receive_lookup_def)
  next
    case (Inr r0)
    obtain res rec xb where rx: "reader_read_exact 4 (r0, []) = (res, rec, xb)" by (cases "reader_read_exact 4 (r0, [])") auto
    have ok: ?thesis if "res = Inr u" for u
    proof (cases "map_of (os_pending s) (Xid (be_to_u32 xb))")
      case None
      with run Inr rx that idle [of "RdDraining rec (Xid (be_to_u32 xb)) None"] show ?thesis by (auto simp: receive_lookup_def Let_def)
    next
      case (Some e)
      obtain t so where e: "e = (t, Some so)" using none [of "Xid (be_to_u32 xb)"] Some by (cases e; cases "snd e") auto
      have "length xb = 4" using read_exact_length [of 4 r0 "[]" u rec xb] rx that by simp
      from owned_inv_take_sender [OF inv rd Some [unfolded e] refl this] run Inr rx that Some e show ?thesis
        by (auto simp: receive_lookup_def Let_def)
    qed
    have "owned_inv None (s\<lparr>os_reader := RdFailing e, os_stream := es\<rparr>)" for e es
      using idle [of "RdFailing e"] by simp
    with run Inr rx ok show ?thesis
      by (cases res; cases "projl res") (auto simp: receive_lookup_def)
  qed
qed

text \<open>After an answer the reader drains or closes, still holding the key of its call.\<close>

lemma after_receive_alt:
  "after_receive stopped result rec x t s =
     (s\<lparr>os_reader := (if stopped \<noteq> None then RdDraining rec x (Some t) else RdClosing x (Some t) result)\<rparr>)
       \<lparr>os_stream := (if stopped \<noteq> None then os_stream s else rr_stream rec)\<rparr>"
  by (cases s) (simp add: after_receive_def)

lemma receiving_facts:
  assumes inv: "owned_inv None s" and rd: "os_reader s = RdReceiving rec0 xb t so"
  shows "ci_xid (os_info s t) = Xid (be_to_u32 xb)" "length xb = 4" "sender_for (os_info s t) so"
proof -
  show "ci_xid (os_info s t) = Xid (be_to_u32 xb)" using owned_invD(3) [OF inv] rd by (simp add: entries_ok_def)
  show "length xb = 4" "sender_for (os_info s t) so" using owned_invD(5) [OF inv] rd by (auto simp: deliveries_ok_def)
qed

lemma owned_inv_answered:
  assumes inv: "owned_inv None s" and rd: "os_reader s = RdReceiving rec0 xb t so" and x: "x = Xid (be_to_u32 xb)"
  shows "good_delivery (os_info s t) d \<Longrightarrow> with_receiver d = ci_into (os_info s t) \<Longrightarrow>
      owned_inv None (after_receive stopped result rec x t (answer t d (snd (control_finish t v s))))"
    "ci_into (os_info s t) \<Longrightarrow> (\<And>m. h = Inr m \<Longrightarrow> msg_xid m = x \<and> is_reply (msg_body m)) \<Longrightarrow>
      owned_inv None (after_receive stopped result rec x t (target_finish t tg h (snd (control_finish t v s))))"
proof -
  let ?r = "if stopped \<noteq> None then RdDraining rec x (Some t) else RdClosing x (Some t) result"
  have go: "owned_inv (Some t) (snd (control_finish t v s)\<lparr>os_reader := ?r\<rparr>)"
    by (rule owned_inv_let_go [of _ rec0 xb t so]) (use inv rd x in simp_all)
  show "owned_inv None (after_receive stopped result rec x t (answer t d (snd (control_finish t v s))))"
    if "good_delivery (os_info s t) d" "with_receiver d = ci_into (os_info s t)"
    unfolding after_receive_alt answer_reader owned_inv_updates by (rule owned_inv_answer [OF go]) (use that in simp_all)
  show "owned_inv None (after_receive stopped result rec x t (target_finish t tg h (snd (control_finish t v s))))"
    if "ci_into (os_info s t)" "\<And>m. h = Inr m \<Longrightarrow> msg_xid m = x \<and> is_reply (msg_body m)"
    unfolding after_receive_alt target_finish_reader owned_inv_updates
    by (rule owned_inv_target_finish [OF go]) (use that x receiving_facts(1) [OF inv rd] in simp_all)
qed

lemma fail_empties: "owned_inv missing s \<Longrightarrow> os_pending (state_fail e s) = []"
  using owned_invD(3) [of missing s] by (auto simp: state_fail_def entries_ok_def split: option.split)

lemma owned_inv_done:
  assumes "owned_inv None s" "reader_holds (os_reader s) = None" "os_pending s = []"
  shows "owned_inv None (s\<lparr>os_reader := RdDone\<rparr>)"
  by (rule owned_inv_new_reader) (use assms in simp_all)

lemma owned_inv_exit:
  assumes inv: "owned_inv None s"
  shows "owned_inv None (reader_exit s)"
proof -
  let ?ending = "\<lambda>s. (let s = state_fail ConnectionClosed s; s = (if os_lock s = None then s\<lparr>os_writer := False\<rparr> else s) in s\<lparr>os_reader := RdDone\<rparr>)"
  have fin: "owned_inv None (?ending s)" if "owned_inv None s" "reader_holds (os_reader s) = None" for s :: "'r owned"
    unfolding Let_def by (rule owned_inv_done) (use that in \<open>simp_all add: owned_inv_fail fail_empties\<close>)
  show ?thesis
  proof (cases "os_reader s")
    case (RdReceiving rec xb t so)
    let ?r = "RdClosing (Xid (be_to_u32 xb)) (Some t) (Inr ())"
    have "owned_inv (Some t) (s\<lparr>os_reader := ?r\<rparr>)" by (rule owned_inv_let_go [OF inv RdReceiving]) simp_all
    from owned_inv_sender_drop [OF this, of so] receiving_facts(3) [OF inv RdReceiving] have "owned_inv None ((sender_drop t so s)\<lparr>os_reader := ?r\<rparr>)"
      by (simp add: sender_drop_reader)
    from fin [OF this] have "owned_inv None (?ending ((sender_drop t so s)\<lparr>os_reader := ?r\<rparr>))" by simp
    moreover have "?ending ((sender_drop t so s)\<lparr>os_reader := ?r\<rparr>) = ?ending (sender_drop t so s)"
      by (simp add: Let_def state_fail_reader [symmetric])
    ultimately show ?thesis using RdReceiving by (simp add: reader_exit_def Let_def)
  qed (use fin [OF inv] in \<open>simp_all add: reader_exit_def\<close>)
qed

lemma owned_inv_buffered:
  assumes inv: "owned_inv None s" and rd: "os_reader s = RdReceiving rec xb t Buffered" and run: "receive_for_buffered rec xb t s = Some s'"
  shows "owned_inv None s'"
proof -
  obtain received rec' where rb: "receive_buffered xb rec = (received, rec')" by fastforce
  with run obtain result where result: "raced (control_error t s) received = Some result" and
    s': "s' = after_receive (control_error t (snd (control_finish t result s)))
       (case fst (control_finish t result s) of Inl e \<Rightarrow> Inl e | Inr _ \<Rightarrow> Inr ()) rec' (Xid (be_to_u32 xb)) t
       (answer t (ReplyOf (fst (control_finish t result s))) (snd (control_finish t result s)))"
    by (auto simp: receive_for_buffered_def split_def split: option.splits)
  have good: "msg_xid m = Xid (be_to_u32 xb) \<and> is_reply (msg_body m)" if "result = Inr m" for m
    using result that rb receive_buffered_reply [of xb rec m rec'] receiving_facts(2) [OF inv rd] by (auto simp: raced_def split: option.splits sum.splits halt.splits)
  show ?thesis
    unfolding s'
  proof (rule owned_inv_answered(1) [OF inv rd refl])
    show "good_delivery (os_info s t) (ReplyOf (fst (control_finish t result s)))"
      using good receiving_facts(1) [OF inv rd] control_finish_result [of t result s] by auto
  qed (use receiving_facts(3) [OF inv rd] in \<open>simp add: sender_for_def\<close>)
qed

lemma owned_inv_segmented:
  assumes inv: "owned_inv None s" and rd: "os_reader s = RdReceiving rec xb t (Segmented tg)" and run: "receive_for_segmented api rec xb t tg s = Some s'"
  shows "owned_inv None s'"
proof -
  obtain received rec' tg' where rs: "receive_segmented api xb (rec, tg) = (received, rec', tg')"
    by (cases "receive_segmented api xb (rec, tg)") auto
  show ?thesis
  proof (cases "received = Inl IndexPanic")
    case True
    with rs have "fst (reply_header xb rec) = Inl IndexPanic"
      by (auto simp: receive_segmented_def Let_def map_err_def map_sum_def split: prod.splits sum.splits filled.splits if_splits)
    with reply_header_no_panic [OF receiving_facts(2) [OF inv rd]] show ?thesis by simp
  next
    case False
    let ?raced = "raced (control_error t s) (map_err (\<lambda>e. case e of Halted h \<Rightarrow> h | IndexPanic \<Rightarrow> Dropped) received)"
    from False run rs obtain result where result: "?raced = Some result"
      by (auto simp: receive_for_segmented_def split: sum.splits receive_halt.splits option.splits)
    obtain final s1 where cf: "control_finish t result s = (final, s1)" by fastforce
    then have s1: "s1 = snd (control_finish t result s)" by simp
    have final: "final = result \<or> (\<exists>e. final = Inl e)" using control_finish_result [of t result s] cf by simp
    have good: "msg_xid h = Xid (be_to_u32 xb) \<and> is_reply (msg_body h)" if "final = Inr (h, n)" for h n
      using final that result rs receive_segmented_reply [of api xb rec tg h n rec' tg'] receiving_facts(2) [OF inv rd]
      by (cases received) (auto simp: raced_def map_err_def split: option.splits sum.splits halt.splits receive_halt.splits)
    have "\<exists>stopped res h. s' = after_receive stopped res rec' (Xid (be_to_u32 xb)) t (target_finish t tg' h s1) \<and>
        (\<forall>m. h = Inr m \<longrightarrow> (\<exists>n. final = Inr (m, n)))"
    proof (cases final)
      case (Inr hn)
      obtain h n where hn: "hn = (h, n)" by fastforce
      with False run rs result cf Inr show ?thesis
        by (intro exI [of _ None] exI [of _ "Inr ()"] exI [of _ "if n \<noteq> usize_max then Inr h else Inl (Transport ''RPC reply exceeds caller buffer capacity'')"])
          (auto simp: receive_for_segmented_def Let_def split: sum.splits receive_halt.splits)
    qed (use False run rs result cf in \<open>auto simp: receive_for_segmented_def Let_def split: sum.splits receive_halt.splits\<close>)
    then obtain stopped res h where s': "s' = after_receive stopped res rec' (Xid (be_to_u32 xb)) t (target_finish t tg' h s1)"
      and h: "\<And>m. h = Inr m \<Longrightarrow> \<exists>n. final = Inr (m, n)" by blast
    show ?thesis
      unfolding s' s1
      by (rule owned_inv_answered(2) [OF inv rd refl]) (use receiving_facts(3) [OF inv rd] good h in \<open>auto simp: sender_for_def\<close>)
  qed
qed

lemma owned_inv_reader:
  assumes inv: "owned_inv None s" and run: "reader_step api s = Some s'"
  shows "owned_inv None s'"
proof (cases "os_reader s")
  case RdIdle
  with owned_inv_lookup [OF inv RdIdle] run show ?thesis by (simp add: reader_step_def)
next
  case (RdReceiving rec xb t so)
  with owned_inv_buffered [OF inv] owned_inv_segmented [OF inv] run show ?thesis
    by (cases so) (auto simp: reader_step_def)
next
  case (RdDraining rec x token)
  have "owned_inv None (s\<lparr>os_reader := RdClosing x token r, os_stream := es\<rparr>)" for r es
    using owned_inv_new_reader [OF inv, of "RdClosing x token r"] RdDraining by simp
  with run RdDraining show ?thesis
    by (auto simp: reader_step_def split: prod.splits sum.splits halt.splits)
next
  case (RdClosing x token result)
  let ?s = "case token of Some t \<Rightarrow> snd (remove_entry x t s) | None \<Rightarrow> s"
  have "owned_inv None ?s \<and> (\<forall>y t so. reader_key (os_reader ?s) = Some (y, t) \<longrightarrow> (y, t, so) \<notin> set (os_pending ?s)) \<and> os_reader ?s = os_reader s"
  proof (cases token)
    case (Some t)
    obtain sender s1 where rm: "remove_entry x t s = (sender, s1)" by fastforce
    from RdClosing Some have key: "reader_key (os_reader s) = Some (x, t)" by simp
    with owned_invD(3) [OF inv] have x: "ci_xid (os_info s t) = x" by (simp add: entries_ok_def)
    note r = owned_inv_removed [OF inv rm x]
    from r(3) key have "sender = None" by blast
    with r(1,2) r(6) Some rm key show ?thesis by auto
  qed (use inv RdClosing in simp)
  then have "owned_inv None (?s\<lparr>os_reader := (case result of Inl e \<Rightarrow> RdFailing e | Inr _ \<Rightarrow> RdIdle)\<rparr>)"
    using RdClosing by (intro owned_inv_new_reader) (auto split: sum.split)
  with run RdClosing show ?thesis by (simp add: reader_step_def Let_def)
next
  case (RdFailing e)
  have "owned_inv None (state_fail e s\<lparr>os_reader := RdTaking\<rparr>)"
    by (rule owned_inv_new_reader) (use owned_inv_fail [OF inv] RdFailing in simp_all)
  with run RdFailing show ?thesis by (auto simp: reader_step_def)
next
  case RdTaking
  with run owned_inv_exit [of "s\<lparr>os_writer := False\<rparr>"] inv show ?thesis by (auto simp: reader_step_def split: if_splits)
qed (use run in \<open>simp add: reader_step_def\<close>)

lemma owned_inv_step: "owned_step api s s' \<Longrightarrow> owned_inv None s \<Longrightarrow> owned_inv None s'"
proof (induction rule: owned_step.induct)
  case (work s before w after)
  from owned_inv_take_work [OF work(2,1)] show ?case by (intro owned_inv_run_work) simp_all
qed (auto intro: owned_inv_try_call owned_inv_try_call_into owned_inv_poll owned_inv_drop owned_inv_close owned_inv_reader owned_inv_exit)

lemma owned_inv_new:
  assumes "from_stream_using_admission stream config limits admission = Inr s" "accounted (adm_limits admission) (admission, {#})"
  shows "owned_inv None s"
  using assms
  by (auto simp: from_stream_using_admission_def record_limits_validate_def owned_inv_def senders_ok_def refs_ok_def entries_ok_def
      permits_ok_def live_permits_def deliveries_ok_def split: if_splits)

lemma owned_inv_steps:
  "(owned_step api)\<^sup>*\<^sup>* s s' \<Longrightarrow> owned_inv None s \<Longrightarrow> owned_inv None s'"
  by (induction rule: rtranclp_induct) (auto intro: owned_inv_step)

end
