(* ===== verification/Owned_Frames.thy ===== *)
theory Owned_Frames
  imports Owned_Ownership
begin

text \<open>
  The output of the multiplexed connection. One call at a time holds the writer; what is on the
  stream is a sequence of whole frames, each of a different call, and at most one unfinished
  frame at its end, which is being written or was abandoned with the connection.
\<close>

section \<open>Frames on the stream\<close>

definition frame_of :: "'r owned \<Rightarrow> nat \<Rightarrow> bytes" where
  "frame_of s t = framed [concat (ci_segments (os_info s t))]"

fun writing_of :: "'r owned_call \<Rightarrow> write_event list option" where
  "writing_of (OcWriting schedule b) = Some schedule"
| "writing_of (OcStopping e (AfterWrite schedule)) = Some schedule"
| "writing_of _ = None"

fun may_write :: "'r owned_call \<Rightarrow> bool" where
  "may_write OcIdle = True"
| "may_write (OcAdmitted q p) = True"
| "may_write OcLocking = True"
| "may_write c = (writing_of c \<noteq> None)"

definition wire_bytes :: "'r owned \<Rightarrow> bytes" where
  "wire_bytes s = os_out s @ (case os_lock s of
       None \<Rightarrow> []
     | Some t \<Rightarrow> (case writing_of (os_calls s t) of Some schedule \<Rightarrow> frame_bytes t schedule s | None \<Rightarrow> []))"

definition locks_ok :: "'r owned \<Rightarrow> bool" where
  "locks_ok s \<longleftrightarrow> (\<forall>t. writing_of (os_calls s t) \<noteq> None \<longleftrightarrow> os_lock s = Some t) \<and> (os_lock s \<noteq> None \<longrightarrow> os_writer s)"

definition frames_at :: "'r owned \<Rightarrow> nat list \<Rightarrow> bytes \<Rightarrow> bool" where
  "frames_at s ts partial \<longleftrightarrow> distinct ts \<and> (\<forall>t\<in>set ts. \<not> may_write (os_calls s t)) \<and>
     os_out s = concat (map (frame_of s) ts) @ partial \<and>
     (partial \<noteq> [] \<longrightarrow> os_closed s \<noteq> None \<and> \<not> os_writer s \<and>
        (\<exists>t. t \<notin> set ts \<and> \<not> may_write (os_calls s t) \<and> prefix partial (frame_of s t)))"

definition io_ok :: "'r owned \<Rightarrow> bool" where
  "io_ok s \<longleftrightarrow> locks_ok s \<and> (\<exists>ts partial. frames_at s ts partial)"

lemma writing_may_write: "writing_of c \<noteq> None \<Longrightarrow> may_write c"
  by (cases c) simp_all

lemma frame_bytes_prefix:
  "prefix (frame_bytes t schedule s) (frame_of s t)"
  "fst (write_segments (ci_segments (os_info s t)) (schedule, [])) = Inr () \<Longrightarrow> frame_bytes t schedule s = frame_of s t"
proof -
  let ?segs = "ci_segments (os_info s t)"
  have "prefix (frame_bytes t schedule s) (frame_of s t) \<and>
     (fst (write_segments ?segs (schedule, [])) = Inr () \<longrightarrow> frame_bytes t schedule s = frame_of s t)"
  proof (cases "checked_total 0 ?segs")
    case (Inl e)
    then show ?thesis by (simp add: frame_bytes_def write_segments_def)
  next
    case (Inr len)
    from frame_written_segments [OF Inr, of schedule "[]"] show ?thesis
      by (auto simp: frame_bytes_def frame_of_def frame_written_def split: prod.splits simp del: framed.simps)
  qed
  then show "prefix (frame_bytes t schedule s) (frame_of s t)"
    "fst (write_segments ?segs (schedule, [])) = Inr () \<Longrightarrow> frame_bytes t schedule s = frame_of s t" by blast+
qed

text \<open>A step that leaves lock and output alone, and lets no call back to the writer.\<close>

definition quiet :: "'r owned \<Rightarrow> 'r owned \<Rightarrow> bool" where
  "quiet s s' \<longleftrightarrow> os_lock s' = os_lock s \<and> os_out s' = os_out s \<and>
     (os_writer s' = os_writer s \<or> os_lock s = None \<and> \<not> os_writer s') \<and> (os_closed s \<noteq> None \<longrightarrow> os_closed s' \<noteq> None) \<and>
     (\<forall>u. (writing_of (os_calls s' u) = None) = (writing_of (os_calls s u) = None)) \<and>
     (\<forall>u. \<not> may_write (os_calls s u) \<longrightarrow> \<not> may_write (os_calls s' u) \<and> os_info s' u = os_info s u)"

lemma io_ok_quiet:
  assumes "io_ok s" "quiet s s'"
  shows "io_ok s'"
proof -
  from assms(1) obtain ts partial where locks: "locks_ok s" and at: "frames_at s ts partial" by (auto simp: io_ok_def)
  from assms(2) have same: "frame_of s' u = frame_of s u \<and> \<not> may_write (os_calls s' u)" if "\<not> may_write (os_calls s u)" for u
    using that by (simp add: quiet_def frame_of_def)
  have "concat (map (frame_of s') ts) = concat (map (frame_of s) ts)"
    using at same by (auto simp: frames_at_def intro!: arg_cong [of _ _ concat] map_cong)
  moreover from locks assms(2) have "locks_ok s'" by (auto simp: locks_ok_def quiet_def)
  ultimately have "frames_at s' ts partial"
    using at same assms(2) unfolding frames_at_def quiet_def by (metis (no_types, lifting))
  with \<open>locks_ok s'\<close> show ?thesis by (auto simp: io_ok_def)
qed

lemma quiet_refl [simp]: "quiet s s"
  by (simp add: quiet_def)

lemma quiet_trans [trans]: "quiet s s' \<Longrightarrow> quiet s' s'' \<Longrightarrow> quiet s s''"
  unfolding quiet_def by metis

text \<open>The end of a frame: the writer is free again, or gone if the frame is unfinished.\<close>

lemma io_ok_frame_drop:
  assumes ok: "io_ok s" and lock: "os_lock s = Some t" and c: "\<not> may_write c"
    and w: "prefix written (frame_of s t)" "complete \<Longrightarrow> written = frame_of s t"
  shows "io_ok (set_call t c (frame_drop complete written s))" (is "io_ok ?s")
proof -
  from ok obtain ts partial where locks: "locks_ok s" and at: "frames_at s ts partial" by (auto simp: io_ok_def)
  from locks lock have "os_writer s" "may_write (os_calls s t)" using writing_may_write [of "os_calls s t"] by (auto simp: locks_ok_def)
  with at have part: "partial = []" "t \<notin> set ts" by (auto simp: frames_at_def)
  have nw: "writing_of c = None" using c writing_may_write by blast
  have sel: "os_lock ?s = None" "os_out ?s = os_out s @ written" "os_info ?s = os_info s" "os_calls ?s = (os_calls s)(t := c)"
    by (auto simp: frame_drop_def Let_def set_call_def state_fail_def split: option.split)
  have gone: "os_closed ?s \<noteq> None \<and> \<not> os_writer ?s" if "\<not> complete" "written \<noteq> []"
    using that by (auto simp: frame_drop_def Let_def state_fail_def abort_reader_def split: option.split)
  have fr: "frame_of ?s = frame_of s" by (rule ext) (simp add: frame_of_def sel)
  have ts: "\<forall>u\<in>set ts. \<not> may_write (os_calls ?s u)" using at part c by (auto simp: frames_at_def sel)
  have "locks_ok ?s" using locks lock nw unfolding locks_ok_def sel by auto
  moreover have "frames_at ?s (ts @ [t]) []" if "written = frame_of s t"
    using at part c ts that unfolding frames_at_def sel fr by auto
  moreover have "frames_at ?s ts written" if "written \<noteq> frame_of s t"
  proof -
    have "\<not> complete" using that w(2) by blast
    with at part c ts that w(1) gone show ?thesis unfolding frames_at_def sel(2-4) fr by auto
  qed
  ultimately show ?thesis unfolding io_ok_def by blast
qed

section \<open>The quiet steps\<close>

lemma answer_io [simp]:
  "os_lock (answer t d s) = os_lock s" "os_out (answer t d s) = os_out s" "os_writer (answer t d s) = os_writer s"
  "os_closed (answer t d s) = os_closed s" "os_calls (answer t d s) = os_calls s" "os_info (answer t d s) = os_info s"
  by (simp_all add: answer_def)

lemma target_finish_io [simp]:
  "os_lock (target_finish t tg h s) = os_lock s" "os_out (target_finish t tg h s) = os_out s" "os_writer (target_finish t tg h s) = os_writer s"
  "os_closed (target_finish t tg h s) = os_closed s" "os_calls (target_finish t tg h s) = os_calls s" "os_info (target_finish t tg h s) = os_info s"
  by (simp_all add: target_finish_def split_def)

lemma quiet_same:
  assumes "os_lock s' = os_lock s" "os_out s' = os_out s" "os_calls s' = os_calls s" "os_info s' = os_info s"
    "os_writer s' = os_writer s \<or> os_lock s = None \<and> \<not> os_writer s'" "os_closed s \<noteq> None \<longrightarrow> os_closed s' \<noteq> None"
  shows "quiet s s'"
  using assms by (simp add: quiet_def)

lemma quiet_fail [simp]: "quiet s (state_fail e s)"
  by (rule quiet_same) (auto simp: state_fail_def split: option.split)

lemma quiet_run_work: "quiet s (run_work w s)"
  by (rule quiet_same)
     (cases w; simp add: run_work_def Let_def split_def sender_fail_def split: option.split sum.split sender.split)+

lemma quiet_after_receive: "quiet s s' \<Longrightarrow> quiet s (after_receive stopped result rd x t s')"
  by (simp add: quiet_def after_receive_def)

lemma quiet_reader_exit: "quiet s (reader_exit s)"
  by (rule quiet_same)
     (simp add: reader_exit_def sender_drop_def state_fail_def Let_def split: owned_reader.split sender.split option.split)+

lemma quiet_close: "quiet s (close_transport s)"
  by (rule quiet_same) (simp add: close_transport_def state_fail_def Let_def split: option.split)+

lemma quiet_reader:
  assumes "reader_step api s = Some s'"
  shows "quiet s s'"
proof (cases "os_reader s")
  case RdIdle
  with assms show ?thesis
    by (intro quiet_same) (auto simp: reader_step_def receive_lookup_def Let_def split: sum.splits prod.splits option.splits halt.splits)
next
  case (RdReceiving rd xb t so)
  show ?thesis
  proof (cases so)
    case Buffered
    with RdReceiving assms show ?thesis
      by (auto simp: reader_step_def receive_for_buffered_def split_def split: option.splits intro!: quiet_after_receive quiet_same)
  next
    case (Segmented tg)
    have "quiet s (reader_exit (s\<lparr>os_reader := r\<rparr>))" for r
      by (rule quiet_trans [OF quiet_same quiet_reader_exit]) simp_all
    moreover have "quiet s (target_finish t tg' h (snd (control_finish t v s)))" for tg' h and v :: "runtime_error + rpc_message \<times> nat"
      by (rule quiet_same) simp_all
    ultimately show ?thesis
      using Segmented RdReceiving assms
      by (auto simp: reader_step_def receive_for_segmented_def Let_def split_def split: option.splits sum.splits receive_halt.splits
          intro!: quiet_after_receive)
  qed
next
  case (RdDraining rd x token)
  with assms show ?thesis
    by (intro quiet_same) (auto simp: reader_step_def split: prod.splits sum.splits halt.splits)
next
  case (RdClosing x token result)
  with assms show ?thesis
    by (intro quiet_same) (auto simp: reader_step_def Let_def split: option.splits sum.splits)
next
  case (RdFailing e)
  with assms have "s' = state_fail e s\<lparr>os_reader := RdTaking\<rparr>" by (simp add: reader_step_def)
  then show ?thesis by (intro quiet_same) (auto simp: state_fail_def split: option.split)
next
  case RdTaking
  with assms have lock: "os_lock s = None" and s': "s' = reader_exit (s\<lparr>os_writer := False\<rparr>)"
    by (auto simp: reader_step_def split: if_splits)
  show ?thesis unfolding s' by (rule quiet_trans [OF quiet_same quiet_reader_exit]) (simp_all add: lock)
qed (use assms in \<open>simp add: reader_step_def\<close>)

text \<open>A call moves without the writer.\<close>

lemma quiet_set_call:
  assumes "quiet s s'" "os_calls s' t = os_calls s t" "(writing_of c = None) = (writing_of (os_calls s t) = None)"
    "\<not> may_write (os_calls s t) \<Longrightarrow> \<not> may_write c"
  shows "quiet s (set_call t c s')"
  using assms by (auto simp: quiet_def set_call_def)

lemma quiet_stop_call:
  assumes "(writing_of (OcStopping e a) = None) = (writing_of (os_calls s t) = None)" "\<not> may_write (os_calls s t) \<Longrightarrow> \<not> may_write (OcStopping e a)"
  shows "quiet s (stop_call t e a s)"
  unfolding stop_call_def by (rule quiet_set_call) (use assms in \<open>auto intro: quiet_same\<close>)

lemma quiet_release: "quiet s s' \<Longrightarrow> quiet s (release t s')"
  by (simp add: quiet_def)

lemma quiet_unregistered:
  "os_calls s t = OcAdmitted q options \<Longrightarrow> quiet s (unregistered t d s)"
  unfolding unregistered_def by (intro quiet_release quiet_set_call) simp_all

lemma quiet_register_sender:
  assumes "os_calls s t = OcAdmitted q opts"
  shows "quiet s (register_sender t x parts options so f s)"
proof -
  have "quiet s (set_call t OcLocking (s\<lparr>os_pending := p, os_channel := ch, os_terminal := te, os_info := (os_info s)(t := i)\<rparr>))" for p ch te i
    using assms by (auto simp: quiet_def set_call_def)
  with quiet_unregistered [OF assms] show ?thesis by (simp add: register_sender_def split: option.split)
qed

lemma quiet_register: "quiet s (call_register t s)"
  by (auto simp: call_register_def split: owned_call.split request.split sum.split intro!: quiet_unregistered quiet_register_sender)

lemma quiet_admit: "os_calls s t = OcIdle \<Longrightarrow> quiet s (admit t charge request options s)"
  "os_calls s t = OcIdle \<Longrightarrow> quiet s (s\<lparr>os_calls := (os_calls s)(t := OcRefused r)\<rparr>)"
  by (auto simp: quiet_def admit_def split: sum.split prod.split)

lemma quiet_try_call: "os_calls s t = OcIdle \<Longrightarrow> quiet s (owned_try_call sizes t request options s)"
  "os_calls s t = OcIdle \<Longrightarrow> quiet s (owned_try_call_into sizes t parts receiver options s)"
  by (auto simp: owned_try_call_def owned_try_call_into_def quiet_admit split: sum.split option.split)

lemma quiet_await: "os_calls s t = OcAwaiting h \<Longrightarrow> quiet s (await_response p t handled s)"
  by (auto simp: await_response_def split: channel.split option.split intro!: quiet_set_call quiet_stop_call)

section \<open>The steps of the writer\<close>

lemma io_ok_send_finish:
  assumes ok: "io_ok s" and lock: "os_lock s = Some t"
    and w: "prefix written (frame_of s t)" "result = Inr () \<Longrightarrow> written = frame_of s t"
  shows "io_ok (send_finish t result written s)"
proof (cases result)
  case (Inr u)
  with io_ok_frame_drop [OF ok lock _ w(1), of "OcAwaiting False" True] w(2) show ?thesis by (simp add: send_finish_def)
next
  case (Inl e)
  let ?s = "if written = [] \<and> benign e then s else state_fail e s"
  have "io_ok ?s" using ok io_ok_quiet [OF ok quiet_fail] by simp
  moreover have "os_lock ?s = Some t" "frame_of ?s t = frame_of s t" using lock by (simp_all add: frame_of_def)
  ultimately have "io_ok (set_call t (OcStopping e AfterSend) (frame_drop False written ?s))"
    using io_ok_frame_drop [of ?s t "OcStopping e AfterSend" written False] w(1) by simp
  moreover have "quiet (set_call t (OcStopping e AfterSend) (frame_drop False written ?s)) (stop_call t e AfterSend (frame_drop False written ?s))"
    by (simp add: stop_call_def quiet_def set_call_def)
  ultimately show ?thesis using Inl by (auto simp: send_finish_def intro: io_ok_quiet)
qed

lemma io_ok_lock:
  assumes ok: "io_ok s" and call: "os_calls s t = OcLocking"
  shows "io_ok (send_lock p t s)"
proof -
  have stop: "io_ok (stop_call t e AfterSend s)" for e
    by (rule io_ok_quiet [OF ok quiet_stop_call]) (simp_all add: call)
  moreover have "io_ok (set_call t (OcWriting [] False) (s\<lparr>os_lock := Some t\<rparr>))" if "os_lock s = None" "os_writer s"
  proof -
    have "locks_ok (set_call t (OcWriting [] False) (s\<lparr>os_lock := Some t\<rparr>))"
      using ok that by (auto simp: io_ok_def locks_ok_def set_call_def)
    moreover have "frames_at (set_call t (OcWriting [] False) (s\<lparr>os_lock := Some t\<rparr>)) ts partial" if "frames_at s ts partial" for ts partial
      using that \<open>os_writer s\<close> call unfolding frames_at_def frame_of_def by (auto simp: set_call_def)
    ultimately show ?thesis using ok by (auto simp: io_ok_def)
  qed
  ultimately show ?thesis using ok by (auto simp: send_lock_def split: option.split)
qed

lemma io_ok_send_poll:
  assumes ok: "io_ok s" and call: "os_calls s t = OcWriting schedule stopped"
  shows "io_ok (owned_send_poll p t schedule stopped s)"
proof -
  have lock: "os_lock s = Some t" using ok call by (auto simp: io_ok_def locks_ok_def)
  have "io_ok (set_call t (OcWriting sch b) s)" for sch b
    by (rule io_ok_quiet [OF ok quiet_set_call]) (simp_all add: call)
  moreover have "io_ok (stop_call t e (AfterWrite schedule) s)" for e
    by (rule io_ok_quiet [OF ok quiet_stop_call]) (simp_all add: call)
  moreover have "io_ok (send_finish t (Inl e) (frame_bytes t sch s) s)" for e sch
    by (rule io_ok_send_finish [OF ok lock frame_bytes_prefix(1)]) simp
  moreover have "io_ok (send_finish t (Inr ()) (frame_bytes t sch s) s)"
    if "fst (write_segments (ci_segments (os_info s t)) (sch, [])) = Inr ()" for sch
    by (rule io_ok_send_finish [OF ok lock frame_bytes_prefix(1) frame_bytes_prefix(2)]) (rule that)
  ultimately show ?thesis
    unfolding owned_send_poll_def Let_def by (auto split: option.split sum.split halt.split)
qed

lemma quiet_pending_remove: "quiet s (pending_remove t e s)"
  by (rule quiet_same) simp_all

lemma io_ok_stop_remove:
  assumes ok: "io_ok s" and call: "os_calls s t = OcStopping e a"
  shows "io_ok (stop_remove t e a s)"
proof -
  let ?s = "pending_remove t e s"
  note rm = quiet_pending_remove [of s t e]
  have move: "io_ok (set_call t c ?s)" "io_ok (release t (set_call t c ?s))"
    if "(writing_of c = None) = (writing_of (OcStopping e a) = None)" "may_write c \<longrightarrow> may_write (OcStopping e a)" for c
  proof -
    have "quiet s (set_call t c ?s)" by (rule quiet_set_call [OF rm]) (use that call in auto)
    then show "io_ok (set_call t c ?s)" "io_ok (release t (set_call t c ?s))" using io_ok_quiet [OF ok] quiet_release by blast+
  qed
  show ?thesis
  proof (cases a)
    case (AfterWrite schedule)
    have lock: "os_lock ?s = Some t" using ok call AfterWrite by (auto simp: io_ok_def locks_ok_def)
    have "io_ok (send_finish t (Inl e) [] ?s)" by (rule io_ok_send_finish [OF io_ok_quiet [OF ok rm] lock]) simp_all
    with move [of "OcWriting schedule True"] AfterWrite show ?thesis by (simp add: stop_remove_def Let_def)
  qed (use move in \<open>simp_all add: stop_remove_def Let_def\<close>)
qed

lemma io_ok_drop:
  assumes ok: "io_ok s"
  shows "io_ok (call_drop t s)"
proof (cases "os_calls s t")
  case (OcWriting schedule b)
  have lock: "os_lock s = Some t" using ok OcWriting by (auto simp: io_ok_def locks_ok_def)
  let ?s = "frame_drop False (frame_bytes t schedule s) s"
  have "io_ok (set_call t (OcStopping Cancelled AfterDrop) ?s)"
    by (rule io_ok_frame_drop [OF ok lock _ frame_bytes_prefix(1)]) simp_all
  moreover have "quiet (set_call t (OcStopping Cancelled AfterDrop) ?s) (stop_call t Cancelled AfterDrop ?s)"
    by (simp add: stop_call_def quiet_def set_call_def)
  ultimately show ?thesis using OcWriting by (auto simp: call_drop_def intro: io_ok_quiet)
qed (use ok in \<open>auto simp: call_drop_def intro!: io_ok_quiet [OF ok] quiet_release quiet_set_call quiet_stop_call\<close>)

lemma io_ok_poll:
  assumes "io_ok s"
  shows "io_ok (call_poll p t s)"
  using assms
  by (auto simp: call_poll_def io_ok_lock io_ok_send_poll io_ok_stop_remove split: owned_call.split
      intro: io_ok_quiet [OF assms quiet_register] io_ok_quiet [OF assms quiet_await])

lemma io_ok_step: "owned_step api s s' \<Longrightarrow> io_ok s \<Longrightarrow> io_ok s'"
proof (induction rule: owned_step.induct)
  case (allocate s)
  then show ?case by (rule io_ok_quiet) (rule quiet_same, simp_all)
next
  case (work s before w after)
  have "quiet s (s\<lparr>os_work := before @ after\<rparr>)" by (rule quiet_same) simp_all
  from io_ok_quiet [OF work(2) quiet_trans [OF this quiet_run_work]] show ?case .
qed (auto intro: io_ok_quiet quiet_try_call io_ok_poll io_ok_drop quiet_close quiet_reader quiet_reader_exit)

lemma io_ok_steps: "(owned_step api)\<^sup>*\<^sup>* s s' \<Longrightarrow> io_ok s \<Longrightarrow> io_ok s'"
  by (induction rule: rtranclp_induct) (auto intro: io_ok_step)

lemma io_ok_new: "from_stream_using_admission stream config limits admission = Inr s \<Longrightarrow> io_ok s"
  by (auto simp: from_stream_using_admission_def record_limits_validate_def io_ok_def locks_ok_def frames_at_def
      intro!: exI [of _ "[]"] split: if_splits)

end
