(* ===== verification/Owned_Properties.thy ===== *)
theory Owned_Properties
  imports Owned_Frames
begin

text \<open>
  What holds of the multiplexed connection in every state it can reach: the properties of
  \<^verbatim>\<open>OwnedRpcTransport\<close>, with a sample run on which they are applied.
\<close>

section \<open>A sample run\<close>

text \<open>One call, written in one poll, and answered.\<close>

definition sample_start :: "'r owned" where
  "sample_start = projr (from_stream_with_admission [Data (framed [message_wire null_reply])] (client_config_new (SocketV4 [127, 0, 0, 1] 111)) \<lparr>max_record_bytes = 100, max_fragments = 4\<rparr> \<lparr>max_calls = 2, max_bytes = 1000\<rparr>)"

definition sample_poll :: poll where
  "sample_poll = \<lparr>po_flags = (\<lambda>_. False), po_elapsed = False, po_write_elapsed = False, po_write = Accept 60, po_flush = Some (Inr ())\<rparr>"

definition sample_sizes :: type_sizes where
  "sample_sizes = \<lparr>size_of_message = 200, size_of_bytes = 32, size_of_receiver = 0\<rparr>"

lemma sample_starts:
  "from_stream_with_admission [Data (framed [message_wire null_reply])] (client_config_new (SocketV4 [127, 0, 0, 1] 111)) \<lparr>max_record_bytes = 100, max_fragments = 4\<rparr> \<lparr>max_calls = 2, max_bytes = 1000\<rparr> = Inr sample_start"
  by (simp add: sample_start_def from_stream_with_admission_def admission_new_def from_stream_using_admission_def record_limits_validate_def)

lemma sample_start_sel [simp]:
  "os_calls sample_start = (\<lambda>_. OcIdle)" "os_admission sample_start = \<lparr>adm_limits = \<lparr>max_calls = 2, max_bytes = 1000\<rparr>, adm_calls = 0, adm_bytes = 0, adm_closed = False\<rparr>"
  "os_closed sample_start = None" "os_pending sample_start = []" "os_lock sample_start = None" "os_writer sample_start" "os_out sample_start = []"
  "os_default_call_timeout sample_start = None"  "os_write_timeout sample_start = None" "os_reader sample_start = RdIdle"
  "os_stream sample_start = [Data (framed [message_wire null_reply])]" "os_limits sample_start = \<lparr>max_record_bytes = 100, max_fragments = 4\<rparr>"
  "os_channel sample_start = (\<lambda>_. ChanNone)" "os_terminal sample_start = (\<lambda>_. None)" "os_weight sample_start = (\<lambda>_. 0)" "os_refs sample_start = (\<lambda>_. 0)" "os_work sample_start = []"
  by (simp_all add: sample_start_def from_stream_with_admission_def admission_new_def from_stream_using_admission_def record_limits_validate_def client_config_new_def)

definition sample_admitted :: "unit owned" where
  "sample_admitted = owned_try_call sample_sizes 0 null_call call_options_new sample_start"

lemma sample_admitted_eq:
  "sample_admitted = sample_start\<lparr>os_admission := \<lparr>adm_limits = \<lparr>max_calls = 2, max_bytes = 1000\<rparr>, adm_calls = 1, adm_bytes = 244, adm_closed = False\<rparr>,
     os_weight := (\<lambda>_. 0)(0 := 244), os_refs := (\<lambda>_. 0)(0 := 2), os_calls := (\<lambda>_. OcIdle)(0 := OcAdmitted (Whole null_call) call_options_new)\<rparr>"
proof -
  have "msg_body null_call = Call (call_body_new \<lparr>pv_program = 9, pv_version = 1\<rparr> (Procedure 0) opaque_auth_none opaque_auth_none [])" by (simp add: null_call_def)
  then have "without_payload (msg_body null_call) = (msg_body null_call, 0)" by (simp add: call_body_new_def)
  then have "message_admission_bytes sample_sizes null_call = Inr 244"
    by (simp add: message_admission_bytes_def null_encodes null_length checked_add_def usize_max_def sample_sizes_def map_err_def)
  then show ?thesis
    by (simp add: sample_admitted_def owned_try_call_def admit_def try_acquire_def admission_check_def checked_add_def usize_max_def)
qed

lemma msg_xid_null: "msg_xid null_call = Xid 5"
  by (simp add: null_call_def)

definition sample_locking :: "unit owned" where
  "sample_locking = call_poll sample_poll 0 sample_admitted"

lemma sample_locking_sel:
  "os_calls sample_locking 0 = OcLocking" "os_info sample_locking 0 = \<lparr>ci_xid = Xid 5, ci_segments = [message_wire null_call], ci_options = call_options_new, ci_into = False\<rparr>"
  "os_closed sample_locking = None"  "os_lock sample_locking = None" "os_writer sample_locking" "os_out sample_locking = []"
  "os_default_call_timeout sample_locking = None"  "os_write_timeout sample_locking = None"
  by (simp_all add: sample_locking_def sample_admitted_eq call_poll_def call_register_def null_encodes register_sender_def set_call_def msg_xid_null)

definition sample_writing :: "unit owned" where
  "sample_writing = call_poll sample_poll 0 sample_locking"

lemma sample_writing_eq: "sample_writing = set_call 0 (OcWriting [] False) (sample_locking\<lparr>os_lock := Some 0\<rparr>)"
  by (simp add: sample_writing_def call_poll_def sample_locking_sel send_lock_def interrupted_call_def interrupted_def call_options_new_def
      effective_timeout_def write_deadline_def sample_poll_def)

definition sample_written :: "unit owned" where
  "sample_written = call_poll sample_poll 0 sample_writing"

lemma sample_frame:
  "fst (write_segments [message_wire null_call] ([Accept 60], [])) = Inr ()"
  "snd (snd (write_segments [message_wire null_call] ([Accept 60], []))) = framed [message_wire null_call]"
proof -
  have ne: "message_wire null_call \<noteq> []" using null_length(1) by (metis list.size(3) zero_neq_numeral)
  have "write_segments [message_wire null_call] ([Accept 60], []) = (Inr (), [], framed [message_wire null_call])"
    by (simp add: write_segments_def checked_add_def usize_max_def MAX_FRAGMENT_LEN_def null_length write_loop.simps frame_piece_def ne
        advance_cursor.simps single_frame upt_rec Let_def del: framed.simps)
  then show "fst (write_segments [message_wire null_call] ([Accept 60], [])) = Inr ()"
    "snd (snd (write_segments [message_wire null_call] ([Accept 60], []))) = framed [message_wire null_call]" by simp_all
qed

lemma sample_written_sel:
  "os_calls sample_written 0 = OcAwaiting False" "os_out sample_written = framed [message_wire null_call]" "os_lock sample_written = None"
  "os_info sample_written = os_info sample_locking"
  by (simp_all add: sample_written_def call_poll_def sample_writing_eq sample_locking_sel set_call_def owned_send_poll_def interrupted_call_def interrupted_def call_options_new_def
      effective_timeout_def write_deadline_def sample_poll_def Let_def sample_frame frame_bytes_def send_finish_def frame_drop_def del: framed.simps)

definition sample_api :: "unit reply_receiver" where
  "sample_api = \<lparr>rv_buffer = (\<lambda>r. (Inr 0, r)), rv_write = (\<lambda>bs r. r), rv_advance = (\<lambda>n r. (Inr (), r))\<rparr>"

lemma sample_steps: "(owned_step api)\<^sup>*\<^sup>* sample_start sample_written"
proof -
  have "owned_step api sample_start sample_admitted" unfolding sample_admitted_def by (rule owned_step.try_whole) simp
  moreover have poll: "owned_step api s (call_poll sample_poll 0 s)" for s by (rule owned_step.poll) (simp add: sample_poll_def)
  ultimately show ?thesis
    unfolding sample_written_def sample_writing_def sample_locking_def by (meson rtranclp.rtrancl_into_rtrancl rtranclp.rtrancl_refl)
qed
lemma unat_marker: "unat ((0x80000018 :: u32) AND MAX_FRAGMENT_LEN) = 24" by (simp add: MAX_FRAGMENT_LEN_def)

lemma sample_reads:
  fixes xb body :: bytes
  assumes "length xb = 4" "length body = 20"
  defines "lim \<equiv> \<lparr>max_record_bytes = 100, max_fragments = 4\<rparr>"
  shows "\<exists>r0 r1. record_reader_new [Data (framed [xb @ body])] lim = Inr r0 \<and>
    reader_read_exact 4 (r0, []) = (Inr (), r1, xb) \<and> fst (read_to_end xb r1) = Inr (xb @ body)"
proof -
  have fr: "framed [xb @ body] = u32_to_be 0x80000018 @ xb @ body" using assms by (simp only: single_frame) simp
  let ?r1 = "\<lparr>rr_stream = [Data body], rr_limits = lim, rr_fragments = 1, rr_record_bytes = 28,
                rr_remaining = 20, rr_last = True, rr_marker = u32_to_be 0x80000018, rr_marker_used = 0\<rparr>"
  have ne: "xb \<noteq> []" "body \<noteq> []" using assms by auto
  have "reader_read_exact 4 (\<lparr>rr_stream = [Data (framed [xb @ body])], rr_limits = lim, rr_fragments = 0, rr_record_bytes = 0,
                rr_remaining = 0, rr_last = False, rr_marker = [0, 0, 0, 0], rr_marker_used = 0\<rparr>, []) = (Inr (), ?r1, xb)"
    using assms ne by (simp add: fr reader_read_exact.simps read_some_def next_fragment.simps fill_marker.simps accept_marker_def and_then_def unat_marker checked_add_def usize_max_def Let_def lim_def del: framed.simps)
  moreover have "fst (read_to_end xb ?r1) = Inr (xb @ body)"
    using assms ne by (simp add: read_to_end.simps read_some_def next_fragment.simps Let_def)
  ultimately show ?thesis by (auto simp: record_reader_new_def lim_def)
qed

definition sample_looked_up :: "unit reply_receiver \<Rightarrow> unit owned" where
  "sample_looked_up api = the (reader_step api sample_written)"

definition sample_answered :: "unit reply_receiver \<Rightarrow> unit owned" where
  "sample_answered api = the (reader_step api (sample_looked_up api))"

definition sample_done :: "unit reply_receiver \<Rightarrow> unit owned" where
  "sample_done api = call_poll sample_poll 0 (call_poll sample_poll 0 (sample_answered api))"

lemma sample_pending:
  "os_pending sample_written = [(Xid 5, 0, Some Buffered)]" "os_reader sample_written = RdIdle" "os_stream sample_written = [Data (framed [message_wire null_reply])]"
  "os_limits sample_written = \<lparr>max_record_bytes = 100, max_fragments = 4\<rparr>" "os_terminal sample_written 0 = None" "os_closed sample_written = None" "os_work sample_written = []"
  by (simp_all add: sample_written_def call_poll_def sample_writing_eq sample_locking_sel set_call_def owned_send_poll_def interrupted_call_def interrupted_def call_options_new_def
      effective_timeout_def write_deadline_def sample_poll_def Let_def sample_frame frame_bytes_def send_finish_def frame_drop_def del: framed.simps)
    (simp_all add: sample_locking_def sample_admitted_eq call_poll_def call_register_def null_encodes register_sender_def set_call_def msg_xid_null)

lemma sample_receives:
  "\<exists>s. reader_step api sample_written = Some s \<and> (\<exists>s'. reader_step api s = Some s' \<and> os_calls s' = os_calls sample_written \<and>
     os_channel s' 0 = ChanSent (ReplyOf (Inr null_reply)) \<and> os_info s' = os_info sample_written)"
proof -
  define body where "body = drop 4 (message_wire null_reply)"
  have wire: "message_wire null_reply = u32_to_be 5 @ body" by (simp add: body_def message_wire_def null_reply_def)
  have "length body = 20" using null_length(2) by (simp add: wire)
  from sample_reads [OF _ this, of "u32_to_be 5"] obtain r0 r1 r2 where r:
    "record_reader_new [Data (framed [message_wire null_reply])] \<lparr>max_record_bytes = 100, max_fragments = 4\<rparr> = Inr r0"
    "reader_read_exact 4 (r0, []) = (Inr (), r1, u32_to_be 5)" "read_to_end (u32_to_be 5) r1 = (Inr (message_wire null_reply), r2)"
    unfolding wire by (metis length_to_be(2) prod.collapse)
  let ?s = "sample_written\<lparr>os_pending := [(Xid 5, 0, None)], os_reader := RdReceiving r1 (u32_to_be 5) 0 Buffered\<rparr>"
  have "reader_step api sample_written = Some ?s"
    using r(1,2) by (simp add: reader_step_def sample_pending receive_lookup_def del: framed.simps)
  moreover have "receive_buffered (u32_to_be 5) r1 = (Inr null_reply, r2)"
    using r(3) by (simp add: receive_buffered_def null_reply_decodes) (simp add: null_reply_def)
  then have "\<exists>s'. reader_step api ?s = Some s' \<and> os_calls s' = os_calls sample_written \<and>
     os_channel s' 0 = ChanSent (ReplyOf (Inr null_reply)) \<and> os_info s' = os_info sample_written"
    by (simp add: reader_step_def receive_for_buffered_def control_error_def sample_pending raced_def control_finish_def after_receive_def answer_def)
  ultimately show ?thesis by blast
qed

lemma sample_done_sel:
  "os_calls (sample_done api) 0 = OcDone (ReplyOf (Inr null_reply))" "os_info (sample_done api) 0 = os_info sample_written 0"
proof -
  from sample_receives [of api] have a: "os_calls (sample_answered api) = os_calls sample_written"
    "os_channel (sample_answered api) 0 = ChanSent (ReplyOf (Inr null_reply))" "os_info (sample_answered api) = os_info sample_written"
    by (auto simp: sample_looked_up_def sample_answered_def)
  show "os_calls (sample_done api) 0 = OcDone (ReplyOf (Inr null_reply))" "os_info (sample_done api) 0 = os_info sample_written 0"
    by (simp_all add: sample_done_def call_poll_def a sample_written_sel await_response_def stop_call_def stop_remove_def Let_def set_call_def)
qed

lemma sample_done_steps: "(owned_step api)\<^sup>*\<^sup>* sample_start (sample_done api)"
proof -
  from sample_receives [of api] obtain s s' where "reader_step api sample_written = Some s" "reader_step api s = Some s'" by blast
  then have "owned_step api sample_written (sample_looked_up api)" "owned_step api (sample_looked_up api) (sample_answered api)"
    by (simp_all add: sample_looked_up_def sample_answered_def owned_step.reader)
  moreover have poll: "owned_step api s (call_poll sample_poll 0 s)" for s by (rule owned_step.poll) (simp add: sample_poll_def)
  ultimately show ?thesis
    unfolding sample_done_def using sample_steps [of api] by (meson rtranclp.rtrancl_into_rtrancl)
qed
section \<open>The limits of a connection\<close>

abbreviation limits_of :: "'r owned \<Rightarrow> admission_limits" where
  "limits_of s \<equiv> adm_limits (os_admission s)"

lemma limits_release [simp]: "limits_of (release t s) = limits_of s"
  by (auto simp: release_def Let_def drop_permit_def split: option.splits if_splits)

lemma limits_answer [simp]: "limits_of (answer t d s) = limits_of s" "limits_of (target_finish t tg h s) = limits_of s"
  "limits_of (sender_fail t e so s) = limits_of s" "limits_of (sender_drop t so s) = limits_of s" "limits_of (stop_call t e a s) = limits_of s"
  by (simp_all add: answer_def target_finish_def sender_fail_def sender_drop_def stop_call_def split_def split: sender.split)

lemma limits_run_work: "limits_of (run_work w s) = limits_of s"
  by (auto simp: run_work_def Let_def split_def close_admission_def split: work.split option.split sum.split)

lemma limits_exit: "limits_of (reader_exit s) = limits_of s"
  by (simp add: reader_exit_def Let_def split: owned_reader.split)

lemma limits_after [simp]: "limits_of (after_receive stopped result rd x t s) = limits_of s"
  by (simp add: after_receive_def)

lemma limits_reader:
  assumes "reader_step api s = Some s'"
  shows "limits_of s' = limits_of s"
proof (cases "os_reader s")
  case (RdReceiving rd xb t so)
  with assms show ?thesis
    by (cases so) (auto simp: reader_step_def receive_for_buffered_def receive_for_segmented_def split_def Let_def limits_exit
        split: option.splits sum.splits receive_halt.splits)
qed (use assms in \<open>auto simp: reader_step_def receive_lookup_def Let_def limits_exit split: prod.splits sum.splits option.splits halt.splits if_splits\<close>)

lemma limits_send [simp]: "limits_of (send_finish t result written s) = limits_of s"
  by (simp add: send_finish_def split: sum.split)

lemma limits_poll: "limits_of (call_poll p t s) = limits_of s"
proof -
  have "limits_of (call_register t s) = limits_of s"
    by (simp add: call_register_def register_sender_def unregistered_def split: owned_call.split request.split sum.split option.split)
  moreover have "limits_of (send_lock p t s) = limits_of s" by (simp add: send_lock_def split: option.split)
  moreover have "limits_of (owned_send_poll p t schedule stopped s) = limits_of s" for schedule stopped
    by (simp add: owned_send_poll_def Let_def split: option.split sum.split halt.split)
  moreover have "limits_of (stop_remove t e a s) = limits_of s" for e a
    by (simp add: stop_remove_def Let_def split: after_stop.split)
  moreover have "limits_of (await_response p t h s) = limits_of s" for h
    by (simp add: await_response_def split: channel.split option.split)
  ultimately show ?thesis by (simp add: call_poll_def split: owned_call.split)
qed

lemma limits_admit [simp]: "limits_of (admit t charge request options s) = limits_of s"
  by (auto simp: admit_def try_acquire_Inr try_acquire_Inl split: prod.split sum.split)

lemma limits_step: "owned_step api s s' \<Longrightarrow> limits_of s' = limits_of s"
proof (induction rule: owned_step.induct)
  case (abandon s t)
  then show ?case by (simp add: call_drop_def split: owned_call.split)
next
  case (close s)
  then show ?case by (simp add: close_transport_def Let_def)
qed (auto simp: owned_try_call_def owned_try_call_into_def limits_poll limits_run_work limits_exit limits_reader split: sum.split option.split)

lemma limits_steps: "(owned_step api)\<^sup>*\<^sup>* s s' \<Longrightarrow> limits_of s' = limits_of s"
  by (induction rule: rtranclp_induct) (auto dest: limits_step)

section \<open>Work that is left\<close>

fun work_size :: "'r work \<Rightarrow> nat" where
  "work_size (StopPending t e so) = 2"
| "work_size w = 1"

lemma run_work_smaller:
  assumes "os_work s = before @ w # after"
  shows "sum_list (map work_size (os_work (run_work w (s\<lparr>os_work := before @ after\<rparr>)))) < sum_list (map work_size (os_work s))"
proof -
  have same: "os_work (answer t d s) = os_work s" "os_work (target_finish t tg h s) = os_work s" for t d tg h and s :: "'r owned"
    by (simp_all add: answer_def target_finish_def split_def)
  show ?thesis
    using assms by (cases w) (auto simp: run_work_def Let_def split_def sender_fail_def same split: option.split sum.split sender.split)
qed

section \<open>Properties\<close>

lemma admission_start:
  assumes "from_stream_with_admission stream config records limits = Inr s0"
  obtains admission where "from_stream_using_admission stream config records admission = Inr s0"
    "accounted (adm_limits admission) (admission, {#})" "adm_limits admission = limits"
  using assms by (auto simp: from_stream_with_admission_def admission_new_def accounted_def split: if_splits)

text \<open>
  C2. Whatever calls, polls, cancellations, drops, failures and the reader do, and in any order,
  the bytes given to the stream are whole frames of distinct calls, one after the other, and
  then at most one unfinished frame, which its call is still writing under the lock or which
  was abandoned, and then the connection is closed and its writer is gone.
\<close>
theorem frames_never_interleave:
  assumes "from_stream_with_admission stream config records limits = Inr s0" "(owned_step api)\<^sup>*\<^sup>* s0 s"
  shows "\<exists>ts rest. distinct ts \<and> wire_bytes s = concat (map (\<lambda>t. framed [concat (ci_segments (os_info s t))]) ts) @ rest \<and>
     (rest \<noteq> [] \<longrightarrow> (\<exists>t. t \<notin> set ts \<and> prefix rest (framed [concat (ci_segments (os_info s t))]) \<and>
        (os_lock s = Some t \<or> os_lock s = None \<and> os_closed s \<noteq> None \<and> \<not> os_writer s)))"
proof -
  from assms(1) obtain admission where "from_stream_using_admission stream config records admission = Inr s0" by (rule admission_start)
  from io_ok_steps [OF assms(2) io_ok_new [OF this]] obtain ts partial where locks: "locks_ok s" and at: "frames_at s ts partial"
    by (auto simp: io_ok_def)
  have out: "os_out s = concat (map (\<lambda>t. framed [concat (ci_segments (os_info s t))]) ts) @ partial" "distinct ts"
    using at unfolding frames_at_def frame_of_def by blast+
  show ?thesis
  proof (cases "os_lock s")
    case None
    with at out show ?thesis
      by (intro exI [of _ ts] exI [of _ partial]) (auto simp: wire_bytes_def frames_at_def frame_of_def simp del: framed.simps)
  next
    case (Some t)
    with locks obtain schedule where sch: "writing_of (os_calls s t) = Some schedule" "os_writer s" by (auto simp: locks_ok_def)
    with at writing_may_write [of "os_calls s t"] have "partial = []" "t \<notin> set ts" by (auto simp: frames_at_def)
    with out Some sch frame_bytes_prefix(1) [of t schedule s] show ?thesis
      by (intro exI [of _ ts] exI [of _ "frame_bytes t schedule s"])
         (auto simp: wire_bytes_def frame_of_def simp del: framed.simps)
  qed
qed

theorem frames_never_interleave_witness:
  "\<exists>ts rest. distinct ts \<and> framed [message_wire null_call] = concat (map (\<lambda>t. framed [concat (ci_segments (os_info sample_written t))]) ts) @ rest \<and>
     (rest \<noteq> [] \<longrightarrow> (\<exists>t. t \<notin> set ts \<and> prefix rest (framed [concat (ci_segments (os_info sample_written t))]) \<and>
        (os_lock sample_written = Some t \<or> os_lock sample_written = None \<and> os_closed sample_written \<noteq> None \<and> \<not> os_writer sample_written)))"
proof -
  have "wire_bytes sample_written = framed [message_wire null_call]" by (simp add: wire_bytes_def sample_written_sel del: framed.simps)
  with frames_never_interleave [OF sample_starts sample_steps] show ?thesis by simp
qed

text \<open>
  C3. In every reachable state, a message a call has returned is a reply, and carries the
  transaction identifier under which that call was registered: no call gets another's reply.
\<close>
theorem reply_matches_call:
  assumes "from_stream_with_admission stream config records limits = Inr s0" "(owned_step api)\<^sup>*\<^sup>* s0 s"
    and "os_calls s t = OcDone (ReplyOf (Inr m)) \<or> os_calls s t = OcDone (OutcomeOf (Inr m) receiver len)"
  shows "msg_xid m = ci_xid (os_info s t) \<and> is_reply (msg_body m)"
proof -
  from assms(1) obtain admission where "from_stream_using_admission stream config records admission = Inr s0"
    "accounted (adm_limits admission) (admission, {#})" by (rule admission_start)
  from deliveriesD(4) [OF owned_inv_steps [OF assms(2) owned_inv_new [OF this]], of t] assms(3) show ?thesis by fastforce
qed

theorem reply_matches_call_witness:
  "os_calls (sample_done sample_api) 0 = OcDone (ReplyOf (Inr null_reply)) \<and> msg_xid null_reply = Xid 5 \<and> is_reply (msg_body null_reply)"
  using reply_matches_call [OF sample_starts sample_done_steps disjI1 [OF sample_done_sel(1)], of sample_api]
  by (simp add: sample_done_sel sample_written_sel sample_locking_sel)

text \<open>
  C7. In every reachable state the admission budget is exact: the calls it counts are those
  whose future is alive or whose reply is still owed by the reader, its bytes are their
  charges, both stay within the limits, and each permit has one owner per future and sender.
\<close>
theorem connection_permits_exact:
  assumes "from_stream_with_admission stream config records limits = Inr s0" "(owned_step api)\<^sup>*\<^sup>* s0 s"
  defines "live \<equiv> {t. future_refs (os_calls s t) \<noteq> 0 \<or> os_channel s t = ChanOpen}"
  shows "finite live \<and> snapshot (os_admission s) = \<lparr>snap_limits = limits, snap_calls = card live, snap_bytes = (\<Sum>t\<in>live. os_weight s t)\<rparr> \<and>
     card live \<le> max_calls limits \<and> (\<Sum>t\<in>live. os_weight s t) \<le> max_bytes limits \<and>
     (\<forall>t. os_refs s t = future_refs (os_calls s t) + (if os_channel s t = ChanOpen then 1 else 0))"
proof -
  from assms(1) obtain admission where start: "from_stream_using_admission stream config records admission = Inr s0"
    "accounted (adm_limits admission) (admission, {#})" and lim: "adm_limits admission = limits" by (rule admission_start)
  note inv = owned_inv_steps [OF assms(2) owned_inv_new [OF start]]
  have refs: "os_refs s t = future_refs (os_calls s t) + (if os_channel s t = ChanOpen then 1 else 0)" for t
    using spec [OF owned_invD(2) [OF inv, unfolded refs_ok_def], of t] by (simp add: one_if_def)
  have live: "{t. os_refs s t \<noteq> 0} = live" using refs by (auto simp: live_def)
  have "os_admission s0 = admission" using start(1) by (auto simp: from_stream_using_admission_def record_limits_validate_def split: if_splits)
  with limits_steps [OF assms(2)] lim have "limits_of s = limits" by simp
  with owned_invD(4) [OF inv] refs show ?thesis
    unfolding permits_ok_def live_permits_def live by (simp add: accounted_def snapshot_def sum_unfold_sum_mset)
qed

theorem connection_permits_exact_witness:
  "snap_calls (snapshot (os_admission sample_admitted)) = 1 \<and> snap_bytes (snapshot (os_admission sample_admitted)) = 244"
proof -
  have "(owned_step sample_api)\<^sup>*\<^sup>* sample_start sample_admitted"
    unfolding sample_admitted_def by (intro r_into_rtranclp owned_step.try_whole) simp
  note exact = connection_permits_exact [OF sample_starts this]
  have "{t. future_refs (os_calls sample_admitted t) \<noteq> 0 \<or> os_channel sample_admitted t = ChanOpen} = {0}"
    by (auto simp: sample_admitted_eq)
  with exact show ?thesis by (simp add: sample_admitted_eq)
qed



text \<open>
  C34. Once a connection is closed and its reader has let go of its record, every call waiting
  for a reply returns: each piece of the remaining work can be done in one step and leaves
  less of it, and when none is left the call is answered and its next two polls end it.
\<close>
theorem closed_calls_return:
  assumes "from_stream_with_admission stream config records limits = Inr s0" "(owned_step api)\<^sup>*\<^sup>* s0 s"
    and "os_closed s \<noteq> None" "\<forall>rd xb t so. os_reader s \<noteq> RdReceiving rd xb t so"
  shows "(os_work s = before @ w # after \<longrightarrow>
       sum_list (map work_size (os_work (run_work w (s\<lparr>os_work := before @ after\<rparr>)))) < sum_list (map work_size (os_work s))) \<and>
     (os_work s = [] \<longrightarrow> os_calls s t = OcAwaiting handled \<longrightarrow> (\<exists>d. os_calls (call_poll q t (call_poll p t s)) t = OcDone d))"
proof -
  from assms(1) obtain admission where "from_stream_using_admission stream config records admission = Inr s0"
    "accounted (adm_limits admission) (admission, {#})" by (rule admission_start)
  note inv = owned_inv_steps [OF assms(2) owned_inv_new [OF this]]
  have "\<exists>d. os_calls (call_poll q t (call_poll p t s)) t = OcDone d" if empty: "os_work s = []" and call: "os_calls s t = OcAwaiting handled"
  proof -
    have "os_pending s = []" using owned_invD(3) [OF inv] assms(3) by (simp add: entries_ok_def)
    moreover have "reader_holds (os_reader s) = None" using assms(4) by (cases "os_reader s") auto
    ultimately have closed: "os_channel s t \<noteq> ChanOpen"
      using spec [OF owned_invD(1) [OF inv, unfolded senders_ok_def], of t] empty by (auto simp: one_if_def split: if_splits)
    have "os_calls (call_poll p t s) t \<noteq> OcPanicked" using deliveriesD(1) [OF owned_inv_poll [OF inv]] .
    with closed call obtain d e where "os_calls (call_poll p t s) t = OcStopping e (AfterReturn d)"
      by (cases "os_channel s t") (auto simp: call_poll_def await_response_def stop_call_def set_call_def split: if_splits)
    then show ?thesis by (simp add: call_poll_def [of q] stop_remove_def Let_def set_call_def)
  qed
  then show ?thesis using run_work_smaller by blast
qed

definition sample_closed :: "unit owned" where
  "sample_closed = run_work (FailSender 0 ConnectionClosed Buffered) ((run_work (StopPending 0 ConnectionClosed (Some Buffered))
     ((run_work CloseAdmission (close_transport sample_written\<lparr>os_work := [StopPending 0 ConnectionClosed (Some Buffered)]\<rparr>))\<lparr>os_work := []\<rparr>))\<lparr>os_work := []\<rparr>)"

lemma sample_closed_steps: "(owned_step api)\<^sup>*\<^sup>* sample_start sample_closed"
proof -
  let ?c = "close_transport sample_written"
  let ?s1 = "run_work CloseAdmission (?c\<lparr>os_work := [StopPending 0 ConnectionClosed (Some Buffered)]\<rparr>)"
  let ?s2 = "run_work (StopPending 0 ConnectionClosed (Some Buffered)) (?s1\<lparr>os_work := []\<rparr>)"
  have c: "os_work ?c = [] @ CloseAdmission # [StopPending 0 ConnectionClosed (Some Buffered)]"
    by (simp add: close_transport_def Let_def state_fail_def sample_pending sample_written_sel abort_reader_def)
  have s1: "os_work ?s1 = [] @ StopPending 0 ConnectionClosed (Some Buffered) # []" by (simp add: run_work_def)
  have s2: "os_work ?s2 = [] @ FailSender 0 ConnectionClosed Buffered # []" by (simp add: run_work_def Let_def)
  have "owned_step api sample_written ?c" by (rule owned_step.close)
  moreover have "owned_step api ?c ?s1" using owned_step.work [OF c, of api] by simp
  moreover have "owned_step api ?s1 ?s2" using owned_step.work [OF s1, of api] by simp
  moreover have "owned_step api ?s2 sample_closed" using owned_step.work [OF s2, of api] by (simp add: sample_closed_def)
  ultimately show ?thesis using sample_steps [of api] by (meson rtranclp.rtrancl_into_rtrancl)
qed

lemma sample_closed_sel: "os_closed sample_closed = Some ConnectionClosed" "os_reader sample_closed = RdIdle" "os_work sample_closed = []"
  "os_calls sample_closed 0 = OcAwaiting False"
  by (simp_all add: sample_closed_def run_work_def Let_def close_transport_def state_fail_def sample_pending sample_written_sel
      control_stop_def control_finish_def sender_fail_def answer_def close_admission_def abort_reader_def)

theorem closed_calls_return_witness:
  "\<exists>d. os_calls (call_poll sample_poll 0 (call_poll sample_poll 0 sample_closed)) 0 = OcDone d"
  using closed_calls_return [OF sample_starts sample_closed_steps [of sample_api], where t = 0 and p = sample_poll and q = sample_poll and handled = False]
  by (simp add: sample_closed_sel)

end
