(* ===== verification/Xdr_Client.thy ===== *)
theory Xdr_Client
  imports Owned_Properties
begin

text \<open>
  The typed calls of \<^verbatim>\<open>src/crates/onc-rpc-runtime/src/xdr_client.rs\<close> on the multiplexed connection
  and the calls of \<^verbatim>\<open>owned.rs\<close> and \<^verbatim>\<open>owned/segmented.rs\<close> they are built from. An admitted call is the
  state of its number in the connection; what its future returns is computed from the delivery
  the call ends with.
\<close>

section \<open>Refusals\<close>

record ('q, 'r) call_refusal =
  cr_reason :: admission_error
  cr_request :: 'q
  cr_receiver :: 'r
  cr_required_bytes :: nat

definition try_call_refusal :: "type_sizes \<Rightarrow> rpc_message \<Rightarrow> 'r owned \<Rightarrow> (rpc_message, unit) call_refusal option" where
  "try_call_refusal sizes request s = (case message_admission_bytes sizes request of
       Inl error \<Rightarrow> Some \<lparr>cr_reason = InvalidRequest error, cr_request = request, cr_receiver = (), cr_required_bytes = 0\<rparr>
     | Inr bytes \<Rightarrow> (case fst (try_acquire bytes (os_admission s)) of
           Inl reason \<Rightarrow> Some \<lparr>cr_reason = reason, cr_request = request, cr_receiver = (), cr_required_bytes = bytes\<rparr>
         | Inr _ \<Rightarrow> None))"

definition try_call_into_refusal :: "type_sizes \<Rightarrow> segmented_request \<Rightarrow> 'r \<Rightarrow> 'r owned \<Rightarrow> (segmented_request, 'r) call_refusal option" where
  "try_call_into_refusal sizes request receiver s = (case prepare sizes request of
       Inl error \<Rightarrow> Some \<lparr>cr_reason = InvalidRequest error, cr_request = request, cr_receiver = receiver, cr_required_bytes = 0\<rparr>
     | Inr (header, charge) \<Rightarrow> (case checked_add charge (size_of_receiver sizes) of
           None \<Rightarrow> Some \<lparr>cr_reason = InvalidRequest (Transport ''RPC receiver charge overflow''), cr_request = request,
                     cr_receiver = receiver, cr_required_bytes = 0\<rparr>
         | Some required_bytes \<Rightarrow> (case fst (try_acquire required_bytes (os_admission s)) of
               Inl reason \<Rightarrow> Some \<lparr>cr_reason = reason, cr_request = request, cr_receiver = receiver, cr_required_bytes = required_bytes\<rparr>
             | Inr _ \<Rightarrow> None)))"

definition try_call_into :: "type_sizes \<Rightarrow> nat \<Rightarrow> segmented_request \<Rightarrow> 'r \<Rightarrow> call_options \<Rightarrow>
    ('r owned, (segmented_request, 'r) call_refusal, unit) action" where
  "try_call_into sizes t request receiver options s =
     (case try_call_into_refusal sizes request receiver s of Some refusal \<Rightarrow> Inl refusal | None \<Rightarrow> Inr (),
      owned_try_call_into sizes t request receiver options s)"

section \<open>Calls that report a refusal as an error\<close>

text \<open>A call that is not admitted ends at once; \<open>Inr\<close> is a call whose future is to be awaited.\<close>

definition owned_call_with_options :: "type_sizes \<Rightarrow> nat \<Rightarrow> rpc_message \<Rightarrow> call_options \<Rightarrow> ('r owned, 'r delivery, unit) action" where
  "owned_call_with_options sizes t request options s =
     (case try_call_refusal sizes request s of
        Some refusal \<Rightarrow> (Inl (ReplyOf (Inl (owned_admission_error s (cr_reason refusal)))), owned_try_call sizes t request options s)
      | None \<Rightarrow> (Inr (), owned_try_call sizes t request options s))"

definition owned_call_into :: "type_sizes \<Rightarrow> nat \<Rightarrow> segmented_request \<Rightarrow> 'r \<Rightarrow> call_options \<Rightarrow> ('r owned, 'r delivery, unit) action" where
  "owned_call_into sizes t request receiver options s =
     (case try_call_into sizes t request receiver options s of
        (Inl refusal, s) \<Rightarrow> (Inl (OutcomeOf (Inl (owned_admission_error s (cr_reason refusal))) (cr_receiver refusal) 0), s)
      | (Inr _, s) \<Rightarrow> (Inr (), s))"

record segmented_reply =
  sg_header :: rpc_message
  sg_buffers :: "bytes list"
  sg_payload_len :: nat

definition call_segmented :: "type_sizes \<Rightarrow> nat \<Rightarrow> segmented_request \<Rightarrow> bytes list \<Rightarrow> call_options \<Rightarrow>
    (buffers owned, buffers delivery, unit) action" where
  "call_segmented sizes t request bufs options = owned_call_into sizes t request (buffers_new bufs) options"

definition call_segmented_result :: "runtime_error + rpc_message \<Rightarrow> buffers \<Rightarrow> nat \<Rightarrow> runtime_error + segmented_reply" where
  "call_segmented_result result receiver len =
     result_bind result (\<lambda>header. Inr \<lparr>sg_header = header, sg_buffers = bf_buffers receiver, sg_payload_len = len\<rparr>)"

section \<open>Typed calls\<close>

definition build_segmented_request :: "client_config \<Rightarrow> program_version \<Rightarrow> rpc_procedure \<Rightarrow> bytes list \<Rightarrow> call_options \<Rightarrow>
    ('r owned, runtime_error, segmented_request) action" where
  "build_segmented_request config program procedure payload options s = (case allocate_xid (os_xids s) of
       (Inl e, counter) \<Rightarrow> (Inl e, s\<lparr>os_xids := counter\<rparr>)
     | (Inr xid, counter) \<Rightarrow>
         (Inr \<lparr>sr_header = build_request_message_with_options config xid (call_request_new program procedure []) options,
               sr_payload = payload\<rparr>, s\<lparr>os_xids := counter\<rparr>))"

definition typed_request :: "'arg segments_encoder \<Rightarrow> client_config \<Rightarrow> program_version \<Rightarrow> rpc_procedure \<Rightarrow> 'arg \<Rightarrow> call_options \<Rightarrow>
    ('r owned, runtime_error, segmented_request) action" where
  "typed_request enc config program procedure argument options =
     and_then (lift_result (map_err EncodeFailure (to_xdr_segments enc argument))) (\<lambda>payload.
     build_segmented_request config program procedure payload options)"

text \<open>\<^verbatim>\<open>try_xdr_receive\<close> and \<^verbatim>\<open>try_xdr_decode\<close>: the admitted future keeps the identifier for its completion.\<close>

definition try_xdr_receive :: "type_sizes \<Rightarrow> nat \<Rightarrow> segmented_request \<Rightarrow> 'm xdr_reply_receiver \<Rightarrow> call_options \<Rightarrow>
    ('m xdr_reply_receiver owned, (segmented_request, 'm xdr_reply_receiver) call_refusal, xid) action" where
  "try_xdr_receive sizes t request receiver options =
     (let xid = msg_xid (sr_header request) in and_then (try_call_into sizes t request receiver options) (\<lambda>_. ok xid))"

definition complete_receive :: "'m xdr_decoder \<Rightarrow> ('m \<Rightarrow> nat option) \<Rightarrow> xid \<Rightarrow> runtime_error + rpc_message \<Rightarrow> 'm xdr_reply_receiver \<Rightarrow>
    'm typed_outcome" where
  "complete_receive decode_xdr opaque_len xid result receiver =
     xdr_reply_finish decode_xdr opaque_len (result_bind (result_bind result (handle_reply xid)) (\<lambda>_. Inr ())) receiver"

definition try_xdr_decode :: "type_sizes \<Rightarrow> nat \<Rightarrow> segmented_request \<Rightarrow> xdr_decode_receiver \<Rightarrow> call_options \<Rightarrow>
    (xdr_decode_receiver owned, (segmented_request, xdr_decode_receiver) call_refusal, xid) action" where
  "try_xdr_decode sizes t request receiver options =
     (let xid = msg_xid (sr_header request) in and_then (try_call_into sizes t request receiver options) (\<lambda>_. ok xid))"

definition complete_decode :: "'ret xdr_decoder \<Rightarrow> xid \<Rightarrow> runtime_error + rpc_message \<Rightarrow> xdr_decode_receiver \<Rightarrow> 'ret typed_outcome" where
  "complete_decode dec xid result receiver =
     xdr_decode_finish dec (result_bind (result_bind result (handle_reply xid)) (\<lambda>_. Inr ())) receiver"

definition try_call_xdr_into :: "type_sizes \<Rightarrow> 'arg segments_encoder \<Rightarrow> client_config \<Rightarrow> nat \<Rightarrow> program_version \<Rightarrow> rpc_procedure \<Rightarrow> 'arg \<Rightarrow>
    nat \<Rightarrow> bytes \<Rightarrow> call_options \<Rightarrow> ('m xdr_reply_receiver owned, ('arg, bytes) call_refusal, xid) action" where
  "try_call_xdr_into sizes enc config t program procedure argument max_prefix_bytes buffer options s =
     (let receiver = xdr_reply_new max_prefix_bytes buffer
      in case typed_request enc config program procedure argument options s of
           (Inl error, s) \<Rightarrow>
             (Inl \<lparr>cr_reason = InvalidRequest error, cr_request = argument, cr_receiver = xr_buffer receiver, cr_required_bytes = 0\<rparr>, s)
         | (Inr request, s) \<Rightarrow>
             (case try_xdr_receive sizes t request receiver options s of
                (Inl refusal, s) \<Rightarrow> (Inl \<lparr>cr_reason = cr_reason refusal, cr_request = argument,
                   cr_receiver = xr_buffer (cr_receiver refusal), cr_required_bytes = cr_required_bytes refusal\<rparr>, s)
              | (Inr xid, s) \<Rightarrow> (Inr xid, s)))"

definition try_call_xdr_segmented :: "type_sizes \<Rightarrow> 'arg segments_encoder \<Rightarrow> client_config \<Rightarrow> nat \<Rightarrow> program_version \<Rightarrow> rpc_procedure \<Rightarrow> 'arg \<Rightarrow>
    bytes \<Rightarrow> call_options \<Rightarrow> (xdr_decode_receiver owned, ('arg, bytes) call_refusal, xid) action" where
  "try_call_xdr_segmented sizes enc config t program procedure argument buffer options s =
     (let receiver = xdr_decode_new buffer
      in case typed_request enc config program procedure argument options s of
           (Inl error, s) \<Rightarrow>
             (Inl \<lparr>cr_reason = InvalidRequest error, cr_request = argument, cr_receiver = xd_buffer receiver, cr_required_bytes = 0\<rparr>, s)
         | (Inr request, s) \<Rightarrow>
             (case try_xdr_decode sizes t request receiver options s of
                (Inl refusal, s) \<Rightarrow> (Inl \<lparr>cr_reason = cr_reason refusal, cr_request = argument,
                   cr_receiver = xd_buffer (cr_receiver refusal), cr_required_bytes = cr_required_bytes refusal\<rparr>, s)
              | (Inr xid, s) \<Rightarrow> (Inr xid, s)))"

definition refused_outcome :: "'r owned \<Rightarrow> ('arg, bytes) call_refusal \<Rightarrow> 'm typed_outcome" where
  "refused_outcome s refusal =
     \<lparr>to_result = Inl (owned_admission_error s (cr_reason refusal)), to_buffer = cr_receiver refusal, to_payload_len = 0\<rparr>"

definition call_xdr_into :: "type_sizes \<Rightarrow> 'arg segments_encoder \<Rightarrow> client_config \<Rightarrow> nat \<Rightarrow> program_version \<Rightarrow> rpc_procedure \<Rightarrow> 'arg \<Rightarrow>
    nat \<Rightarrow> bytes \<Rightarrow> call_options \<Rightarrow> ('m xdr_reply_receiver owned, 'm typed_outcome, xid) action" where
  "call_xdr_into sizes enc config t program procedure argument max_prefix_bytes buffer options s =
     (case try_call_xdr_into sizes enc config t program procedure argument max_prefix_bytes buffer options s of
        (Inl refusal, s) \<Rightarrow> (Inl (refused_outcome s refusal), s)
      | (Inr xid, s) \<Rightarrow> (Inr xid, s))"

definition call_xdr_segmented :: "type_sizes \<Rightarrow> 'arg segments_encoder \<Rightarrow> client_config \<Rightarrow> nat \<Rightarrow> program_version \<Rightarrow> rpc_procedure \<Rightarrow> 'arg \<Rightarrow>
    bytes \<Rightarrow> call_options \<Rightarrow> (xdr_decode_receiver owned, 'ret typed_outcome, xid) action" where
  "call_xdr_segmented sizes enc config t program procedure argument buffer options s =
     (case try_call_xdr_segmented sizes enc config t program procedure argument buffer options s of
        (Inl refusal, s) \<Rightarrow> (Inl (refused_outcome s refusal), s)
      | (Inr xid, s) \<Rightarrow> (Inr xid, s))"

section \<open>Refused and admitted calls\<close>

lemma try_call_into_calls:
  "os_calls (owned_try_call_into sizes t request receiver options s) = (os_calls s)(t :=
     case try_call_into_refusal sizes request receiver s of
       Some refusal \<Rightarrow> OcRefused (cr_reason refusal)
     | None \<Rightarrow> OcAdmitted (Parts (msg_xid (sr_header request)) (fst (projr (prepare sizes request)) # sr_payload request) receiver) options)"
  by (auto simp: owned_try_call_into_def try_call_into_refusal_def admit_def split: sum.split option.split prod.split)

lemma try_call_into_refused:
  assumes "try_call_into sizes t request receiver options s = (Inl refusal, s')"
  shows "cr_request refusal = request \<and> cr_receiver refusal = receiver \<and> s' = s\<lparr>os_calls := (os_calls s)(t := OcRefused (cr_reason refusal))\<rparr> \<and>
    (is_retryable (cr_reason refusal) \<longrightarrow> cr_required_bytes refusal \<le> max_bytes (adm_limits (os_admission s)))"
  using assms
  by (auto simp: try_call_into_def try_call_into_refusal_def owned_try_call_into_def admit_def try_acquire_def admission_check_def is_retryable_def
      split: sum.splits option.splits prod.splits if_splits)

lemma typed_request_state:
  assumes "typed_request enc config program procedure argument options s = (res, s')"
  shows "s' = s\<lparr>os_xids := os_xids s'\<rparr>"
  using assms by (auto simp: typed_request_def and_then_def lift_result_def build_segmented_request_def split: sum.splits prod.splits)

lemma typed_request_Inr:
  assumes "typed_request enc config program procedure argument options s = (Inr request, s')"
  shows "\<exists>payload. to_xdr_segments enc argument = Inr payload \<and> sr_payload request = payload \<and>
    sr_header request = build_request_message_with_options config (msg_xid (sr_header request)) (call_request_new program procedure []) options"
  using assms
  by (auto simp: typed_request_def and_then_def lift_result_def build_segmented_request_def map_err_def map_sum_def
      build_request_message_with_options_def build_request_message_def Let_def split: sum.splits prod.splits)

text \<open>The bytes of a segmented request are those of the same call with its arguments in one piece.\<close>

lemma with_payload:
  "concat (message_wire (build_request_message_with_options config xid (call_request_new program procedure []) options) # segs) =
   message_wire (build_request_message_with_options config xid (call_request_new program procedure (concat segs)) options)"
  by (auto simp: message_wire_def build_request_message_with_options_def build_request_message_def call_request_new_def call_body_new_def call_wire_def Let_def
      split: option.split)

lemma prepare_header:
  "prepare sizes request = Inr (header, charge) \<Longrightarrow> header = message_wire (sr_header request)"
  by (auto simp: prepare_def result_bind_def map_err_def map_sum_def message_encode_Inr Let_def split: sum.splits option.splits if_splits message_body.splits)

lemma try_call_into_admitted:
  assumes "try_call_into sizes t request receiver options s = (Inr u, s')"
  shows "os_calls s' t = OcAdmitted (Parts (msg_xid (sr_header request)) (message_wire (sr_header request) # sr_payload request) receiver) options"
proof -
  from assms have none: "try_call_into_refusal sizes request receiver s = None" and s': "s' = owned_try_call_into sizes t request receiver options s"
    by (auto simp: try_call_into_def split: option.splits)
  then obtain header charge where "prepare sizes request = Inr (header, charge)" by (auto simp: try_call_into_refusal_def split: sum.splits)
  with prepare_header [OF this] none show ?thesis by (simp add: s' try_call_into_calls)
qed

section \<open>What a completed receive holds\<close>

lemma handle_reply_header:
  "is_reply (msg_body m) \<Longrightarrow> result_bind (handle_reply xid (m\<lparr>msg_body := without_results (msg_body m)\<rparr>)) (\<lambda>_. Inr ()) =
     result_bind (handle_reply xid m) (\<lambda>_. Inr ())"
  "handle_reply xid m = Inr response \<Longrightarrow> cp_payload response = results_of (msg_body m)"
  by (auto simp: handle_reply_def result_bind_def split: message_body.splits reply_body.splits accepted_status.splits rejected_reply.splits if_splits)

lemma receive_for_segmented_outcome:
  assumes "receive_segmented api xb (rd, tg) = (Inr (h, n), rd', tg')" "os_terminal s t = None" "n \<noteq> usize_max"
    and "receive_for_segmented api rd xb t tg s = Some s'"
  shows "os_channel s' t = ChanSent (OutcomeOf (Inr h) (tg_receiver tg') (tg_payload_len tg')) \<and> os_stream s' = rr_stream rd'"
  using assms
  by (auto simp: receive_for_segmented_def control_error_def raced_def map_err_def control_finish_def target_finish_def answer_def after_receive_def)

lemma receive_for_segmented_completes:
  assumes run: "receive_segmented api xb (rd, tg) = (Inr (h, n), rd', tg')" and t: "os_terminal s t = None" "n \<noteq> usize_max"
  shows "\<exists>s'. receive_for_segmented api rd xb t tg s = Some s' \<and>
    os_channel s' t = ChanSent (OutcomeOf (Inr h) (tg_receiver tg') (tg_payload_len tg')) \<and> os_stream s' = rr_stream rd'"
proof -
  have "receive_for_segmented api rd xb t tg s \<noteq> None"
    using run t by (simp add: receive_for_segmented_def control_error_def raced_def map_err_def control_finish_def)
  with receive_for_segmented_outcome [OF run t] show ?thesis by blast
qed

section \<open>Samples\<close>

definition sample_reply :: rpc_message where
  "sample_reply = \<lparr>msg_xid = Xid 5, msg_body = Reply (Accepted \<lparr>ar_verifier = opaque_auth_none, ar_status = Success (u32_to_be 3 @ [7, 8, 9] @ [0])\<rparr>)\<rparr>"

definition sample_rest :: bytes where
  "sample_rest = drop 4 (message_wire sample_reply)"

definition sample_record :: record_reader where
  "sample_record = \<lparr>rr_stream = [Data sample_rest, Data [1, 2]], rr_limits = \<lparr>max_record_bytes = 100, max_fragments = 4\<rparr>, rr_fragments = 1,
     rr_record_bytes = 36, rr_remaining = 28, rr_last = True, rr_marker = [128, 0, 0, 32], rr_marker_used = 0\<rparr>"

lemma sample_rest_wire: "u32_to_be 5 @ sample_rest = message_wire sample_reply" "length sample_rest = 28"
  by (simp_all add: sample_rest_def sample_reply_def message_wire_def opaque_auth_none_def auth_wire_def opaque_wire_def fixed_opaque_wire_def xdr_padding_def)

lemma sample_reply_decodes: "rpc_message_decode (u32_to_be 5 @ sample_rest) = Inr sample_reply"
  unfolding sample_rest_wire message_decode_iff
  by (simp add: sample_reply_def wf_message_def null_defs)

lemma sample_header:
  "build_request_message_with_options (client_config_new (SocketV4 [127, 0, 0, 1] 111)) (Xid 1)
     (call_request_new \<lparr>pv_program = 9, pv_version = 1\<rparr> (Procedure 0) []) call_options_new = null_call\<lparr>msg_xid := Xid 1\<rparr>"
  by (simp add: build_request_message_with_options_def build_request_message_def call_request_new_def client_config_new_def call_options_new_def null_call_def Let_def call_body_new_def)

lemma checked_sum_fits: "n + sum_list ns \<le> usize_max \<Longrightarrow> checked_sum n ns = Some (n + sum_list ns)"
  by (induction n ns rule: checked_sum.induct) (simp_all add: checked_add_def add.assoc)

lemma nonempty_parts: "[] \<notin> set ss \<Longrightarrow> length ss \<le> length (concat ss)"
proof (induction ss)
  case (Cons a ss)
  then show ?case by (cases a) auto
qed simp

lemma sample_admits:
  "\<exists>s'. try_call_xdr_into sample_sizes segments_bytes (client_config_new (SocketV4 [127, 0, 0, 1] 111)) 0 \<lparr>pv_program = 9, pv_version = 1\<rparr>
     (Procedure 0) [1, 2, 3] 4 [0] call_options_new (sample_start :: u32 xdr_reply_receiver owned) = (Inr (Xid 1), s')"
proof -
  have "opaque_valid [1, 2, 3]" by (simp add: opaque_valid_def u32_max_def)
  from bytes_segs.to_segments [OF this] obtain segs where segs: "to_xdr_segments segments_bytes [1, 2, 3] = Inr segs" "concat segs = opaque_wire [1, 2, 3]" "[] \<notin> set segs"
    by blast
  then have len: "length (concat segs) = 8" "length segs \<le> 8" using nonempty_parts [OF segs(3)]
    by (simp_all add: opaque_wire_def fixed_opaque_wire_def xdr_padding_def)
  let ?h = "null_call\<lparr>msg_xid := Xid 1\<rparr>"
  have enc: "rpc_message_encode ?h = Inr (message_wire ?h)" "length (message_wire ?h) = 40"
    using null_encodes(1) null_length(1) by (simp_all add: message_encode_Inr message_wire_def)
  have body: "\<exists>c. msg_body null_call = Call c \<and> cb_payload c = []" by (simp add: null_call_def call_body_new_def)
  have charge: "(length segs + 1) * 32 \<le> 288" using len(2) by simp
  have prep: "prepare sample_sizes \<lparr>sr_header = ?h, sr_payload = segs\<rparr> = Inr (message_wire ?h, 48 + 4 + (length segs + 1) * 32)"
    using body enc len charge
    by (auto simp: prepare_def checked_sum_fits checked_add_def checked_mul_def usize_max_def MAX_FRAGMENT_LEN_def sample_sizes_def map_err_def simp flip: length_concat)
  have rq: "typed_request segments_bytes (client_config_new (SocketV4 [127, 0, 0, 1] 111)) \<lparr>pv_program = 9, pv_version = 1\<rparr> (Procedure 0)
      [1, 2, 3] call_options_new (sample_start :: u32 xdr_reply_receiver owned) = (Inr \<lparr>sr_header = ?h, sr_payload = segs\<rparr>, sample_start\<lparr>os_xids := 2\<rparr>)"
    by (simp add: typed_request_def and_then_def lift_result_def segs(1) map_err_def build_segmented_request_def sample_header
        sample_start_def from_stream_with_admission_def admission_new_def from_stream_using_admission_def record_limits_validate_def
        xid_allocator_new_def allocate_xid_def xid_load_def xid_iterate_def u32_checked_add_def u32_max_def)
  show ?thesis
    using rq prep charge
    by (simp add: try_call_xdr_into_def try_xdr_receive_def and_then_def ok_def try_call_into_def try_call_into_refusal_def
        checked_add_def usize_max_def sample_sizes_def try_acquire_def admission_check_def null_call_def)
qed

lemma sample_record_at: "reader_at sample_record sample_rest [1, 2]" "steady sample_record"
proof -
  have "sample_rest \<noteq> []" using sample_rest_wire(2) by auto
  then show "reader_at sample_record sample_rest [1, 2]" "steady sample_record"
    by (simp_all add: reader_at_def sample_record_def steady_def sample_rest_wire(2) usize_max_def exI [of _ sample_rest])
qed

section \<open>Properties\<close>

text \<open>
  A typed call that is refused before it is sent returns its argument and its buffer,
  leaves the connection as it was but for the identifier it used and its own state, and
  when the refusal is transient the bytes it reports fit the budget.
\<close>
theorem typed_refusal_returns_owners:
  assumes "try_call_xdr_into sizes enc config t program procedure argument max_prefix buffer options s = (Inl refusal, s')"
  shows "cr_request refusal = argument \<and> cr_receiver refusal = buffer \<and> s' = s\<lparr>os_xids := os_xids s', os_calls := os_calls s'\<rparr> \<and>
    (\<forall>u. u \<noteq> t \<longrightarrow> os_calls s' u = os_calls s u) \<and>
    (is_retryable (cr_reason refusal) \<longrightarrow> cr_required_bytes refusal \<le> max_bytes (adm_limits (os_admission s)))"
proof -
  obtain res s1 where rq: "typed_request enc config program procedure argument options s = (res, s1)" by fastforce
  note s1 = typed_request_state [OF rq]
  have same: "os_admission s1 = os_admission s" "os_calls s1 = os_calls s" by (subst s1, simp)+
  show ?thesis
  proof (cases res)
    case (Inl e)
    with assms rq s1 same show ?thesis by (auto simp: try_call_xdr_into_def xdr_reply_new_def is_retryable_def)
  next
    case (Inr request)
    from assms rq Inr obtain r where r: "try_call_into sizes t request (xdr_reply_new max_prefix buffer) options s1 = (Inl r, s')"
      and refusal: "refusal = \<lparr>cr_reason = cr_reason r, cr_request = argument, cr_receiver = xr_buffer (cr_receiver r), cr_required_bytes = cr_required_bytes r\<rparr>"
      by (auto simp: try_call_xdr_into_def try_xdr_receive_def Let_def and_then_def ok_def split: sum.splits prod.splits)
    note kept = try_call_into_refused [OF r]
    have "s' = s\<lparr>os_xids := os_xids s', os_calls := os_calls s'\<rparr>" using kept s1 by (cases s; cases s1) simp
    then show ?thesis using kept same refusal by (simp add: xdr_reply_new_def)
  qed
qed

theorem typed_refusal_returns_owners_witness:
  "\<exists>refusal s'. try_call_xdr_into sample_sizes (\<lambda>_. err (LengthLimit 2 1)) (client_config_new (SocketV4 [127, 0, 0, 1] 111)) 0
      \<lparr>pv_program = 9, pv_version = 1\<rparr> (Procedure 0) [1 :: byte, 2] 4 [0, 0] call_options_new (sample_start :: u32 xdr_reply_receiver owned) = (Inl refusal, s') \<and>
    cr_request refusal = [1, 2] \<and> cr_receiver refusal = [0, 0]"
proof -
  obtain refusal s' where r: "try_call_xdr_into sample_sizes (\<lambda>_. err (LengthLimit 2 1)) (client_config_new (SocketV4 [127, 0, 0, 1] 111)) 0
      \<lparr>pv_program = 9, pv_version = 1\<rparr> (Procedure 0) [1 :: byte, 2] 4 [0, 0] call_options_new (sample_start :: u32 xdr_reply_receiver owned) = (Inl refusal, s')"
    by (simp add: try_call_xdr_into_def typed_request_def to_xdr_segments_def err_def and_then_def lift_result_def map_err_def)
  from typed_refusal_returns_owners [OF r] r show ?thesis by blast
qed

text \<open>
  C35. An admitted typed call sends the very bytes of the ordinary call: the header and the
  segments of its argument, one after the other, are the encoding of the call message whose
  payload is the argument's encoding in one piece.
\<close>
theorem segmented_request_same_bytes:
  assumes "xdr_segments encode decode valid wire encode_segments" "valid argument"
    and "try_call_xdr_into sizes encode_segments config t program procedure argument max_prefix buffer options s = (Inr xid, s')"
  shows "\<exists>parts receiver. os_calls s' t = OcAdmitted (Parts xid parts receiver) options \<and>
    concat parts = message_wire (build_request_message_with_options config xid (call_request_new program procedure (wire argument)) options) \<and>
    to_xdr_bytes encode argument = Inr (wire argument)"
proof -
  obtain res s1 where rq: "typed_request encode_segments config program procedure argument options s = (res, s1)" by fastforce
  with assms(3) obtain request where res: "res = Inr request" by (cases res) (auto simp: try_call_xdr_into_def Let_def)
  obtain r s2 where r: "try_call_into sizes t request (xdr_reply_new max_prefix buffer) options s1 = (r, s2)" by fastforce
  from assms(3) rq res r have r': "r = Inr ()" "s2 = s'" and xid: "xid = msg_xid (sr_header request)"
    by (cases r; simp add: try_call_xdr_into_def try_xdr_receive_def Let_def and_then_def ok_def)+
  note admitted = r [unfolded r']
  from typed_request_Inr [OF rq [unfolded res]] obtain segs where segs: "to_xdr_segments encode_segments argument = Inr segs" "sr_payload request = segs"
    "sr_header request = build_request_message_with_options config xid (call_request_new program procedure []) options" unfolding xid by blast
  from xdr_segments.to_segments [OF assms(1,2)] segs(1) have "concat segs = wire argument" by auto
  then have wire: "concat (message_wire (sr_header request) # sr_payload request) =
      message_wire (build_request_message_with_options config xid (call_request_new program procedure (wire argument)) options)"
    using with_payload [of config xid program procedure options segs] segs(2,3) by metis
  note state = try_call_into_admitted [OF admitted, folded xid]
  show ?thesis
    by (intro exI conjI, rule state, rule wire) (rule xdr_codec.to_bytes [OF xdr_segments.axioms(1) [OF assms(1)] assms(2)])
qed

theorem segmented_request_same_bytes_witness:
  "\<exists>s' parts receiver. try_call_xdr_into sample_sizes segments_bytes (client_config_new (SocketV4 [127, 0, 0, 1] 111)) 0
      \<lparr>pv_program = 9, pv_version = 1\<rparr> (Procedure 0) [1, 2, 3] 4 [0] call_options_new (sample_start :: u32 xdr_reply_receiver owned) = (Inr (Xid 1), s') \<and>
    os_calls s' 0 = OcAdmitted (Parts (Xid 1) parts receiver) call_options_new \<and>
    concat parts = message_wire (build_request_message_with_options (client_config_new (SocketV4 [127, 0, 0, 1] 111)) (Xid 1)
      (call_request_new \<lparr>pv_program = 9, pv_version = 1\<rparr> (Procedure 0) (opaque_wire [1, 2, 3])) call_options_new)"
proof -
  from sample_admits obtain s' where s': "try_call_xdr_into sample_sizes segments_bytes (client_config_new (SocketV4 [127, 0, 0, 1] 111)) 0
      \<lparr>pv_program = 9, pv_version = 1\<rparr> (Procedure 0) [1, 2, 3] 4 [0] call_options_new (sample_start :: u32 xdr_reply_receiver owned) = (Inr (Xid 1), s')" by blast
  have "opaque_valid [1, 2, 3]" by (simp add: opaque_valid_def u32_max_def)
  from segmented_request_same_bytes [OF bytes_segs.xdr_segments_axioms this s'] s' show ?thesis by blast
qed

text \<open>
  C4. A successful reply is received in place: its metadata is decoded and its terminal opaque
  data is put into the caller's buffer without staging, in however many pieces the record
  arrives, and the next record on the stream is untouched.
\<close>
theorem typed_receive_in_place:
  assumes codec: "xdr_codec enc dec valid wire" "valid m" and data: "opaque_data opaque_len m d"
    and at: "reader_at rd todo rest" "steady rd" and reply: "rpc_message_decode (xb @ todo) = Inr reply" "length xb = 4" "msg_xid reply = xid"
      "msg_body reply = Reply (Accepted \<lparr>ar_verifier = verifier, ar_status = Success (wire m @ d @ replicate (xdr_padding (length d)) 0)\<rparr>)"
    and fits: "length (wire m) \<le> max_prefix" "max_prefix \<le> usize_max" "length d \<le> length buffer"
      "length (wire m) + length d + xdr_padding (length d) < usize_max" and t: "os_terminal s t = None"
  shows "\<exists>s' result receiver len buffer'.
    receive_for_segmented (xdr_reply_api dec opaque_len) rd xb t (target_new (xdr_reply_new max_prefix buffer)) s = Some s' \<and>
    os_channel s' t = ChanSent (OutcomeOf result receiver len) \<and>
    complete_receive dec opaque_len xid result receiver = \<lparr>to_result = Inr m, to_buffer = buffer', to_payload_len = length d\<rparr> \<and>
    take (length d) buffer' = d \<and> content (os_stream s') = rest"
proof -
  let ?results = "wire m @ d @ replicate (xdr_padding (length d)) 0" and ?tg = "target_new (xdr_reply_new max_prefix buffer)"
  from reply(4) have res: "results_of (msg_body reply) = ?results" "is_reply (msg_body reply)" by simp_all
  have new: "reply_expects (wire m) m d (tg_receiver ?tg) ?results"
    by (rule reply_expectsI [of _ _ _ "[]"]) (use fits in \<open>simp_all add: target_new_def xdr_reply_new_def in_prefix_def\<close>)
  have len: "tg_payload_len ?tg + length (results_of (msg_body reply)) \<le> usize_max" using fits(4) by (simp add: target_new_def res)
  from receiver_contract.receive_segmented_completes [OF xdr_reply_contract [OF codec data] at reply(1) res(2) reply(2) new [folded res(1)] len]
  obtain rd' tg' where run: "receive_segmented (xdr_reply_api dec opaque_len) xb (rd, ?tg) =
      (Inr (reply\<lparr>msg_body := without_results (msg_body reply)\<rparr>, length ?results), rd', tg')"
    and fin: "reader_at rd' [] rest" "finished rd'" and ex: "reply_expects (wire m) m d (tg_receiver tg') []"
    unfolding res by blast
  have "length ?results \<noteq> usize_max" using fits(4) by simp
  from receive_for_segmented_completes [OF run t this] obtain s' where s': "receive_for_segmented (xdr_reply_api dec opaque_len) rd xb t ?tg s = Some s'"
    "os_channel s' t = ChanSent (OutcomeOf (Inr (reply\<lparr>msg_body := without_results (msg_body reply)\<rparr>)) (tg_receiver tg') (tg_payload_len tg'))"
    "os_stream s' = rr_stream rd'" by blast
  have "result_bind (handle_reply xid (reply\<lparr>msg_body := without_results (msg_body reply)\<rparr>)) (\<lambda>_. Inr ()) = Inr ()"
    using reply(3,4) by (simp add: handle_reply_def)
  with xdr_reply_finished [OF codec data ex] obtain buffer' where
    "complete_receive dec opaque_len xid (Inr (reply\<lparr>msg_body := without_results (msg_body reply)\<rparr>)) (tg_receiver tg') =
       \<lparr>to_result = Inr m, to_buffer = buffer', to_payload_len = length d\<rparr>" "take (length d) buffer' = d"
    by (auto simp: complete_receive_def)
  with s' finished_content [OF fin] show ?thesis by auto
qed

theorem typed_receive_in_place_witness:
  "\<exists>s' result receiver len buffer'.
    receive_for_segmented (xdr_reply_api decode_u32 (\<lambda>n. Some (unat n))) sample_record (u32_to_be 5) 0
      (target_new (xdr_reply_new 4 [0, 0, 0, 0, 0])) sample_start = Some s' \<and>
    os_channel s' 0 = ChanSent (OutcomeOf result receiver len) \<and>
    complete_receive decode_u32 (\<lambda>n. Some (unat n)) (Xid 5) result receiver = \<lparr>to_result = Inr 3, to_buffer = buffer', to_payload_len = 3\<rparr> \<and>
    take 3 buffer' = [7, 8, 9] \<and> content (os_stream s') = [1, 2]"
proof -
  have data: "opaque_data (\<lambda>n. Some (unat n)) (3 :: u32) [7, 8, 9]" by (simp add: opaque_data_def)
  have body: "msg_xid sample_reply = Xid 5" "msg_body sample_reply = Reply (Accepted \<lparr>ar_verifier = opaque_auth_none,
      ar_status = Success (u32_to_be 3 @ [7, 8, 9] @ replicate (xdr_padding (length [7 :: byte, 8, 9])) 0)\<rparr>)"
    by (simp_all add: sample_reply_def xdr_padding_def)
  from typed_receive_in_place [OF u32_codec.xdr_codec_axioms TrueI data sample_record_at sample_reply_decodes length_to_be(2) body,
      where max_prefix = 4 and buffer = "[0, 0, 0, 0, 0]" and s = sample_start and t = 0]
  have "\<exists>s' result receiver len buffer'.
    receive_for_segmented (xdr_reply_api decode_u32 (\<lambda>n. Some (unat n))) sample_record (u32_to_be 5) 0
      (target_new (xdr_reply_new 4 [0, 0, 0, 0, 0])) sample_start = Some s' \<and>
    os_channel s' 0 = ChanSent (OutcomeOf result receiver len) \<and>
    complete_receive decode_u32 (\<lambda>n. Some (unat n)) (Xid 5) result receiver =
      \<lparr>to_result = Inr 3, to_buffer = buffer', to_payload_len = length [7 :: byte, 8, 9]\<rparr> \<and>
    take (length [7 :: byte, 8, 9]) buffer' = [7, 8, 9] \<and> content (os_stream s') = [1, 2]"
    by (simp add: usize_max_def xdr_padding_def)
  moreover have "length [7 :: byte, 8, 9] = 3" by simp
  ultimately show ?thesis by (simp only:)
qed

text \<open>
  C36. Receiving into the caller's buffer and decoding there gives what the ordinary typed call
  gives for the same reply: the same value, the same decoding error, or the same RPC error,
  whatever the reply's status; and the next record on the stream is untouched.
\<close>
theorem segmented_decode_equals_buffered:
  assumes at: "reader_at rd todo rest" "steady rd" and reply: "rpc_message_decode (xb @ todo) = Inr reply" "is_reply (msg_body reply)" "length xb = 4"
    and fits: "length (results_of (msg_body reply)) \<le> length buffer" "length buffer < usize_max" and t: "os_terminal s t = None"
  shows "\<exists>s' result receiver len.
    receive_for_segmented xdr_decode_api rd xb t (target_new (xdr_decode_new buffer)) s = Some s' \<and>
    os_channel s' t = ChanSent (OutcomeOf result receiver len) \<and>
    to_result (complete_decode dec xid result receiver) =
      result_bind (handle_reply xid reply) (\<lambda>response. map_err DecodeFailure (from_xdr_bytes dec (cp_payload response))) \<and>
    content (os_stream s') = rest"
proof -
  let ?results = "results_of (msg_body reply)" and ?tg = "target_new (xdr_decode_new buffer)"
  have new: "decode_expects ?results (tg_receiver ?tg) ?results"
    using fits(1) by (simp add: decode_expects_def target_new_def xdr_decode_new_def)
  have len: "tg_payload_len ?tg + length ?results \<le> usize_max" using fits by (simp add: target_new_def)
  from decode_receiver.receive_segmented_completes [OF at reply new len]
  obtain rd' tg' where run: "receive_segmented xdr_decode_api xb (rd, ?tg) =
      (Inr (reply\<lparr>msg_body := without_results (msg_body reply)\<rparr>, length ?results), rd', tg')"
    and fin: "reader_at rd' [] rest" "finished rd'" and ex: "decode_expects ?results (tg_receiver tg') []" by blast
  have "length ?results \<noteq> usize_max" using fits by simp
  from receive_for_segmented_completes [OF run t this] obtain s' where s': "receive_for_segmented xdr_decode_api rd xb t ?tg s = Some s'"
    "os_channel s' t = ChanSent (OutcomeOf (Inr (reply\<lparr>msg_body := without_results (msg_body reply)\<rparr>)) (tg_receiver tg') (tg_payload_len tg'))"
    "os_stream s' = rr_stream rd'" by blast
  from ex have "take (xd_used (tg_receiver tg')) (xd_buffer (tg_receiver tg')) = ?results" by (auto simp: decode_expects_def)
  then have "to_result (complete_decode dec xid (Inr (reply\<lparr>msg_body := without_results (msg_body reply)\<rparr>)) (tg_receiver tg')) =
      result_bind (handle_reply xid reply) (\<lambda>response. map_err DecodeFailure (from_xdr_bytes dec (cp_payload response)))"
    using handle_reply_header(1) [OF reply(2), of xid] handle_reply_header(2) [of xid reply]
    by (cases "handle_reply xid reply") (simp_all add: complete_decode_def xdr_decode_finish_def)
  with s' finished_content [OF fin] show ?thesis by auto
qed

theorem segmented_decode_equals_buffered_witness:
  "\<exists>s' result receiver len.
    receive_for_segmented xdr_decode_api sample_record (u32_to_be 5) 0 (target_new (xdr_decode_new (replicate 9 0))) sample_start = Some s' \<and>
    os_channel s' 0 = ChanSent (OutcomeOf result receiver len) \<and>
    to_result (complete_decode decode_u64 (Xid 5) result receiver) =
      result_bind (handle_reply (Xid 5) sample_reply) (\<lambda>response. map_err DecodeFailure (from_xdr_bytes decode_u64 (cp_payload response))) \<and>
    content (os_stream s') = [1, 2]"
proof -
  have "is_reply (msg_body sample_reply)" "length (results_of (msg_body sample_reply)) \<le> length (replicate 9 (0 :: byte))"
    "length (replicate 9 (0 :: byte)) < usize_max" by (simp_all add: sample_reply_def usize_max_def)
  from segmented_decode_equals_buffered [OF sample_record_at sample_reply_decodes this(1) length_to_be(2) this(2,3), where s = sample_start and t = 0 and xid = "Xid 5" and dec = decode_u64]
  show ?thesis by simp
qed

end
