(* ===== verification/Rpc_Tls.thy ===== *)
theory Rpc_Tls
  imports Server_Transport Owned_Transport
begin

text \<open>
  RPC over TLS, the crate \<^verbatim>\<open>src/crates/onc-rpc-tls/src/lib.rs\<close> (RFC 9289), with the message reader of
  \<^verbatim>\<open>onc-rpc-runtime/src/owned.rs\<close> that its probe uses. A client sends an \<^verbatim>\<open>AUTH_TLS\<close> probe in the clear
  and starts TLS only after the reply that RFC 9289 asks for; a server answers the probe, drops what it
  has buffered and serves calls inside TLS, or in the clear where its mode allows that.

  rustls is a parameter: a handshake takes a stream and gives, once it is complete, a stream of what is
  read and written inside TLS, or an error. So are the operating system's sockets and the text
  of a duration. A read that is dropped is one at which the setup's timeout has expired.
\<close>

section \<open>Reading one message\<close>

text \<open>tokio's \<^verbatim>\<open>read_exact\<close> on a stream.\<close>

function stream_read_exact :: "nat \<Rightarrow> bytes \<Rightarrow> read_event list \<Rightarrow> (halt + bytes) \<times> read_event list" where
  "stream_read_exact n filled stream =
     (if n = 0 then (Inr filled, stream)
      else case stream_read n stream of
          (ReadDropped, stream') \<Rightarrow> (Inl Dropped, stream')
        | (ReadError e, stream') \<Rightarrow> (Inl (Failed (read_error e)), stream')
        | (Got bs, stream') \<Rightarrow>
            if bs = [] then (Inl (Failed (read_error (UnexpectedEofKind ''early eof''))), stream')
            else stream_read_exact (n - length bs) (filled @ bs) stream')"
  by pat_completeness auto
termination
  by (relation "measure fst") auto

declare stream_read_exact.simps [simp del]

datatype message_halt = MessageHalted halt | MessagePanic panic

fun read_fragments :: "nat \<Rightarrow> record_limits \<Rightarrow> bytes \<Rightarrow> read_event list \<Rightarrow> (message_halt + rpc_message) \<times> read_event list" where
  "read_fragments 0 limits rd stream = (Inl (MessageHalted (Failed (Transport ''RPC record has too many fragments''))), stream)"
| "read_fragments (Suc k) limits rd stream =
     (case stream_read_exact 4 [] stream of
        (Inl e, stream) \<Rightarrow> (Inl (MessageHalted e), stream)
      | (Inr header, stream) \<Rightarrow>
          (let marker = be_to_u32 header;
               len = unat (marker AND 0x7fffffff)
           in case Option.bind (checked_add (length rd) 4) (\<lambda>n. checked_add n len) of
                None \<Rightarrow> (Inl (MessageHalted (Failed (Transport ''RPC record exceeds configured limit''))), stream)
              | Some fin \<Rightarrow>
                  if fin > max_record_bytes limits
                  then (Inl (MessageHalted (Failed (Transport ''RPC record exceeds configured limit''))), stream)
                  else (case stream_read_exact len [] stream of
                      (Inl e, stream) \<Rightarrow> (Inl (MessageHalted e), stream)
                    | (Inr payload, stream) \<Rightarrow>
                        let rd = rd @ header @ payload
                        in if marker AND 0x80000000 \<noteq> 0
                           then (case fst (try_decode_message_from_buffer rd) of
                               Inl p \<Rightarrow> (Inl (MessagePanic p), stream)
                             | Inr (Inl e) \<Rightarrow> (Inl (MessageHalted (Failed e)), stream)
                             | Inr (Inr None) \<Rightarrow> (Inl (MessageHalted (Failed ConnectionClosed)), stream)
                             | Inr (Inr (Some m)) \<Rightarrow> (Inr m, stream))
                           else read_fragments k limits rd stream)))"

definition read_rpc_message_with_limits :: "record_limits \<Rightarrow> read_event list \<Rightarrow> (message_halt + rpc_message) \<times> read_event list" where
  "read_rpc_message_with_limits limits stream =
     (case record_limits_validate limits of
        Inl e \<Rightarrow> (Inl (MessageHalted (Failed e)), stream)
      | Inr _ \<Rightarrow> read_fragments (max_fragments limits) limits [] stream)"

definition read_rpc_message :: "read_event list \<Rightarrow> (message_halt + rpc_message) \<times> read_event list" where
  "read_rpc_message = read_rpc_message_with_limits record_limits_default"

section \<open>The negotiation\<close>

definition AUTH_TLS_VALUE :: u32 where "AUTH_TLS_VALUE = 7"

definition SUNRPC_ALPN :: bytes where "SUNRPC_ALPN = map of_char ''sunrpc''"

definition STARTTLS_TOKEN :: bytes where "STARTTLS_TOKEN = map of_char ''STARTTLS''"

definition STARTTLS_PROBE_LIMITS :: record_limits where
  "STARTTLS_PROBE_LIMITS = \<lparr>max_record_bytes = 4096, max_fragments = 16\<rparr>"

datatype tls_mode = Disabled | Allowed | Required | MutualAuthRequired

datatype tls_error =
    TlsRuntime runtime_error
  | TlsServerTransport server_transport_error
  | TlsServer server_error
  | Handshake string
  | InvalidServerName
  | MissingSunrpcAlpn
  | StartTlsRejected
  | InvalidStartTlsReply

datatype auth_tls_kind = Probe | Invalid

definition auth_tls_request :: "rpc_message \<Rightarrow> auth_tls_kind option" where
  "auth_tls_request message = (case msg_body message of
       Reply _ \<Rightarrow> None
     | Call call \<Rightarrow>
         if oa_flavor (cb_credentials call) \<noteq> FlavorUnknown AUTH_TLS_VALUE then None
         else if cb_procedure call = Procedure 0 \<and> oa_body (cb_credentials call) = [] \<and> cb_verifier call = opaque_auth_none
         then Some Probe
         else Some Invalid)"

definition starttls_ok_reply :: "xid \<Rightarrow> runtime_error + rpc_message" where
  "starttls_ok_reply xid =
     result_bind (map_err WireFailure (opaque_auth_new FlavorNone STARTTLS_TOKEN)) (\<lambda>verifier.
     Inr \<lparr>msg_xid = xid, msg_body = Reply (Accepted \<lparr>ar_verifier = verifier, ar_status = Success []\<rparr>)\<rparr>)"

definition auth_tls_badcred_reply :: "xid \<Rightarrow> rpc_message" where
  "auth_tls_badcred_reply xid = \<lparr>msg_xid = xid, msg_body = Reply (Denied (AuthError BadCred))\<rparr>"

definition validate_starttls_reply :: "rpc_message \<Rightarrow> xid \<Rightarrow> tls_error + unit" where
  "validate_starttls_reply reply expected_xid =
     (if msg_xid reply \<noteq> expected_xid then Inl InvalidStartTlsReply
      else case msg_body reply of
          Reply (Accepted accepted) \<Rightarrow>
            (case ar_status accepted of
               Success payload \<Rightarrow>
                 if oa_flavor (ar_verifier accepted) = FlavorNone \<and> oa_body (ar_verifier accepted) = STARTTLS_TOKEN \<and> payload = []
                 then Inr () else Inl InvalidStartTlsReply
             | _ \<Rightarrow> Inl InvalidStartTlsReply)
        | Reply (Denied (AuthError _)) \<Rightarrow> Inl StartTlsRejected
        | _ \<Rightarrow> Inl InvalidStartTlsReply)"

section \<open>Clients\<close>

record client_tls_config =
  ct_alpn_protocols :: "bytes list"
  ct_server_name :: string

definition client_tls_config_new :: "string \<Rightarrow> client_tls_config" where
  "client_tls_config_new server_name = \<lparr>ct_alpn_protocols = [SUNRPC_ALPN], ct_server_name = server_name\<rparr>"

text \<open>\<open>None\<close> is an operation that has not ended when its timeout expires.\<close>

record ('c, 'w) socket_api =
  so_new_v4 :: "io_error + 'c"
  so_new_v6 :: "io_error + 'c"
  so_bind :: "socket_addr \<Rightarrow> 'c \<Rightarrow> io_error + 'c"
  so_connect :: "socket_addr \<Rightarrow> 'c \<Rightarrow> (io_error + (read_event list \<times> 'w)) option"

type_synonym 'w tls_connector = "client_tls_config \<Rightarrow> read_event list \<times> 'w \<Rightarrow> (string + (read_event list \<times> bytes option)) option"

definition socket_for_remote :: "('c, 'w) socket_api \<Rightarrow> socket_addr \<Rightarrow> runtime_error + 'c" where
  "socket_for_remote sockets remote_addr = (case remote_addr of
       SocketV4 _ _ \<Rightarrow> map_err transport_error (so_new_v4 sockets)
     | SocketV6 _ _ _ _ \<Rightarrow> map_err transport_error (so_new_v6 sockets))"

definition tcp_connect :: "('c, 'w) socket_api \<Rightarrow> (duration \<Rightarrow> string) \<Rightarrow> client_config \<Rightarrow> runtime_error + (read_event list \<times> 'w)" where
  "tcp_connect sockets show_duration config =
     result_bind (socket_for_remote sockets (cc_remote_addr config)) (\<lambda>socket.
     result_bind (case cc_local_addr config of
         None \<Rightarrow> Inr socket
       | Some local_addr \<Rightarrow> map_err transport_error (so_bind sockets local_addr socket)) (\<lambda>socket.
     case so_connect sockets (cc_remote_addr config) socket of
       None \<Rightarrow> Inl (Transport (''connect timeout after '' @ show_duration (cc_connect_timeout config)))
     | Some result \<Rightarrow> map_err transport_error result))"

definition validate_client_alpn :: "bytes option \<Rightarrow> tls_error + unit" where
  "validate_client_alpn alpn_protocol = (if alpn_protocol = Some SUNRPC_ALPN then Inr () else Inl MissingSunrpcAlpn)"

datatype setup_halt = SetupFailed tls_error | SetupTimeout | SetupPanic panic

definition starttls_probe :: "program_version \<Rightarrow> wire_error + rpc_message" where
  "starttls_probe program =
     result_bind (opaque_auth_new (FlavorUnknown AUTH_TLS_VALUE) []) (\<lambda>credentials.
     Inr \<lparr>msg_xid = Xid 1, msg_body = Call (call_body_new program (Procedure 0) credentials opaque_auth_none [])\<rparr>)"

definition perform_starttls_probe :: "'w writer_api \<Rightarrow> program_version \<Rightarrow> (read_event list \<times> 'w, setup_halt, unit) action" where
  "perform_starttls_probe wr program = (\<lambda>(stream, w).
     (case starttls_probe program of
        Inl e \<Rightarrow> (Inl (SetupFailed (TlsRuntime (WireFailure e))), stream, w)
      | Inr request \<Rightarrow>
          (case write_rpc_message wr request w of
             (Inl e, w) \<Rightarrow> (Inl (SetupFailed (TlsRuntime e)), stream, w)
           | (Inr _, w) \<Rightarrow>
               (case read_rpc_message_with_limits STARTTLS_PROBE_LIMITS stream of
                  (Inl (MessagePanic p), stream) \<Rightarrow> (Inl (SetupPanic p), stream, w)
                | (Inl (MessageHalted Dropped), stream) \<Rightarrow> (Inl SetupTimeout, stream, w)
                | (Inl (MessageHalted (Failed ConnectionClosed)), stream) \<Rightarrow> (Inl (SetupFailed StartTlsRejected), stream, w)
                | (Inl (MessageHalted (Failed e)), stream) \<Rightarrow> (Inl (SetupFailed (TlsRuntime e)), stream, w)
                | (Inr reply, stream) \<Rightarrow> (map_err SetupFailed (validate_starttls_reply reply (msg_xid request)), stream, w)))))"

text \<open>What follows a TCP connection, or a probe: the handshake, its protocol, and the transport over it.\<close>

definition tls_setup :: "'w tls_connector \<Rightarrow> client_config \<Rightarrow> client_tls_config \<Rightarrow> read_event list \<times> 'w \<Rightarrow> setup_halt + 'r owned" where
  "tls_setup connector config tls stream = (case connector tls stream of
       None \<Rightarrow> Inl SetupTimeout
     | Some (Inl reason) \<Rightarrow> Inl (SetupFailed (Handshake reason))
     | Some (Inr (tls_stream, alpn)) \<Rightarrow>
         map_err SetupFailed (result_bind (validate_client_alpn alpn) (\<lambda>_.
           map_err TlsRuntime (from_stream tls_stream config))))"

definition setup_with_timeout :: "(duration \<Rightarrow> string) \<Rightarrow> client_config \<Rightarrow> setup_halt + 'a \<Rightarrow> panic + (tls_error + 'a)" where
  "setup_with_timeout show_duration config body = (case body of
       Inr x \<Rightarrow> Inr (Inr x)
     | Inl (SetupFailed e) \<Rightarrow> Inr (Inl e)
     | Inl SetupTimeout \<Rightarrow> Inr (Inl (TlsRuntime (Transport (''TLS setup timeout after '' @ show_duration (cc_connect_timeout config)))))
     | Inl (SetupPanic p) \<Rightarrow> Inl p)"

definition tls_connect :: "('c, 'w) socket_api \<Rightarrow> (duration \<Rightarrow> string) \<Rightarrow> 'w tls_connector \<Rightarrow> client_config \<Rightarrow> client_tls_config \<Rightarrow>
    panic + (tls_error + 'r owned)" where
  "tls_connect sockets show_duration connector config tls =
     setup_with_timeout show_duration config
       (result_bind (map_err (\<lambda>e. SetupFailed (TlsRuntime e)) (tcp_connect sockets show_duration config)) (\<lambda>stream.
        tls_setup connector config tls stream))"

definition starttls_connect :: "('c, 'w) socket_api \<Rightarrow> (duration \<Rightarrow> string) \<Rightarrow> 'w writer_api \<Rightarrow> 'w tls_connector \<Rightarrow> client_config \<Rightarrow>
    client_tls_config \<Rightarrow> program_version \<Rightarrow> panic + (tls_error + 'r owned)" where
  "starttls_connect sockets show_duration wr connector config tls program =
     setup_with_timeout show_duration config
       (result_bind (map_err (\<lambda>e. SetupFailed (TlsRuntime e)) (tcp_connect sockets show_duration config)) (\<lambda>stream.
        case perform_starttls_probe wr program stream of
          (Inl e, _) \<Rightarrow> Inl e
        | (Inr _, stream) \<Rightarrow> tls_setup connector config tls stream))"

section \<open>Servers\<close>

record server_tls_config =
  st_alpn_protocols :: "bytes list"

definition server_tls_config_new :: server_tls_config where
  "server_tls_config_new = \<lparr>st_alpn_protocols = [SUNRPC_ALPN]\<rparr>"

definition is_tls_close_without_notify :: "string \<Rightarrow> bool" where
  "is_tls_close_without_notify message = sublist ''close_notify'' message"

definition tls_acquire_worker_permit :: "'q semaphore_api \<Rightarrow> 'q \<Rightarrow> (tls_error + unit) option \<times> 'q" where
  "tls_acquire_worker_permit sem worker_limit = (case sem_acquire sem worker_limit of
       AcquirePending \<Rightarrow> (None, worker_limit)
     | Acquired worker_limit' \<Rightarrow> (Some (Inr ()), worker_limit')
     | AcquireClosed \<Rightarrow> (Some (Inl (TlsServerTransport (StIo ''server worker semaphore closed''))), worker_limit))"

text \<open>
  A connection's program counter stands at the next operation that others can see or that may wait. The
  last three fields record what happened: whether the handshake is done, the bytes
  read since then (or in the clear) and the messages handed to tasks.
\<close>

datatype tls_pc =
    TlsProbing tls_mode
  | TlsProbeRead tls_mode
  | TlsHandshake
  | TlsDrain
  | TlsAcquire rpc_message
  | TlsReject xid
  | TlsRead
  | TlsReturned "tls_error + unit"
  | TlsPanicked
  | TlsDropped

record 'w tls_connection =
  tc_mode :: "tls_mode option"
  tc_input :: "read_event list"
  tc_writer :: 'w
  tc_buffer :: bytes
  tc_pc :: tls_pc
  tc_tasks :: "task list"
  tc_secured :: bool
  tc_received :: bytes
  tc_spawned :: "rpc_message list"

text \<open>A connection of the STARTTLS transports, and one of the transports that start with TLS.\<close>

definition starttls_connection_new :: "tls_mode \<Rightarrow> read_event list \<Rightarrow> 'w \<Rightarrow> 'w tls_connection" where
  "starttls_connection_new mode input writer =
     \<lparr>tc_mode = Some mode, tc_input = input, tc_writer = writer, tc_buffer = [], tc_pc = TlsProbing mode, tc_tasks = [],
      tc_secured = False, tc_received = [], tc_spawned = []\<rparr>"

definition tls_connection_new :: "read_event list \<Rightarrow> 'w \<Rightarrow> 'w tls_connection" where
  "tls_connection_new input writer =
     \<lparr>tc_mode = None, tc_input = input, tc_writer = writer, tc_buffer = [], tc_pc = TlsHandshake, tc_tasks = [],
      tc_secured = False, tc_received = [], tc_spawned = []\<rparr>"

definition requires_tls :: "tls_mode \<Rightarrow> bool" where
  "requires_tls mode \<longleftrightarrow> mode = Required \<or> mode = MutualAuthRequired"

definition tls_write :: "'w writer_api \<Rightarrow> rpc_message \<Rightarrow> tls_pc \<Rightarrow> 'w tls_connection \<Rightarrow> 'w tls_connection" where
  "tls_write wr reply next c = (case write_rpc_message wr reply (tc_writer c) of
       (Inl e, w) \<Rightarrow> c\<lparr>tc_writer := w, tc_pc := TlsReturned (Inl (TlsRuntime e))\<rparr>
     | (Inr _, w) \<Rightarrow> c\<lparr>tc_writer := w, tc_pc := next\<rparr>)"

definition starttls_message :: "'w writer_api \<Rightarrow> tls_mode \<Rightarrow> rpc_message \<Rightarrow> 'w tls_connection \<Rightarrow> 'w tls_connection" where
  "starttls_message wr mode message c = (case auth_tls_request message of
       Some Probe \<Rightarrow> (case starttls_ok_reply (msg_xid message) of
           Inl e \<Rightarrow> c\<lparr>tc_pc := TlsReturned (Inl (TlsRuntime e))\<rparr>
         | Inr reply \<Rightarrow> tls_write wr reply TlsHandshake c)
     | Some Invalid \<Rightarrow> tls_write wr (auth_tls_badcred_reply (msg_xid message)) (TlsProbing mode) c
     | None \<Rightarrow>
         if requires_tls mode then tls_write wr (auth_tls_badcred_reply (msg_xid message)) (TlsReturned (Inr ())) c
         else c\<lparr>tc_pc := TlsAcquire message\<rparr>)"

text \<open>Taking a message from the buffer, with what is done with it and where to go when there is none.\<close>

definition tls_decode :: "(rpc_message \<Rightarrow> 'w tls_connection \<Rightarrow> 'w tls_connection) \<Rightarrow> tls_pc \<Rightarrow> 'w tls_connection \<Rightarrow> 'w tls_connection" where
  "tls_decode act wait c = (case try_decode_message_from_buffer (tc_buffer c) of
       (Inl p, buffer) \<Rightarrow> c\<lparr>tc_buffer := buffer, tc_pc := TlsPanicked\<rparr>
     | (Inr (Inl e), buffer) \<Rightarrow> c\<lparr>tc_buffer := buffer, tc_pc := TlsReturned (Inl (TlsRuntime e))\<rparr>
     | (Inr (Inr (Some message)), buffer) \<Rightarrow> act message (c\<lparr>tc_buffer := buffer\<rparr>)
     | (Inr (Inr None), buffer) \<Rightarrow> c\<lparr>tc_buffer := buffer, tc_pc := wait\<rparr>)"

definition tls_read :: "(string \<Rightarrow> tls_error + unit) \<Rightarrow> tls_pc \<Rightarrow> 'w tls_connection \<Rightarrow> 'w tls_connection" where
  "tls_read failed next c = (case tc_input c of
       [] \<Rightarrow> c\<lparr>tc_pc := TlsReturned (Inr ())\<rparr>
     | Data d # es \<Rightarrow>
         if d = [] then c\<lparr>tc_input := es, tc_pc := TlsReturned (Inr ())\<rparr>
         else c\<lparr>tc_input := es, tc_buffer := tc_buffer c @ d, tc_pc := next, tc_received := tc_received c @ d\<rparr>
     | ReadFails e # es \<Rightarrow> c\<lparr>tc_input := es, tc_pc := TlsReturned (failed (io_error_to_string e))\<rparr>
     | DropRead # es \<Rightarrow> c\<lparr>tc_input := es, tc_pc := TlsDropped\<rparr>)"

text \<open>The handshake. What is left in the buffer is dropped with it.\<close>

type_synonym 'w tls_acceptor = "read_event list \<times> 'w \<Rightarrow> string + (read_event list \<times> 'w)"

definition tls_accept :: "'w tls_acceptor \<Rightarrow> 'w tls_connection \<Rightarrow> 'w tls_connection" where
  "tls_accept acceptor c = (case acceptor (tc_input c, tc_writer c) of
       Inl reason \<Rightarrow> c\<lparr>tc_pc := TlsReturned (Inl (Handshake reason))\<rparr>
     | Inr (input, writer) \<Rightarrow>
         c\<lparr>tc_input := input, tc_writer := writer, tc_buffer := [], tc_pc := TlsDrain, tc_secured := True, tc_received := []\<rparr>)"

definition serve_split_message :: "rpc_message \<Rightarrow> 'w tls_connection \<Rightarrow> 'w tls_connection" where
  "serve_split_message message c =
     (if auth_tls_request message \<noteq> None then c\<lparr>tc_pc := TlsReject (msg_xid message)\<rparr>
      else c\<lparr>tc_pc := TlsAcquire message\<rparr>)"

definition split_read_failed :: "string \<Rightarrow> tls_error + unit" where
  "split_read_failed message =
     (if is_tls_close_without_notify message then Inr () else Inl (TlsRuntime (Transport message)))"

definition spawn_reply :: "'q semaphore_api \<Rightarrow> rpc_message \<Rightarrow> 'q \<times> 'w tls_connection \<Rightarrow> 'q \<times> 'w tls_connection" where
  "spawn_reply sem message = (\<lambda>(workers, c). (case tls_acquire_worker_permit sem workers of
       (None, workers') \<Rightarrow> (workers', c)
     | (Some (Inl e), workers') \<Rightarrow> (workers', c\<lparr>tc_pc := TlsReturned (Inl e)\<rparr>)
     | (Some (Inr _), workers') \<Rightarrow>
         (workers', c\<lparr>tc_pc := TlsDrain, tc_tasks := tc_tasks c @ [TaskDispatch message],
                      tc_spawned := tc_spawned c @ [message]\<rparr>)))"

definition serve_tls_step :: "'w writer_api \<Rightarrow> 'w tls_acceptor \<Rightarrow> 'q semaphore_api \<Rightarrow> 'q \<times> 'w tls_connection \<Rightarrow> 'q \<times> 'w tls_connection" where
  "serve_tls_step wr acceptor sem = (\<lambda>(workers, c). (case tc_pc c of
       TlsProbing mode \<Rightarrow> (workers, tls_decode (starttls_message wr mode) (TlsProbeRead mode) c)
     | TlsProbeRead mode \<Rightarrow> (workers, tls_read (\<lambda>message. Inl (TlsRuntime (Transport message))) (TlsProbing mode) c)
     | TlsHandshake \<Rightarrow> (workers, tls_accept acceptor c)
     | TlsDrain \<Rightarrow> (workers, tls_decode serve_split_message TlsRead c)
     | TlsAcquire message \<Rightarrow> spawn_reply sem message (workers, c)
     | TlsReject xid \<Rightarrow> (workers, tls_write wr (auth_tls_badcred_reply xid) TlsDrain c)
     | TlsRead \<Rightarrow> (workers, tls_read split_read_failed TlsDrain c)
     | _ \<Rightarrow> (workers, c)))"

text \<open>The task of one message; the server is not told the peer's address.\<close>

definition tls_task_step :: "'d handler \<Rightarrow> 'w writer_api \<Rightarrow> task \<Rightarrow> 'd \<times> 'w \<Rightarrow> task option \<times> 'd \<times> 'w" where
  "tls_task_step handle wr task = (\<lambda>(app, w). (case task of
       TaskDispatch message \<Rightarrow> (case handle message None app of
           (Inr reply, app') \<Rightarrow> (Some (TaskReply reply), app', w)
         | (Inl _, app') \<Rightarrow> (None, app', w))
     | TaskReply reply \<Rightarrow> (case write_rpc_message wr reply w of (_, w') \<Rightarrow> (None, app, w'))))"

record ('q, 'd, 'w) tls_system =
  tls_workers :: 'q
  tls_app :: 'd
  tls_conns :: "'w tls_connection list"

definition tls_bind :: "'q semaphore_api \<Rightarrow> server_config \<Rightarrow> 'd \<Rightarrow> ('q, 'd, 'w) tls_system" where
  "tls_bind sem config app =
     \<lparr>tls_workers = sem_new sem (worker_threads_permits (sc_worker_threads config)), tls_app = app, tls_conns = []\<rparr>"

definition tls_serve :: "'w writer_api \<Rightarrow> 'w tls_acceptor \<Rightarrow> 'q semaphore_api \<Rightarrow> nat \<Rightarrow> ('q, 'd, 'w) tls_system \<Rightarrow> ('q, 'd, 'w) tls_system" where
  "tls_serve wr acceptor sem i s = (case serve_tls_step wr acceptor sem (tls_workers s, tls_conns s ! i) of
       (workers, c) \<Rightarrow> s\<lparr>tls_workers := workers, tls_conns := (tls_conns s)[i := c]\<rparr>)"

definition tls_task :: "'d handler \<Rightarrow> 'w writer_api \<Rightarrow> 'q semaphore_api \<Rightarrow> nat \<Rightarrow> nat \<Rightarrow> ('q, 'd, 'w) tls_system \<Rightarrow> ('q, 'd, 'w) tls_system" where
  "tls_task handle wr sem i j s =
     (let c = tls_conns s ! i
      in case tls_task_step handle wr (tc_tasks c ! j) (tls_app s, tc_writer c) of
           (Some t, app, w) \<Rightarrow> s\<lparr>tls_app := app, tls_conns := (tls_conns s)[i := c\<lparr>tc_writer := w, tc_tasks := (tc_tasks c)[j := t]\<rparr>]\<rparr>
         | (None, app, w) \<Rightarrow>
             s\<lparr>tls_workers := sem_release sem (tls_workers s), tls_app := app,
               tls_conns := (tls_conns s)[i := c\<lparr>tc_writer := w, tc_tasks := drop_nth j (tc_tasks c)\<rparr>]\<rparr>)"

text \<open>
  Any interleaving of accepted connections, their loops and the tasks. The transports of the
  crate accept one of the two kinds of connection; the theorems hold for any mixture.
\<close>

inductive tls_step :: "'d handler \<Rightarrow> 'w writer_api \<Rightarrow> 'w tls_acceptor \<Rightarrow> 'q semaphore_api \<Rightarrow>
    ('q, 'd, 'w) tls_system \<Rightarrow> ('q, 'd, 'w) tls_system \<Rightarrow> bool" for handle wr acceptor sem where
  accept_starttls: "tls_step handle wr acceptor sem s (s\<lparr>tls_conns := tls_conns s @ [starttls_connection_new mode input writer]\<rparr>)"
| accept_tls: "tls_step handle wr acceptor sem s (s\<lparr>tls_conns := tls_conns s @ [tls_connection_new input writer]\<rparr>)"
| serve: "i < length (tls_conns s) \<Longrightarrow> tls_step handle wr acceptor sem s (tls_serve wr acceptor sem i s)"
| run_task: "i < length (tls_conns s) \<Longrightarrow> j < length (tc_tasks (tls_conns s ! i)) \<Longrightarrow>
    tls_step handle wr acceptor sem s (tls_task handle wr sem i j s)"

text \<open>The transports of the synchronous and of the asynchronous server.\<close>

abbreviation sync_tls_step :: "'d server \<Rightarrow> 'w writer_api \<Rightarrow> 'w tls_acceptor \<Rightarrow> 'q semaphore_api \<Rightarrow>
    ('q, 'd, 'w) tls_system \<Rightarrow> ('q, 'd, 'w) tls_system \<Rightarrow> bool" where
  "sync_tls_step server \<equiv> tls_step (handle_message_with_peer_addr server)"

abbreviation async_tls_step :: "'d async_server \<Rightarrow> 'w writer_api \<Rightarrow> 'w tls_acceptor \<Rightarrow> 'q semaphore_api \<Rightarrow>
    ('q, 'd, 'w) tls_system \<Rightarrow> ('q, 'd, 'w) tls_system \<Rightarrow> bool" where
  "async_tls_step server \<equiv> tls_step (async_handle_message_with_peer_addr server)"

section \<open>Reading, proved\<close>

lemma read_exact_sound:
  "stream_read_exact n filled es = (Inr bs, es') \<Longrightarrow>
   \<exists>got. bs = filled @ got \<and> length got = n \<and> content es = got @ content es'"
proof (induction n filled es rule: stream_read_exact.induct)
  case (1 n filled es)
  obtain r es1 where rd: "stream_read n es = (r, es1)" by fastforce
  show ?case
  proof (cases "n = 0")
    case True
    with 1(2) show ?thesis by (subst (asm) stream_read_exact.simps) simp
  next
    case False
    with 1(2) rd obtain got where got: "r = Got got" "got \<noteq> []"
      and rest: "stream_read_exact (n - length got) (filled @ got) es1 = (Inr bs, es')"
      by (subst (asm) stream_read_exact.simps) (auto split: read_result.splits if_splits)
    from 1(1) [OF False rd [symmetric] got(1,2) rest] obtain more where
      "bs = (filled @ got) @ more" "length more = n - length got" "content es1 = more @ content es'" by blast
    with stream_read_content [OF rd] stream_read_length [OF rd [unfolded got(1)]] got show ?thesis
      by (intro exI [of _ "got @ more"]) simp
  qed
qed

text \<open>A stream that keeps delivering until its end.\<close>

definition flowing :: "read_event list \<Rightarrow> bool" where
  "flowing es \<longleftrightarrow> (\<forall>e\<in>set es. \<exists>d. e = Data d \<and> d \<noteq> [])"

lemma stream_read_flowing:
  assumes "flowing es" "0 < n"
  obtains bs es' where "stream_read n es = (Got bs, es')" "flowing es'" "bs = [] \<longleftrightarrow> content es = []"
proof (cases es)
  case Nil
  then show ?thesis using assms by (intro that [of "[]" "[]"]) (simp_all add: flowing_def)
next
  case (Cons e es1)
  with assms(1) obtain d where d: "e = Data d" "d \<noteq> []" "flowing es1" by (auto simp: flowing_def)
  then show ?thesis
    using Cons assms by (cases "length d \<le> n") (auto intro!: that simp: flowing_def)
qed

lemma read_exact_flowing:
  "flowing es \<Longrightarrow> \<exists>es'. flowing es' \<and>
     (if n \<le> length (content es) then stream_read_exact n filled es = (Inr (filled @ take n (content es)), es') \<and> content es' = drop n (content es)
      else stream_read_exact n filled es = (Inl (Failed ConnectionClosed), es'))"
proof (induction n filled es rule: stream_read_exact.induct)
  case (1 n filled es)
  show ?case
  proof (cases "n = 0")
    case True
    with 1(2) show ?thesis by (subst stream_read_exact.simps) auto
  next
    case False
    obtain bs es1 where rd: "stream_read n es = (Got bs, es1)" "flowing es1" "bs = [] \<longleftrightarrow> content es = []"
      using stream_read_flowing [OF 1(2), of n] False by auto
    from stream_read_content [OF rd(1)] stream_read_length [OF rd(1)] have c: "content es = bs @ content es1" "length bs \<le> n" by simp_all
    show ?thesis
    proof (cases "bs = []")
      case True
      with False rd(1,3) have "stream_read_exact n filled es = (Inl (Failed ConnectionClosed), es1)" "content es = []"
        by (auto simp: stream_read_exact.simps read_error_def)
      with False rd(2) show ?thesis by auto
    next
      case ne: False
      with False rd(1) have step: "stream_read_exact n filled es = stream_read_exact (n - length bs) (filled @ bs) es1"
        by (simp add: stream_read_exact.simps [of n])
      have le: "n \<le> length (content es) \<longleftrightarrow> n - length bs \<le> length (content es1)" unfolding c(1) using c(2) by auto
      from 1(1) [OF False rd(1) [symmetric] refl ne rd(2)] show ?thesis
        unfolding step le unfolding c(1) using c(2) by (auto split: if_splits)
    qed
  qed
qed

lemma fragment_marker:
  assumes "fragment_fits p"
  shows "be_to_u32 (take 4 (fragment_wire l p)) AND 0x80000000 \<noteq> 0 \<longleftrightarrow> l"
    and "unat (be_to_u32 (take 4 (fragment_wire l p)) AND 0x7fffffff) = length p"
proof -
  have "record_marker_decode (be_to_u32 (take 4 (fragment_wire l p))) = \<lparr>last_fragment = l, payload_len = of_nat (length p)\<rparr>"
    using fragment_wire_marker [OF assms, of l] by (simp add: record_marker_decode_bytes_def)
  then have "(be_to_u32 (take 4 (fragment_wire l p)) AND 0x80000000 \<noteq> 0) = l"
    "be_to_u32 (take 4 (fragment_wire l p)) AND MAX_FRAGMENT_LEN = of_nat (length p)"
    by (simp_all add: record_marker_decode_def push_bit_eq_mult)
  then show "be_to_u32 (take 4 (fragment_wire l p)) AND 0x80000000 \<noteq> 0 \<longleftrightarrow> l"
    "unat (be_to_u32 (take 4 (fragment_wire l p)) AND 0x7fffffff) = length p"
    using fragment_len [OF assms] by (simp_all add: MAX_FRAGMENT_LEN_def)
qed

lemma marker_fragment:
  assumes "length header = 4" "length p = unat (be_to_u32 header AND 0x7fffffff)"
  shows "fragment_fits p" "header @ p = fragment_wire (be_to_u32 header AND 0x80000000 \<noteq> 0) p"
proof -
  have m: "record_marker_decode_bytes (take 4 (header @ p)) =
      \<lparr>last_fragment = be_to_u32 header AND 0x80000000 \<noteq> 0, payload_len = be_to_u32 header AND 0x7fffffff\<rparr>"
    using assms(1) by (simp add: record_marker_decode_bytes_def record_marker_decode_def push_bit_eq_mult MAX_FRAGMENT_LEN_def)
  from fragment_at [OF m [symmetric], of p] assms show "fragment_fits p"
    "header @ p = fragment_wire (be_to_u32 header AND 0x80000000 \<noteq> 0) p" by simp_all
qed

abbreviation opened :: "bytes list \<Rightarrow> bytes" where
  "opened qs \<equiv> concat (map (fragment_wire False) qs)"

lemma framed_append: "ps \<noteq> [] \<Longrightarrow> framed (qs @ ps) = opened qs @ framed ps"
  by (induction qs) (auto simp: framed_Cons)

lemma decode_framed:
  assumes "frames_ok ps"
  shows "try_decode_message_from_buffer (framed ps @ rest) =
    (Inr (case rpc_message_decode (concat ps) of Inl e \<Rightarrow> Inl (WireFailure e) | Inr m \<Rightarrow> Inr (Some m)), rest)"
  by (simp add: try_decode_message_from_buffer_def try_take_framed [OF assms] split: sum.split)

text \<open>One fragment, read whole and within the limits.\<close>

lemma read_fragments_Suc:
  assumes "stream_read_exact 4 [] es = (Inr header, es1)" "stream_read_exact (length p) [] es1 = (Inr p, es2)"
    and "fragment_fits p" "header @ p = fragment_wire l p" "length rd + 4 + length p \<le> max_record_bytes limits"
    and "max_record_bytes limits \<le> usize_max" "rd = opened qs" "list_all fragment_fits qs"
  shows "read_fragments (Suc k) limits rd es =
    (if l then (case rpc_message_decode (concat (qs @ [p])) of
        Inl e \<Rightarrow> (Inl (MessageHalted (Failed (WireFailure e))), es2) | Inr m \<Rightarrow> (Inr m, es2))
     else read_fragments k limits (opened (qs @ [p])) es2)"
proof -
  have header: "header = take 4 (fragment_wire l p)" using assms(4) by (metis append_eq_conv_conj length_append add_diff_cancel_right' length_fragment_wire)
  have sum: "Option.bind (checked_add (length rd) 4) (\<lambda>n. checked_add n (length p)) = Some (length rd + 4 + length p)"
    using assms(5,6) by (simp add: checked_add_def)
  have fits: "frames_ok (qs @ [p])" using assms(3,8) by (simp add: frames_ok_def)
  have buf: "rd @ header @ p = (if l then framed (qs @ [p]) else opened (qs @ [p]))"
    unfolding assms(4,7) by (simp add: framed_append)
  show ?thesis
    using assms(1,2,5) decode_framed [OF fits, of "[]"] fragment_marker [OF assms(3), of l, folded header]
    by (cases l) (simp_all add: Let_def sum buf [simplified] split: sum.split)
qed

lemma read_fragments_sound:
  assumes "read_fragments k limits rd es = (Inr m, es')" "rd = opened qs" "list_all fragment_fits qs" "max_record_bytes limits \<le> usize_max"
  shows "\<exists>ps. frames_ok ps \<and> content es = framed ps @ content es' \<and> length ps \<le> k \<and>
    length rd + length (framed ps) \<le> max_record_bytes limits \<and> rpc_message_decode (concat (qs @ ps)) = Inr m"
  using assms
proof (induction k arbitrary: rd es qs)
  case (Suc k)
  from Suc.prems(1) obtain header es1 where h: "stream_read_exact 4 [] es = (Inr header, es1)" by (auto split: prod.splits sum.splits)
  let ?len = "unat (be_to_u32 header AND 0x7fffffff)"
  from Suc.prems(1) h have lim: "length rd + 4 + ?len \<le> max_record_bytes limits"
    and "\<exists>p es2. stream_read_exact ?len [] es1 = (Inr p, es2)"
    by (auto simp: Let_def checked_add_def split: prod.splits sum.splits option.splits if_splits)
  then obtain p es2 where p: "stream_read_exact ?len [] es1 = (Inr p, es2)" by blast
  from read_exact_sound [OF h] read_exact_sound [OF p] have len: "length header = 4" "length p = ?len"
    and c: "content es = header @ content es1" "content es1 = p @ content es2" by auto
  define l where "l \<longleftrightarrow> be_to_u32 header AND 0x80000000 \<noteq> 0"
  note frag = marker_fragment [OF len, folded l_def]
  note step = read_fragments_Suc [OF h p [folded len(2)] frag lim [folded len(2)] Suc.prems(4,2,3), of k]
  have wire: "content es = fragment_wire l p @ content es2" using c frag(2) by simp
  show ?case
  proof (cases l)
    case True
    with Suc.prems(1) step have "rpc_message_decode (concat (qs @ [p])) = Inr m" "es2 = es'" by (auto split: sum.splits)
    with True wire frag(1) lim len show ?thesis by (intro exI [of _ "[p]"]) (simp add: frames_ok_def)
  next
    case False
    with Suc.prems(1) step have more: "read_fragments k limits (opened (qs @ [p])) es2 = (Inr m, es')" by simp
    have fits: "list_all fragment_fits (qs @ [p])" using Suc.prems(3) frag(1) by simp
    from Suc.IH [OF more refl fits Suc.prems(4)] obtain ps where ps: "frames_ok ps" "content es2 = framed ps @ content es'" "length ps \<le> k"
      "length (opened (qs @ [p])) + length (framed ps) \<le> max_record_bytes limits" "rpc_message_decode (concat ((qs @ [p]) @ ps)) = Inr m"
      by blast
    with False wire frag(1) Suc.prems(2) show ?thesis
      by (intro exI [of _ "p # ps"]) (auto simp: frames_ok_def framed_Cons)
  qed
qed simp

lemma read_fragments_complete:
  assumes "flowing es" "content es = framed ps @ rest" "frames_ok ps" "length ps \<le> k" "rd = opened qs" "list_all fragment_fits qs"
    and "length rd + length (framed ps) \<le> max_record_bytes limits" "max_record_bytes limits \<le> usize_max"
    and "rpc_message_decode (concat (qs @ ps)) = Inr m"
  shows "\<exists>es'. read_fragments k limits rd es = (Inr m, es') \<and> content es' = rest \<and> flowing es'"
  using assms
proof (induction ps arbitrary: k rd es qs)
  case (Cons p ps)
  then obtain j where k: "k = Suc j" by (cases k) auto
  from Cons.prems(3) have p: "fragment_fits p" by (simp add: frames_ok_def)
  let ?l = "ps = []"
  define header where "header = take 4 (fragment_wire ?l p)"
  have hp: "header @ p = fragment_wire ?l p" "length header = 4"
    by (simp_all add: header_def) (metis append_take_drop_id fragment_wire_payload)
  have c: "content es = header @ p @ framed ps @ rest" using Cons.prems(2) hp(1) by (simp add: framed_Cons)
  from read_exact_flowing [OF Cons.prems(1), of 4 "[]"] hp(2) obtain es1 where
    es1: "flowing es1" "stream_read_exact 4 [] es = (Inr header, es1)" "content es1 = p @ framed ps @ rest"
    unfolding c by auto
  from read_exact_flowing [OF es1(1), of "length p" "[]"] obtain es2 where
    es2: "flowing es2" "stream_read_exact (length p) [] es1 = (Inr p, es2)" "content es2 = framed ps @ rest"
    unfolding es1(3) by auto
  have lim: "length rd + 4 + length p \<le> max_record_bytes limits" using Cons.prems(7) by (simp add: framed_Cons)
  note step = read_fragments_Suc [OF es1(2) es2(2) p hp(1) lim Cons.prems(8,5,6), of j]
  show ?case
  proof (cases ?l)
    case True
    with step Cons.prems(9) es2 k show ?thesis by auto
  next
    case False
    have "frames_ok ps" "length ps \<le> j" "list_all fragment_fits (qs @ [p])" using False Cons.prems(3,4,6) k by (auto simp: frames_ok_def)
    moreover have "length (opened (qs @ [p])) + length (framed ps) \<le> max_record_bytes limits"
      using Cons.prems(5,7) by (simp add: framed_Cons)
    ultimately show ?thesis
      using Cons.IH [OF es2(1,3), of j "opened (qs @ [p])" "qs @ [p]"] Cons.prems(8,9) step False k by simp
  qed
qed (simp add: frames_ok_def)

section \<open>The negotiation, proved\<close>

lemma map_err_is_Inr: "map_err f x = Inr y \<longleftrightarrow> x = Inr y"
  by (cases x) simp_all

lemma length_token [simp]: "length STARTTLS_TOKEN = 8"
  by (simp add: STARTTLS_TOKEN_def)

lemma starttls_ok_reply_eq:
  "starttls_ok_reply xid = Inr \<lparr>msg_xid = xid, msg_body = Reply (Accepted
     \<lparr>ar_verifier = \<lparr>oa_flavor = FlavorNone, oa_body = STARTTLS_TOKEN\<rparr>, ar_status = Success []\<rparr>)\<rparr>"
  by (simp add: starttls_ok_reply_def opaque_auth_new_def validate_auth_len_def MAX_AUTH_BYTES_def)

lemma starttls_probe_eq:
  "starttls_probe program = Inr \<lparr>msg_xid = Xid 1, msg_body = Call (call_body_new program (Procedure 0)
     \<lparr>oa_flavor = FlavorUnknown AUTH_TLS_VALUE, oa_body = []\<rparr> opaque_auth_none [])\<rparr>"
  by (simp add: starttls_probe_def opaque_auth_new_def validate_auth_len_def MAX_AUTH_BYTES_def)

lemma validate_starttls_reply_iff:
  "validate_starttls_reply reply xid = Inr () \<longleftrightarrow> starttls_ok_reply xid = Inr reply"
  by (cases reply)
     (auto simp: validate_starttls_reply_def starttls_ok_reply_eq
       split: message_body.splits reply_body.splits accepted_status.splits rejected_reply.splits)

lemma probe_recognised: "starttls_probe program = Inr probe \<Longrightarrow> auth_tls_request probe = Some Probe"
  by (auto simp: starttls_probe_eq auth_tls_request_def call_body_new_def)

lemma probe_encodes:
  assumes "starttls_probe program = Inr probe"
  shows "rpc_message_encode probe = Inr (message_wire probe)" "rpc_message_decode (message_wire probe) = Inr probe"
    "length (message_wire probe) = 40" "msg_xid probe = Xid 1"
  using assms
  by (auto simp: starttls_probe_eq message_encode_Inr message_decode_iff wf_message_def auth_canonical_def auth_flavor_from_def AUTH_TLS_VALUE_def
      auth_fits_def opaque_auth_none_def call_body_new_def RPC_VERSION_2_def message_wire_def call_wire_def auth_wire_def opaque_wire_def xdr_padding_def)

lemma ok_reply_encodes:
  assumes "starttls_ok_reply xid = Inr reply"
  shows "rpc_message_encode reply = Inr (message_wire reply)" "rpc_message_decode (message_wire reply) = Inr reply"
    "length (message_wire reply) = 32" "msg_xid reply = xid"
  using assms
  by (auto simp: starttls_ok_reply_eq message_encode_Inr message_decode_iff wf_message_def auth_canonical_def auth_flavor_from_def
      auth_fits_def MAX_AUTH_BYTES_def message_wire_def auth_wire_def opaque_wire_def xdr_padding_def)

lemma short_fits: "length bs \<le> 40 \<Longrightarrow> fragment_fits bs"
  by (simp add: fragment_fits_def MAX_FRAGMENT_LEN_def)

lemma write_short:
  assumes rel: "reliable wr written" and "rpc_message_encode r = Inr payload" "fragment_fits payload"
  obtains w' where "write_rpc_message wr r w = (Inr (), w')" "written w' = written w @ framed [payload]"
proof -
  let ?marker = "\<lparr>last_fragment = True, payload_len = of_nat (length payload)\<rparr>"
  obtain w1 where w1: "wa_write_all wr (record_marker_encode_bytes ?marker) w = (Inr (), w1)" using rel by (auto simp: reliable_def prod_eq_iff)
  obtain w2 where w2: "wa_write_all wr payload w1 = (Inr (), w2)" using rel by (auto simp: reliable_def prod_eq_iff)
  obtain w3 where w3: "wa_flush wr w2 = (Inr (), w3)" using rel by (auto simp: reliable_def prod_eq_iff)
  have ok: "writer_ok wr written" using rel by (simp add: reliable_def)
  have "written w1 = written w @ record_marker_encode_bytes ?marker" "written w2 = written w1 @ payload" "written w3 = written w2"
    using ok w1 w2 w3 unfolding writer_ok_def by metis+
  moreover have "record_marker_new (of_nat (length payload)) True = Inr ?marker"
    using fragment_len_le [OF assms(3)] by (simp add: record_marker_new_def)
  then have "write_rpc_message wr r w = (Inr (), w3)"
    using assms(2,3) w1 w2 w3 by (simp add: write_rpc_message_def write_record_payload_def fragment_fits_def)
  ultimately show ?thesis using that by (simp add: fragment_wire_def)
qed

lemma probe_reads:
  assumes "flowing stream" "content stream = framed [payload] @ rest" "fragment_fits payload" "length payload \<le> 4092"
    and "rpc_message_decode payload = Inr m"
  shows "\<exists>stream'. read_rpc_message_with_limits STARTTLS_PROBE_LIMITS stream = (Inr m, stream') \<and> content stream' = rest"
  using read_fragments_complete [OF assms(1,2), of 16 "[]" "[]" STARTTLS_PROBE_LIMITS m] assms(3-5)
  by (auto simp: read_rpc_message_with_limits_def record_limits_validate_def STARTTLS_PROBE_LIMITS_def frames_ok_def usize_max_def)

lemma probe_sound:
  assumes "read_rpc_message_with_limits STARTTLS_PROBE_LIMITS stream = (Inr m, stream')"
  shows "\<exists>ps. frames_ok ps \<and> content stream = framed ps @ content stream' \<and> length ps \<le> 16 \<and> length (framed ps) \<le> 4096 \<and>
    rpc_message_decode (concat ps) = Inr m"
  using read_fragments_sound [of 16 STARTTLS_PROBE_LIMITS "[]" stream m stream' "[]"] assms
  by (simp add: read_rpc_message_with_limits_def record_limits_validate_def STARTTLS_PROBE_LIMITS_def usize_max_def)

section \<open>What a connection dispatches\<close>

definition serviceable :: "rpc_message \<Rightarrow> bool" where
  "serviceable m \<longleftrightarrow> auth_tls_request m = None"

fun early :: "tls_pc \<Rightarrow> bool" where
  "early (TlsProbing _) = True"
| "early (TlsProbeRead _) = True"
| "early TlsHandshake = True"
| "early _ = False"

fun live :: "tls_pc \<Rightarrow> bool" where
  "live (TlsReturned _) = False"
| "live TlsPanicked = False"
| "live TlsDropped = False"
| "live _ = True"

fun waiting :: "tls_pc \<Rightarrow> rpc_message list" where
  "waiting (TlsAcquire m) = [m]"
| "waiting _ = []"

fun probing_mode :: "tls_pc \<Rightarrow> tls_mode option" where
  "probing_mode (TlsProbing mode) = Some mode"
| "probing_mode (TlsProbeRead mode) = Some mode"
| "probing_mode _ = None"

abbreviation messages :: "bytes \<Rightarrow> rpc_message list" where
  "messages bs \<equiv> filter serviceable (fst (parse_stream bs))"

definition tls_dispatched :: "'w tls_connection \<Rightarrow> bool" where
  "tls_dispatched c \<longleftrightarrow>
     (\<forall>rest. if live (tc_pc c) then messages (tc_received c @ rest) = tc_spawned c @ waiting (tc_pc c) @ messages (tc_buffer c @ rest)
        else prefix (tc_spawned c) (messages (tc_received c @ rest))) \<and>
     list_all serviceable (waiting (tc_pc c)) \<and>
     (tc_pc c = TlsRead \<longrightarrow> read_record_take (tc_buffer c) = None)"

text \<open>Nothing is dispatched before the mode allows it.\<close>

definition tls_guarded :: "'w tls_connection \<Rightarrow> bool" where
  "tls_guarded c \<longleftrightarrow>
     (\<forall>mode. probing_mode (tc_pc c) = Some mode \<longrightarrow> tc_mode c = Some mode) \<and>
     (early (tc_pc c) \<longrightarrow> \<not> tc_secured c \<and> tc_spawned c = [] \<and> tc_tasks c = []) \<and>
     (\<not> tc_secured c \<and> (case tc_mode c of Some mode \<Rightarrow> requires_tls mode | None \<Rightarrow> True) \<longrightarrow>
        tc_spawned c = [] \<and> tc_tasks c = [] \<and> (early (tc_pc c) \<or> \<not> live (tc_pc c))) \<and>
     tc_pc c \<noteq> TlsPanicked"

lemma tls_write_cases:
  obtains w where "tls_write wr reply next c = c\<lparr>tc_writer := w, tc_pc := next\<rparr>"
    | w e where "tls_write wr reply next c = c\<lparr>tc_writer := w, tc_pc := TlsReturned (Inl e)\<rparr>"
  by (cases "write_rpc_message wr reply (tc_writer c)"; cases "fst (write_rpc_message wr reply (tc_writer c))")
     (auto simp: tls_write_def)

lemma tls_decode_cases:
  assumes "tls_dispatched c" "live (tc_pc c)" "waiting (tc_pc c) = []"
  obtains b e where "tls_decode act wait c = c\<lparr>tc_buffer := b, tc_pc := TlsReturned (Inl e)\<rparr>"
      "\<And>rest. messages (tc_received c @ rest) = tc_spawned c"
    | m b where "tls_decode act wait c = act m (c\<lparr>tc_buffer := b\<rparr>)"
      "\<And>rest. messages (tc_received c @ rest) = tc_spawned c @ filter serviceable [m] @ messages (b @ rest)"
    | "tls_decode act wait c = c\<lparr>tc_pc := wait\<rparr>" "read_record_take (tc_buffer c) = None"
proof (cases rule: try_decode_cases [of "tc_buffer c"])
  case (1 ps b)
  note m = assms [unfolded tls_dispatched_def]
  show ?thesis
  proof (cases "rpc_message_decode (concat ps)")
    case (Inl e)
    with 1 m show ?thesis by (intro that(1) [where b = b]) (simp_all add: tls_decode_def parse_record)
  next
    case (Inr msg)
    with 1 m show ?thesis by (intro that(2) [where m = msg and b = b]) (simp_all add: tls_decode_def parse_record)
  qed
next
  case 2
  then show ?thesis by (intro that(3)) (simp_all add: tls_decode_def)
qed

lemma tls_dispatched_new: "tls_dispatched (starttls_connection_new mode input w)" "tls_dispatched (tls_connection_new input w)"
  by (simp_all add: tls_dispatched_def starttls_connection_new_def tls_connection_new_def)

lemma dispatched_stop:
  assumes "tls_dispatched c" "\<not> live pc"
  shows "tls_dispatched (c\<lparr>tc_writer := w, tc_pc := pc\<rparr>)" "tls_dispatched (c\<lparr>tc_input := es, tc_pc := pc\<rparr>)" "tls_dispatched (c\<lparr>tc_pc := pc\<rparr>)"
  using assms by (cases pc; auto simp: tls_dispatched_def split: if_splits)+

lemma dispatched_spawn:
  assumes "tls_dispatched c" "tc_pc c = TlsAcquire m"
  shows "tls_dispatched (c\<lparr>tc_pc := TlsDrain, tc_tasks := ts, tc_spawned := tc_spawned c @ [m]\<rparr>)"
  using assms by (simp add: tls_dispatched_def)

lemma dispatched_tls_read:
  assumes "tls_dispatched c" "live (tc_pc c)" "waiting (tc_pc c) = []" "next = TlsDrain \<or> (\<exists>mode. next = TlsProbing mode)"
  shows "tls_dispatched (tls_read failed next c)"
proof -
  have "\<not> live (TlsReturned x)" "\<not> live TlsDropped" for x by simp_all
  moreover have "tls_dispatched (c\<lparr>tc_input := es, tc_buffer := tc_buffer c @ d, tc_pc := next, tc_received := tc_received c @ d\<rparr>)" for es d
    using assms by (auto simp: tls_dispatched_def)
  ultimately show ?thesis
    using assms(1) by (auto simp: tls_read_def dispatched_stop split: list.split read_event.split)
qed

lemma dispatched_decode_step:
  assumes "tls_dispatched c" "live (tc_pc c)" "waiting (tc_pc c) = []" "live wait" "waiting wait = []"
    and "\<And>m b. (\<And>rest. messages (tc_received c @ rest) = tc_spawned c @ filter serviceable [m] @ messages (b @ rest)) \<Longrightarrow>
          tls_dispatched (act m (c\<lparr>tc_buffer := b\<rparr>))"
  shows "tls_dispatched (tls_decode act wait c)"
proof (cases rule: tls_decode_cases [OF assms(1-3), of act wait])
  case (1 b e)
  then show ?thesis by (simp add: tls_dispatched_def)
next
  case (2 m b)
  then show ?thesis using assms(6) by simp
next
  case 3
  with assms show ?thesis by (simp add: tls_dispatched_def)
qed

lemma dispatched_starttls_message:
  assumes "\<And>rest. messages (tc_received c @ rest) = tc_spawned c @ filter serviceable [m] @ messages (tc_buffer c @ rest)" "tc_spawned c = []"
  shows "tls_dispatched (starttls_message wr mode m c)"
proof -
  have stop: "tls_dispatched (c\<lparr>tc_writer := w, tc_pc := TlsReturned r\<rparr>)" for w r using assms by (simp add: tls_dispatched_def)
  have go: "tls_dispatched (c\<lparr>tc_writer := w, tc_pc := pc\<rparr>)" if "\<not> serviceable m" "pc = TlsHandshake \<or> pc = TlsProbing mode" for w pc
    using assms that by (auto simp: tls_dispatched_def)
  have w: "tls_dispatched (tls_write wr r pc c)" if "\<not> serviceable m" "pc = TlsHandshake \<or> pc = TlsProbing mode" for r pc
    by (rule tls_write_cases [of wr r pc c]) (use stop go that in simp_all)
  have w': "tls_dispatched (tls_write wr r (TlsReturned x) c)" for r x
    by (rule tls_write_cases [of wr r "TlsReturned x" c]) (use stop in simp_all)
  show ?thesis
    using assms w w' by (auto simp: starttls_message_def starttls_ok_reply_eq serviceable_def tls_dispatched_def split: option.split auth_tls_kind.split)
qed

lemma tls_guarded_new: "tls_guarded (starttls_connection_new mode input w)" "tls_guarded (tls_connection_new input w)"
  by (simp_all add: tls_guarded_def starttls_connection_new_def tls_connection_new_def)

lemma guarded_pc:
  assumes "tls_guarded c" "pc \<noteq> TlsPanicked" "\<And>mode. probing_mode pc = Some mode \<Longrightarrow> tc_mode c = Some mode"
    and "early (tc_pc c) \<or> \<not> early pc" "early pc \<or> \<not> live pc \<or> \<not> early (tc_pc c) \<and> live (tc_pc c)"
  shows "tls_guarded (c\<lparr>tc_pc := pc\<rparr>)" "tls_guarded (c\<lparr>tc_writer := w, tc_pc := pc\<rparr>)" "tls_guarded (c\<lparr>tc_input := es, tc_pc := pc\<rparr>)"
    "tls_guarded (c\<lparr>tc_input := es, tc_buffer := b, tc_pc := pc, tc_received := d\<rparr>)" "tls_guarded (c\<lparr>tc_buffer := b, tc_pc := pc\<rparr>)"
  using assms by (auto simp: tls_guarded_def)

lemma guarded_stop:
  assumes "tls_guarded c" "pc = TlsDropped \<or> (\<exists>r. pc = TlsReturned r)"
  shows "tls_guarded (c\<lparr>tc_pc := pc\<rparr>)" "tls_guarded (c\<lparr>tc_writer := w, tc_pc := pc\<rparr>)" "tls_guarded (c\<lparr>tc_input := es, tc_pc := pc\<rparr>)"
    "tls_guarded (c\<lparr>tc_buffer := b, tc_pc := pc\<rparr>)"
  using assms by (auto simp: tls_guarded_def)

lemma guarded_write:
  assumes "tls_guarded (c\<lparr>tc_pc := pc\<rparr>)" "tls_guarded c"
  shows "tls_guarded (tls_write wr r pc c)"
proof (rule tls_write_cases [of wr r pc c])
  show "tls_guarded (tls_write wr r pc c)" if "tls_write wr r pc c = c\<lparr>tc_writer := w, tc_pc := pc\<rparr>" for w
    using assms(1) unfolding that by (simp add: tls_guarded_def)
  show "tls_guarded (tls_write wr r pc c)" if "tls_write wr r pc c = c\<lparr>tc_writer := w, tc_pc := TlsReturned (Inl e)\<rparr>" for w e
    unfolding that by (rule guarded_stop) (use assms(2) in simp_all)
qed

lemma guarded_starttls_message:
  assumes "tls_guarded c" "tc_pc c = TlsProbing mode"
  shows "tls_guarded (starttls_message wr mode m c)"
proof -
  from assms have mode: "tc_mode c = Some mode" by (simp add: tls_guarded_def)
  have "tls_guarded (c\<lparr>tc_pc := pc\<rparr>)" if "pc = TlsHandshake \<or> pc = TlsProbing mode \<or> (\<exists>r. pc = TlsReturned r)" for pc
    using assms that mode by (intro guarded_pc(1)) auto
  moreover have "tls_guarded (c\<lparr>tc_pc := TlsAcquire m\<rparr>)" if "\<not> requires_tls mode"
    using assms mode that by (simp add: tls_guarded_def)
  ultimately show ?thesis
    using assms by (auto simp: starttls_message_def starttls_ok_reply_eq guarded_write split: option.split auth_tls_kind.split)
qed

lemma guarded_decode:
  assumes "tls_guarded c" "tls_dispatched c" "live (tc_pc c)" "waiting (tc_pc c) = []"
    and "tls_guarded (c\<lparr>tc_pc := wait\<rparr>)" "\<And>m b. tls_guarded (act m (c\<lparr>tc_buffer := b\<rparr>))"
  shows "tls_guarded (tls_decode act wait c)"
  by (rule tls_decode_cases [OF assms(2-4), of act wait]) (use assms(1,5,6) in \<open>simp_all add: guarded_stop\<close>)

lemma guarded_read:
  assumes "tls_guarded c" "tls_guarded (c\<lparr>tc_pc := next\<rparr>)"
  shows "tls_guarded (tls_read failed next c)"
proof -
  have "tls_guarded (c\<lparr>tc_input := es, tc_buffer := b, tc_pc := next, tc_received := d\<rparr>)" for es b d
    using assms(2) by (simp add: tls_guarded_def)
  with assms(1) show ?thesis by (auto simp: tls_read_def guarded_stop split: list.split read_event.split)
qed

definition tls_ok :: "'w tls_connection \<Rightarrow> bool" where
  "tls_ok c \<longleftrightarrow> tls_dispatched c \<and> tls_guarded c"

lemma tls_ok_probing:
  assumes "tls_ok c" "tc_pc c = TlsProbing mode"
  shows "tls_ok (tls_decode (starttls_message wr mode) (TlsProbeRead mode) c)"
proof -
  from assms have c: "tls_dispatched c" "tls_guarded c" and pc: "live (tc_pc c)" "waiting (tc_pc c) = []" "tc_spawned c = []" "tc_mode c = Some mode"
    by (simp_all add: tls_ok_def tls_guarded_def)
  have "tls_guarded (c\<lparr>tc_pc := TlsProbeRead mode\<rparr>)" using c pc assms(2) by (intro guarded_pc(1)) simp_all
  moreover have "tls_guarded (starttls_message wr mode m (c\<lparr>tc_buffer := b\<rparr>))" for m b
    by (rule guarded_starttls_message) (use c assms(2) in \<open>simp_all add: tls_guarded_def\<close>)
  ultimately have "tls_guarded (tls_decode (starttls_message wr mode) (TlsProbeRead mode) c)" by (rule guarded_decode [OF c(2,1) pc(1,2)])
  moreover have "tls_dispatched (tls_decode (starttls_message wr mode) (TlsProbeRead mode) c)"
    by (rule dispatched_decode_step [OF c(1) pc(1,2)]) (use pc in \<open>simp_all add: dispatched_starttls_message\<close>)
  ultimately show ?thesis by (simp add: tls_ok_def)
qed

lemma tls_ok_drain:
  assumes "tls_ok c" "tc_pc c = TlsDrain"
  shows "tls_ok (tls_decode serve_split_message TlsRead c)"
proof -
  from assms have c: "tls_dispatched c" "tls_guarded c" and pc: "live (tc_pc c)" "waiting (tc_pc c) = []" by (simp_all add: tls_ok_def)
  have "tls_guarded (tls_decode serve_split_message TlsRead c)"
    by (rule guarded_decode [OF c(2,1) pc]) (use c assms(2) in \<open>auto simp: serve_split_message_def tls_guarded_def\<close>)
  moreover have "tls_dispatched (tls_decode serve_split_message TlsRead c)"
    by (rule dispatched_decode_step [OF c(1) pc]) (auto simp: serve_split_message_def tls_dispatched_def serviceable_def)
  ultimately show ?thesis by (simp add: tls_ok_def)
qed

lemma tls_ok_serve:
  assumes "tls_ok c"
  shows "tls_ok (snd (serve_tls_step wr acceptor sem (q, c)))"
proof (cases "tc_pc c")
  case (TlsProbeRead mode)
  with assms have "tls_guarded (tls_read f (TlsProbing mode) c)" for f
    by (intro guarded_read guarded_pc(1)) (auto simp: tls_ok_def tls_guarded_def)
  with TlsProbeRead assms show ?thesis by (simp add: serve_tls_step_def tls_ok_def dispatched_tls_read)
next
  case TlsRead
  with assms have "tls_guarded (tls_read f TlsDrain c)" for f
    by (intro guarded_read guarded_pc(1)) (auto simp: tls_ok_def)
  with TlsRead assms show ?thesis by (simp add: serve_tls_step_def tls_ok_def dispatched_tls_read)
next
  case TlsHandshake
  with assms show ?thesis
    by (auto simp: serve_tls_step_def tls_accept_def tls_ok_def dispatched_stop guarded_stop split: sum.split)
       (auto simp: tls_dispatched_def tls_guarded_def)
next
  case (TlsAcquire m)
  with assms show ?thesis
    by (auto simp: serve_tls_step_def spawn_reply_def tls_acquire_worker_permit_def tls_ok_def dispatched_spawn dispatched_stop guarded_stop
        split: acquisition.split) (auto simp: tls_guarded_def)
next
  case (TlsReject xid)
  have "tls_dispatched (tls_write wr r TlsDrain c)" for r
    by (rule tls_write_cases [of wr r TlsDrain c]) (use assms TlsReject in \<open>auto simp: tls_ok_def dispatched_stop\<close>, auto simp: tls_dispatched_def)
  moreover have "tls_guarded (tls_write wr r TlsDrain c)" for r
    using assms TlsReject by (intro guarded_write guarded_pc(1)) (auto simp: tls_ok_def)
  ultimately show ?thesis using TlsReject by (simp add: serve_tls_step_def tls_ok_def)
qed (use assms in \<open>simp_all add: serve_tls_step_def tls_ok_probing tls_ok_drain\<close>)

lemma tls_ok_task:
  assumes "tls_ok c" "j < length (tc_tasks c)"
  shows "tls_ok (c\<lparr>tc_writer := w, tc_tasks := ts\<rparr>)"
proof -
  from assms(2) have "tc_tasks c \<noteq> []" by auto
  with assms(1) show ?thesis by (auto simp: tls_ok_def tls_dispatched_def tls_guarded_def)
qed

lemma tls_ok_step:
  assumes "tls_step handle wr acceptor sem s s'" "\<forall>c\<in>set (tls_conns s). tls_ok c"
  shows "\<forall>c\<in>set (tls_conns s'). tls_ok c"
  using assms(1)
proof cases
  case (serve i)
  with assms(2) tls_ok_serve [of "tls_conns s ! i" wr acceptor sem "tls_workers s"] show ?thesis
    by (auto simp: tls_serve_def split: prod.splits dest!: set_update_subset_insert [THEN subsetD])
next
  case (run_task i j)
  with assms(2) tls_ok_task [of "tls_conns s ! i" j] show ?thesis
    by (auto simp: tls_task_def Let_def split: prod.splits option.splits dest!: set_update_subset_insert [THEN subsetD])
qed (use assms(2) in \<open>auto simp: tls_ok_def tls_dispatched_new tls_guarded_new\<close>)

lemma tls_ok_all:
  assumes "(tls_step handle wr acceptor sem)\<^sup>*\<^sup>* (tls_bind sem config app) s"
  shows "\<forall>c\<in>set (tls_conns s). tls_ok c"
  using assms by (induction rule: rtranclp_induct) (simp add: tls_bind_def, rule tls_ok_step)

text \<open>The permits of the TLS transports are a worker pool, like those of the plain ones.\<close>

definition tls_running :: "('q, 'd, 'w) tls_system \<Rightarrow> nat" where
  "tls_running s = (\<Sum>c\<leftarrow>tls_conns s. length (tc_tasks c))"

lemma tls_running_update:
  assumes "i < length (tls_conns s)" "tls_conns s' = (tls_conns s)[i := c]"
    and "m + length (tc_tasks c) = n + length (tc_tasks (tls_conns s ! i))"
  shows "m + tls_running s' = n + tls_running s"
  using sum_list_nth_update [OF assms(1), of "\<lambda>c. length (tc_tasks c)" c] assms(2,3) by (simp add: tls_running_def)

lemma tls_write_tasks [simp]: "tc_tasks (tls_write wr r pc c) = tc_tasks c"
  by (simp add: tls_write_def split: prod.split sum.split)

lemma serve_tls_permits:
  assumes "semaphore_ok sem available" "serve_tls_step wr acceptor sem (q, c) = (q', c')"
  shows "available q' + length (tc_tasks c') = available q + length (tc_tasks c)"
proof (cases "tc_pc c")
  case (TlsAcquire m)
  with assms show ?thesis
    by (auto simp: serve_tls_step_def spawn_reply_def tls_acquire_worker_permit_def semaphore_ok_def split: acquisition.splits)
qed (use assms(2) in \<open>auto simp: serve_tls_step_def tls_decode_def tls_read_def tls_accept_def starttls_message_def serve_split_message_def
      split: prod.splits sum.splits option.splits list.splits read_event.splits auth_tls_kind.splits if_splits\<close>)

interpretation tls_pool: worker_pool "tls_step handle wr acceptor" tls_workers tls_running for handle wr acceptor
proof (unfold_locales, goal_cases)
  case (1 sem available s s')
  from 1(2) show ?case
  proof cases
    case (serve i)
    obtain q c where st: "serve_tls_step wr acceptor sem (tls_workers s, tls_conns s ! i) = (q, c)" by fastforce
    then have s': "tls_workers s' = q" "tls_conns s' = (tls_conns s)[i := c]" using serve by (simp_all add: tls_serve_def)
    show ?thesis
      unfolding s'(1) by (rule tls_running_update [OF serve(2) s'(2) serve_tls_permits [OF 1(1) st]])
  next
    case (run_task i j)
    let ?c = "tls_conns s ! i"
    obtain t app w where st: "tls_task_step handle wr (tc_tasks ?c ! j) (tls_app s, tc_writer ?c) = (t, app, w)" by (metis prod_cases3)
    from 1(1) have rel: "available (sem_release sem (tls_workers s)) = Suc (available (tls_workers s))" by (simp add: semaphore_ok_def)
    show ?thesis
    proof (cases t)
      case None
      with st rel length_drop_nth [OF run_task(3)] run_task show ?thesis
        by (intro tls_running_update [OF run_task(2), of _ "?c\<lparr>tc_writer := w, tc_tasks := drop_nth j (tc_tasks ?c)\<rparr>"])
           (simp_all add: tls_task_def Let_def)
    next
      case (Some t')
      with st run_task show ?thesis
        by (intro tls_running_update [OF run_task(2), of _ "?c\<lparr>tc_writer := w, tc_tasks := (tc_tasks ?c)[j := t']\<rparr>"])
           (simp_all add: tls_task_def Let_def)
    qed
  qed (simp_all add: tls_running_def starttls_connection_new_def tls_connection_new_def)
qed

section \<open>A sample connection\<close>

definition sample_tls :: "read_event list \<Rightarrow> bytes \<Rightarrow> tls_pc \<Rightarrow> bool \<Rightarrow> bytes \<Rightarrow> rpc_message list \<Rightarrow> (nat, unit, bytes) tls_system" where
  "sample_tls input buffer pc secured received spawned =
     \<lparr>tls_workers = 1 - length spawned, tls_app = (), tls_conns =
       [\<lparr>tc_mode = None, tc_input = input, tc_writer = [], tc_buffer = buffer, tc_pc = pc,
         tc_tasks = map TaskDispatch spawned, tc_secured = secured, tc_received = received, tc_spawned = spawned\<rparr>]\<rparr>"

abbreviation sample_acceptor :: "bytes tls_acceptor" where
  "sample_acceptor \<equiv> \<lambda>_. Inr ([Data null_record], [])"

lemma sample_serve:
  assumes "serve_tls_step wr acceptor counting_semaphore (tls_workers s, tls_conns s ! 0) = (q, c)" "tls_conns s = [c0]"
  shows "tls_step handle wr acceptor counting_semaphore s (s\<lparr>tls_workers := q, tls_conns := [c]\<rparr>)"
  using tls_step.serve [of 0 s handle wr acceptor counting_semaphore] assms by (simp add: tls_serve_def)

lemma null_serviceable: "auth_tls_request null_call = None"
  by (simp add: auth_tls_request_def null_defs opaque_auth_none_def)

lemma sample_tls_run:
  fixes handle :: "unit handler"
  defines "step \<equiv> tls_step handle list_writer sample_acceptor counting_semaphore"
  shows "step\<^sup>*\<^sup>* (tls_bind counting_semaphore server_config_default ()) (sample_tls [] [] TlsRead True null_record [null_call])"
proof -
  have ne: "null_record \<noteq> []" by simp
  have go: "step (sample_tls input buffer pc secured received spawned) (sample_tls input' buffer' pc' secured' received' spawned')"
    if "serve_tls_step list_writer sample_acceptor counting_semaphore (1 - length spawned, tls_conns (sample_tls input buffer pc secured received spawned) ! 0) =
      (1 - length spawned', tls_conns (sample_tls input' buffer' pc' secured' received' spawned') ! 0)"
    for input buffer pc secured received spawned input' buffer' pc' secured' received' spawned'
    using sample_serve [of list_writer sample_acceptor "sample_tls input buffer pc secured received spawned"] that
    by (simp add: step_def sample_tls_def)
  have "step\<^sup>*\<^sup>* (tls_bind counting_semaphore server_config_default ()) (sample_tls [] [] TlsHandshake False [] [])"
    using tls_step.accept_tls [of handle list_writer sample_acceptor counting_semaphore "tls_bind counting_semaphore server_config_default ()" "[]" "[]"]
    by (intro r_into_rtranclp)
       (simp add: step_def sample_tls_def tls_bind_def tls_connection_new_def counting_semaphore_def worker_threads_permits_def server_config_default_def)
  also have "step \<dots> (sample_tls [Data null_record] [] TlsDrain True [] [])"
    by (rule go) (simp add: sample_tls_def serve_tls_step_def tls_accept_def)
  also (rtranclp.rtrancl_into_rtrancl) have "step \<dots> (sample_tls [Data null_record] [] TlsRead True [] [])"
    by (rule go) (simp add: sample_tls_def serve_tls_step_def tls_decode_def empty_decode)
  also (rtranclp.rtrancl_into_rtrancl) have "step \<dots> (sample_tls [] null_record TlsDrain True null_record [])"
    by (rule go) (simp add: sample_tls_def serve_tls_step_def tls_read_def ne del: framed.simps)
  also (rtranclp.rtrancl_into_rtrancl) have "step \<dots> (sample_tls [] [] (TlsAcquire null_call) True null_record [])"
    by (rule go) (simp add: sample_tls_def serve_tls_step_def tls_decode_def null_decode serve_split_message_def null_serviceable del: framed.simps)
  also (rtranclp.rtrancl_into_rtrancl) have "step \<dots> (sample_tls [] [] TlsDrain True null_record [null_call])"
    by (rule go) (simp add: sample_tls_def serve_tls_step_def spawn_reply_def tls_acquire_worker_permit_def counting_semaphore_def)
  also (rtranclp.rtrancl_into_rtrancl) have "step \<dots> (sample_tls [] [] TlsRead True null_record [null_call])"
    by (rule go) (simp add: sample_tls_def serve_tls_step_def tls_decode_def empty_decode)
  finally (rtranclp.rtrancl_into_rtrancl) show ?thesis .
qed

section \<open>Properties\<close>

text \<open>
  C6. Whatever the server sends, a STARTTLS client gets a connection only over a TLS session
  that negotiated \<^verbatim>\<open>sunrpc\<close>, started after the client had written exactly its probe in the
  clear, on a stream whose first record, of at most 4,096 bytes and 16 fragments, was the
  reply RFC 9289 asks for, under the probe's identifier; no byte after that record has been
  taken from the stream.
\<close>
theorem starttls_client_secure:
  assumes "starttls_connect sockets show_duration wr connector config tls program = Inr (Inr conn)" "writer_ok wr written"
  shows "\<exists>stream w probe qs reply ps stream' w' tls_stream.
    tcp_connect sockets show_duration config = Inr (stream, w) \<and>
    starttls_probe program = Inr probe \<and> frames_ok qs \<and> rpc_message_encode probe = Inr (concat qs) \<and> written w' = written w @ framed qs \<and>
    frames_ok ps \<and> content stream = framed ps @ content stream' \<and> length ps \<le> 16 \<and> length (framed ps) \<le> 4096 \<and>
    rpc_message_decode (concat ps) = Inr reply \<and> starttls_ok_reply (msg_xid probe) = Inr reply \<and>
    connector tls (stream', w') = Some (Inr (tls_stream, Some SUNRPC_ALPN)) \<and> from_stream tls_stream config = Inr conn"
proof -
  from assms(1) obtain stream w where tcp: "tcp_connect sockets show_duration config = Inr (stream, w)"
    by (cases "tcp_connect sockets show_duration config") (auto simp: starttls_connect_def setup_with_timeout_def)
  obtain r stream' w' where probe: "perform_starttls_probe wr program (stream, w) = (r, stream', w')" by (metis prod_cases3)
  with assms(1) tcp have r: "r = Inr ()" and made: "tls_setup connector config tls (stream', w') = Inr conn"
    by (auto simp: starttls_connect_def setup_with_timeout_def split: sum.splits setup_halt.splits)
  obtain m where m: "starttls_probe program = Inr m" by (simp add: starttls_probe_eq)
  from probe [unfolded r] m obtain reply where wr: "write_rpc_message wr m w = (Inr (), w')"
    and rd: "read_rpc_message_with_limits STARTTLS_PROBE_LIMITS stream = (Inr reply, stream')"
    and ok: "validate_starttls_reply reply (msg_xid m) = Inr ()"
    by (auto simp: perform_starttls_probe_def map_err_is_Inr split: prod.splits sum.splits message_halt.splits halt.splits runtime_error.splits)
  from wr probe_encodes(1) [OF m] have "write_record_payload wr (message_wire m) w = (Inr (), w')" by (simp add: write_rpc_message_def)
  from write_record_payload_writes [OF assms(2) this] obtain qs where
    "frames_ok qs" "concat qs = message_wire m" "written w' = written w @ framed qs" by blast
  moreover from made obtain tls_stream where "connector tls (stream', w') = Some (Inr (tls_stream, Some SUNRPC_ALPN))"
    "from_stream tls_stream config = Inr conn"
    by (auto simp: tls_setup_def validate_client_alpn_def map_err_is_Inr split: option.splits sum.splits if_splits)
  ultimately show ?thesis
    using tcp m probe_encodes(1) [OF m] probe_sound [OF rd] ok unfolding validate_starttls_reply_iff by metis
qed

theorem starttls_client_secure_witness:
  "\<exists>reply conn stream' tls_stream. starttls_ok_reply (Xid 1) = Inr reply \<and>
    starttls_connect \<lparr>so_new_v4 = Inr (), so_new_v6 = Inr (), so_bind = (\<lambda>_ _. Inr ()), so_connect = (\<lambda>_ _. Some (Inr ([Data (framed [message_wire reply])], [])))\<rparr>
      (\<lambda>_. []) list_writer (\<lambda>_ _. Some (Inr ([], Some SUNRPC_ALPN))) (client_config_new (SocketV4 [127, 0, 0, 1] 111))
      (client_tls_config_new ''server'') \<lparr>pv_program = 9, pv_version = 1\<rparr> = Inr (Inr (conn :: unit owned)) \<and>
    from_stream tls_stream (client_config_new (SocketV4 [127, 0, 0, 1] 111)) = Inr conn"
proof -
  obtain reply where reply: "starttls_ok_reply (Xid 1) = Inr reply" by (simp add: starttls_ok_reply_eq)
  note enc = ok_reply_encodes [OF reply]
  let ?sockets = "\<lparr>so_new_v4 = Inr (), so_new_v6 = Inr (), so_bind = (\<lambda>_ _. Inr ()), so_connect = (\<lambda>_ _. Some (Inr ([Data (framed [message_wire reply])], [])))\<rparr> :: (unit, bytes) socket_api"
  let ?config = "client_config_new (SocketV4 [127, 0, 0, 1] 111)" and ?pv = "\<lparr>pv_program = 9, pv_version = 1\<rparr> :: program_version"
  obtain m where m: "starttls_probe ?pv = Inr m" by (simp add: starttls_probe_eq)
  note menc = probe_encodes [OF m]
  have "flowing [Data (framed [message_wire reply])]" by (simp add: flowing_def)
  with probe_reads [of "[Data (framed [message_wire reply])]" "message_wire reply" "[]" reply] enc obtain stream' where
    rd: "read_rpc_message_with_limits STARTTLS_PROBE_LIMITS [Data (framed [message_wire reply])] = (Inr reply, stream')"
    by (auto simp: short_fits simp del: framed.simps)
  obtain w' where "write_rpc_message list_writer m [] = (Inr (), w')"
    using write_short [OF list_writer_reliable menc(1), of "[]"] menc(3) by (auto simp: short_fits)
  then have probe: "perform_starttls_probe list_writer ?pv ([Data (framed [message_wire reply])], []) = (Inr (), stream', w')"
    using rd m menc(4) reply by (simp add: perform_starttls_probe_def validate_starttls_reply_iff [THEN iffD2] del: framed.simps)
  obtain conn :: "unit owned" where conn: "from_stream [] ?config = Inr conn"
    by (simp add: from_stream_def from_stream_with_limits_def from_stream_using_admission_def record_limits_validate_def record_limits_default_def
        MAX_RECORD_BYTES_def MAX_FRAGMENTS_def admission_unlimited_def admission_new_def usize_max_def)
  have run: "starttls_connect ?sockets (\<lambda>_. []) list_writer (\<lambda>_ _. Some (Inr ([], Some SUNRPC_ALPN))) ?config (client_tls_config_new ''server'') ?pv =
      Inr (Inr conn)"
    using probe conn by (simp add: starttls_connect_def tcp_connect_def socket_for_remote_def client_config_new_def tls_setup_def validate_client_alpn_def setup_with_timeout_def
        del: framed.simps)
  have "writer_ok list_writer (\<lambda>w. w)" using list_writer_reliable by (simp add: reliable_def)
  from starttls_client_secure [OF run this] reply run show ?thesis by blast
qed



text \<open>
  C37. Client and server agree on the negotiation: a server in any mode that has received what the client
  writes as its probe, at whatever is left in its buffer, answers it and starts the
  handshake, and the client takes the bytes of that answer, in any chunks, as leave to
  start its own, with the stream just behind them.
\<close>
theorem starttls_negotiates:
  assumes "reliable client_writer sent" "reliable wr written" "starttls_probe program = Inr probe"
    and "write_rpc_message client_writer probe w = (Inr (), w')" "sent w' = sent w @ p"
    and "tc_pc c = TlsProbing mode" "tc_buffer c = p @ more_bytes"
  shows "\<exists>answer c'. serve_tls_step wr acceptor sem (q, c) = (q, c') \<and> tc_pc c' = TlsHandshake \<and> written (tc_writer c') = written (tc_writer c) @ answer \<and>
    (\<forall>stream rest. flowing stream \<and> content stream = answer @ rest \<longrightarrow>
       (\<exists>stream'. perform_starttls_probe client_writer program (stream, w) = (Inr (), stream', w') \<and> content stream' = rest))"
proof -
  note enc = probe_encodes [OF assms(3)]
  have fits: "fragment_fits (message_wire probe)" by (rule short_fits) (simp add: enc(3))
  obtain w1 where "write_rpc_message client_writer probe w = (Inr (), w1)" "sent w1 = sent w @ framed [message_wire probe]"
    by (rule write_short [OF assms(1) enc(1) fits])
  with assms(4,5) have p: "p = framed [message_wire probe]" by simp
  obtain reply where reply: "starttls_ok_reply (msg_xid probe) = Inr reply" by (simp add: starttls_ok_reply_eq)
  note renc = ok_reply_encodes [OF reply]
  have rfits: "fragment_fits (message_wire reply)" by (rule short_fits) (simp add: renc(3))
  obtain w2 where w2: "write_rpc_message wr reply (tc_writer c) = (Inr (), w2)" "written w2 = written (tc_writer c) @ framed [message_wire reply]"
    by (rule write_short [OF assms(2) renc(1) rfits])
  have "frames_ok [message_wire probe]" using fits by (simp add: frames_ok_def)
  from decode_framed [OF this, of more_bytes] enc(2) p have "try_decode_message_from_buffer (tc_buffer c) = (Inr (Inr (Some probe)), more_bytes)"
    by (simp add: assms(7) del: framed.simps)
  then have step: "serve_tls_step wr acceptor sem (q, c) = (q, c\<lparr>tc_buffer := more_bytes, tc_writer := w2, tc_pc := TlsHandshake\<rparr>)"
    using probe_recognised [OF assms(3)] reply w2(1) by (simp add: serve_tls_step_def assms(6) tls_decode_def starttls_message_def tls_write_def)
  have "\<exists>stream'. perform_starttls_probe client_writer program (stream, w) = (Inr (), stream', w') \<and> content stream' = rest"
    if "flowing stream" "content stream = framed [message_wire reply] @ rest" for stream rest
    using probe_reads [OF that rfits _ renc(2)] renc(3) assms(3,4) reply
    by (auto simp: perform_starttls_probe_def validate_starttls_reply_iff [THEN iffD2])
  then show ?thesis using step w2(2) by (intro exI conjI) auto
qed

theorem starttls_negotiates_witness:
  "\<exists>probe w' c' answer. starttls_probe \<lparr>pv_program = 9, pv_version = 1\<rparr> = Inr probe \<and> write_rpc_message list_writer probe [] = (Inr (), w') \<and>
    serve_tls_step list_writer sample_acceptor counting_semaphore (1, (starttls_connection_new Disabled [] [])\<lparr>tc_buffer := w'\<rparr>) = (1, c') \<and>
    tc_pc c' = TlsHandshake \<and> tc_writer c' = answer"
proof -
  obtain probe where probe: "starttls_probe \<lparr>pv_program = 9, pv_version = 1\<rparr> = Inr probe" by (simp add: starttls_probe_eq)
  have "fragment_fits (message_wire probe)" by (rule short_fits) (simp add: probe_encodes(3) [OF probe])
  then obtain w' where w': "write_rpc_message list_writer probe [] = (Inr (), w')"
    using write_short [OF list_writer_reliable probe_encodes(1) [OF probe], of "[]"] by auto
  let ?c = "(starttls_connection_new Disabled [] [])\<lparr>tc_buffer := w'\<rparr> :: bytes tls_connection"
  have "w' = [] @ w'" "tc_pc ?c = TlsProbing Disabled" "tc_buffer ?c = w' @ []" by (simp_all add: starttls_connection_new_def)
  from starttls_negotiates [OF list_writer_reliable list_writer_reliable probe w' this, of sample_acceptor counting_semaphore 1]
  show ?thesis using probe w' by blast
qed

end
