(* ===== verification/Gen_Layout.thy ===== *)
theory Gen_Layout
  imports X_Ast Xdr_Codec "HOL-Library.AList"
begin

text \<open>
  The layout analysis of \<^verbatim>\<open>src/crates/onc-rpc-gen/src/emit/owned_codegen.rs\<close>: which types of a schema
  end in variable opaque data, and how many bytes may come before it. The generator prints
  the bound as \<^verbatim>\<open>MAX_PREFIX_BYTES\<close> of the type's metadata, and the typed receiver of the runtime relies
  on it when it receives a reply in place.

  The set \<^verbatim>\<open>seen\<close> of names under analysis is restored on every path that goes on, so it is passed
  down here.
\<close>

section \<open>Layouts\<close>

record shape =
  sh_prefix :: nat
  sh_body :: bool

record layouts =
  ly_items :: "(string \<times> item) list"
  ly_constants :: "(string \<times> value_expr) list"

fun layouts_add :: "item \<Rightarrow> layouts \<Rightarrow> layouts" where
  "layouts_add (ItemTypedef target declarator) self =
     self\<lparr>ly_items := AList.update (dr_name declarator) (ItemTypedef target declarator) (ly_items self)\<rparr>"
| "layouts_add (ItemStruct name body) self = self\<lparr>ly_items := AList.update name (ItemStruct name body) (ly_items self)\<rparr>"
| "layouts_add (ItemUnion name discriminant arms) self =
     self\<lparr>ly_items := AList.update name (ItemUnion name discriminant arms) (ly_items self)\<rparr>"
| "layouts_add (ItemEnum name body) self = self\<lparr>ly_items := AList.update name (ItemEnum name body) (ly_items self)\<rparr>"
| "layouts_add (ItemConst name value) self = self\<lparr>ly_constants := AList.update name value (ly_constants self)\<rparr>"
| "layouts_add (ItemProgram _) self = self"

definition from_modules :: "schema list \<Rightarrow> layouts" where
  "from_modules schemas = fold (fold layouts_add) schemas \<lparr>ly_items = [], ly_constants = []\<rparr>"

definition from_schema :: "schema \<Rightarrow> layouts" where
  "from_schema schema = from_modules [schema]"

definition unseen :: "(string \<times> 'a) list \<Rightarrow> string list \<Rightarrow> nat" where
  "unseen entries seen = length (filter (\<lambda>e. fst e \<notin> set seen) entries)"

lemma unseen_less:
  assumes "map_of entries name = Some x" "name \<notin> set seen"
  shows "unseen entries (name # seen) < unseen entries seen"
proof -
  have "filter (\<lambda>e. fst e \<notin> set (name # seen)) entries = filter (\<lambda>e. fst e \<noteq> name) (filter (\<lambda>e. fst e \<notin> set seen) entries)"
    by (simp add: filter_filter) (metis)
  moreover have "(name, x) \<in> set (filter (\<lambda>e. fst e \<notin> set seen) entries)" using assms by (simp add: map_of_SomeD)
  then have "length (filter (\<lambda>e. fst e \<noteq> name) (filter (\<lambda>e. fst e \<notin> set seen) entries)) < length (filter (\<lambda>e. fst e \<notin> set seen) entries)"
    by (rule length_filter_less) simp
  ultimately show ?thesis by (simp only: unseen_def)
qed

function layout_value :: "layouts \<Rightarrow> value_expr \<Rightarrow> string list \<Rightarrow> nat option" where
  "layout_value self (ValueNumber number) seen = (if number < 0 then None else Some (nat number))"
| "layout_value self (ValueIdentifier name) seen =
     (if name \<in> set seen then None
      else case map_of (ly_constants self) name of
          None \<Rightarrow> None
        | Some value \<Rightarrow> layout_value self value (name # seen))"
  by pat_completeness auto
termination
  by (relation "measure (\<lambda>(self, value, seen). unseen (ly_constants self) seen)") (auto simp: unseen_less)

definition usize_checked_mul :: "nat \<Rightarrow> nat \<Rightarrow> nat option" where
  "usize_checked_mul m n = (if m * n \<le> usize_max then Some (m * n) else None)"

function layout_named :: "layouts \<Rightarrow> string \<Rightarrow> string list \<Rightarrow> shape option"
  and layout_base :: "layouts \<Rightarrow> type_spec \<Rightarrow> string list \<Rightarrow> shape option"
  and layout_declaration :: "layouts \<Rightarrow> type_spec \<Rightarrow> declarator_modifier option \<Rightarrow> string list \<Rightarrow> shape option"
  and layout_structure :: "layouts \<Rightarrow> nat \<Rightarrow> bool \<Rightarrow> xdr_declaration list \<Rightarrow> string list \<Rightarrow> shape option"
  and layout_union :: "layouts \<Rightarrow> xdr_declaration \<Rightarrow> union_arm list \<Rightarrow> string list \<Rightarrow> shape option"
  and layout_arms :: "layouts \<Rightarrow> nat \<Rightarrow> bool \<Rightarrow> union_arm list \<Rightarrow> string list \<Rightarrow> (nat \<times> bool) option" where
  "layout_named self name seen =
     (if name \<in> set seen then None
      else case map_of (ly_items self) name of
          Some (ItemTypedef target (Declarator _ modifier)) \<Rightarrow> layout_declaration self target modifier (name # seen)
        | Some (ItemStruct _ body) \<Rightarrow> layout_structure self 0 False body (name # seen)
        | Some (ItemEnum _ _) \<Rightarrow> Some \<lparr>sh_prefix = 4, sh_body = False\<rparr>
        | Some (ItemUnion _ discriminant arms) \<Rightarrow> layout_union self discriminant arms (name # seen)
        | _ \<Rightarrow> None)"
| "layout_base self target seen = (case target of
       TsVoid \<Rightarrow> Some \<lparr>sh_prefix = 0, sh_body = False\<rparr>
     | TsBool \<Rightarrow> Some \<lparr>sh_prefix = 4, sh_body = False\<rparr>
     | TsInt \<Rightarrow> Some \<lparr>sh_prefix = 4, sh_body = False\<rparr>
     | TsUnsignedInt \<Rightarrow> Some \<lparr>sh_prefix = 4, sh_body = False\<rparr>
     | TsFloat \<Rightarrow> Some \<lparr>sh_prefix = 4, sh_body = False\<rparr>
     | TsEnum _ \<Rightarrow> Some \<lparr>sh_prefix = 4, sh_body = False\<rparr>
     | TsHyper \<Rightarrow> Some \<lparr>sh_prefix = 8, sh_body = False\<rparr>
     | TsUnsignedHyper \<Rightarrow> Some \<lparr>sh_prefix = 8, sh_body = False\<rparr>
     | TsDouble \<Rightarrow> Some \<lparr>sh_prefix = 8, sh_body = False\<rparr>
     | TsQuadruple \<Rightarrow> Some \<lparr>sh_prefix = 16, sh_body = False\<rparr>
     | TsOpaque \<Rightarrow> Some \<lparr>sh_prefix = 1, sh_body = False\<rparr>
     | TsIdentifier name \<Rightarrow> layout_named self name seen
     | TsStruct body \<Rightarrow>
         (case layout_structure self 0 False body seen of
            None \<Rightarrow> None
          | Some shape \<Rightarrow> if sh_body shape then None else Some shape)
     | TsUnion discriminant arms \<Rightarrow>
         (case layout_union self discriminant arms seen of
            None \<Rightarrow> None
          | Some shape \<Rightarrow> if sh_body shape then None else Some shape)
     | TsString \<Rightarrow> None)"
| "layout_declaration self target modifier seen = (case modifier of
       Some (VariableArray bound) \<Rightarrow>
         if target = TsOpaque
         then (case bound of
             None \<Rightarrow> Some \<lparr>sh_prefix = 4, sh_body = True\<rparr>
           | Some b \<Rightarrow> (case layout_value self b [] of None \<Rightarrow> None | Some _ \<Rightarrow> Some \<lparr>sh_prefix = 4, sh_body = True\<rparr>))
         else None
     | Some (FixedArray bound) \<Rightarrow>
         (case layout_value self bound [] of
            None \<Rightarrow> None
          | Some count \<Rightarrow> (case layout_base self target seen of
                None \<Rightarrow> None
              | Some base \<Rightarrow>
                  if sh_body base then None
                  else (case (if target = TsOpaque then map_option (\<lambda>n. n div 4 * 4) (checked_add count 3)
                              else usize_checked_mul count (sh_prefix base)) of
                      None \<Rightarrow> None
                    | Some pre \<Rightarrow> Some \<lparr>sh_prefix = pre, sh_body = False\<rparr>)))
     | Some OptionalMod \<Rightarrow>
         (case layout_base self target seen of
            None \<Rightarrow> None
          | Some base \<Rightarrow> (case checked_add (sh_prefix base) 4 of
                None \<Rightarrow> None
              | Some pre \<Rightarrow> Some \<lparr>sh_prefix = pre, sh_body = sh_body base\<rparr>))
     | None \<Rightarrow> layout_base self target seen)"
| "layout_structure self pre has_body [] seen = Some \<lparr>sh_prefix = pre, sh_body = has_body\<rparr>"
| "layout_structure self pre has_body (Declaration target (Declarator nm modifier) # rest) seen =
     (case layout_declaration self target modifier seen of
        None \<Rightarrow> None
      | Some shape \<Rightarrow>
          if sh_body shape \<and> rest \<noteq> [] then None
          else (case checked_add pre (sh_prefix shape) of
              None \<Rightarrow> None
            | Some pre' \<Rightarrow> layout_structure self pre' (has_body \<or> sh_body shape) rest seen))"
| "layout_union self (Declaration target (Declarator nm modifier)) arms seen =
     (case layout_declaration self target modifier seen of
        None \<Rightarrow> None
      | Some discriminant \<Rightarrow>
          if sh_body discriminant then None
          else (case layout_arms self 0 False arms seen of
              None \<Rightarrow> None
            | Some (max_arm, has_body) \<Rightarrow> (case checked_add (sh_prefix discriminant) max_arm of
                  None \<Rightarrow> None
                | Some pre \<Rightarrow> Some \<lparr>sh_prefix = pre, sh_body = has_body\<rparr>)))"
| "layout_arms self max_arm has_body [] seen = Some (max_arm, has_body)"
| "layout_arms self max_arm has_body (UnionArm labels (Declaration target (Declarator nm modifier)) # rest) seen =
     (case layout_declaration self target modifier seen of
        None \<Rightarrow> None
      | Some shape \<Rightarrow> layout_arms self (max max_arm (sh_prefix shape)) (has_body \<or> sh_body shape) rest seen)"
  by pat_completeness auto
termination
proof (relation "measures
    [case_sum
       (case_sum (\<lambda>(self, name, seen). unseen (ly_items self) seen)
         (case_sum (\<lambda>(self, target, seen). unseen (ly_items self) seen) (\<lambda>(self, target, modifier, seen). unseen (ly_items self) seen)))
       (case_sum (\<lambda>(self, pre, has_body, body, seen). unseen (ly_items self) seen)
         (case_sum (\<lambda>(self, d, arms, seen). unseen (ly_items self) seen) (\<lambda>(self, max_arm, has_body, arms, seen). unseen (ly_items self) seen))),
     case_sum
       (case_sum (\<lambda>(self, name, seen). 0)
         (case_sum (\<lambda>(self, target, seen). 2 * size target + 1) (\<lambda>(self, target, modifier, seen). 2 * size target + 2)))
       (case_sum (\<lambda>(self, pre, has_body, body, seen). 2 * size_list size body + 1)
         (case_sum (\<lambda>(self, d, arms, seen). 2 * (size d + size_list size arms) + 1) (\<lambda>(self, max_arm, has_body, arms, seen). 2 * size_list size arms + 1)))]",
    goal_cases)
qed (simp_all add: unseen_less)

declare layout_named.simps [simp del] layout_base.simps [simp del] layout_declaration.simps [simp del] layout_union.simps [simp del]

definition metadata_name :: "layouts \<Rightarrow> string \<Rightarrow> string option" where
  "metadata_name self name = (case layout_named self name [] of
       Some shape \<Rightarrow> if sh_body shape then Some (name @ ''Metadata'') else None
     | None \<Rightarrow> None)"

function terminal :: "layouts \<Rightarrow> type_spec \<Rightarrow> declarator_modifier option \<Rightarrow> string list \<Rightarrow> bool" where
  "terminal self target modifier seen = (case (target, modifier) of
       (TsOpaque, Some (VariableArray _)) \<Rightarrow> True
     | (TsIdentifier name, _) \<Rightarrow>
         if modifier = None \<or> modifier = Some OptionalMod
         then if name \<in> set seen then False
              else (case map_of (ly_items self) name of
                  Some (ItemTypedef t (Declarator _ m)) \<Rightarrow> terminal self t m (name # seen)
                | Some (ItemStruct _ body) \<Rightarrow>
                    body \<noteq> [] \<and> terminal self (dn_type_spec (last body)) (dr_modifier (dn_declarator (last body))) (name # seen)
                | Some (ItemUnion _ _ arms) \<Rightarrow>
                    list_ex (\<lambda>arm. terminal self (dn_type_spec (ua_declaration arm)) (dr_modifier (dn_declarator (ua_declaration arm))) (name # seen)) arms
                | _ \<Rightarrow> False)
         else False
     | _ \<Rightarrow> False)"
  by pat_completeness auto
termination
  by (relation "measure (\<lambda>(self, target, modifier, seen). unseen (ly_items self) seen)") (auto simp: unseen_less)

declare terminal.simps [simp del]

definition segments_name :: "layouts \<Rightarrow> string \<Rightarrow> string option" where
  "segments_name self name = (if terminal self (TsIdentifier name) None [] then Some (name @ ''Segments'') else None)"

section \<open>Encodings of the values of a type\<close>

text \<open>
  After RFC 4506 and the generated Rust types: \<open>xdr_value L t m w\<close> says that \<open>w\<close> is the encoding of some
  value declared with type \<open>t\<close> and modifier \<open>m\<close>. Words are not told apart, so that the relation
  has every encoding and may have more.
\<close>

inductive const_value :: "layouts \<Rightarrow> value_expr \<Rightarrow> nat \<Rightarrow> bool" for L where
  const_number: "0 \<le> n \<Longrightarrow> const_value L (ValueNumber n) (nat n)"
| const_name: "map_of (ly_constants L) name = Some v \<Longrightarrow> const_value L v n \<Longrightarrow> const_value L (ValueIdentifier name) n"

inductive xdr_value :: "layouts \<Rightarrow> type_spec \<Rightarrow> declarator_modifier option \<Rightarrow> bytes \<Rightarrow> bool" for L where
  void: "xdr_value L TsVoid None []"
| word: "t \<in> {TsBool, TsInt, TsUnsignedInt, TsFloat} \<union> range TsEnum \<Longrightarrow> length w = 4 \<Longrightarrow> xdr_value L t None w"
| hyper: "t \<in> {TsHyper, TsUnsignedHyper, TsDouble} \<Longrightarrow> length w = 8 \<Longrightarrow> xdr_value L t None w"
| quadruple: "length w = 16 \<Longrightarrow> xdr_value L TsQuadruple None w"
| byte: "xdr_value L TsOpaque None [b]"
| characters: "m = None \<or> m = Some (VariableArray b) \<Longrightarrow> string_valid s \<Longrightarrow> xdr_value L TsString m (opaque_wire s)"
| inline_struct: "list_all2 (\<lambda>d w. xdr_value L (dn_type_spec d) (dr_modifier (dn_declarator d)) w) ds ws \<Longrightarrow> xdr_value L (TsStruct ds) None (concat ws)"
| inline_union: "xdr_value L (dn_type_spec d) (dr_modifier (dn_declarator d)) w \<Longrightarrow> arm \<in> set arms \<Longrightarrow>
    xdr_value L (dn_type_spec (ua_declaration arm)) (dr_modifier (dn_declarator (ua_declaration arm))) v \<Longrightarrow>
    xdr_value L (TsUnion d arms) None (w @ v)"
| named_typedef: "map_of (ly_items L) name = Some (ItemTypedef t (Declarator nm m)) \<Longrightarrow> xdr_value L t m w \<Longrightarrow> xdr_value L (TsIdentifier name) None w"
| named_struct: "map_of (ly_items L) name = Some (ItemStruct nm ds) \<Longrightarrow>
    list_all2 (\<lambda>d w. xdr_value L (dn_type_spec d) (dr_modifier (dn_declarator d)) w) ds ws \<Longrightarrow> xdr_value L (TsIdentifier name) None (concat ws)"
| named_enum: "map_of (ly_items L) name = Some (ItemEnum nm vs) \<Longrightarrow> length w = 4 \<Longrightarrow> xdr_value L (TsIdentifier name) None w"
| named_union: "map_of (ly_items L) name = Some (ItemUnion nm d arms) \<Longrightarrow>
    xdr_value L (dn_type_spec d) (dr_modifier (dn_declarator d)) w \<Longrightarrow> arm \<in> set arms \<Longrightarrow>
    xdr_value L (dn_type_spec (ua_declaration arm)) (dr_modifier (dn_declarator (ua_declaration arm))) v \<Longrightarrow>
    xdr_value L (TsIdentifier name) None (w @ v)"
| fixed_opaque: "const_value L b (length d) \<Longrightarrow> xdr_value L TsOpaque (Some (FixedArray b)) (d @ replicate (xdr_padding (length d)) 0)"
| fixed_array: "t \<noteq> TsOpaque \<Longrightarrow> const_value L b (length ws) \<Longrightarrow> list_all (xdr_value L t None) ws \<Longrightarrow> xdr_value L t (Some (FixedArray b)) (concat ws)"
| variable_opaque: "opaque_valid d \<Longrightarrow> xdr_value L TsOpaque (Some (VariableArray b)) (opaque_wire d)"
| variable_array: "t \<noteq> TsOpaque \<Longrightarrow> t \<noteq> TsString \<Longrightarrow> list_all (xdr_value L t None) ws \<Longrightarrow>
    xdr_value L t (Some (VariableArray b)) (u32_to_be (of_nat (length ws)) @ concat ws)"
| absent: "xdr_value L t (Some OptionalMod) (u32_to_be 0)"
| present: "xdr_value L t None w \<Longrightarrow> xdr_value L t (Some OptionalMod) (u32_to_be 1 @ w)"

section \<open>The analysis is sound\<close>

lemma layout_value_sound:
  "layout_value L v seen = Some n \<Longrightarrow> const_value L v k \<Longrightarrow> k = n"
proof (induction L v seen arbitrary: n k rule: layout_value.induct)
  case (1 L number seen)
  then show ?case by (auto elim: const_value.cases split: if_splits)
next
  case (2 L name seen)
  from 2(2) obtain v where v: "name \<notin> set seen" "map_of (ly_constants L) name = Some v" "layout_value L v (name # seen) = Some n"
    by (auto split: if_splits option.splits)
  from 2(3) v(2) have "const_value L v k" by (auto elim: const_value.cases)
  from 2(1) [OF v(1,2,3) this] show ?case .
qed

text \<open>
  An encoding of a type with shape \<open>s\<close>: at most \<open>sh_prefix s\<close> bytes, and behind them, only when the shape has a
  body, opaque data with its padding, whose length is the last word before it.
\<close>

definition opaque_tail :: "bytes \<Rightarrow> bytes \<Rightarrow> bool" where
  "opaque_tail front rest \<longleftrightarrow> (\<exists>start d. opaque_valid d \<and> front = start @ u32_to_be (of_nat (length d)) \<and> rest = d @ replicate (xdr_padding (length d)) 0)"

definition fits_shape :: "shape \<Rightarrow> bytes \<Rightarrow> bool" where
  "fits_shape s w \<longleftrightarrow> (\<exists>front rest. w = front @ rest \<and> length front \<le> sh_prefix s \<and> (rest = [] \<or> sh_body s \<and> opaque_tail front rest))"

lemma fits_flat: "length w \<le> sh_prefix s \<Longrightarrow> fits_shape s w"
  unfolding fits_shape_def by (intro exI [of _ w] exI [of _ "[]"]) simp

lemma fits_flatD: "fits_shape s w \<Longrightarrow> \<not> sh_body s \<Longrightarrow> length w \<le> sh_prefix s"
  by (auto simp: fits_shape_def)

lemma fits_append:
  assumes "fits_shape s w" "length v + sh_prefix s \<le> sh_prefix s'" "sh_body s \<longrightarrow> sh_body s'"
  shows "fits_shape s' (v @ w)"
proof -
  from assms(1) obtain front rest where w: "w = front @ rest" "length front \<le> sh_prefix s" "rest = [] \<or> sh_body s \<and> opaque_tail front rest"
    by (auto simp: fits_shape_def)
  have "opaque_tail (v @ front) rest" if "opaque_tail front rest" using that by (auto simp: opaque_tail_def) (metis append.assoc)
  with w assms(2,3) show ?thesis unfolding fits_shape_def by (intro exI [of _ "v @ front"] exI [of _ rest]) auto
qed

lemma fits_variable_opaque: "opaque_valid d \<Longrightarrow> sh_prefix s = 4 \<Longrightarrow> sh_body s \<Longrightarrow> fits_shape s (opaque_wire d)"
  unfolding fits_shape_def opaque_wire_def opaque_tail_def
  by (intro exI [of _ "u32_to_be (of_nat (length d))"] exI [of _ "d @ replicate (xdr_padding (length d)) 0"]) auto

abbreviation declared :: "layouts \<Rightarrow> xdr_declaration \<Rightarrow> string list \<Rightarrow> shape option" where
  "declared L d seen \<equiv> layout_declaration L (dn_type_spec d) (dr_modifier (dn_declarator d)) seen"

lemma layout_structure_fits:
  assumes "list_all2 (\<lambda>d w. \<forall>s. declared L d seen = Some s \<longrightarrow> fits_shape s w) ds ws"
    and "layout_structure L p hb ds seen = Some s" "length v \<le> p" "hb \<longrightarrow> ds = []"
  shows "fits_shape s (v @ concat ws)"
  using assms
proof (induction ds ws arbitrary: p hb v rule: list_all2_induct)
  case (Cons d ds w ws)
  obtain t nm m where d: "d = Declaration t (Declarator nm m)" by (metis declarator.exhaust xdr_declaration.exhaust)
  from Cons.prems(1) d obtain s1 p' where s1: "declared L d seen = Some s1" "sh_body s1 \<longrightarrow> ds = []" "checked_add p (sh_prefix s1) = Some p'"
    and rest: "layout_structure L p' (hb \<or> sh_body s1) ds seen = Some s"
    by (auto split: option.splits if_splits)
  from s1(3) have p': "p' = p + sh_prefix s1" by (simp add: checked_add_def split: if_splits)
  from Cons.hyps(1) s1(1) have w: "fits_shape s1 w" by blast
  show ?case
  proof (cases "ds = []")
    case True
    with rest Cons.hyps(2) have "s = \<lparr>sh_prefix = p', sh_body = hb \<or> sh_body s1\<rparr>" "ws = []" by auto
    with fits_append [OF w, of v s] p' Cons.prems(2) show ?thesis by simp
  next
    case False
    with s1(2) Cons.prems(3) have nb: "\<not> sh_body s1" "\<not> hb" by auto
    with fits_flatD [OF w] Cons.prems(2) p' have "length (v @ w) \<le> p'" by simp
    from Cons.IH [OF rest this] nb show ?thesis by simp
  qed
qed (auto intro: fits_flat)

lemma layout_arms_bounds:
  assumes "layout_arms L p hb arms seen = Some (q, b)"
  shows "p \<le> q" "hb \<longrightarrow> b"
    "\<And>arm. arm \<in> set arms \<Longrightarrow> \<exists>s. declared L (ua_declaration arm) seen = Some s \<and> sh_prefix s \<le> q \<and> (sh_body s \<longrightarrow> b)"
proof -
  have "p \<le> q \<and> (hb \<longrightarrow> b) \<and> (\<forall>arm\<in>set arms. \<exists>s. declared L (ua_declaration arm) seen = Some s \<and> sh_prefix s \<le> q \<and> (sh_body s \<longrightarrow> b))"
    using assms
  proof (induction arms arbitrary: p hb)
    case (Cons arm arms)
    obtain ls t nm m where arm: "arm = UnionArm ls (Declaration t (Declarator nm m))"
      by (metis declarator.exhaust union_arm.exhaust xdr_declaration.exhaust)
    from Cons.prems arm obtain s where s: "layout_declaration L t m seen = Some s"
      and rest: "layout_arms L (max p (sh_prefix s)) (hb \<or> sh_body s) arms seen = Some (q, b)"
      by (auto split: option.splits)
    from Cons.IH [OF rest] s arm show ?case by auto
  qed simp
  then show "p \<le> q" "hb \<longrightarrow> b"
    "\<And>arm. arm \<in> set arms \<Longrightarrow> \<exists>s. declared L (ua_declaration arm) seen = Some s \<and> sh_prefix s \<le> q \<and> (sh_body s \<longrightarrow> b)"
    by blast+
qed

lemma layout_union_fits:
  assumes "layout_union L d arms seen = Some s" "\<And>s. declared L d seen = Some s \<Longrightarrow> fits_shape s w"
    and "arm \<in> set arms" "\<And>s. declared L (ua_declaration arm) seen = Some s \<Longrightarrow> fits_shape s v"
  shows "fits_shape s (w @ v)"
proof -
  obtain t nm m where d: "d = Declaration t (Declarator nm m)" by (metis declarator.exhaust xdr_declaration.exhaust)
  with assms(1) obtain s1 q b p where s1: "declared L d seen = Some s1" "\<not> sh_body s1" and q: "layout_arms L 0 False arms seen = Some (q, b)"
    and s: "checked_add (sh_prefix s1) q = Some p" "s = \<lparr>sh_prefix = p, sh_body = b\<rparr>"
    by (auto simp: layout_union.simps split: option.splits if_splits)
  from layout_arms_bounds(3) [OF q assms(3)] obtain s2 where s2: "declared L (ua_declaration arm) seen = Some s2" "sh_prefix s2 \<le> q" "sh_body s2 \<longrightarrow> b" by blast
  from fits_flatD [OF assms(2) [OF s1(1)] s1(2)] s2(2) s have "length w + sh_prefix s2 \<le> sh_prefix s" by (simp add: checked_add_def split: if_splits)
  from fits_append [OF assms(4) [OF s2(1)] this] s2(3) s(2) show ?thesis by simp
qed

lemma padded_size: "n + xdr_padding n = (n + 3) div 4 * 4"
proof -
  define q r where "q = n div 4" and "r = n mod 4"
  then have n: "n = 4 * q + r" and "r < 4" by simp_all
  then have "r = 0 \<or> r = 1 \<or> r = 2 \<or> r = 3" by auto
  then show ?thesis unfolding n xdr_padding_def by auto
qed

lemma concat_bound: "list_all (\<lambda>w. length w \<le> p) ws \<Longrightarrow> length (concat ws) \<le> length ws * p"
  by (induction ws) auto

lemma layout_declaration_fits:
  "xdr_value L t m w \<Longrightarrow> layout_declaration L t m seen = Some s \<Longrightarrow> fits_shape s w"
proof (induction arbitrary: seen s rule: xdr_value.induct)
  case (inline_struct ds ws)
  from inline_struct(2) have s: "layout_structure L 0 False ds seen = Some s"
    by (auto simp: layout_declaration.simps layout_base.simps split: option.splits if_splits)
  have "list_all2 (\<lambda>d w. \<forall>s. declared L d seen = Some s \<longrightarrow> fits_shape s w) ds ws" by (rule list_all2_mono [OF inline_struct(1)]) blast
  from layout_structure_fits [OF this s, of "[]"] show ?case by simp
next
  case (inline_union d w arm arms v)
  from inline_union(6) have "layout_union L d arms seen = Some s"
    by (auto simp: layout_declaration.simps layout_base.simps split: option.splits if_splits)
  then show ?case by (rule layout_union_fits) (fact inline_union(2,4,5))+
next
  case (named_typedef name t nm m w)
  from named_typedef(1,4) have "layout_declaration L t m (name # seen) = Some s"
    by (auto simp: layout_declaration.simps [of _ "TsIdentifier name"] layout_base.simps layout_named.simps split: if_splits)
  then show ?case by (rule named_typedef(3))
next
  case (named_struct name nm ds ws)
  from named_struct(1,3) have s: "layout_structure L 0 False ds (name # seen) = Some s"
    by (auto simp: layout_declaration.simps [of _ "TsIdentifier name"] layout_base.simps layout_named.simps split: if_splits)
  have "list_all2 (\<lambda>d w. \<forall>s. declared L d (name # seen) = Some s \<longrightarrow> fits_shape s w) ds ws" by (rule list_all2_mono [OF named_struct(2)]) blast
  from layout_structure_fits [OF this s, of "[]"] show ?case by simp
next
  case (named_union name nm d arms w arm v)
  from named_union(1,7) have "layout_union L d arms (name # seen) = Some s"
    by (auto simp: layout_declaration.simps [of _ "TsIdentifier name"] layout_base.simps layout_named.simps split: if_splits)
  then show ?case by (rule layout_union_fits) (fact named_union(3,5,6))+
next
  case (fixed_opaque b d)
  from fixed_opaque(2) obtain n where n: "layout_value L b [] = Some n" "sh_prefix s = (n + 3) div 4 * 4"
    by (auto simp: layout_declaration.simps layout_base.simps checked_add_def split: option.splits if_splits)
  with layout_value_sound [OF n(1) fixed_opaque(1)] padded_size [of "length d"] show ?case by (intro fits_flat) simp
next
  case (fixed_array t b ws)
  from fixed_array(1,4) obtain n base where n: "layout_value L b [] = Some n" "layout_base L t seen = Some base" "\<not> sh_body base"
    "sh_prefix s = n * sh_prefix base"
    by (auto simp: layout_declaration.simps [of _ t] usize_checked_mul_def split: option.splits if_splits)
  have "list_all (\<lambda>w. length w \<le> sh_prefix base) ws"
    using fixed_array(3) n(2,3) by (auto simp: list_all_iff layout_declaration.simps [of _ t None] intro: fits_flatD)
  from concat_bound [OF this] layout_value_sound [OF n(1) fixed_array(2)] n(4) show ?case by (intro fits_flat) simp
next
  case (variable_opaque d b)
  then show ?case by (auto simp: layout_declaration.simps intro!: fits_variable_opaque split: option.splits)
next
  case (present t w)
  then obtain base where base: "layout_base L t seen = Some base" "sh_prefix s = sh_prefix base + 4" "sh_body s = sh_body base"
    by (auto simp: layout_declaration.simps [of _ t "Some OptionalMod"] checked_add_def split: option.splits if_splits)
  with present(2) [of seen base] show ?case by (intro fits_append [of base]) (simp_all add: layout_declaration.simps [of _ t None])
next
  case (absent t)
  then show ?case
    by (intro fits_flat) (auto simp: layout_declaration.simps [of _ t "Some OptionalMod"] checked_add_def split: option.splits if_splits)
next
  case (named_enum name nm vs w)
  then show ?case by (intro fits_flat) (auto simp: layout_declaration.simps layout_base.simps layout_named.simps split: if_splits)
qed (auto simp: layout_declaration.simps layout_base.simps intro!: fits_flat)

text \<open>The two analyses agree: a type whose shape has a body ends in opaque data.\<close>

lemma layout_structure_last:
  assumes "layout_structure L p hb ds seen = Some s" "sh_body s" "\<not> hb"
  shows "ds \<noteq> [] \<and> (\<exists>s'. declared L (last ds) seen = Some s' \<and> sh_body s')"
  using assms
proof (induction ds arbitrary: p hb)
  case (Cons d ds)
  obtain t nm m where d: "d = Declaration t (Declarator nm m)" by (metis declarator.exhaust xdr_declaration.exhaust)
  from Cons.prems(1) d obtain s1 p' where s1: "declared L d seen = Some s1" "sh_body s1 \<longrightarrow> ds = []"
    and rest: "layout_structure L p' (hb \<or> sh_body s1) ds seen = Some s"
    by (auto split: option.splits if_splits)
  show ?case
  proof (cases "ds = []")
    case True
    with rest Cons.prems(2,3) s1(1) show ?thesis by auto
  next
    case False
    with Cons.IH [OF rest Cons.prems(2)] s1(2) Cons.prems(3) show ?thesis by simp
  qed
qed auto

lemma layout_arms_body:
  assumes "layout_arms L p hb arms seen = Some (q, b)" "b" "\<not> hb"
  shows "\<exists>arm s. arm \<in> set arms \<and> declared L (ua_declaration arm) seen = Some s \<and> sh_body s"
  using assms
proof (induction arms arbitrary: p hb)
  case (Cons arm arms)
  obtain ls t nm m where arm: "arm = UnionArm ls (Declaration t (Declarator nm m))"
    by (metis declarator.exhaust union_arm.exhaust xdr_declaration.exhaust)
  from Cons.prems(1) arm obtain s where s: "declared L (ua_declaration arm) seen = Some s"
    and rest: "layout_arms L (max p (sh_prefix s)) (hb \<or> sh_body s) arms seen = Some (q, b)"
    by (auto split: option.splits)
  show ?case
  proof (cases "sh_body s")
    case True
    with s show ?thesis by auto
  next
    case False
    with Cons.IH [OF rest Cons.prems(2)] Cons.prems(3) show ?thesis by auto
  qed
qed auto

lemma body_terminal:
  "layout_declaration L t m seen = Some s \<Longrightarrow> sh_body s \<Longrightarrow> terminal L t m seen"
proof (induction L t m seen arbitrary: s rule: terminal.induct)
  case (1 L t m seen)
  have base: "(\<exists>name. t = TsIdentifier name \<and> name \<notin> set seen \<and> layout_named L name seen = Some s')"
    if "layout_base L t seen = Some s'" "sh_body s'" for s'
    using that by (auto simp: layout_base.simps layout_named.simps split: type_spec.splits option.splits if_splits)
  have "(\<exists>b. t = TsOpaque \<and> m = Some (VariableArray b)) \<or> (m = None \<or> m = Some OptionalMod) \<and> (\<exists>s'. layout_base L t seen = Some s' \<and> sh_body s')"
    using 1(4) [unfolded layout_declaration.simps [of L t m seen]] 1(5)
    by (auto split: option.splits declarator_modifier.splits if_splits)
  then consider b where "t = TsOpaque" "m = Some (VariableArray b)"
    | name s' where "t = TsIdentifier name" "m = None \<or> m = Some OptionalMod" "name \<notin> set seen" "layout_named L name seen = Some s'" "sh_body s'"
    using base by blast
  then show ?case
  proof cases
    case (2 name s')
    have unfold: "terminal L t m seen \<longleftrightarrow> (case map_of (ly_items L) name of
          Some (ItemTypedef t (Declarator _ m)) \<Rightarrow> terminal L t m (name # seen)
        | Some (ItemStruct _ body) \<Rightarrow>
            body \<noteq> [] \<and> terminal L (dn_type_spec (last body)) (dr_modifier (dn_declarator (last body))) (name # seen)
        | Some (ItemUnion _ _ arms) \<Rightarrow>
            list_ex (\<lambda>arm. terminal L (dn_type_spec (ua_declaration arm)) (dr_modifier (dn_declarator (ua_declaration arm))) (name # seen)) arms
        | _ \<Rightarrow> False)"
      using 2(1-3) by (subst terminal.simps) auto
    note named = 2(4) [unfolded layout_named.simps [of L name seen]]
    note IH = 1(1-3) [OF refl 2(1-3)]
    show ?thesis
    proof (cases "map_of (ly_items L) name")
      case None
      with named 2(3) show ?thesis by simp
    next
      case (Some item)
      show ?thesis
      proof (cases item)
        case (ItemTypedef t' d)
        obtain nm m' where d: "d = Declarator nm m'" by (cases d)
        with named 2(3) Some ItemTypedef have "layout_declaration L t' m' (name # seen) = Some s'" by simp
        from IH(1) [OF Some ItemTypedef d this 2(5)] unfold Some ItemTypedef d show ?thesis by simp
      next
        case (ItemStruct nm ds)
        with named 2(3) Some have "layout_structure L 0 False ds (name # seen) = Some s'" by simp
        from layout_structure_last [OF this 2(5)] obtain sl where "ds \<noteq> []" "declared L (last ds) (name # seen) = Some sl" "sh_body sl" by auto
        with IH(2) [OF Some ItemStruct] unfold Some ItemStruct show ?thesis by simp
      next
        case (ItemUnion nm d arms)
        with named 2(3) Some have u: "layout_union L d arms (name # seen) = Some s'" by simp
        obtain t' nm' m' where d: "d = Declaration t' (Declarator nm' m')" by (metis declarator.exhaust xdr_declaration.exhaust)
        from u d obtain q where "layout_arms L 0 False arms (name # seen) = Some (q, sh_body s')"
          by (auto simp: layout_union.simps split: option.splits if_splits)
        from layout_arms_body [OF this 2(5)] obtain arm sa where "arm \<in> set arms" "declared L (ua_declaration arm) (name # seen) = Some sa" "sh_body sa" by blast
        with IH(3) [OF Some ItemUnion] unfold Some ItemUnion show ?thesis by (auto simp: list_ex_iff)
      qed (use named 2(3,5) Some in auto)
    qed
  qed (simp add: terminal.simps)
qed

section \<open>Properties\<close>

text \<open>
  C22. The generator's bound is right: for a type that gets a metadata type, every encoding of
  one of its values has at most \<^verbatim>\<open>MAX_PREFIX_BYTES\<close> bytes before its opaque data; that data, if there is
  any, ends the encoding, padded, and its length is the last word before it. The type also
  gets a segments type.
\<close>
theorem metadata_prefix_bound:
  assumes "metadata_name L name = Some metadata" "xdr_value L (TsIdentifier name) None w"
  shows "\<exists>s front rest. layout_named L name [] = Some s \<and> w = front @ rest \<and> length front \<le> sh_prefix s \<and>
    (rest = [] \<or> (\<exists>start d. opaque_valid d \<and> front = start @ u32_to_be (of_nat (length d)) \<and> rest = d @ replicate (xdr_padding (length d)) 0)) \<and>
    segments_name L name = Some (name @ ''Segments'')"
proof -
  from assms(1) obtain s where s: "layout_named L name [] = Some s" "sh_body s"
    by (auto simp: metadata_name_def split: option.splits if_splits)
  then have d: "layout_declaration L (TsIdentifier name) None [] = Some s" by (simp add: layout_declaration.simps layout_base.simps)
  from layout_declaration_fits [OF assms(2) d] body_terminal [OF d s(2)] s show ?thesis
    by (auto simp: fits_shape_def opaque_tail_def segments_name_def)
qed

text \<open>The schema \<^verbatim>\<open>typedef opaque blob<>; struct reply { int status; blob data; }\<close>.\<close>

definition sample_layouts :: layouts where
  "sample_layouts = from_schema
     [ItemTypedef TsOpaque (Declarator ''blob'' (Some (VariableArray None))),
      ItemStruct ''reply'' [Declaration TsInt (Declarator ''status'' None), Declaration (TsIdentifier ''blob'') (Declarator ''data'' None)]]"

lemma sample_layouts_eq: "sample_layouts = \<lparr>ly_items =
   [(''blob'', ItemTypedef TsOpaque (Declarator ''blob'' (Some (VariableArray None)))),
    (''reply'', ItemStruct ''reply'' [Declaration TsInt (Declarator ''status'' None), Declaration (TsIdentifier ''blob'') (Declarator ''data'' None)])],
   ly_constants = []\<rparr>"
  by (simp add: sample_layouts_def from_schema_def from_modules_def)

theorem metadata_prefix_bound_witness:
  "metadata_name sample_layouts ''reply'' = Some ''replyMetadata'' \<and> segments_name sample_layouts ''reply'' = Some ''replySegments'' \<and>
   layout_named sample_layouts ''reply'' [] = Some \<lparr>sh_prefix = 8, sh_body = True\<rparr> \<and>
   (\<exists>front rest. u32_to_be 7 @ opaque_wire [1, 2, 3] = front @ rest \<and> length front \<le> 8)"
proof -
  let ?L = sample_layouts
  have named: "layout_named ?L ''reply'' [] = Some \<lparr>sh_prefix = 8, sh_body = True\<rparr>"
    by (simp add: sample_layouts_eq layout_named.simps layout_declaration.simps layout_base.simps checked_add_def usize_max_def)
  then have meta: "metadata_name ?L ''reply'' = Some ''replyMetadata''" by (simp add: metadata_name_def)
  have "xdr_value ?L (TsIdentifier ''reply'') None (concat [u32_to_be 7, opaque_wire [1, 2, 3]])"
  proof (rule xdr_value.named_struct)
    have "xdr_value ?L TsOpaque (Some (VariableArray None)) (opaque_wire [1, 2, 3])"
      by (rule xdr_value.variable_opaque) (simp add: opaque_valid_def u32_max_def)
    then have "xdr_value ?L (TsIdentifier ''blob'') None (opaque_wire [1, 2, 3])"
      by (intro xdr_value.named_typedef) (auto simp: sample_layouts_eq)
    moreover have "xdr_value ?L TsInt None (u32_to_be 7)" by (rule xdr_value.word) simp_all
    ultimately show "list_all2 (\<lambda>d w. xdr_value ?L (dn_type_spec d) (dr_modifier (dn_declarator d)) w)
        [Declaration TsInt (Declarator ''status'' None), Declaration (TsIdentifier ''blob'') (Declarator ''data'' None)] [u32_to_be 7, opaque_wire [1, 2, 3]]"
      by simp
  qed (simp add: sample_layouts_eq)
  from metadata_prefix_bound [OF meta this] named meta show ?thesis by auto
qed

end
