(* ===== verification/Gen_Loader.thy ===== *)
theory Gen_Loader
  imports X_Parser
begin

text \<open>
  The loader of \<^verbatim>\<open>src/crates/onc-rpc-gen/src/lib.rs\<close>: the files that an interface file includes, each
  parsed once into a module, and the names of modules. A path is the list of its components, as
  \<^verbatim>\<open>std::path\<close> compares them. The file system is an argument: which paths are files, what a path
  resolves to, and the text of the files there are.
\<close>

section \<open>Paths\<close>

datatype path_component = RootDir | CurDir | ParentDir | Normal string

type_synonym path = "path_component list"

text \<open>\<^verbatim>\<open>Path::components\<close>: repeated separators and a \<^verbatim>\<open>.\<close> that is not first do not count.\<close>

fun split_at_slash :: "string \<Rightarrow> string list" where
  "split_at_slash [] = [[]]"
| "split_at_slash (c # cs) = (if c = CHR ''/'' then [] # split_at_slash cs
     else case split_at_slash cs of piece # pieces \<Rightarrow> (c # piece) # pieces | [] \<Rightarrow> [[c]])"

definition path_component :: "string \<Rightarrow> path" where
  "path_component piece = (if piece = '''' \<or> piece = ''.'' then [] else if piece = ''..'' then [ParentDir] else [Normal piece])"

definition path_new :: "string \<Rightarrow> path" where
  "path_new s = (case split_at_slash s of
       first # pieces \<Rightarrow>
         (if s \<noteq> '''' \<and> first = '''' then [RootDir] else if first = ''.'' then [CurDir] else path_component first) @
         concat (map path_component pieces)
     | [] \<Rightarrow> [])"

fun name_stem :: "string \<Rightarrow> string" where
  "name_stem name =
     (let before = rev (tl (dropWhile (\<lambda>c. c \<noteq> CHR ''.'') (rev name)))
      in if CHR ''.'' \<notin> set name \<or> before = '''' then name else before)"

definition file_name :: "path \<Rightarrow> string option" where
  "file_name path = (case rev path of Normal name # _ \<Rightarrow> Some name | _ \<Rightarrow> None)"

definition file_stem :: "path \<Rightarrow> string option" where
  "file_stem path = map_option name_stem (file_name path)"

definition with_extension :: "path \<Rightarrow> string \<Rightarrow> path" where
  "with_extension path extension = (case file_stem path of
       Some stem \<Rightarrow> butlast path @ [Normal (stem @ ''.'' @ extension)]
     | None \<Rightarrow> path)"

definition path_parent :: "path \<Rightarrow> path option" where
  "path_parent path = (if path = [] \<or> List.last path = RootDir then None else Some (butlast path))"

definition path_join :: "path \<Rightarrow> path \<Rightarrow> path" where
  "path_join root path = (case path of
       RootDir # _ \<Rightarrow> path
     | CurDir # rest \<Rightarrow> if root = [] then path else root @ rest
     | _ \<Rightarrow> root @ path)"

section \<open>Files and options\<close>

record file_system =
  fs_is_file :: "path \<Rightarrow> bool"
  fs_canonicalize :: "path \<Rightarrow> string + path"
  fs_files :: "(path \<times> string) list"
  fs_read_error :: "path \<Rightarrow> string"

text \<open>The errors of the loader; where the code has the text of a path, the model has the path.\<close>

datatype generator_error =
    GenIo path string
  | GenIncludeResolution path string
  | GenParse parse_error

record load_options =
  lo_include_dirs :: "path list"

record loaded_module =
  lm_module_name :: string
  lm_path :: path
  lm_dependencies :: "string list"
  lm_schema :: schema

record loaded_schema_set =
  ls_root_module :: string
  ls_modules :: "loaded_module list"

section \<open>Module names\<close>

text \<open>\<^verbatim>\<open>str::replace\<close> of two underscores by one, and the loop around it.\<close>

fun replace_double_underscore :: "string \<Rightarrow> string" where
  "replace_double_underscore (a # b # cs) =
     (if a = CHR ''_'' \<and> b = CHR ''_'' then CHR ''_'' # replace_double_underscore cs else a # replace_double_underscore (b # cs))"
| "replace_double_underscore cs = cs"

fun contains_double_underscore :: "string \<Rightarrow> bool" where
  "contains_double_underscore (a # b # cs) \<longleftrightarrow> a = CHR ''_'' \<and> b = CHR ''_'' \<or> contains_double_underscore (b # cs)"
| "contains_double_underscore cs \<longleftrightarrow> False"

lemma replace_double_underscore_length:
  "length (replace_double_underscore s) \<le> length s"
  "contains_double_underscore s \<Longrightarrow> length (replace_double_underscore s) < length s"
  by (induction s rule: replace_double_underscore.induct) auto

function collapse_underscores :: "string \<Rightarrow> string" where
  "collapse_underscores out = (if contains_double_underscore out then collapse_underscores (replace_double_underscore out) else out)"
  by pat_completeness auto
termination
  by (relation "measure length") (auto simp: replace_double_underscore_length)

declare collapse_underscores.simps [simp del]

definition trim_matches :: "char \<Rightarrow> string \<Rightarrow> string" where
  "trim_matches c s = rev (dropWhile (\<lambda>x. x = c) (rev (dropWhile (\<lambda>x. x = c) s)))"

definition to_ascii_lowercase :: "char \<Rightarrow> char" where
  "to_ascii_lowercase c = (if in_range 65 90 c then char_of (of_char c + 32 :: nat) else c)"

definition sanitize_module_name :: "string \<Rightarrow> string" where
  "sanitize_module_name name =
     trim_matches (CHR ''_'') (collapse_underscores
       (map (\<lambda>ch. if is_ascii_alphabetic ch \<or> is_ascii_digit ch then to_ascii_lowercase ch else CHR ''_'') name))"

definition module_name_for_path :: "path \<Rightarrow> string option \<Rightarrow> string" where
  "module_name_for_path path override_name = (case override_name of
       Some name \<Rightarrow> sanitize_module_name name
     | None \<Rightarrow> sanitize_module_name (case file_stem path of Some stem \<Rightarrow> stem | None \<Rightarrow> ''generated''))"

section \<open>Includes\<close>

definition str_trim :: "string \<Rightarrow> string" where
  "str_trim s = rev (dropWhile is_whitespace (rev (dropWhile is_whitespace s)))"

definition starts_with :: "string \<Rightarrow> string \<Rightarrow> bool" where
  "starts_with s start \<longleftrightarrow> take (length start) s = start"

definition include_of_line :: "string \<Rightarrow> string option" where
  "include_of_line line =
     (let line = str_trim line in
      if \<not> starts_with line ''%#include'' then None
      else case dropWhile (\<lambda>c. c \<noteq> CHR 0x22) line of
          [] \<Rightarrow> None
        | _ # rest \<Rightarrow> if CHR 0x22 \<in> set rest then Some (takeWhile (\<lambda>c. c \<noteq> CHR 0x22) rest) else None)"

definition extract_includes :: "string \<Rightarrow> string list" where
  "extract_includes source = List.map_filter include_of_line (str_lines source)"

fun resolve_in :: "file_system \<Rightarrow> path \<Rightarrow> path option \<Rightarrow> path list \<Rightarrow> path option" where
  "resolve_in fs include_x basename_x [] = None"
| "resolve_in fs include_x basename_x (root # roots) =
     (if fs_is_file fs (path_join root include_x) then Some (path_join root include_x)
      else case basename_x of
          Some base \<Rightarrow> if fs_is_file fs (path_join root base) then Some (path_join root base) else resolve_in fs include_x basename_x roots
        | None \<Rightarrow> resolve_in fs include_x basename_x roots)"

definition resolve_include :: "file_system \<Rightarrow> path \<Rightarrow> string \<Rightarrow> load_options \<Rightarrow> path option" where
  "resolve_include fs including include options =
     (let include_path = path_new include;
          include_x = with_extension include_path ''x'';
          basename_x = map_option (\<lambda>stem. with_extension (path_new stem) ''x'') (file_stem include_path)
      in resolve_in fs include_x basename_x
           ((case path_parent including of Some parent \<Rightarrow> [parent] | None \<Rightarrow> []) @ lo_include_dirs options))"

section \<open>Loading\<close>

definition unvisited :: "file_system \<Rightarrow> path list \<Rightarrow> nat" where
  "unvisited fs visited = card (fst ` set (fs_files fs) - set visited)"

lemma unvisited_antimono: "set visited \<subseteq> set visited' \<Longrightarrow> unvisited fs visited' \<le> unvisited fs visited"
  unfolding unvisited_def by (intro card_mono) auto

lemma unvisited_less: "map_of (fs_files fs) canonical = Some source \<Longrightarrow> canonical \<notin> set visited \<Longrightarrow> unvisited fs (canonical # visited) < unvisited fs visited"
  unfolding unvisited_def by (intro psubset_card_mono) (force dest: map_of_SomeD)+

function load_module_set_recursive :: "file_system \<Rightarrow> load_options \<Rightarrow> path \<Rightarrow> path list \<Rightarrow> loaded_module list \<Rightarrow> generator_error + path list \<times> loaded_module list"
  and load_includes :: "file_system \<Rightarrow> load_options \<Rightarrow> path \<Rightarrow> string list \<Rightarrow> path list \<Rightarrow> loaded_module list \<Rightarrow>
    generator_error + path list \<times> loaded_module list \<times> string list" where
  "load_module_set_recursive fs options path visited modules =
     (case fs_canonicalize fs path of
        Inl message \<Rightarrow> Inl (GenIo path message)
      | Inr canonical \<Rightarrow>
          if canonical \<in> set visited then Inr (visited, modules)
          else case map_of (fs_files fs) canonical of
              None \<Rightarrow> Inl (GenIo canonical (fs_read_error fs canonical))
            | Some source \<Rightarrow>
                (case load_includes fs options canonical (extract_includes source) (canonical # visited) modules of
                   Inl error \<Rightarrow> Inl error
                 | Inr (visited, modules, dependencies) \<Rightarrow>
                     (case parse_x_source source of
                        Inl error \<Rightarrow> Inl (GenParse error)
                      | Inr schema \<Rightarrow>
                          Inr (visited, modules @ [\<lparr>lm_module_name = module_name_for_path canonical None, lm_path = canonical,
                            lm_dependencies = dependencies, lm_schema = schema\<rparr>]))))"
| "load_includes fs options canonical [] visited modules = Inr (visited, modules, [])"
| "load_includes fs options canonical (include # includes) visited modules =
     (case resolve_include fs canonical include options of
        None \<Rightarrow> Inl (GenIncludeResolution canonical include)
      | Some include_path \<Rightarrow>
          (case load_module_set_recursive fs options include_path visited modules of
             Inl error \<Rightarrow> Inl error
           | Inr (visited, modules) \<Rightarrow>
               (case load_includes fs options canonical includes visited modules of
                  Inl error \<Rightarrow> Inl error
                | Inr (visited, modules, dependencies) \<Rightarrow> Inr (visited, modules, module_name_for_path include_path None # dependencies))))"
  by pat_completeness auto
termination
proof -
  have mono: "load_module_set_recursive_load_includes_dom (Inl (fs, options, path, visited, modules)) \<Longrightarrow>
      load_module_set_recursive fs options path visited modules = Inr (visited', modules') \<Longrightarrow> set visited \<subseteq> set visited'"
    "load_module_set_recursive_load_includes_dom (Inr (fs, options, canonical, incs, visited, modules)) \<Longrightarrow>
      load_includes fs options canonical incs visited modules = Inr (visited', modules', dependencies) \<Longrightarrow> set visited \<subseteq> set visited'"
    for fs options path canonical incs visited modules visited' modules' dependencies
  proof (induction arbitrary: visited' modules' and visited' modules' dependencies rule: load_module_set_recursive_load_includes.pinduct)
    case (1 fs options path visited modules)
    then show ?case by (fastforce simp: load_module_set_recursive.psimps split: sum.splits if_splits option.splits)
  next
    case (3 fs options canonical inc incs visited modules)
    then show ?case by (fastforce simp: load_includes.psimps split: sum.splits option.splits)
  qed (simp add: load_includes.psimps)
  have less: "unvisited fs visited' < unvisited fs visited"
    if "load_module_set_recursive fs options path visited modules = Inr (visited', modules')"
      "load_module_set_recursive_load_includes_dom (Inl (fs, options, path, visited, modules))" "unvisited fs visited' \<noteq> unvisited fs visited"
    for fs options path visited modules visited' modules'
    using unvisited_antimono [OF mono(1) [OF that(2,1)], of fs] that(3) by simp
  show ?thesis
    by (relation "measures
      [case_sum (\<lambda>(fs, options, path, visited, modules). unvisited fs visited)
         (\<lambda>(fs, options, canonical, incs, visited, modules). unvisited fs visited),
       case_sum (\<lambda>(fs, options, path, visited, modules). 0)
         (\<lambda>(fs, options, canonical, incs, visited, modules). Suc (length incs))]")
      (auto simp: unvisited_less intro: less)
qed

declare load_module_set_recursive.simps [simp del] load_includes.simps [simp del]

definition load_module_set_from_x_file_with_options :: "file_system \<Rightarrow> path \<Rightarrow> load_options \<Rightarrow> generator_error + loaded_schema_set" where
  "load_module_set_from_x_file_with_options fs path options =
     (case fs_canonicalize fs path of
        Inl message \<Rightarrow> Inl (GenIo path message)
      | Inr root_path \<Rightarrow>
          (case load_module_set_recursive fs options root_path [] [] of
             Inl error \<Rightarrow> Inl error
           | Inr (visited, modules) \<Rightarrow> Inr \<lparr>ls_root_module = module_name_for_path root_path None, ls_modules = modules\<rparr>))"

definition rename_root_module :: "loaded_schema_set \<Rightarrow> string \<Rightarrow> loaded_schema_set" where
  "rename_root_module loaded new_root_name =
     (let old_root_name = ls_root_module loaded;
          rename = (\<lambda>name. if name = old_root_name then new_root_name else name)
      in \<lparr>ls_root_module = new_root_name,
          ls_modules = map (\<lambda>module. module\<lparr>lm_module_name := rename (lm_module_name module),
            lm_dependencies := map rename (lm_dependencies module)\<rparr>) (ls_modules loaded)\<rparr>)"

section \<open>Modules and includes\<close>

definition include_target :: "file_system \<Rightarrow> load_options \<Rightarrow> path \<Rightarrow> string \<Rightarrow> path option" where
  "include_target fs options c inc = (case resolve_include fs c inc options of
       None \<Rightarrow> None
     | Some path \<Rightarrow> (case fs_canonicalize fs path of Inl message \<Rightarrow> None | Inr c' \<Rightarrow> Some c'))"

definition include_step :: "file_system \<Rightarrow> load_options \<Rightarrow> path \<Rightarrow> path \<Rightarrow> bool" where
  "include_step fs options c c' \<longleftrightarrow>
     (\<exists>source inc. map_of (fs_files fs) c = Some source \<and> inc \<in> set (extract_includes source) \<and> include_target fs options c inc = Some c')"

definition file_ok :: "file_system \<Rightarrow> load_options \<Rightarrow> path \<Rightarrow> bool" where
  "file_ok fs options c \<longleftrightarrow> (\<exists>source schema. map_of (fs_files fs) c = Some source \<and> parse_x_source source = Inr schema \<and>
     list_all (\<lambda>inc. include_target fs options c inc \<noteq> None) (extract_includes source))"

definition include_name :: "file_system \<Rightarrow> load_options \<Rightarrow> path \<Rightarrow> string \<Rightarrow> string" where
  "include_name fs options c inc = module_name_for_path (the (resolve_include fs c inc options)) None"

definition module_ok :: "file_system \<Rightarrow> load_options \<Rightarrow> loaded_module \<Rightarrow> bool" where
  "module_ok fs options m \<longleftrightarrow> (\<exists>source. map_of (fs_files fs) (lm_path m) = Some source \<and> parse_x_source source = Inr (lm_schema m) \<and>
     list_all (\<lambda>inc. include_target fs options (lm_path m) inc \<noteq> None) (extract_includes source) \<and>
     lm_module_name m = module_name_for_path (lm_path m) None \<and>
     lm_dependencies m = map (include_name fs options (lm_path m)) (extract_includes source))"

text \<open>Every module comes once, after those it includes, but for includes that lead back to it.\<close>

fun load_order :: "file_system \<Rightarrow> load_options \<Rightarrow> path set \<Rightarrow> loaded_module list \<Rightarrow> bool" where
  "load_order fs options seen [] \<longleftrightarrow> True"
| "load_order fs options seen (m # ms) \<longleftrightarrow> lm_path m \<notin> seen \<and>
     (\<forall>c. include_step fs options (lm_path m) c \<longrightarrow> c \<in> seen \<or> (include_step fs options)\<^sup>*\<^sup>* c (lm_path m)) \<and>
     load_order fs options (insert (lm_path m) seen) ms"

lemma load_order_append:
  "load_order fs options seen (ms @ ns) \<longleftrightarrow> load_order fs options seen ms \<and> load_order fs options (seen \<union> lm_path ` set ms) ns"
  by (induction ms arbitrary: seen) auto

lemma load_order_paths: "load_order fs options seen ms \<Longrightarrow> distinct (map lm_path ms) \<and> lm_path ` set ms \<inter> seen = {}"
proof (induction ms arbitrary: seen)
  case (Cons m ms)
  from Cons(2) have "lm_path m \<notin> seen" "load_order fs options (insert (lm_path m) seen) ms" by simp_all
  with Cons(1) [OF this(2)] show ?case by auto
qed simp

lemma load_order_root:
  "load_order fs options (insert c seen) ms \<Longrightarrow> \<forall>m \<in> set ms. (include_step fs options)\<^sup>*\<^sup>* c (lm_path m) \<Longrightarrow> load_order fs options seen ms"
proof (induction ms arbitrary: seen)
  case (Cons m ms)
  from Cons(2) have "load_order fs options (insert c (insert (lm_path m) seen)) ms" by (simp add: insert_commute)
  then have "load_order fs options (insert (lm_path m) seen) ms" by (rule Cons(1)) (use Cons(3) in simp)
  moreover have "c' \<in> seen \<or> (include_step fs options)\<^sup>*\<^sup>* c' (lm_path m)" if "include_step fs options (lm_path m) c'" for c'
  proof (cases "c' = c")
    case True
    with Cons(3) show ?thesis by simp
  next
    case False
    with Cons(2) that show ?thesis by (metis insertE load_order.simps(2))
  qed
  ultimately show ?case using Cons(2) by simp
qed simp

definition batch :: "file_system \<Rightarrow> load_options \<Rightarrow> path set \<Rightarrow> loaded_module list \<Rightarrow> path set \<Rightarrow> bool" where
  "batch fs options seen new seen' \<longleftrightarrow> seen' = seen \<union> lm_path ` set new \<and> list_all (module_ok fs options) new \<and> load_order fs options seen new \<and>
     (\<forall>m \<in> set new. \<forall>c. include_step fs options (lm_path m) c \<longrightarrow> c \<in> seen')"

lemma batch_nil: "batch fs options seen [] seen"
  by (simp add: batch_def)

lemma batch_append: "batch fs options s0 ms s1 \<Longrightarrow> batch fs options s1 ns s2 \<Longrightarrow> batch fs options s0 (ms @ ns) s2"
  by (auto simp: batch_def load_order_append)

lemma batch_module:
  assumes "batch fs options (insert (lm_path m) seen) new seen'" "lm_path m \<notin> seen" "module_ok fs options m"
    "\<forall>n \<in> set new. (include_step fs options)\<^sup>*\<^sup>* (lm_path m) (lm_path n)" "\<forall>c. include_step fs options (lm_path m) c \<longrightarrow> c \<in> seen'"
  shows "batch fs options seen (new @ [m]) seen'"
proof -
  from assms(1) have order: "load_order fs options (insert (lm_path m) seen) new" and s': "seen' = insert (lm_path m) seen \<union> lm_path ` set new"
    by (auto simp: batch_def)
  from load_order_paths [OF order] have "lm_path m \<notin> lm_path ` set new" by blast
  moreover have "c \<in> seen \<union> lm_path ` set new \<or> (include_step fs options)\<^sup>*\<^sup>* c (lm_path m)" if "include_step fs options (lm_path m) c" for c
    using assms(5) that s' by auto
  ultimately have "load_order fs options seen (new @ [m])"
    using load_order_root [OF order] assms(2,4) by (auto simp: load_order_append)
  with assms s' show ?thesis by (auto simp: batch_def)
qed

lemma load_sound:
  "load_module_set_recursive fs options path visited modules = Inr (visited', modules') \<Longrightarrow>
     \<exists>c new. fs_canonicalize fs path = Inr c \<and> modules' = modules @ new \<and> batch fs options (set visited) new (set visited') \<and> c \<in> set visited' \<and>
       (\<forall>m \<in> set new. (include_step fs options)\<^sup>*\<^sup>* c (lm_path m)) \<and> (c \<notin> set visited \<longrightarrow> new \<noteq> [] \<and> lm_path (last new) = c)"
  "load_includes fs options canonical incs visited modules = Inr (visited', modules', dependencies) \<Longrightarrow>
     \<exists>new. modules' = modules @ new \<and> batch fs options (set visited) new (set visited') \<and>
       (\<forall>m \<in> set new. \<exists>inc \<in> set incs. \<exists>c. include_target fs options canonical inc = Some c \<and> (include_step fs options)\<^sup>*\<^sup>* c (lm_path m)) \<and>
       (\<forall>inc \<in> set incs. \<exists>c. include_target fs options canonical inc = Some c \<and> c \<in> set visited') \<and>
       dependencies = map (include_name fs options canonical) incs"
proof (induction fs options path visited modules and fs options canonical incs visited modules
    arbitrary: visited' modules' and visited' modules' dependencies rule: load_module_set_recursive_load_includes.induct)
  case (1 fs options path visited modules)
  from 1(2) obtain c where c: "fs_canonicalize fs path = Inr c" by (auto simp: load_module_set_recursive.simps split: sum.splits)
  show ?case
  proof (cases "c \<in> set visited")
    case True
    with c 1(2) show ?thesis by (auto simp: load_module_set_recursive.simps batch_nil)
  next
    case False
    with c 1(2) obtain source v ms deps schema where src: "map_of (fs_files fs) c = Some source"
      and inc: "load_includes fs options c (extract_includes source) (c # visited) modules = Inr (v, ms, deps)"
      and parse: "parse_x_source source = Inr schema" and res: "visited' = v"
        "modules' = ms @ [\<lparr>lm_module_name = module_name_for_path c None, lm_path = c, lm_dependencies = deps, lm_schema = schema\<rparr>]"
      by (auto simp: load_module_set_recursive.simps split: option.splits sum.splits)
    let ?m = "\<lparr>lm_module_name = module_name_for_path c None, lm_path = c, lm_dependencies = deps, lm_schema = schema\<rparr>"
    from 1(1) [OF c False src inc] obtain new where new: "ms = modules @ new" "batch fs options (insert c (set visited)) new (set v)"
      "\<forall>m \<in> set new. \<exists>inc \<in> set (extract_includes source). \<exists>c'. include_target fs options c inc = Some c' \<and> (include_step fs options)\<^sup>*\<^sup>* c' (lm_path m)"
      "\<forall>inc \<in> set (extract_includes source). \<exists>c'. include_target fs options c inc = Some c' \<and> c' \<in> set v"
      "deps = map (include_name fs options c) (extract_includes source)" by auto
    have ok: "module_ok fs options ?m" using src parse new(4,5) by (force simp: module_ok_def list_all_iff)
    have reach: "\<forall>n \<in> set new. (include_step fs options)\<^sup>*\<^sup>* c (lm_path n)"
    proof
      fix n assume "n \<in> set new"
      with new(3) obtain inc c' where "inc \<in> set (extract_includes source)" "include_target fs options c inc = Some c'"
        "(include_step fs options)\<^sup>*\<^sup>* c' (lm_path n)" by blast
      with src have "include_step fs options c c'" by (auto simp: include_step_def)
      then show "(include_step fs options)\<^sup>*\<^sup>* c (lm_path n)" by (rule converse_rtranclp_into_rtranclp) fact
    qed
    have "\<forall>c'. include_step fs options c c' \<longrightarrow> c' \<in> set v" using src new(4) by (fastforce simp: include_step_def)
    then have "batch fs options (set visited) (new @ [?m]) (set v)" using new(2) False ok reach by (intro batch_module) simp_all
    moreover from new(2) have "c \<in> set v" by (auto simp: batch_def)
    ultimately show ?thesis using c res new(1) reach by (intro exI [of _ c] exI [of _ "new @ [?m]"]) auto
  qed
next
  case (2 fs options canonical visited modules)
  then show ?case by (auto simp: load_includes.simps batch_nil)
next
  case (3 fs options canonical inc incs visited modules)
  from 3(3) obtain path v ms deps where path: "resolve_include fs canonical inc options = Some path"
    and rc: "load_module_set_recursive fs options path visited modules = Inr (v, ms)"
    and rest: "load_includes fs options canonical incs v ms = Inr (visited', modules', deps)"
    and deps: "dependencies = module_name_for_path path None # deps"
    by (auto simp: load_includes.simps split: option.splits sum.splits)
  from 3(1) [OF path rc] obtain c new where first: "fs_canonicalize fs path = Inr c" "ms = modules @ new" "batch fs options (set visited) new (set v)"
    "c \<in> set v" "\<forall>m \<in> set new. (include_step fs options)\<^sup>*\<^sup>* c (lm_path m)" by blast
  from 3(2) [OF path rc refl rest] obtain new' where second: "modules' = ms @ new'" "batch fs options (set v) new' (set visited')"
    "\<forall>m \<in> set new'. \<exists>inc \<in> set incs. \<exists>c. include_target fs options canonical inc = Some c \<and> (include_step fs options)\<^sup>*\<^sup>* c (lm_path m)"
    "\<forall>inc \<in> set incs. \<exists>c. include_target fs options canonical inc = Some c \<and> c \<in> set visited'"
    "deps = map (include_name fs options canonical) incs" by blast
  have target: "include_target fs options canonical inc = Some c" using path first(1) by (simp add: include_target_def)
  from second(2) have "set v \<subseteq> set visited'" by (auto simp: batch_def)
  with first second target path deps batch_append [OF first(3) second(2)] show ?case
    by (intro exI [of _ "new @ new'"]) (auto simp: include_name_def)
qed

lemma load_complete:
  "load_module_set_recursive fs options path visited modules = Inl e \<Longrightarrow> fs_canonicalize fs path = Inr c \<Longrightarrow>
     \<exists>c'. (include_step fs options)\<^sup>*\<^sup>* c c' \<and> \<not> file_ok fs options c'"
  "load_includes fs options canonical incs visited modules = Inl e \<Longrightarrow>
     \<exists>inc \<in> set incs. case include_target fs options canonical inc of None \<Rightarrow> True
       | Some c \<Rightarrow> \<exists>c'. (include_step fs options)\<^sup>*\<^sup>* c c' \<and> \<not> file_ok fs options c'"
proof (induction fs options path visited modules and fs options canonical incs visited modules
    arbitrary: e c and e rule: load_module_set_recursive_load_includes.induct)
  case (1 fs options path visited modules)
  show ?case
  proof (cases "map_of (fs_files fs) c")
    case None
    then have "\<not> file_ok fs options c" by (simp add: file_ok_def)
    then show ?thesis by blast
  next
    case (Some source)
    from 1(2,3) Some have new: "c \<notin> set visited" by (auto simp: load_module_set_recursive.simps)
    show ?thesis
    proof (cases "load_includes fs options c (extract_includes source) (c # visited) modules")
      case (Inl e')
      from 1(1) [OF 1(3) new Some Inl] obtain inc where inc: "inc \<in> set (extract_includes source)"
        "case include_target fs options c inc of None \<Rightarrow> True | Some c \<Rightarrow> \<exists>c'. (include_step fs options)\<^sup>*\<^sup>* c c' \<and> \<not> file_ok fs options c'" by blast
      show ?thesis
      proof (cases "include_target fs options c inc")
        case None
        with inc(1) Some have "\<not> file_ok fs options c" by (auto simp: file_ok_def list_all_iff)
        then show ?thesis by blast
      next
        case target: (Some c1)
        with inc(1) Some have "include_step fs options c c1" by (auto simp: include_step_def)
        with inc(2) target show ?thesis by (auto intro: converse_rtranclp_into_rtranclp)
      qed
    next
      case (Inr r)
      with 1(2,3) new Some have "\<not> file_ok fs options c" by (cases r) (auto simp: load_module_set_recursive.simps file_ok_def split: sum.splits)
      then show ?thesis by blast
    qed
  qed
next
  case (3 fs options canonical inc incs visited modules)
  show ?case
  proof (cases "resolve_include fs canonical inc options")
    case None
    then show ?thesis by (simp add: include_target_def)
  next
    case (Some path)
    show ?thesis
    proof (cases "load_module_set_recursive fs options path visited modules")
      case (Inl e')
      with 3(1) [OF Some Inl] Some show ?thesis by (auto simp: include_target_def split: sum.splits)
    next
      case (Inr r)
      obtain v ms where r: "r = (v, ms)" by fastforce
      with 3(3) Some Inr have "load_includes fs options canonical incs v ms = Inl e" by (auto simp: load_includes.simps split: sum.splits)
      from 3(2) [OF Some Inr r [symmetric] this] show ?thesis by auto
    qed
  qed
qed (simp add: load_includes.simps)

section \<open>Properties\<close>

text \<open>
  C21. Loading a file loads its whole closure under includes and nothing else. It succeeds exactly when
  every file of the closure can be read and parsed and every include in it leads to a file; cyclic
  includes are no obstacle. Then each file gives one module, parsed from its text and named after it,
  with the names of its includes as dependencies; a module comes after those it includes, but for
  includes that lead back to it, and the module of the given file comes last. Hypothesis, as \<^verbatim>\<open>std::fs\<close>
  documents: a resolved path resolves to itself.
\<close>
theorem load_module_set_exact:
  assumes "fs_canonicalize fs path = Inr root" "fs_canonicalize fs root = Inr root"
  shows "case load_module_set_from_x_file_with_options fs path options of
      Inl error \<Rightarrow> \<exists>c. (include_step fs options)\<^sup>*\<^sup>* root c \<and> \<not> file_ok fs options c
    | Inr loaded \<Rightarrow> lm_path ` set (ls_modules loaded) = {c. (include_step fs options)\<^sup>*\<^sup>* root c} \<and> distinct (map lm_path (ls_modules loaded)) \<and>
        list_all (\<lambda>c. file_ok fs options c) (map lm_path (ls_modules loaded)) \<and> list_all (module_ok fs options) (ls_modules loaded) \<and>
        load_order fs options {} (ls_modules loaded) \<and>
        lm_path (last (ls_modules loaded)) = root \<and> ls_root_module loaded = lm_module_name (last (ls_modules loaded))"
proof (cases "load_module_set_recursive fs options root [] []")
  case (Inl e)
  from load_complete(1) [OF Inl assms(2)] Inl assms(1) show ?thesis by (simp add: load_module_set_from_x_file_with_options_def)
next
  case (Inr r)
  obtain v ms where r: "r = (v, ms)" by fastforce
  from load_sound(1) [OF Inr [unfolded r]] assms(2) have new: "batch fs options {} ms (set v)" "root \<in> set v"
    "\<forall>m \<in> set ms. (include_step fs options)\<^sup>*\<^sup>* root (lm_path m)" "ms \<noteq> []" "lm_path (last ms) = root" by auto
  then have ms: "set v = lm_path ` set ms" "list_all (module_ok fs options) ms" "load_order fs options {} ms" by (auto simp: batch_def)
  have "c \<in> set v" if "(include_step fs options)\<^sup>*\<^sup>* root c" for c
    using that by (induction rule: rtranclp_induct) (use new(1,2) ms(1) in \<open>auto simp: batch_def\<close>)
  with new(3) ms(1) have "lm_path ` set ms = {c. (include_step fs options)\<^sup>*\<^sup>* root c}" by auto
  moreover have "list_all (\<lambda>c. file_ok fs options c) (map lm_path ms)" using ms(2) by (auto simp: list_all_iff module_ok_def file_ok_def)
  moreover have "ls_root_module \<lparr>ls_root_module = module_name_for_path root None, ls_modules = ms\<rparr> = lm_module_name (last ms)"
  proof -
    from ms(2) last_in_set [OF new(4)] have "module_ok fs options (last ms)" by (simp add: list_all_iff)
    with new(5) show ?thesis by (auto simp: module_ok_def)
  qed
  ultimately show ?thesis using Inr r assms(1) load_order_paths [OF ms(3)] ms new(5) by (simp add: load_module_set_from_x_file_with_options_def)
qed

text \<open>Two files that include each other.\<close>

definition sample_include :: "string \<Rightarrow> string" where
  "sample_include name = ''%#include '' @ [CHR 0x22] @ name @ [CHR 0x22]"

definition sample_file_system :: file_system where
  "sample_file_system = \<lparr>fs_is_file = (\<lambda>path. path = [RootDir, Normal ''a.x''] \<or> path = [RootDir, Normal ''b.x'']), fs_canonicalize = Inr,
     fs_files = [([RootDir, Normal ''a.x''], sample_include ''b.h''), ([RootDir, Normal ''b.x''], sample_include ''a.x'')],
     fs_read_error = (\<lambda>path. ''not found'')\<rparr>"

theorem load_module_set_exact_witness:
  "\<exists>loaded. load_module_set_from_x_file_with_options sample_file_system [RootDir, Normal ''a.x''] \<lparr>lo_include_dirs = []\<rparr> = Inr loaded \<and>
     map lm_module_name (ls_modules loaded) = [''b'', ''a''] \<and>
     {c. (include_step sample_file_system \<lparr>lo_include_dirs = []\<rparr>)\<^sup>*\<^sup>* [RootDir, Normal ''a.x''] c} = {[RootDir, Normal ''a.x''], [RootDir, Normal ''b.x'']}"
proof -
  let ?fs = sample_file_system
  have "load_module_set_from_x_file_with_options ?fs [RootDir, Normal ''a.x''] \<lparr>lo_include_dirs = []\<rparr> =
    Inr \<lparr>ls_root_module = ''a'', ls_modules =
      [\<lparr>lm_module_name = ''b'', lm_path = [RootDir, Normal ''b.x''], lm_dependencies = [''a''], lm_schema = []\<rparr>,
       \<lparr>lm_module_name = ''a'', lm_path = [RootDir, Normal ''a.x''], lm_dependencies = [''b''], lm_schema = []\<rparr>]\<rparr>" (is "_ = Inr ?loaded")
    by code_simp
  moreover have "fs_canonicalize ?fs path = Inr path" for path by (simp add: sample_file_system_def)
  note load_module_set_exact [of ?fs "[RootDir, Normal ''a.x'']" "[RootDir, Normal ''a.x'']" "\<lparr>lo_include_dirs = []\<rparr>", OF this this]
  ultimately show ?thesis by (auto intro!: exI [of _ ?loaded])
qed

definition is_module_char :: "char \<Rightarrow> bool" where
  "is_module_char c \<longleftrightarrow> in_range 97 122 c \<or> is_ascii_digit c \<or> c = CHR ''_''"

lemma module_char_lower: "is_ascii_alphabetic c \<or> is_ascii_digit c \<Longrightarrow> is_module_char (to_ascii_lowercase c)"
  by (auto simp: is_module_char_def is_ascii_alphabetic_def is_ascii_digit_def in_range_def to_ascii_lowercase_def)

lemma set_replace_double_underscore: "set (replace_double_underscore s) \<subseteq> set s"
  by (induction s rule: replace_double_underscore.induct) auto

lemma collapse_underscores_ok: "\<not> contains_double_underscore (collapse_underscores s) \<and> set (collapse_underscores s) \<subseteq> set s"
proof (induction s rule: collapse_underscores.induct)
  case (1 s)
  then show ?case using set_replace_double_underscore [of s] collapse_underscores.simps [of s] by (cases "contains_double_underscore s") auto
qed

lemma contains_double_underscore_iff: "contains_double_underscore s \<longleftrightarrow> (\<exists>a b. s = a @ ''__'' @ b)"
proof (induction s rule: contains_double_underscore.induct)
  case (1 a b cs)
  then show ?case by (auto simp: Cons_eq_append_conv append_eq_Cons_conv)
qed (auto simp: Cons_eq_append_conv append_eq_Cons_conv)

lemma trim_matches_split: "\<exists>k l. s = replicate k c @ trim_matches c s @ replicate l c"
proof -
  have "xs = replicate (length (takeWhile (\<lambda>x. x = c) xs)) c @ dropWhile (\<lambda>x. x = c) xs" for xs :: string
    by (induction xs) auto
  from this [of s] this [of "rev (dropWhile (\<lambda>x. x = c) s)"] show ?thesis
    unfolding trim_matches_def by (metis rev_append rev_replicate rev_rev_ident)
qed

lemma trim_matches_ends: "trim_matches c s = [] \<or> hd (trim_matches c s) \<noteq> c \<and> List.last (trim_matches c s) \<noteq> c"
proof (cases "dropWhile (\<lambda>x. x = c) s")
  case (Cons a t)
  then have a: "a \<noteq> c" using hd_dropWhile [of "\<lambda>x. x = c" s] by auto
  have "dropWhile (\<lambda>x. x = c) (xs @ [a]) = dropWhile (\<lambda>x. x = c) xs @ [a]" for xs using a by (induction xs) auto
  then have r: "dropWhile (\<lambda>x. x = c) (rev t @ [a]) = dropWhile (\<lambda>x. x = c) (rev t) @ [a]" .
  have ne: "dropWhile (\<lambda>x. x = c) (rev (a # t)) \<noteq> []" using a by simp
  have "hd (trim_matches c s) = a" using Cons r by (simp add: trim_matches_def)
  moreover have "List.last (trim_matches c s) \<noteq> c"
    using Cons ne hd_dropWhile [OF ne] by (simp add: trim_matches_def last_rev)
  ultimately show ?thesis using a by simp
next
  case Nil
  then show ?thesis by (simp add: trim_matches_def del: dropWhile_eq_Nil_conv)
qed

lemma module_char_kept: "is_module_char c \<Longrightarrow> (if is_ascii_alphabetic c \<or> is_ascii_digit c then to_ascii_lowercase c else CHR ''_'') = c"
  by (auto simp: is_module_char_def is_ascii_alphabetic_def is_ascii_digit_def in_range_def to_ascii_lowercase_def)

lemma trim_matches_id: "s = [] \<or> hd s \<noteq> c \<and> List.last s \<noteq> c \<Longrightarrow> trim_matches c s = s"
proof -
  assume ends: "s = [] \<or> hd s \<noteq> c \<and> List.last s \<noteq> c"
  then have "dropWhile (\<lambda>x. x = c) s = s" by (cases s) auto
  moreover have "dropWhile (\<lambda>x. x = c) (rev s) = rev s" using ends by (cases s rule: rev_cases) auto
  ultimately show ?thesis by (simp add: trim_matches_def)
qed

text \<open>
  The name of a module is made of lower-case letters, digits and single underscores, none of
  them at an end, and naming a module after its name changes nothing.
\<close>
theorem module_name_shape:
  "list_all is_module_char (sanitize_module_name name) \<and> \<not> contains_double_underscore (sanitize_module_name name) \<and>
   (sanitize_module_name name = [] \<or> hd (sanitize_module_name name) \<noteq> CHR ''_'' \<and> List.last (sanitize_module_name name) \<noteq> CHR ''_'') \<and>
   sanitize_module_name (sanitize_module_name name) = sanitize_module_name name"
proof -
  let ?chars = "map (\<lambda>ch. if is_ascii_alphabetic ch \<or> is_ascii_digit ch then to_ascii_lowercase ch else CHR ''_'') name"
  let ?n = "sanitize_module_name name"
  obtain k l where split: "collapse_underscores ?chars = replicate k CHR ''_'' @ ?n @ replicate l CHR ''_''"
    using trim_matches_split [of "collapse_underscores ?chars" "CHR ''_''"] unfolding sanitize_module_name_def by blast
  have "c \<in> set ?chars" if "c \<in> set ?n" for c using that split collapse_underscores_ok [of ?chars] by auto
  moreover have "is_module_char c" if "c \<in> set ?chars" for c using that by (auto simp: module_char_lower) (simp add: is_module_char_def)
  ultimately have chars: "list_all is_module_char ?n" by (simp add: list_all_iff)
  have single: "\<not> contains_double_underscore ?n"
  proof
    assume "contains_double_underscore ?n"
    then obtain a b where "?n = a @ ''__'' @ b" by (auto simp: contains_double_underscore_iff)
    with split have "collapse_underscores ?chars = (replicate k CHR ''_'' @ a) @ ''__'' @ b @ replicate l CHR ''_''" by simp
    then have "contains_double_underscore (collapse_underscores ?chars)" unfolding contains_double_underscore_iff by blast
    with collapse_underscores_ok [of ?chars] show False by blast
  qed
  have ends: "?n = [] \<or> hd ?n \<noteq> CHR ''_'' \<and> List.last ?n \<noteq> CHR ''_''" unfolding sanitize_module_name_def by (rule trim_matches_ends)
  have "map (\<lambda>ch. if is_ascii_alphabetic ch \<or> is_ascii_digit ch then to_ascii_lowercase ch else CHR ''_'') ?n = ?n"
    using chars by (intro map_idI) (simp add: list_all_iff module_char_kept)
  then have "sanitize_module_name ?n = ?n"
    using single trim_matches_id [OF ends] by (simp add: sanitize_module_name_def [of ?n] collapse_underscores.simps [of ?n])
  with chars single ends show ?thesis by blast
qed

end
