(* ===== verification/Gen_Emit.thy ===== *)
theory Gen_Emit
  imports Gen_Layout Gen_Loader
begin

text \<open>
  The analyses that \<^verbatim>\<open>src/crates/onc-rpc-gen/src/emit.rs\<close> and \<^verbatim>\<open>emit/owned_codegen.rs\<close> make before they print
  Rust: the tables of named types, which types get \<^verbatim>\<open>derive(Eq)\<close>, which modules import \<^verbatim>\<open>Bytes\<close>,
  and the names of variants and methods. Names are ASCII, as the parser makes them.
\<close>

section \<open>Named types\<close>

datatype named_type =
    NtTypedef type_spec "declarator_modifier option"
  | NtStruct "xdr_declaration list"
  | NtEnum
  | NtUnion xdr_declaration "union_arm list"

fun named_types_add :: "item \<Rightarrow> (string \<times> named_type) list \<Rightarrow> (string \<times> named_type) list" where
  "named_types_add (ItemTypedef target (Declarator name modifier)) = AList.update name (NtTypedef target modifier)"
| "named_types_add (ItemStruct name body) = AList.update name (NtStruct body)"
| "named_types_add (ItemEnum name body) = AList.update name NtEnum"
| "named_types_add (ItemUnion name disc arms) = AList.update name (NtUnion disc arms)"
| "named_types_add (ItemConst name value) = (\<lambda>types. types)"
| "named_types_add (ItemProgram program) = (\<lambda>types. types)"

definition build_named_types_for_modules :: "loaded_module list \<Rightarrow> (string \<times> named_type) list" where
  "build_named_types_for_modules modules = fold (\<lambda>module. fold named_types_add (lm_schema module)) modules []"

definition build_named_types :: "schema \<Rightarrow> (string \<times> named_type) list" where
  "build_named_types schema = build_named_types_for_modules [\<lparr>lm_module_name = ''__local'', lm_path = [], lm_dependencies = [], lm_schema = schema\<rparr>]"

fun type_owners_add :: "string \<Rightarrow> item \<Rightarrow> (string \<times> string) list \<Rightarrow> (string \<times> string) list" where
  "type_owners_add module (ItemTypedef target (Declarator name modifier)) = AList.update name module"
| "type_owners_add module (ItemStruct name body) = AList.update name module"
| "type_owners_add module (ItemEnum name body) = AList.update name module"
| "type_owners_add module (ItemUnion name disc arms) = AList.update name module"
| "type_owners_add module (ItemConst name value) = (\<lambda>owners. owners)"
| "type_owners_add module (ItemProgram program) = (\<lambda>owners. owners)"

definition build_type_owners :: "loaded_module list \<Rightarrow> (string \<times> string) list" where
  "build_type_owners modules = fold (\<lambda>module. fold (type_owners_add (lm_module_name module)) (lm_schema module)) modules []"

fun const_owners_add :: "string \<Rightarrow> item \<Rightarrow> (string \<times> string) list \<Rightarrow> (string \<times> string) list" where
  "const_owners_add module (ItemConst name value) owners = AList.update name module owners"
| "const_owners_add module _ owners = owners"

definition build_const_owners :: "loaded_module list \<Rightarrow> (string \<times> string) list" where
  "build_const_owners modules = fold (\<lambda>module. fold (const_owners_add (lm_module_name module)) (lm_schema module)) modules []"

section \<open>Types with equality\<close>

lemma unseen_antimono: "set seen \<subseteq> set seen' \<Longrightarrow> unseen entries seen' \<le> unseen entries seen"
  by (induction entries) (auto simp: unseen_def)

lemma size_declaration: "size (dn_type_spec d) < size d"
  by (cases d) simp

lemma size_arms: "size_list (size \<circ> ua_declaration) arms \<le> size_list size arms"
proof (induction arms)
  case (Cons arm arms)
  have "size (ua_declaration arm) \<le> size arm" by (cases arm) simp
  with Cons show ?case by simp
qed simp

text \<open>The set \<^verbatim>\<open>seen\<close> is threaded through, and what was seen is taken to be equal.\<close>

function eq_declarations :: "(string \<times> named_type) list \<Rightarrow> xdr_declaration list \<Rightarrow> string list \<Rightarrow> bool \<times> string list"
  and declaration_is_eq_with_seen :: "(string \<times> named_type) list \<Rightarrow> type_spec \<Rightarrow> declarator_modifier option \<Rightarrow> string list \<Rightarrow> bool \<times> string list"
  and modifier_is_eq_with_seen :: "(string \<times> named_type) list \<Rightarrow> type_spec \<Rightarrow> declarator_modifier option \<Rightarrow> string list \<Rightarrow> bool \<times> string list"
  and type_spec_is_eq_with_seen :: "(string \<times> named_type) list \<Rightarrow> type_spec \<Rightarrow> string list \<Rightarrow> bool \<times> string list"
  and named_type_is_eq_with_seen :: "(string \<times> named_type) list \<Rightarrow> string \<Rightarrow> string list \<Rightarrow> bool \<times> string list" where
  "eq_declarations types [] seen = (True, seen)"
| "eq_declarations types (d # ds) seen =
     (case declaration_is_eq_with_seen types (dn_type_spec d) (dr_modifier (dn_declarator d)) seen of
        (is_eq, seen) \<Rightarrow> if is_eq then eq_declarations types ds seen else (False, seen))"
| "declaration_is_eq_with_seen types target modifier seen =
     (case modifier_is_eq_with_seen types target modifier seen of
        (is_eq, seen) \<Rightarrow> if is_eq then type_spec_is_eq_with_seen types target seen else (False, seen))"
| "modifier_is_eq_with_seen types target modifier seen = (case modifier of
       Some (VariableArray _) \<Rightarrow> type_spec_is_eq_with_seen types target seen
     | Some (FixedArray _) \<Rightarrow> type_spec_is_eq_with_seen types target seen
     | Some OptionalMod \<Rightarrow> (True, seen)
     | None \<Rightarrow> (True, seen))"
| "type_spec_is_eq_with_seen types target seen = (case target of
       TsFloat \<Rightarrow> (False, seen)
     | TsDouble \<Rightarrow> (False, seen)
     | TsEnum _ \<Rightarrow> (True, seen)
     | TsStruct body \<Rightarrow> eq_declarations types body seen
     | TsUnion disc arms \<Rightarrow> eq_declarations types (map ua_declaration arms) seen
     | TsIdentifier name \<Rightarrow> named_type_is_eq_with_seen types name seen
     | _ \<Rightarrow> (True, seen))"
| "named_type_is_eq_with_seen types name seen =
     (if name \<in> set seen then (True, seen)
      else case map_of types name of
          Some (NtTypedef target modifier) \<Rightarrow> declaration_is_eq_with_seen types target modifier (name # seen)
        | Some (NtStruct body) \<Rightarrow> eq_declarations types body (name # seen)
        | Some NtEnum \<Rightarrow> (True, name # seen)
        | Some (NtUnion disc arms) \<Rightarrow> eq_declarations types (map ua_declaration arms) (name # seen)
        | None \<Rightarrow> (True, name # seen))"
  by pat_completeness auto
termination
proof -
  let ?D = eq_declarations_declaration_is_eq_with_seen_modifier_is_eq_with_seen_type_spec_is_eq_with_seen_named_type_is_eq_with_seen_dom
  have mono: "?D (Inl (Inl (types, ds, seen))) \<Longrightarrow> set seen \<subseteq> set (snd (eq_declarations types ds seen))"
    "?D (Inl (Inr (types, t, m, seen))) \<Longrightarrow> set seen \<subseteq> set (snd (declaration_is_eq_with_seen types t m seen))"
    "?D (Inr (Inl (types, t, m, seen))) \<Longrightarrow> set seen \<subseteq> set (snd (modifier_is_eq_with_seen types t m seen))"
    "?D (Inr (Inr (Inl (types, t, seen)))) \<Longrightarrow> set seen \<subseteq> set (snd (type_spec_is_eq_with_seen types t seen))"
    "?D (Inr (Inr (Inr (types, n, seen)))) \<Longrightarrow> set seen \<subseteq> set (snd (named_type_is_eq_with_seen types n seen))"
    for types ds t m n seen
  proof (induction rule: eq_declarations_declaration_is_eq_with_seen_modifier_is_eq_with_seen_type_spec_is_eq_with_seen_named_type_is_eq_with_seen.pinduct)
    case (2 types d ds seen)
    obtain b s1 where r: "declaration_is_eq_with_seen types (dn_type_spec d) (dr_modifier (dn_declarator d)) seen = (b, s1)" by fastforce
    with 2(2) have "set seen \<subseteq> set s1" by simp
    moreover have "b \<Longrightarrow> set s1 \<subseteq> set (snd (eq_declarations types ds s1))" using 2(3) [OF r [symmetric]] by simp
    ultimately show ?case using 2(1) r by (auto simp: eq_declarations.psimps)
  next
    case (3 types t m seen)
    obtain b s1 where r: "modifier_is_eq_with_seen types t m seen = (b, s1)" by fastforce
    with 3(2) have "set seen \<subseteq> set s1" by simp
    moreover have "b \<Longrightarrow> set s1 \<subseteq> set (snd (type_spec_is_eq_with_seen types t s1))" using 3(3) [OF r [symmetric]] by simp
    ultimately show ?case using 3(1) r by (auto simp: declaration_is_eq_with_seen.psimps)
  next
    case (4 types t m seen)
    then show ?case by (auto simp: modifier_is_eq_with_seen.psimps split: option.splits declarator_modifier.splits)
  next
    case (5 types t seen)
    then show ?case by (auto simp: type_spec_is_eq_with_seen.psimps split: type_spec.splits)
  next
    case (6 types n seen)
    then show ?case by (auto simp: named_type_is_eq_with_seen.psimps split: option.splits named_type.splits if_splits)
  qed (simp add: eq_declarations.psimps)
  have less: "unseen types s < unseen types seen \<or> unseen types s = unseen types seen" if "set seen \<subseteq> set s" for types :: "(string \<times> named_type) list" and s seen
    using unseen_antimono [OF that, of types] by auto
  have decl: "unseen types s < unseen types seen \<or> unseen types s = unseen types seen"
    if "(b, s) = declaration_is_eq_with_seen types t m seen" "?D (Inl (Inr (types, t, m, seen)))" for types t m seen b s
    by (rule less) (use mono(2) [OF that(2)] that(1) [symmetric] in simp)
  have modi: "unseen types s < unseen types seen \<or> unseen types s = unseen types seen"
    if "(b, s) = modifier_is_eq_with_seen types t m seen" "?D (Inr (Inl (types, t, m, seen)))" for types t m seen b s
    by (rule less) (use mono(3) [OF that(2)] that(1) [symmetric] in simp)
  have sizes: "3 * size (dn_type_spec d) < Suc (3 * size d + k)" for d k using size_declaration [of d] by simp
  have arms: "3 * size_list (size \<circ> ua_declaration) arms < 3 + (3 * size_list size arms + k)" for arms k using size_arms [of arms] by simp
  show ?thesis
    by (relation "measures
    [case_sum
       (case_sum (\<lambda>(types, ds, seen). unseen types seen) (\<lambda>(types, target, modifier, seen). unseen types seen))
       (case_sum (\<lambda>(types, target, modifier, seen). unseen types seen)
         (case_sum (\<lambda>(types, target, seen). unseen types seen) (\<lambda>(types, name, seen). unseen types seen))),
     case_sum
       (case_sum (\<lambda>(types, ds, seen). 3 * size_list size ds + 1) (\<lambda>(types, target, modifier, seen). 3 * size target + 3))
       (case_sum (\<lambda>(types, target, modifier, seen). 3 * size target + 2)
         (case_sum (\<lambda>(types, target, seen). 3 * size target + 1) (\<lambda>(types, name, seen). 0)))]", simp_all add: unseen_less sizes arms) ((erule decl modi, assumption)+)
qed


definition struct_is_eq :: "(string \<times> named_type) list \<Rightarrow> xdr_declaration list \<Rightarrow> bool" where
  "struct_is_eq types body = fst (eq_declarations types body [])"

definition union_is_eq :: "(string \<times> named_type) list \<Rightarrow> union_arm list \<Rightarrow> bool" where
  "union_is_eq types arms = fst (eq_declarations types (map ua_declaration arms) [])"

declare eq_declarations.simps [simp del] declaration_is_eq_with_seen.simps [simp del] modifier_is_eq_with_seen.simps [simp del]
  type_spec_is_eq_with_seen.simps [simp del] named_type_is_eq_with_seen.simps [simp del]

text \<open>The types of the parts of a named type, and the types that hold a floating-point number.\<close>

fun named_parts :: "named_type \<Rightarrow> type_spec list" where
  "named_parts (NtTypedef target modifier) = [target]"
| "named_parts (NtStruct body) = map dn_type_spec body"
| "named_parts NtEnum = []"
| "named_parts (NtUnion disc arms) = map (dn_type_spec \<circ> ua_declaration) arms"

fun inline_parts :: "type_spec \<Rightarrow> type_spec list" where
  "inline_parts (TsStruct body) = map dn_type_spec body"
| "inline_parts (TsUnion disc arms) = map (dn_type_spec \<circ> ua_declaration) arms"
| "inline_parts _ = []"

inductive holds_float :: "(string \<times> named_type) list \<Rightarrow> type_spec \<Rightarrow> bool" for types where
  float: "holds_float types TsFloat"
| double: "holds_float types TsDouble"
| inline: "part \<in> set (inline_parts target) \<Longrightarrow> holds_float types part \<Longrightarrow> holds_float types target"
| named: "map_of types name = Some definition \<Longrightarrow> part \<in> set (named_parts definition) \<Longrightarrow> holds_float types part \<Longrightarrow>
    holds_float types (TsIdentifier name)"

text \<open>The same without looking into the names of a set.\<close>

inductive float_outside :: "(string \<times> named_type) list \<Rightarrow> string set \<Rightarrow> type_spec \<Rightarrow> bool" for types seen where
  float: "float_outside types seen TsFloat"
| double: "float_outside types seen TsDouble"
| inline: "part \<in> set (inline_parts target) \<Longrightarrow> float_outside types seen part \<Longrightarrow> float_outside types seen target"
| named: "name \<notin> seen \<Longrightarrow> map_of types name = Some definition \<Longrightarrow> part \<in> set (named_parts definition) \<Longrightarrow>
    float_outside types seen part \<Longrightarrow> float_outside types seen (TsIdentifier name)"

inductive_cases float_outside_targetE: "float_outside types seen target"

lemma float_outside_antimono: "float_outside types seen' target \<Longrightarrow> seen \<subseteq> seen' \<Longrightarrow> float_outside types seen target"
  by (induction rule: float_outside.induct) (auto intro: float_outside.intros)

definition settled :: "(string \<times> named_type) list \<Rightarrow> string set \<Rightarrow> type_spec list \<Rightarrow> string set \<Rightarrow> bool" where
  "settled types seen targets seen' \<longleftrightarrow> seen \<subseteq> seen' \<and> (\<forall>t \<in> set targets. \<not> float_outside types seen' t) \<and>
     (\<forall>n \<in> seen' - seen. \<forall>d. map_of types n = Some d \<longrightarrow> (\<forall>t \<in> set (named_parts d). \<not> float_outside types seen' t))"

lemma settled_append:
  "settled types s ts s1 \<Longrightarrow> settled types s1 us s2 \<Longrightarrow> settled types s (ts @ us) s2"
proof -
  assume first: "settled types s ts s1" and second: "settled types s1 us s2"
  then have sub: "s \<subseteq> s1" "s1 \<subseteq> s2" by (auto simp: settled_def)
  have "\<not> float_outside types s2 t" if "n \<in> s2 - s" "map_of types n = Some d" "t \<in> set (named_parts d)" for n d t
    using that first second sub float_outside_antimono [of types s2 t s1] by (cases "n \<in> s1") (auto simp: settled_def)
  moreover have "\<not> float_outside types s2 t" if "t \<in> set (ts @ us)" for t
    using that first second sub float_outside_antimono [of types s2 t s1] by (auto simp: settled_def)
  ultimately show ?thesis using sub by (auto simp: settled_def)
qed

lemma settled_closed:
  assumes "settled types {} targets seen'" "t \<in> set targets" "holds_float types t"
  shows False
proof -
  from assms(3) have "float_outside types seen' t"
    using assms(1) by (induction rule: holds_float.induct) (auto simp: settled_def intro: float_outside.intros)
  with assms(1,2) show False by (auto simp: settled_def)
qed

lemma settled_targets: "settled types s ts s' \<Longrightarrow> (\<And>t. t \<in> set us \<Longrightarrow> float_outside types s' t \<Longrightarrow> \<exists>t' \<in> set ts. float_outside types s' t') \<Longrightarrow>
    settled types s us s'"
  by (auto simp: settled_def)

lemma settled_inline: "settled types s (inline_parts target) s' \<Longrightarrow> (\<And>name. target \<noteq> TsIdentifier name) \<Longrightarrow> target \<noteq> TsFloat \<Longrightarrow> target \<noteq> TsDouble \<Longrightarrow>
    settled types s [target] s'"
  by (erule settled_targets) (simp, erule float_outside_targetE, blast+)

lemma settled_refl: "settled types s [] s"
  by (simp add: settled_def)

lemma settled_named:
  assumes "settled types (insert name s) ts s'" "\<And>d. map_of types name = Some d \<Longrightarrow> set (named_parts d) \<subseteq> set ts"
  shows "settled types s [TsIdentifier name] s'"
proof -
  have "\<not> float_outside types s' t" if "n \<in> s' - s" "map_of types n = Some d" "t \<in> set (named_parts d)" for n d t
    using that assms by (cases "n = name") (auto simp: settled_def)
  moreover from assms(1) have "s \<subseteq> s'" "name \<in> s'" by (auto simp: settled_def)
  ultimately show ?thesis by (auto simp: settled_def elim: float_outside_targetE)
qed

lemma settled_seen: "name \<in> s \<Longrightarrow> settled types s [TsIdentifier name] s"
  by (auto simp: settled_def elim: float_outside_targetE)

lemma is_eq_settled:
  "eq_declarations types ds seen = (True, s) \<Longrightarrow> settled types (set seen) (map dn_type_spec ds) (set s)"
  "declaration_is_eq_with_seen types t m seen = (True, s) \<Longrightarrow> settled types (set seen) [t] (set s)"
  "modifier_is_eq_with_seen types t m seen = (True, s) \<Longrightarrow> settled types (set seen) [] (set s)"
  "type_spec_is_eq_with_seen types t seen = (True, s) \<Longrightarrow> settled types (set seen) [t] (set s)"
  "named_type_is_eq_with_seen types n seen = (True, s) \<Longrightarrow> settled types (set seen) [TsIdentifier n] (set s)"
proof (induction types ds seen and types t m seen and types t m seen and types t seen and types n seen arbitrary: s and s and s and s and s
    rule: eq_declarations_declaration_is_eq_with_seen_modifier_is_eq_with_seen_type_spec_is_eq_with_seen_named_type_is_eq_with_seen.induct)
  case (1 types seen)
  then show ?case by (simp add: eq_declarations.simps settled_refl)
next
  case (2 types d ds seen)
  from 2(3) obtain s1 where s1: "declaration_is_eq_with_seen types (dn_type_spec d) (dr_modifier (dn_declarator d)) seen = (True, s1)"
    "eq_declarations types ds s1 = (True, s)" by (auto simp: eq_declarations.simps split: prod.splits if_splits)
  from settled_append [OF 2(1) [OF s1(1)] 2(2) [OF s1(1) [symmetric] TrueI s1(2)]] show ?case by simp
next
  case (3 types t m seen)
  from 3(3) obtain s1 where s1: "modifier_is_eq_with_seen types t m seen = (True, s1)" "type_spec_is_eq_with_seen types t s1 = (True, s)"
    by (auto simp: declaration_is_eq_with_seen.simps split: prod.splits if_splits)
  from settled_append [OF 3(1) [OF s1(1)] 3(2) [OF s1(1) [symmetric] TrueI s1(2)]] show ?case by simp
next
  case (4 types t m seen)
  have drop: "settled types (set seen) [t] (set s) \<Longrightarrow> settled types (set seen) [] (set s)" by (simp add: settled_def)
  show ?case
  proof (cases m)
    case None
    with 4(3) show ?thesis by (simp add: modifier_is_eq_with_seen.simps settled_refl)
  next
    case (Some a)
    with 4 show ?thesis by (cases a) (simp_all add: modifier_is_eq_with_seen.simps settled_refl drop)
  qed
next
  case (5 types t seen)
  show ?case
  proof (cases t)
    case (TsIdentifier name)
    with 5 show ?thesis by (simp add: type_spec_is_eq_with_seen.simps)
  next
    case (TsStruct body)
    with 5 show ?thesis by (intro settled_inline) (simp_all add: type_spec_is_eq_with_seen.simps)
  next
    case (TsUnion disc arms)
    with 5 show ?thesis by (intro settled_inline) (simp_all add: type_spec_is_eq_with_seen.simps comp_def)
  qed (use 5 in \<open>simp_all add: type_spec_is_eq_with_seen.simps settled_inline settled_refl\<close>)
next
  case (6 types n seen)
  show ?case
  proof (cases "n \<in> set seen")
    case True
    with 6(4) show ?thesis by (simp add: named_type_is_eq_with_seen.simps settled_seen)
  next
    case False
    show ?thesis
    proof (cases "map_of types n")
      case None
      with False 6(4) show ?thesis by (auto simp: named_type_is_eq_with_seen.simps intro!: settled_named [where ts = "[]"] settled_refl)
    next
      case (Some d)
      with False 6 have "settled types (insert n (set seen)) (named_parts d) (set s)"
        by (cases d) (auto simp: named_type_is_eq_with_seen.simps comp_def settled_refl)
      then show ?thesis by (rule settled_named) (simp add: Some)
    qed
  qed
qed

lemma is_eq_holds_float:
  "fst (eq_declarations types ds seen) \<or> (\<exists>d \<in> set ds. holds_float types (dn_type_spec d))"
  "fst (declaration_is_eq_with_seen types t m seen) \<or> holds_float types t"
  "fst (modifier_is_eq_with_seen types t m seen) \<or> holds_float types t"
  "fst (type_spec_is_eq_with_seen types t seen) \<or> holds_float types t"
  "fst (named_type_is_eq_with_seen types n seen) \<or> holds_float types (TsIdentifier n)"
proof (induction types ds seen and types t m seen and types t m seen and types t seen and types n seen
    rule: eq_declarations_declaration_is_eq_with_seen_modifier_is_eq_with_seen_type_spec_is_eq_with_seen_named_type_is_eq_with_seen.induct)
  case (2 types d ds seen)
  obtain b s1 where r: "declaration_is_eq_with_seen types (dn_type_spec d) (dr_modifier (dn_declarator d)) seen = (b, s1)" by fastforce
  with 2(1) 2(2) [OF r [symmetric]] show ?case by (cases b) (auto simp: eq_declarations.simps)
next
  case (3 types t m seen)
  obtain b s1 where r: "modifier_is_eq_with_seen types t m seen = (b, s1)" by fastforce
  with 3(1) 3(2) [OF r [symmetric]] show ?case by (cases b) (auto simp: declaration_is_eq_with_seen.simps)
next
  case (4 types t m seen)
  then show ?case by (auto simp: modifier_is_eq_with_seen.simps split: option.splits declarator_modifier.splits)
next
  case (5 types t seen)
  have inline: "d \<in> set (inline_parts t) \<Longrightarrow> holds_float types d \<Longrightarrow> holds_float types t" for d by (rule holds_float.inline)
  from 5 show ?case
    by (cases t) (auto simp: type_spec_is_eq_with_seen.simps intro: holds_float.float holds_float.double dest: inline [rotated])
next
  case (6 types n seen)
  show ?case
  proof (cases "map_of types n")
    case (Some d)
    have part: "holds_float types part \<Longrightarrow> part \<in> set (named_parts d) \<Longrightarrow> holds_float types (TsIdentifier n)" for part
      by (rule holds_float.named [OF Some])
    with 6 Some show ?thesis by (cases d) (auto simp: named_type_is_eq_with_seen.simps dest: part)
  qed (simp add: named_type_is_eq_with_seen.simps)
qed (simp add: eq_declarations.simps)

lemma eq_declarations_exact: "fst (eq_declarations types ds []) \<longleftrightarrow> \<not> list_ex (\<lambda>d. holds_float types (dn_type_spec d)) ds"
proof
  assume "fst (eq_declarations types ds [])"
  then obtain s where "eq_declarations types ds [] = (True, s)" by (cases "eq_declarations types ds []") simp
  then have "settled types {} (map dn_type_spec ds) (set s)" using is_eq_settled(1) by fastforce
  then show "\<not> list_ex (\<lambda>d. holds_float types (dn_type_spec d)) ds"
    using settled_closed [of types "map dn_type_spec ds" "set s"] by (fastforce simp: list_ex_iff)
qed (use is_eq_holds_float(1) [of types ds "[]"] in \<open>auto simp: list_ex_iff\<close>)


section \<open>Names\<close>

text \<open>Upper case of an ASCII letter; identifiers have no other letters.\<close>

definition to_ascii_uppercase :: "char \<Rightarrow> char" where
  "to_ascii_uppercase c = (if in_range 97 122 c then char_of (of_char c - 32 :: nat) else c)"

definition to_snake_case :: "string \<Rightarrow> string" where
  "to_snake_case input = map to_ascii_lowercase input"

fun pascal_chars :: "bool \<Rightarrow> string \<Rightarrow> string" where
  "pascal_chars uppercase_next [] = []"
| "pascal_chars uppercase_next (ch # chars) =
     (if ch = CHR ''_'' \<or> ch = CHR ''-'' then pascal_chars True chars
      else (if uppercase_next then to_ascii_uppercase ch else to_ascii_lowercase ch) # pascal_chars False chars)"

definition to_pascal_case :: "string \<Rightarrow> string" where
  "to_pascal_case input = (let out = pascal_chars True input in if out = [] then ''Variant'' else out)"

fun union_variant_name :: "union_case_label \<Rightarrow> string" where
  "union_variant_name (CaseLabel (ValueIdentifier name)) = to_pascal_case name"
| "union_variant_name (CaseLabel (ValueNumber value)) =
     (if value \<ge> 0 then ''Case'' @ show_int value else ''CaseNeg'' @ show_nat (nat (- value)))"
| "union_variant_name DefaultLabel = ''Default''"

definition rust_keywords :: "string list" where
  "rust_keywords = [''as'', ''break'', ''const'', ''continue'', ''crate'', ''else'', ''enum'', ''extern'', ''false'', ''fn'', ''for'',
     ''if'', ''impl'', ''in'', ''let'', ''loop'', ''match'', ''mod'', ''move'', ''mut'', ''pub'', ''ref'', ''return'', ''self'', ''Self'', ''static'',
     ''struct'', ''super'', ''trait'', ''true'', ''type'', ''unsafe'', ''use'', ''where'', ''while'', ''async'', ''await'', ''dyn'']"

definition is_rust_keyword :: "string \<Rightarrow> bool" where
  "is_rust_keyword input = List.member rust_keywords input"

definition rust_ident :: "string \<Rightarrow> string" where
  "rust_ident input = (if is_rust_keyword input then ''r#'' @ input else input)"

lemma rust_ident_inj: "CHR ''#'' \<notin> set a \<Longrightarrow> CHR ''#'' \<notin> set b \<Longrightarrow> rust_ident a = rust_ident b \<Longrightarrow> a = b"
  by (auto simp: rust_ident_def split: if_splits)

record type_names =
  tn_current_module :: "string option"
  tn_type_owners :: "(string \<times> string) list"
  tn_const_owners :: "(string \<times> string) list"
  tn_named_types :: "(string \<times> named_type) list"

fun qualify_from :: "string option \<Rightarrow> (string \<times> string) list \<Rightarrow> string \<Rightarrow> string" where
  "qualify_from (Some current) owners name = (case map_of owners name of
       Some owner \<Rightarrow> if owner \<noteq> current then ''crate::'' @ owner @ ''::'' @ name else name
     | None \<Rightarrow> name)"
| "qualify_from None owners name = name"

definition qualify_type_name :: "type_names \<Rightarrow> string \<Rightarrow> string" where
  "qualify_type_name self name = qualify_from (tn_current_module self) (tn_type_owners self) name"

definition qualify_const_name :: "type_names \<Rightarrow> string \<Rightarrow> string" where
  "qualify_const_name self name = qualify_from (tn_current_module self) (tn_const_owners self) name"

fun render_qualified_value :: "type_names \<Rightarrow> value_expr \<Rightarrow> string" where
  "render_qualified_value self (ValueNumber value) = show_int value"
| "render_qualified_value self (ValueIdentifier name) = qualify_const_name self name"

fun render_array_bound :: "type_names \<Rightarrow> value_expr \<Rightarrow> string + string" where
  "render_array_bound self (ValueNumber value) =
     (if value \<ge> 0 then Inr (show_int value @ ''usize'')
      else Inl (''negative fixed array bounds are not supported in Rust emission: '' @ show_int value))"
| "render_array_bound self (ValueIdentifier name) = Inr (qualify_const_name self name @ '' as usize'')"

fun enum_type_name_for :: "type_names \<Rightarrow> type_spec \<Rightarrow> string option" where
  "enum_type_name_for self (TsIdentifier name) = (if map_of (tn_named_types self) name = Some NtEnum then Some name else None)"
| "enum_type_name_for self _ = None"

fun render_union_label :: "type_names \<Rightarrow> union_case_label \<Rightarrow> type_spec \<Rightarrow> string" where
  "render_union_label self (CaseLabel (ValueIdentifier name)) discriminant_type =
     (if discriminant_type = TsBool \<and> name = ''TRUE'' then ''true''
      else if discriminant_type = TsBool \<and> name = ''FALSE'' then ''false''
      else case enum_type_name_for self discriminant_type of
          Some enum_name \<Rightarrow> qualify_type_name self enum_name @ ''::'' @ rust_ident name
        | None \<Rightarrow> render_qualified_value self (ValueIdentifier name))"
| "render_union_label self (CaseLabel value) discriminant_type = render_qualified_value self value"
| "render_union_label self DefaultLabel discriminant_type = ''discriminant''"

fun render_union_decode_label :: "type_names \<Rightarrow> union_case_label \<Rightarrow> type_spec \<Rightarrow> bool \<Rightarrow> string" where
  "render_union_decode_label self label discriminant_type False = render_union_label self label discriminant_type"
| "render_union_decode_label self (CaseLabel (ValueIdentifier name)) discriminant_type True =
     (case enum_type_name_for self discriminant_type of
        None \<Rightarrow> render_qualified_value self (ValueIdentifier name)
      | Some enum_name \<Rightarrow> ''value if value == '' @ qualify_type_name self enum_name @ ''::'' @ rust_ident name @ '' as i32'')"
| "render_union_decode_label self (CaseLabel value) discriminant_type True = render_qualified_value self value"
| "render_union_decode_label self DefaultLabel discriminant_type True = ''discriminant''"

definition union_has_default_arm :: "union_arm list \<Rightarrow> bool" where
  "union_has_default_arm arms = list_ex (\<lambda>arm. list_ex (\<lambda>label. label = DefaultLabel) (ua_labels arm)) arms"

definition union_decode_discriminant_type :: "type_names \<Rightarrow> xdr_declaration \<Rightarrow> union_arm list \<Rightarrow> string \<Rightarrow> string" where
  "union_decode_discriminant_type self disc arms discriminant_type =
     (if union_has_default_arm arms \<and> enum_type_name_for self (dn_type_spec disc) \<noteq> None then ''i32'' else discriminant_type)"

definition union_default_discriminant_type :: "type_names \<Rightarrow> type_spec \<Rightarrow> string \<Rightarrow> string" where
  "union_default_discriminant_type self discriminant_type_spec discriminant_type =
     (if enum_type_name_for self discriminant_type_spec \<noteq> None then ''i32'' else discriminant_type)"

section \<open>Owners\<close>

lemma named_types_add_lookup:
  "map_of (named_types_add item types) n = (case map_of (named_types_add item []) n of None \<Rightarrow> map_of types n | Some d \<Rightarrow> Some d)"
  by (cases item rule: named_types_add.cases) (auto simp: update_conv')

lemma type_owners_add_lookup:
  "map_of (type_owners_add module item owners) n = (if map_of (named_types_add item []) n = None then map_of owners n else Some module)"
  by (cases item rule: named_types_add.cases) (auto simp: update_conv')

lemma named_types_fold_lookup:
  "map_of (fold named_types_add items types) n = (case map_of (fold named_types_add items []) n of None \<Rightarrow> map_of types n | Some d \<Rightarrow> Some d)"
proof (induction items arbitrary: types)
  case (Cons item items)
  show ?case
    by (simp add: Cons [of "named_types_add item types"] Cons [of "named_types_add item []"] named_types_add_lookup [of item types] split: option.splits)
qed simp

lemma type_owners_fold_lookup:
  "map_of (fold (type_owners_add module) items owners) n =
     (if map_of (fold named_types_add items []) n = None then map_of owners n else Some module)"
  by (induction items arbitrary: owners)
    (auto simp: type_owners_add_lookup named_types_fold_lookup [of _ "named_types_add _ []"] split: option.splits)

lemma build_named_types_eq: "build_named_types schema = fold named_types_add schema []"
  by (simp add: build_named_types_def build_named_types_for_modules_def)

lemma owners_named_types:
  "case map_of (fold (\<lambda>module. fold named_types_add (lm_schema module)) modules []) n of
     None \<Rightarrow> map_of (build_type_owners modules) n = None
   | Some d \<Rightarrow> \<exists>module \<in> set modules. map_of (build_type_owners modules) n = Some (lm_module_name module) \<and>
       map_of (build_named_types (lm_schema module)) n = Some d"
proof (induction modules rule: rev_induct)
  case (snoc module modules)
  then show ?case
    by (auto simp: build_type_owners_def type_owners_fold_lookup build_named_types_eq
        named_types_fold_lookup [of _ "fold (\<lambda>module. fold named_types_add (lm_schema module)) modules []"] split: option.splits)
qed (simp add: build_type_owners_def)

text \<open>
  In a set of modules, the module that a type's name is qualified with is one that defines the
  type, and its definition is the one every analysis of the generator has looked at; a name with
  no definition has no owner.
\<close>
theorem type_owner_defines:
  "case map_of (build_named_types_for_modules modules) n of
     None \<Rightarrow> map_of (build_type_owners modules) n = None
   | Some d \<Rightarrow> \<exists>module \<in> set modules. map_of (build_type_owners modules) n = Some (lm_module_name module) \<and>
       map_of (build_named_types (lm_schema module)) n = Some d"
  using owners_named_types [of modules n] by (simp add: build_named_types_for_modules_def)

section \<open>Method names\<close>

definition ordinary_names :: "procedure_decl list \<Rightarrow> string list" where
  "ordinary_names procedures = fold (\<lambda>procedure names.
     let method = to_snake_case (pd_name procedure) in (method @ ''_with_options'') # method # names) procedures [''new'']"

definition owned_names :: "layouts \<Rightarrow> procedure_decl \<Rightarrow> string list" where
  "owned_names owned_layouts procedure =
     (let method = to_snake_case (pd_name procedure) in
      [method @ ''_segmented'', ''try_'' @ method @ ''_segmented''] @
      (case pd_return_type procedure of
         TsIdentifier name \<Rightarrow> if metadata_name owned_layouts name \<noteq> None then [method @ ''_into'', ''try_'' @ method @ ''_into''] else []
       | _ \<Rightarrow> []))"

fun insert_new :: "string \<Rightarrow> string list \<Rightarrow> string list \<Rightarrow> string + string list" where
  "insert_new version [] names = Inr names"
| "insert_new version (name # rest) names =
     (if name \<in> set names then Inl (''generated caller-owned method name collides in version '' @ version @ '': '' @ name)
      else insert_new version rest (name # names))"

fun insert_owned :: "layouts \<Rightarrow> string \<Rightarrow> procedure_decl list \<Rightarrow> string list \<Rightarrow> string + string list" where
  "insert_owned owned_layouts version [] names = Inr names"
| "insert_owned owned_layouts version (procedure # procedures) names =
     (case insert_new version (owned_names owned_layouts procedure) names of
        Inl error \<Rightarrow> Inl error
      | Inr names \<Rightarrow> insert_owned owned_layouts version procedures names)"

definition validate_owned_method_names :: "layouts \<Rightarrow> version_decl \<Rightarrow> string + unit" where
  "validate_owned_method_names owned_layouts version =
     (case insert_owned owned_layouts (vd_name version) (vd_procedures version) (ordinary_names (vd_procedures version)) of
        Inl error \<Rightarrow> Inl error
      | Inr names \<Rightarrow> Inr ())"

lemma insert_new_ok:
  "(\<exists>r. insert_new version new names = Inr r) \<longleftrightarrow> distinct new \<and> set new \<inter> set names = {}"
  by (induction new arbitrary: names) auto

lemma insert_new_result: "insert_new version new names = Inr r \<Longrightarrow> r = rev new @ names"
  by (induction new arbitrary: names) (auto split: if_splits)

lemma insert_owned_ok:
  "(\<exists>r. insert_owned owned_layouts version ps names = Inr r) \<longleftrightarrow>
     distinct (concat (map (owned_names owned_layouts) ps)) \<and> set (concat (map (owned_names owned_layouts) ps)) \<inter> set names = {}"
proof (induction ps arbitrary: names)
  case (Cons p ps)
  show ?case
  proof (cases "insert_new version (owned_names owned_layouts p) names")
    case (Inl e)
    then show ?thesis using insert_new_ok [of version "owned_names owned_layouts p" names] by auto
  next
    case (Inr r)
    then show ?thesis using insert_new_ok [of version "owned_names owned_layouts p" names] insert_new_result [OF Inr] Cons [of r] by auto
  qed
qed simp

lemma ordinary_names_set:
  "set (ordinary_names ps) = insert ''new'' (\<Union>p \<in> set ps. {to_snake_case (pd_name p), to_snake_case (pd_name p) @ ''_with_options''})"
proof -
  have "set (fold (\<lambda>procedure names. let method = to_snake_case (pd_name procedure) in (method @ ''_with_options'') # method # names) ps names) =
      set names \<union> (\<Union>p \<in> set ps. {to_snake_case (pd_name p), to_snake_case (pd_name p) @ ''_with_options''})" for names
    by (induction ps arbitrary: names) (auto simp: Let_def)
  from this [of "[''new'']"] show ?thesis by (simp add: ordinary_names_def)
qed


definition sample_version :: version_decl where
  "sample_version = VersionDecl ''V1'' [ProcedureDecl (TsIdentifier ''reply'') ''GET'' TsInt 1, ProcedureDecl TsVoid ''PUT'' TsVoid 2] 1"


end
