(* ===== verification/Spec2Isabelle.thy ===== *)
theory Spec2Isabelle
  imports Xdr_Segments Record_Io Wait_Loop Server_Transport Udp_Client X_Wf X_Total Rpcbind_Service Xdr_Client Rpc_Tls Gen_Emit
begin

text \<open>
  A verification development of \<^verbatim>\<open>oncrpc-rs\<close>, an implementation of ONC RPC (RFC 5531) and XDR
  (RFC 4506) in Rust. Paths below are relative to \<^verbatim>\<open>src/crates/\<close>.

  \<^bold>\<open>The program.\<close> A value of an interface is encoded with XDR (\<^verbatim>\<open>onc-rpc-xdr\<close>), put into a call
  message (\<^verbatim>\<open>onc-rpc-wire\<close>) with a credential (\<^verbatim>\<open>onc-rpc-auth\<close>) and carried by a client transport
  (\<^verbatim>\<open>onc-rpc-runtime\<close>): as a record of fragments over a stream, or as a datagram. A server
  (\<^verbatim>\<open>onc-rpc-server\<close>) reads records or datagrams, finds the dispatcher of the program and version,
  and writes the reply under the identifier of the call. Servers publish their programs with
  rpcbind, and clients look addresses up there (\<^verbatim>\<open>onc-rpc-bind\<close>). \<^verbatim>\<open>onc-rpc-gen\<close> parses interface
  files and prints Rust stubs for them, and \<^verbatim>\<open>onc-rpc-tls\<close> wraps the stream in TLS.

  \<^bold>\<open>Theories and sources.\<close>
  \<^item> \<open>Onc_Prelude\<close>, \<open>Text_Base\<close>: machine words and their big-endian bytes, fallible state-passing
    actions (\<open>and_then\<close> is the \<^verbatim>\<open>?\<close> operator), checked addition of \<^verbatim>\<open>usize\<close>, UTF-8 validity, text and
    digits; the named collections and lemmas all components share.
  \<^item> \<open>Xdr_Codec\<close> (\<^verbatim>\<open>onc-rpc-xdr/src/lib.rs\<close>), \<open>Xdr_Segments\<close> (\<^verbatim>\<open>segments.rs\<close>): every reader, writer and
    codec instance. The contract of a codec is the locale \<open>xdr_codec\<close>, that of a segmented encoder
    \<open>xdr_segments\<close>, which extends it; every instance of the crate interprets them, and vectors, options
    and arrays are shown to keep them. So the round trips hold for all types built from them.
  \<^item> \<open>Rpc_Wire\<close> (\<^verbatim>\<open>onc-rpc-wire/src/lib.rs\<close>): messages, their encoding and decoding (exact inverses,
    locales \<open>discriminant\<close> and \<open>open_enumeration\<close>), fragment markers, fragmenting and reassembling records
    (locale \<open>record_source\<close>, interpreted by the reassembler here and by the receive buffer of
    \<open>Rpc_Client\<close>, which therefore agree). \<open>Rpc_Auth\<close> (\<^verbatim>\<open>onc-rpc-auth/src/lib.rs\<close>): credentials.
  \<^item> \<open>Runtime_Base\<close>, \<open>Record_Io\<close> (\<^verbatim>\<open>onc-rpc-runtime/src/record_io.rs\<close>): the cancellation-safe record
    reader and the vectored writer. \<open>Admission_Ctl\<close> (\<^verbatim>\<open>admission.rs\<close>): the budget of calls and bytes.
    \<open>Wait_Loop\<close> (\<^verbatim>\<open>admission.rs\<close>, \<^verbatim>\<open>cancellation.rs\<close>): the waiting loops, locale \<open>waking\<close>.
  \<^item> \<open>Rpc_Client\<close> (\<^verbatim>\<open>onc-rpc-runtime/src/lib.rs\<close>): configuration, identifiers, building calls, judging
    replies, synchronous and asynchronous clients. \<open>Udp_Client\<close> (\<^verbatim>\<open>transport.rs\<close>): UDP calls and their
    reader task.
  \<^item> \<open>Owned_Receive\<close>, \<open>Owned_Transport\<close>, \<open>Owned_Ownership\<close>, \<open>Owned_Frames\<close>, \<open>Owned_Properties\<close> (\<^verbatim>\<open>owned.rs\<close>,
    \<^verbatim>\<open>owned/segmented.rs\<close>): the multiplexed connection. Its state is the record \<open>owned\<close>; each lock region
    of the code is one step, and the relation \<open>owned_step\<close> interleaves the polls of all calls, dropped
    futures, closing, the reader task, its abort, and the work that the code does after it has
    released a lock. \<open>Owned_Ownership\<close> has the invariant of who owns which sender and permit,
    \<open>Owned_Frames\<close> that of the bytes written.
  \<^item> \<open>Xdr_Receivers\<close>, \<open>Xdr_Client\<close> (\<^verbatim>\<open>xdr_client.rs\<close>, \<^verbatim>\<open>owned/segmented.rs\<close>): receivers that take a reply in
    place (locale \<open>receiver_contract\<close>, interpreted by the caller's buffers and by the decode receiver,
    and shown for the typed receiver under any codec) and the typed calls that use them.
  \<^item> \<open>Rpc_Server\<close>, \<open>Server_Transport\<close> (\<^verbatim>\<open>onc-rpc-server/src/lib.rs\<close>, \<^verbatim>\<open>transport.rs\<close>): registration and
    dispatch (locales \<open>registry\<close>, \<open>answering\<close>, for the synchronous and the asynchronous server), the
    connection loop with its message tasks, the UDP loop, worker permits (locale \<open>worker_pool\<close>).
  \<^item> \<open>X_Ast\<close>, \<open>X_Parser\<close>, \<open>X_Roundtrip\<close>, \<open>X_Text\<close>, \<open>X_Wf\<close>, \<open>X_Total\<close> (\<^verbatim>\<open>onc-rpc-gen/src/ast.rs\<close>,
    \<^verbatim>\<open>parser.rs\<close>): the syntax tree, its rendering, the lexer and the recursive-descent parser.
  \<^item> \<open>Net_Addr\<close>, \<open>Rpcbind\<close>, \<open>Rpcbind_Service\<close> (\<^verbatim>\<open>onc-rpc-bind/src/lib.rs\<close>): universal addresses, the
    rpcbind clients, publication and resolution; the contract of rpcbind is the locale
    \<open>rpcbind_service\<close>, interpreted by the in-memory server that the crate's tests run.
  \<^item> \<open>Loopback\<close>: a client and a server joined by encoded bytes.

  \<^bold>\<open>What is shown.\<close> End to end, a typed remote call is the local call of the registered dispatcher.
  Encodings round-trip and decoders accept nothing else. Records are delivered whole under any
  chunking, abandoned reads and writes included, and within the configured limits. Admission
  counters are exact in every history and no waiting task misses its wake-up. Servers dispatch
  each received message once and in order, and write whole replies. On the multiplexed connection
  frames never interleave, no call gets another's reply, every permit and every receiver has one
  owner and returns to it, and a closed connection leaves no call waiting. Typed calls send the
  bytes of the ordinary calls and receive in place what those would decode. The parser is total,
  yields well-formed schemas and reads back what the tree renders. Published programs resolve.

  \<^bold>\<open>Conventions.\<close> Errors are the source's error enumerations on the left of a sum; a panic is a value
  of its own. \<^verbatim>\<open>u32\<close> and \<^verbatim>\<open>u8\<close> are words; \<^verbatim>\<open>usize\<close> is a natural number with checked and wrapping
  operations against \<open>usize_max\<close>, of 64 bits. No definition uses fuel: loops recurse over the input
  events or the remaining bytes, with the measures proved at their \<open>termination\<close>. A stream, a
  socket or a writer is the list of what it does (data, an error, pending, the end, or that the
  future is dropped there), so that a theorem for all lists is one for all behaviours.

  \<^bold>\<open>Parameters.\<close> What is not this repository's code is an argument: \<^verbatim>\<open>tokio\<close>'s \<^verbatim>\<open>Notify\<close>, \<^verbatim>\<open>Semaphore\<close> and
  its writers, user dispatchers, transports given to a client, receivers and codecs of user types,
  sizes of Rust types, clocks and cancellation flags, and how addresses are resolved and
  connected. Where a property needs one of them to behave, its documented contract is a hypothesis,
  and the property's witness discharges it with a concrete function.

  \<^bold>\<open>Not modelled.\<close> \<^verbatim>\<open>onc-rpc-tls\<close>: configuration of rustls and tokio-rustls and server loops over
  their streams; handshakes and certificates belong to those crates. The emission of Rust text in
  \<^verbatim>\<open>onc-rpc-gen/src/emit.rs\<close> and \<^verbatim>\<open>emit/owned_codegen.rs\<close>: what the printed tokens mean is the semantics
  of Rust. The file loader and command line of \<^verbatim>\<open>onc-rpc-gen\<close>, opening and binding of sockets, and the
  tokio runtimes that the blocking transports own: operating system and library calls.
\<close>

end
